(* ===== verification/Prelude.thy ===== *)
theory Prelude
  imports Main "HOL-Library.Word"
begin

text \<open>
  Shared vocabulary of the development.  Machine integers of the source are either
  words of their width or naturals whose range is written out; the partial operations of
  Rust (indexing, slicing, overflow-checked arithmetic, \<open>unwrap\<close>) return a value
  of the sum type \<open>'a res\<close>, whose left summand says how the call failed: an
  \<open>Err\<close> handed to the caller, a panic, an access the source makes through a raw
  pointer that does not point to an object (\<open>UB\<close>), or a loop that never ends
  (\<open>NoReturn\<close>).

  The theory also holds the little-endian and big-endian byte codecs behind every
  \<open>repr(C, packed)\<close> structure and the generic lemmas on lists, slices, powers of two
  and alignment that the component theories share.
\<close>

unbundle bit_operations_syntax

type_synonym u8 = "8 word"
type_synonym u16 = "16 word"
type_synonym u32 = "32 word"
type_synonym u64 = "64 word"
type_synonym bytes = "8 word list"

named_theorems res_simps \<open>evaluation of the result combinators\<close>
named_theorems codec_simps \<open>byte codecs and their lengths\<close>
named_theorems word_nat \<open>words read as naturals\<close>

subsection \<open>Errors and results\<close>

datatype noli_error = Noli_Failed string | Noli_FailedString string | GraphicsOutOfRange

datatype error =
    EfiError nat
  | Failed string
  | FailedString string
  | FileNameTooLong
  | GraphicsError
  | PciBusDeviceFunctionOutOfRange
  | ReadFileSizeMismatch nat nat
  | ApicRegIndexOutOfRange
  | CalcOutOfRange
  | PageNotFound
  | PciBarInvalid
  | PciEcmOutOfRange
  | TryFromIntError
  | LockFailed
  | NoliError noli_error

fun from_noli_error :: "noli_error \<Rightarrow> error" where
  "from_noli_error e = (if e = GraphicsOutOfRange then GraphicsError else NoliError e)"

datatype fault = Err error | Panic string | UB string | NoReturn

type_synonym 'a res = "fault + 'a"

definition and_then :: "'a res \<Rightarrow> ('a \<Rightarrow> 'b res) \<Rightarrow> 'b res" where
  "and_then r f = (case r of Inl e \<Rightarrow> Inl e | Inr x \<Rightarrow> f x)"

lemma and_then_simps [simp, res_simps]:
  "and_then (Inl e) f = Inl e"
  "and_then (Inr x) f = f x"
  by (simp_all add: and_then_def)

lemma and_then_eq_Inr [res_simps]:
  "and_then r f = Inr y \<longleftrightarrow> (\<exists>x. r = Inr x \<and> f x = Inr y)"
  by (cases r) simp_all

lemma and_then_assoc: "and_then (and_then r f) g = and_then r (\<lambda>x. and_then (f x) g)"
  by (cases r) simp_all

definition ok_or :: "'a option \<Rightarrow> error \<Rightarrow> 'a res" where
  "ok_or x e = (case x of None \<Rightarrow> Inl (Err e) | Some y \<Rightarrow> Inr y)"

lemma ok_or_simps [simp, res_simps]:
  "ok_or None e = Inl (Err e)"
  "ok_or (Some y) e = Inr y"
  by (simp_all add: ok_or_def)

definition unwrap :: "'a option \<Rightarrow> 'a res" where
  "unwrap x = (case x of None \<Rightarrow> Inl (Panic ''unwrap on None'') | Some y \<Rightarrow> Inr y)"

lemma unwrap_simps [simp, res_simps]:
  "unwrap None = Inl (Panic ''unwrap on None'')"
  "unwrap (Some y) = Inr y"
  by (simp_all add: unwrap_def)

text \<open>A loop given as a partial function: \<open>None\<close> is the loop that does not return.\<close>

definition returned :: "('a res) option \<Rightarrow> 'a res" where
  "returned x = (case x of None \<Rightarrow> Inl NoReturn | Some r \<Rightarrow> r)"

lemma returned_simps [simp, res_simps]:
  "returned None = Inl NoReturn"
  "returned (Some r) = r"
  by (simp_all add: returned_def)

definition is_ok :: "'a res \<Rightarrow> bool" where
  "is_ok r = (case r of Inl _ \<Rightarrow> False | Inr _ \<Rightarrow> True)"

lemma is_ok_simps [simp]: "\<not> is_ok (Inl e)" "is_ok (Inr x)"
  by (simp_all add: is_ok_def)

lemma is_ok_iff: "is_ok r \<longleftrightarrow> (\<exists>x. r = Inr x)"
  by (cases r) simp_all

subsection \<open>Checked arithmetic on \<open>usize\<close>\<close>

abbreviation USIZE :: nat where "USIZE \<equiv> 2 ^ 64"

definition usize_add :: "nat \<Rightarrow> nat \<Rightarrow> nat res" where
  "usize_add a b = (if a + b < USIZE then Inr (a + b) else Inl (Panic ''add overflow''))"

definition usize_sub :: "nat \<Rightarrow> nat \<Rightarrow> nat res" where
  "usize_sub a b = (if b \<le> a then Inr (a - b) else Inl (Panic ''sub overflow''))"

definition usize_mul :: "nat \<Rightarrow> nat \<Rightarrow> nat res" where
  "usize_mul a b = (if a * b < USIZE then Inr (a * b) else Inl (Panic ''mul overflow''))"

lemma usize_add_eq_Inr [res_simps]: "usize_add a b = Inr c \<longleftrightarrow> c = a + b \<and> a + b < USIZE"
  by (auto simp: usize_add_def)

lemma usize_sub_eq_Inr [res_simps]: "usize_sub a b = Inr c \<longleftrightarrow> c = a - b \<and> b \<le> a"
  by (auto simp: usize_sub_def)

lemma usize_mul_eq_Inr [res_simps]: "usize_mul a b = Inr c \<longleftrightarrow> c = a * b \<and> a * b < USIZE"
  by (auto simp: usize_mul_def)

lemma usize_add_ok [simp]: "a + b < USIZE \<Longrightarrow> usize_add a b = Inr (a + b)"
  by (simp add: usize_add_def)

lemma usize_sub_ok [simp]: "b \<le> a \<Longrightarrow> usize_sub a b = Inr (a - b)"
  by (simp add: usize_sub_def)

lemma usize_mul_ok [simp]: "a * b < USIZE \<Longrightarrow> usize_mul a b = Inr (a * b)"
  by (simp add: usize_mul_def)

subsection \<open>Indexing and slicing\<close>

definition index_at :: "'a list \<Rightarrow> nat \<Rightarrow> 'a res" where
  "index_at xs i = (if i < length xs then Inr (xs ! i) else Inl (Panic ''index out of bounds''))"

definition slice_of :: "'a list \<Rightarrow> nat \<Rightarrow> nat \<Rightarrow> 'a list res" where
  "slice_of xs a b =
     (if a \<le> b \<and> b \<le> length xs then Inr (take (b - a) (drop a xs))
      else Inl (Panic ''slice index out of range''))"

definition get_slice :: "'a list \<Rightarrow> nat \<Rightarrow> nat \<Rightarrow> 'a list option" where
  "get_slice xs a b = (if a \<le> b \<and> b \<le> length xs then Some (take (b - a) (drop a xs)) else None)"

definition nth_opt :: "'a list \<Rightarrow> nat \<Rightarrow> 'a option" where
  "nth_opt xs i = (if i < length xs then Some (xs ! i) else None)"

lemma index_ok [simp]: "i < length xs \<Longrightarrow> index_at xs i = Inr (xs ! i)"
  by (simp add: index_at_def)

lemma index_eq_Inr [res_simps]: "index_at xs i = Inr x \<longleftrightarrow> i < length xs \<and> x = xs ! i"
  by (auto simp: index_at_def)

lemma slice_ok [simp]:
  "a \<le> b \<Longrightarrow> b \<le> length xs \<Longrightarrow> slice_of xs a b = Inr (take (b - a) (drop a xs))"
  by (simp add: slice_of_def)

lemma slice_eq_Inr [res_simps]:
  "slice_of xs a b = Inr ys \<longleftrightarrow> a \<le> b \<and> b \<le> length xs \<and> ys = take (b - a) (drop a xs)"
  by (auto simp: slice_of_def)

lemma nth_opt_eq_Some [simp]: "nth_opt xs i = Some x \<longleftrightarrow> i < length xs \<and> xs ! i = x"
  by (auto simp: nth_opt_def)

lemma nth_opt_eq_None [simp]: "nth_opt xs i = None \<longleftrightarrow> length xs \<le> i"
  by (auto simp: nth_opt_def)

subsection \<open>Byte codecs\<close>

primrec le_bytes :: "nat \<Rightarrow> nat \<Rightarrow> bytes" where
  "le_bytes 0 x = []"
| "le_bytes (Suc n) x = word_of_nat x # le_bytes n (x div 256)"

primrec of_le_bytes :: "bytes \<Rightarrow> nat" where
  "of_le_bytes [] = 0"
| "of_le_bytes (b # bs) = unat b + 256 * of_le_bytes bs"

definition be_bytes :: "nat \<Rightarrow> nat \<Rightarrow> bytes" where
  "be_bytes n x = rev (le_bytes n x)"

definition of_be_bytes :: "bytes \<Rightarrow> nat" where
  "of_be_bytes bs = of_le_bytes (rev bs)"

lemma length_le_bytes [simp, codec_simps]: "length (le_bytes n x) = n"
  by (induction n arbitrary: x) simp_all

lemma length_be_bytes [simp, codec_simps]: "length (be_bytes n x) = n"
  by (simp add: be_bytes_def)

lemma unat_byte_of_nat [word_nat]: "unat (word_of_nat x :: 8 word) = x mod 256"
  by (simp add: unat_of_nat)

lemma of_le_bytes_le_bytes [codec_simps]: "of_le_bytes (le_bytes n x) = x mod 256 ^ n"
proof (induction n arbitrary: x)
  case (Suc n)
  have "x mod (256 * 256 ^ n) = 256 * (x div 256 mod 256 ^ n) + x mod 256"
    by (rule mod_mult2_eq)
  with Suc show ?case by (simp add: unat_byte_of_nat)
qed simp

lemma of_be_bytes_be_bytes [codec_simps]: "of_be_bytes (be_bytes n x) = x mod 256 ^ n"
  by (simp add: of_be_bytes_def be_bytes_def of_le_bytes_le_bytes)

lemma unat_byte_less [simp]: "unat (b :: 8 word) < 256"
  using unsigned_less [of b] by simp

lemma digit_less: "b < 256 \<Longrightarrow> r < n \<Longrightarrow> b + 256 * r < 256 * (n :: nat)"
  by linarith

lemma of_le_bytes_less: "of_le_bytes bs < 256 ^ length bs"
  by (induction bs) (simp_all add: digit_less)

lemma le_bytes_of_le_bytes [codec_simps]: "le_bytes (length bs) (of_le_bytes bs) = bs"
proof (induction bs)
  case (Cons b bs)
  have "(unat b + 256 * of_le_bytes bs) div 256 = of_le_bytes bs"
    using unat_byte_less [of b] by simp
  moreover have "word_of_nat (unat b + 256 * of_le_bytes bs) = b"
  proof -
    have "unat (word_of_nat (unat b + 256 * of_le_bytes bs) :: 8 word) = unat b"
      using unat_byte_less [of b] by (simp add: unat_byte_of_nat del: of_nat_add of_nat_mult)
    then show ?thesis by (rule word_unat_eq_iff [THEN iffD2])
  qed
  ultimately show ?case using Cons by simp
qed simp

lemma be_bytes_of_be_bytes [codec_simps]: "be_bytes (length bs) (of_be_bytes bs) = bs"
  using le_bytes_of_le_bytes [of "rev bs"] by (simp add: be_bytes_def of_be_bytes_def)

lemma of_be_bytes_less: "of_be_bytes bs < 256 ^ length bs"
  using of_le_bytes_less [of "rev bs"] by (simp add: of_be_bytes_def)

text \<open>Words of a whole number of bytes; \<open>[u8; n]\<close> arrays are read as the word they spell.\<close>

definition be_word :: "'a :: len word \<Rightarrow> bytes" where
  "be_word w = be_bytes (LENGTH('a) div 8) (unat w)"

definition word_be :: "bytes \<Rightarrow> 'a :: len word" where
  "word_be bs = word_of_nat (of_be_bytes bs)"

definition le_word :: "'a :: len word \<Rightarrow> bytes" where
  "le_word w = le_bytes (LENGTH('a) div 8) (unat w)"

definition word_le :: "bytes \<Rightarrow> 'a :: len word" where
  "word_le bs = word_of_nat (of_le_bytes bs)"

lemma length_be_word [simp, codec_simps]: "length (be_word (w :: 'a :: len word)) = LENGTH('a) div 8"
  by (simp add: be_word_def)

lemma length_le_word [simp, codec_simps]: "length (le_word (w :: 'a :: len word)) = LENGTH('a) div 8"
  by (simp add: le_word_def)

lemma byte_power: "8 dvd n \<Longrightarrow> (256 :: nat) ^ (n div 8) = 2 ^ n"
  using power_mult [of "2 :: nat" 8 "n div 8"] by simp

lemma word_be_be_word [codec_simps]:
  "8 dvd LENGTH('a) \<Longrightarrow> word_be (be_word (w :: 'a :: len word)) = w"
  by (simp add: word_be_def be_word_def of_be_bytes_be_bytes byte_power)

lemma word_le_le_word [codec_simps]:
  "8 dvd LENGTH('a) \<Longrightarrow> word_le (le_word (w :: 'a :: len word)) = w"
  by (simp add: word_le_def le_word_def of_le_bytes_le_bytes byte_power)

lemma be_word_word_be [codec_simps]:
  assumes "length bs * 8 = LENGTH('a)"
  shows "be_word (word_be bs :: 'a :: len word) = bs"
proof -
  have "LENGTH('a) div 8 = length bs" using assms [symmetric] by simp
  moreover have "of_be_bytes bs < 2 ^ LENGTH('a)"
    using of_be_bytes_less [of bs] byte_power [of "LENGTH('a)"] assms [symmetric] by simp
  ultimately show ?thesis
    by (simp add: be_word_def word_be_def unat_of_nat be_bytes_of_be_bytes)
qed

lemma le_word_word_le [codec_simps]:
  assumes "length bs * 8 = LENGTH('a)"
  shows "le_word (word_le bs :: 'a :: len word) = bs"
proof -
  have "LENGTH('a) div 8 = length bs" using assms [symmetric] by simp
  moreover have "of_le_bytes bs < 2 ^ LENGTH('a)"
    using of_le_bytes_less [of bs] byte_power [of "LENGTH('a)"] assms [symmetric] by simp
  ultimately show ?thesis
    by (simp add: le_word_def word_le_def unat_of_nat le_bytes_of_le_bytes)
qed

lemma concat_chunk:
  assumes "\<And>x. x \<in> set xs \<Longrightarrow> length (f x) = k" "i < length xs"
  shows "take k (drop (k * i) (concat (map f xs))) = f (xs ! i)"
  using assms
proof (induction xs arbitrary: i)
  case (Cons x xs)
  then show ?case by (cases i) (simp_all add: drop_append)
qed simp

lemma length_concat_chunks:
  "(\<And>x. x \<in> set xs \<Longrightarrow> length (f x) = k) \<Longrightarrow> length (concat (map f xs)) = k * length xs"
  by (induction xs) simp_all

lemma take_drop_append_middle:
  "length a = n \<Longrightarrow> length b = k \<Longrightarrow> take k (drop n (a @ b @ c)) = b"
  by simp

subsection \<open>UTF-8\<close>

text \<open>\<open>core::str::from_utf8\<close> accepts the well-formed sequences of the Unicode standard.\<close>

definition utf8_cont :: "u8 \<Rightarrow> bool" where
  "utf8_cont b \<longleftrightarrow> 0x80 \<le> unat b \<and> unat b \<le> 0xBF"

definition utf8_second :: "nat \<Rightarrow> u8 \<Rightarrow> bool" where
  "utf8_second x b \<longleftrightarrow>
     (if x = 0xE0 then 0xA0 \<le> unat b \<and> unat b \<le> 0xBF
      else if x = 0xED then 0x80 \<le> unat b \<and> unat b \<le> 0x9F
      else if x = 0xF0 then 0x90 \<le> unat b \<and> unat b \<le> 0xBF
      else if x = 0xF4 then 0x80 \<le> unat b \<and> unat b \<le> 0x8F
      else utf8_cont b)"

fun utf8_valid :: "bytes \<Rightarrow> bool" where
  "utf8_valid [] = True"
| "utf8_valid (a # bs) =
     (let x = unat a in
      if x < 0x80 then utf8_valid bs
      else if 0xC2 \<le> x \<and> x \<le> 0xDF then
        (case bs of b # r \<Rightarrow> utf8_cont b \<and> utf8_valid r | _ \<Rightarrow> False)
      else if 0xE0 \<le> x \<and> x \<le> 0xEF then
        (case bs of b # c # r \<Rightarrow> utf8_second x b \<and> utf8_cont c \<and> utf8_valid r | _ \<Rightarrow> False)
      else if 0xF0 \<le> x \<and> x \<le> 0xF4 then
        (case bs of b # c # d # r \<Rightarrow> utf8_second x b \<and> utf8_cont c \<and> utf8_cont d \<and> utf8_valid r
         | _ \<Rightarrow> False)
      else False)"

text \<open>String literals of the source, as bytes.\<close>

definition ascii :: "string \<Rightarrow> bytes" where
  "ascii s = map of_char s"

text \<open>
  \<open>str::trim\<close> removes the Unicode white space at both ends; \<open>ws_len\<close> is the number of bytes of the
  white space character at the front of a string, 0 if there is none.
\<close>

definition ws_seqs :: "nat list list" where
  "ws_seqs = [[0x09], [0x0A], [0x0B], [0x0C], [0x0D], [0x20], [0xC2, 0x85], [0xC2, 0xA0], [0xE1, 0x9A, 0x80],
     [0xE2, 0x80, 0x80], [0xE2, 0x80, 0x81], [0xE2, 0x80, 0x82], [0xE2, 0x80, 0x83], [0xE2, 0x80, 0x84],
     [0xE2, 0x80, 0x85], [0xE2, 0x80, 0x86], [0xE2, 0x80, 0x87], [0xE2, 0x80, 0x88], [0xE2, 0x80, 0x89],
     [0xE2, 0x80, 0x8A], [0xE2, 0x80, 0xA8], [0xE2, 0x80, 0xA9], [0xE2, 0x80, 0xAF], [0xE2, 0x81, 0x9F],
     [0xE3, 0x80, 0x80]]"

definition ws_len :: "nat list list \<Rightarrow> bytes \<Rightarrow> nat" where
  "ws_len seqs bs =
     (case find (\<lambda>w. map unat (take (length w) bs) = w) seqs of None \<Rightarrow> 0 | Some w \<Rightarrow> length w)"

lemma ws_len_le: "ws_len seqs bs \<le> length bs"
proof (cases "find (\<lambda>w. map unat (take (length w) bs) = w) seqs")
  case (Some w)
  then have "map unat (take (length w) bs) = w" by (auto simp: find_Some_iff)
  then have "length (map unat (take (length w) bs)) = length w" by simp
  with Some show ?thesis by (simp add: ws_len_def)
qed (simp add: ws_len_def)

function strip_ws :: "nat list list \<Rightarrow> bytes \<Rightarrow> bytes" where
  "strip_ws seqs bs = (let n = ws_len seqs bs in if n = 0 then bs else strip_ws seqs (drop n bs))"
  by pat_completeness auto
termination
  by (relation "measure (\<lambda>(_, bs). length bs)")
    (auto intro!: diff_less dest: less_le_trans [OF _ ws_len_le])

declare strip_ws.simps [simp del]

definition str_trim :: "bytes \<Rightarrow> bytes" where
  "str_trim bs = rev (strip_ws (map rev ws_seqs) (rev (strip_ws ws_seqs bs)))"

fun split_on :: "'a \<Rightarrow> 'a list \<Rightarrow> 'a list list" where
  "split_on c [] = [[]]"
| "split_on c (x # xs) =
     (if x = c then [] # split_on c xs
      else (case split_on c xs of [] \<Rightarrow> [[x]] | y # ys \<Rightarrow> (x # y) # ys))"

lemma split_on_join:
  "concat (map (\<lambda>l. l @ [c]) (split_on c xs)) = xs @ [c]"
proof (induction xs)
  case (Cons x xs)
  then show ?case by (cases "split_on c xs") auto
qed simp

lemma split_on_no_sep: "l \<in> set (split_on c xs) \<Longrightarrow> c \<notin> set l"
proof (induction xs arbitrary: l)
  case (Cons x xs)
  then show ?case by (cases "split_on c xs") (auto split: if_splits)
qed simp

subsection \<open>Operations with a state and an error\<close>

text \<open>
  An operation on a mutable object returns the new object next to its result, because what was changed
  before an error stays changed.
\<close>

type_synonym ('s, 'a) act = "'s \<Rightarrow> 's \<times> 'a res"

definition act_then :: "('s, 'a) act \<Rightarrow> ('a \<Rightarrow> ('s, 'b) act) \<Rightarrow> ('s, 'b) act" where
  "act_then m f s = (case m s of (s', Inl e) \<Rightarrow> (s', Inl e) | (s', Inr x) \<Rightarrow> f x s')"

definition act_ok :: "('s, unit) act" where "act_ok s = (s, Inr ())"
definition lift_res :: "'a res \<Rightarrow> ('s, 'a) act" where "lift_res r s = (s, r)"

lemma act_then_simps [simp]:
  "m s = (s', Inl e) \<Longrightarrow> act_then m f s = (s', Inl e)"
  "m s = (s', Inr x) \<Longrightarrow> act_then m f s = f x s'"
  by (simp_all add: act_then_def)

lemma lift_res_then [simp]:
  "act_then (lift_res (Inl e)) f s = (s, Inl e)"
  "act_then (lift_res (Inr x)) f s = f x s"
  by (simp_all add: act_then_def lift_res_def)

lemma act_then_assoc: "act_then (act_then m f) g s = act_then m (\<lambda>x. act_then (f x) g) s"
  by (simp add: act_then_def split: prod.split sum.split)

fun for_each :: "('x \<Rightarrow> ('s, unit) act) \<Rightarrow> 'x list \<Rightarrow> ('s, unit) act" where
  "for_each f [] s = (s, Inr ())"
| "for_each f (x # xs) s = act_then (f x) (\<lambda>_. for_each f xs) s"

lemma for_each_append:
  "for_each f (xs @ ys) s = act_then (for_each f xs) (\<lambda>_. for_each f ys) s"
proof (induction xs arbitrary: s)
  case (Cons x xs)
  then show ?case by (simp add: act_then_def split: prod.split sum.split)
qed (simp add: act_then_def)

lemma for_each_map: "for_each f (map g xs) s = for_each (f \<circ> g) xs s"
  by (induction xs arbitrary: s) (simp_all add: act_then_def split: prod.split sum.split)

text \<open>Two nested loops visit the points of a grid row by row.\<close>

abbreviation (input) grid :: "'a list \<Rightarrow> 'b list \<Rightarrow> ('a \<times> 'b) list" where
  "grid xs ys \<equiv> concat (map (\<lambda>y. map (\<lambda>x. (x, y)) xs) ys)"

lemma for_each_grid:
  "for_each (\<lambda>y. for_each (\<lambda>x. f x y) xs) ys s = for_each (\<lambda>p. f (fst p) (snd p)) (grid xs ys) s"
  by (induction ys arbitrary: s)
    (simp_all add: for_each_append for_each_map comp_def act_then_def split: prod.split sum.split)

lemma sorted_wrt_grid:
  assumes "sorted_wrt P ys" "sorted_wrt Q xs"
  shows "sorted_wrt (\<lambda>p q. P (snd p) (snd q) \<or> snd p = snd q \<and> Q (fst p) (fst q)) (grid xs ys)"
  using assms(1)
proof (induction ys)
  case (Cons y ys)
  have "sorted_wrt (\<lambda>p q. P (snd p) (snd q) \<or> snd p = snd q \<and> Q (fst p) (fst q)) (map (\<lambda>x. (x, y)) xs)"
    using assms(2) by (auto simp: sorted_wrt_map elim: sorted_wrt_mono_rel [rotated])
  with Cons show ?case by (auto simp: sorted_wrt_append)
qed simp

text \<open>
  A simulation: an operation of the code that never fails from a related state and follows a step of the abstract state.
  The loop over a list of inputs then follows the steps one after the other.
\<close>

locale simulation =
  fixes run :: "'c \<Rightarrow> ('s, unit) act" and rel :: "'s \<Rightarrow> 't \<Rightarrow> bool" and step :: "'c \<Rightarrow> 't \<Rightarrow> 't"
  assumes run_step: "rel s t \<Longrightarrow> \<exists>s'. run c s = (s', Inr ()) \<and> rel s' (step c t)"
begin

lemma run_all: "rel s t \<Longrightarrow> \<exists>s'. for_each run cs s = (s', Inr ()) \<and> rel s' (fold step cs t)"
proof (induction cs arbitrary: s t)
  case (Cons c cs)
  from run_step [OF Cons.prems, of c] obtain s' where "run c s = (s', Inr ())" "rel s' (step c t)" by blast
  with Cons.IH show ?case by simp
qed simp

end

end
