(* ===== verification/Bitmap.thy ===== *)
theory Bitmap
  imports Prelude
begin

text \<open>
  The drawing routines of \<open>noli/src/bitmap.rs\<close>, with the ranges of \<open>noli/src/graphics.rs\<close> and the rectangles of
  \<open>noli/src/rect.rs\<close>.  A bitmap has four bytes per pixel, and its buffer is the list of its pixels; reading or
  writing through a pointer outside of it is undefined behaviour.  Coordinates are integers: the overflow of
  64-bit coordinates, far outside of every bitmap, is left out.  The font is generated by the build and is a
  parameter.  The lemmas give the exact pixels after a rectangle, a copy within a bitmap, a clipped copy between two
  bitmaps, and show that a line between two points of the bitmap stays in it.
\<close>

abbreviation (input) graphics_out_of_range :: "'a res" where
  "graphics_out_of_range \<equiv> Inl (Err (from_noli_error GraphicsOutOfRange))"

subsection \<open>Ranges and rectangles\<close>

record scalar_range =
  range_start :: int
  range_end :: int

definition scalar_range_new :: "int \<Rightarrow> int \<Rightarrow> scalar_range option" where
  "scalar_range_new s e = (if s < e then Some \<lparr>range_start = s, range_end = e\<rparr> else None)"

definition scalar_range_intersection :: "scalar_range \<Rightarrow> scalar_range \<Rightarrow> scalar_range option" where
  "scalar_range_intersection r another =
     scalar_range_new (max (range_start r) (range_start another)) (min (range_end r) (range_end another))"

record rect =
  rect_x :: int
  rect_y :: int
  rect_w :: int
  rect_h :: int

definition rect_new :: "int \<Rightarrow> int \<Rightarrow> int \<Rightarrow> int \<Rightarrow> rect option" where
  "rect_new x y w h =
     (if w < 0 \<or> h < 0 then None else Some \<lparr>rect_x = x, rect_y = y, rect_w = w, rect_h = h\<rparr>)"

definition frame_ranges :: "rect \<Rightarrow> (scalar_range \<times> scalar_range) res" where
  "frame_ranges r =
     and_then (unwrap (scalar_range_new (rect_x r) (rect_x r + rect_w r))) (\<lambda>rx.
     and_then (unwrap (scalar_range_new (rect_y r) (rect_y r + rect_h r))) (\<lambda>ry. Inr (rx, ry)))"

definition rect_intersection :: "rect \<Rightarrow> rect \<Rightarrow> rect option res" where
  "rect_intersection r another =
     and_then (frame_ranges r) (\<lambda>(rx0, ry0).
     and_then (frame_ranges another) (\<lambda>(rx1, ry1).
     Inr (case scalar_range_intersection rx0 rx1 of
         None \<Rightarrow> None
       | Some rx \<Rightarrow>
           (case scalar_range_intersection ry0 ry1 of
              None \<Rightarrow> None
            | Some ry \<Rightarrow>
                Some \<lparr>rect_x = range_start rx, rect_y = range_start ry, rect_w = range_end rx - range_start rx,
                      rect_h = range_end ry - range_start ry\<rparr>))))"

subsection \<open>Bitmaps\<close>

record bitmap =
  bm_width :: int
  bm_height :: int
  pixels_per_line :: int
  bm_pixels :: "u32 list"

definition bitmap_new :: "int \<Rightarrow> int \<Rightarrow> int \<Rightarrow> bitmap res" where
  "bitmap_new w h ppl =
     (if 0 \<le> w \<and> 0 \<le> h \<and> 0 \<le> ppl \<and> w \<le> ppl
      then Inr \<lparr>bm_width = w, bm_height = h, pixels_per_line = ppl, bm_pixels = replicate (nat (ppl * h)) 0\<rparr>
      else Inl (Panic ''assertion failed''))"

definition is_in_x_range :: "bitmap \<Rightarrow> int \<Rightarrow> bool" where
  "is_in_x_range b px \<longleftrightarrow> 0 \<le> px \<and> px < min (bm_width b) (pixels_per_line b)"

definition is_in_y_range :: "bitmap \<Rightarrow> int \<Rightarrow> bool" where
  "is_in_y_range b py \<longleftrightarrow> 0 \<le> py \<and> py < bm_height b"

definition pixel_offset :: "bitmap \<Rightarrow> int \<Rightarrow> int \<Rightarrow> int" where
  "pixel_offset b x y = y * pixels_per_line b + x"

definition unchecked_pixel_at :: "bitmap \<Rightarrow> int \<Rightarrow> int \<Rightarrow> u32 res" where
  "unchecked_pixel_at b x y =
     (if 0 \<le> pixel_offset b x y \<and> pixel_offset b x y < int (length (bm_pixels b))
      then Inr (bm_pixels b ! nat (pixel_offset b x y)) else Inl (UB ''read outside of the buffer''))"

definition pixel_at :: "bitmap \<Rightarrow> int \<Rightarrow> int \<Rightarrow> u32 option res" where
  "pixel_at b x y =
     (if is_in_x_range b x \<and> is_in_y_range b y
      then and_then (unchecked_pixel_at b x y) (\<lambda>c. Inr (Some c)) else Inr None)"

definition unchecked_draw_point :: "u32 \<Rightarrow> int \<Rightarrow> int \<Rightarrow> (bitmap, unit) act" where
  "unchecked_draw_point color x y b =
     (if 0 \<le> pixel_offset b x y \<and> pixel_offset b x y < int (length (bm_pixels b))
      then (b\<lparr>bm_pixels := (bm_pixels b)[nat (pixel_offset b x y) := color]\<rparr>, Inr ())
      else (b, Inl (UB ''write outside of the buffer'')))"

text \<open>The second test of \<open>bitmap_draw_point\<close> is on \<open>x\<close> again: \<open>y\<close> is not checked.\<close>

definition bitmap_draw_point :: "u32 \<Rightarrow> int \<Rightarrow> int \<Rightarrow> (bitmap, unit) act" where
  "bitmap_draw_point color x y b =
     (if \<not> is_in_x_range b x \<or> \<not> is_in_x_range b x then (b, graphics_out_of_range)
      else unchecked_draw_point color x y b)"

subsection \<open>Lines and rectangles\<close>

definition MULTIPLIER :: int where "MULTIPLIER = 1024 * 1024"

text \<open>Division of the source rounds towards zero.\<close>

definition tdiv :: "int \<Rightarrow> int \<Rightarrow> int" where
  "tdiv a b = (if 0 \<le> a then a div b else - (- a div b))"

definition line_in_range :: "bitmap \<Rightarrow> int \<Rightarrow> int \<Rightarrow> int \<Rightarrow> int \<Rightarrow> bool" where
  "line_in_range b x0 y0 x1 y1 \<longleftrightarrow>
     is_in_x_range b x0 \<and> is_in_x_range b x1 \<and> is_in_y_range b y0 \<and> is_in_y_range b y1"

text \<open>
  \<open>bitmap_draw_line\<close> calls itself with the end points exchanged and, for every column of the line, with two points
  of that column: the recursion is two levels deep, and each level is a definition.
\<close>

definition draw_column :: "u32 \<Rightarrow> int \<Rightarrow> int \<Rightarrow> int \<Rightarrow> (bitmap, unit) act" where
  "draw_column color x y0 y1 b =
     (if \<not> line_in_range b x y0 x y1 then (b, graphics_out_of_range)
      else if y0 \<le> y1 then for_each (\<lambda>i. bitmap_draw_point color x i) [y0..y1] b
      else for_each (\<lambda>i. bitmap_draw_point color x i) [y1..y0] b)"

definition draw_line_right :: "u32 \<Rightarrow> int \<Rightarrow> int \<Rightarrow> int \<Rightarrow> int \<Rightarrow> (bitmap, unit) act" where
  "draw_line_right color x0 y0 x1 y1 =
     (let lx = x1 - x0 + 1; a = tdiv ((y1 - y0) * MULTIPLIER) lx
      in act_then (for_each (\<lambda>i. draw_column color (x0 + i) (y0 + tdiv (a * i) MULTIPLIER)
                     (y0 + tdiv (a * (i + 1)) MULTIPLIER)) [0..lx - 1]) (\<lambda>_.
         act_then (bitmap_draw_point color x0 y0) (\<lambda>_. bitmap_draw_point color x1 y1)))"

definition bitmap_draw_line :: "u32 \<Rightarrow> int \<Rightarrow> int \<Rightarrow> int \<Rightarrow> int \<Rightarrow> (bitmap, unit) act" where
  "bitmap_draw_line color x0 y0 x1 y1 b =
     (if \<not> line_in_range b x0 y0 x1 y1 then (b, graphics_out_of_range)
      else if x1 < x0 then draw_line_right color x1 y1 x0 y0 b
      else if x1 = x0 then draw_column color x0 y0 y1 b
      else draw_line_right color x0 y0 x1 y1 b)"

definition bitmap_draw_rect :: "u32 \<Rightarrow> int \<Rightarrow> int \<Rightarrow> int \<Rightarrow> int \<Rightarrow> (bitmap, unit) act" where
  "bitmap_draw_rect color px py w h b =
     (if \<not> is_in_x_range b px \<or> \<not> is_in_y_range b py \<or> \<not> is_in_x_range b (px + w - 1) \<or> \<not> is_in_y_range b (py + h - 1)
      then (b, graphics_out_of_range)
      else for_each (\<lambda>y. for_each (\<lambda>x. bitmap_draw_point color x y) [px..px + w - 1]) [py..py + h - 1] b)"

subsection \<open>Characters\<close>

text \<open>\<open>font c y\<close> is the row \<open>y\<close> of the glyph of character \<open>c\<close>; a character is its code point.\<close>

type_synonym font = "nat \<Rightarrow> nat \<Rightarrow> u8"

definition glyph_bit :: "font \<Rightarrow> nat \<Rightarrow> int \<Rightarrow> int \<Rightarrow> bool" where
  "glyph_bit font c x y \<longleftrightarrow> 256 \<le> c \<or> drop_bit (nat x) (font c (nat y)) AND 1 = 1"

definition char_in_range :: "bitmap \<Rightarrow> int \<Rightarrow> int \<Rightarrow> bool" where
  "char_in_range b px py \<longleftrightarrow>
     is_in_x_range b px \<and> is_in_y_range b py \<and> is_in_x_range b (px + 8 - 1) \<and> is_in_y_range b (py + 16 - 1)"

definition bitmap_draw_char :: "font \<Rightarrow> u32 \<Rightarrow> u32 option \<Rightarrow> int \<Rightarrow> int \<Rightarrow> nat \<Rightarrow> (bitmap, unit) act" where
  "bitmap_draw_char font fg bg px py c b =
     (if \<not> char_in_range b px py then (b, graphics_out_of_range)
      else for_each (\<lambda>y. for_each (\<lambda>x.
             if glyph_bit font c x y then bitmap_draw_point fg (px + x) (py + y)
             else (case bg of Some g \<Rightarrow> bitmap_draw_point g (px + x) (py + y) | None \<Rightarrow> act_ok)) [0..7]) [0..15] b)"

definition bitmap_draw_char_2x :: "font \<Rightarrow> u32 \<Rightarrow> u32 option \<Rightarrow> int \<Rightarrow> int \<Rightarrow> nat \<Rightarrow> (bitmap, unit) act" where
  "bitmap_draw_char_2x font fg bg px py c b =
     (if \<not> char_in_range b px py then (b, graphics_out_of_range)
      else for_each (\<lambda>y. for_each (\<lambda>x.
             if glyph_bit font c x y
             then act_then (bitmap_draw_point fg (px + x * 2) (py + y * 2)) (\<lambda>_.
                  act_then (bitmap_draw_point fg (px + x * 2 + 1) (py + y * 2)) (\<lambda>_.
                  act_then (bitmap_draw_point fg (px + x * 2) (py + y * 2 + 1)) (\<lambda>_.
                  bitmap_draw_point fg (px + x * 2 + 1) (py + y * 2 + 1))))
             else (case bg of Some g \<Rightarrow> bitmap_draw_point g (px + x) (py + y) | None \<Rightarrow> act_ok)) [0..7]) [0..15] b)"

definition bitmap_draw_char_3x :: "font \<Rightarrow> u32 \<Rightarrow> u32 option \<Rightarrow> int \<Rightarrow> int \<Rightarrow> nat \<Rightarrow> (bitmap, unit) act" where
  "bitmap_draw_char_3x font fg bg px py c b =
     (if \<not> char_in_range b px py then (b, graphics_out_of_range)
      else for_each (\<lambda>y. for_each (\<lambda>x.
             if glyph_bit font c (x div 3) (y div 3) then bitmap_draw_point fg (px + x) (py + y)
             else (case bg of Some g \<Rightarrow> bitmap_draw_point g (px + x) (py + y) | None \<Rightarrow> act_ok)) [0..23]) [0..47] b)"

text \<open>\<open>draw_chars d adv\<close> is the loop of the string routines: \<open>d\<close> draws a character, \<open>adv\<close> is its width.\<close>

fun draw_chars :: "(int \<Rightarrow> nat \<Rightarrow> ('s, unit) act) \<Rightarrow> int \<Rightarrow> int \<Rightarrow> nat list \<Rightarrow> ('s, unit) act" where
  "draw_chars d adv px [] = act_ok"
| "draw_chars d adv px (c # cs) = act_then (d px c) (\<lambda>_. draw_chars d adv (px + adv) cs)"

definition bitmap_draw_string :: "font \<Rightarrow> u32 \<Rightarrow> u32 option \<Rightarrow> int \<Rightarrow> int \<Rightarrow> nat list \<Rightarrow> (bitmap, unit) act" where
  "bitmap_draw_string font fg bg px py s = draw_chars (\<lambda>x c. bitmap_draw_char font fg bg x py c) 8 px s"

definition bitmap_draw_string_2x :: "font \<Rightarrow> u32 \<Rightarrow> u32 option \<Rightarrow> int \<Rightarrow> int \<Rightarrow> nat list \<Rightarrow> (bitmap, unit) act" where
  "bitmap_draw_string_2x font fg bg px py s = draw_chars (\<lambda>x c. bitmap_draw_char_2x font fg bg x py c) 16 px s"

definition bitmap_draw_string_3x :: "font \<Rightarrow> u32 \<Rightarrow> u32 option \<Rightarrow> int \<Rightarrow> int \<Rightarrow> nat list \<Rightarrow> (bitmap, unit) act" where
  "bitmap_draw_string_3x font fg bg px py s = draw_chars (\<lambda>x c. bitmap_draw_char_3x font fg bg x py c) 24 px s"

definition bitmap_draw_string_with_underline ::
    "font \<Rightarrow> u32 \<Rightarrow> u32 option \<Rightarrow> int \<Rightarrow> int \<Rightarrow> nat list \<Rightarrow> (bitmap, unit) act" where
  "bitmap_draw_string_with_underline font fg bg px py s =
     act_then (bitmap_draw_string font fg bg px py s) (\<lambda>_.
       bitmap_draw_line fg px (py + 16) (px + 8 * int (length s)) (py + 16))"

definition bitmap_draw_string_2x_with_underline ::
    "font \<Rightarrow> u32 \<Rightarrow> u32 option \<Rightarrow> int \<Rightarrow> int \<Rightarrow> nat list \<Rightarrow> (bitmap, unit) act" where
  "bitmap_draw_string_2x_with_underline font fg bg px py s =
     act_then (bitmap_draw_string_2x font fg bg px py s) (\<lambda>_.
       bitmap_draw_line fg px (py + 16) (px + 16 * int (length s)) (py + 16))"

definition bitmap_draw_string_3x_with_underline ::
    "font \<Rightarrow> u32 \<Rightarrow> u32 option \<Rightarrow> int \<Rightarrow> int \<Rightarrow> nat list \<Rightarrow> (bitmap, unit) act" where
  "bitmap_draw_string_3x_with_underline font fg bg px py s =
     act_then (bitmap_draw_string_3x font fg bg px py s) (\<lambda>_.
       bitmap_draw_line fg px (py + 16) (px + 24 * int (length s)) (py + 16))"

subsection \<open>Copies\<close>

definition copy_pixel :: "int \<Rightarrow> int \<Rightarrow> int \<Rightarrow> int \<Rightarrow> int \<Rightarrow> int \<Rightarrow> (bitmap, unit) act" where
  "copy_pixel dx dy sx sy x y b =
     act_then (lift_res (unchecked_pixel_at b (sx + x) (sy + y))) (\<lambda>c. unchecked_draw_point c (dx + x) (dy + y)) b"

definition transfer_rect :: "int \<Rightarrow> int \<Rightarrow> int \<Rightarrow> int \<Rightarrow> int \<Rightarrow> int \<Rightarrow> (bitmap, unit) act" where
  "transfer_rect dx dy sx sy w h b =
     (if \<not> is_in_x_range b sx \<or> \<not> is_in_y_range b sy \<or> \<not> is_in_x_range b (sx + w - 1) \<or> \<not> is_in_y_range b (sy + h - 1) \<or>
         \<not> is_in_x_range b dx \<or> \<not> is_in_y_range b dy \<or> \<not> is_in_x_range b (dx + w - 1) \<or> \<not> is_in_y_range b (dy + h - 1)
      then (b, graphics_out_of_range)
      else if dy < sy \<or> dy = sy \<and> dx < sx
      then for_each (\<lambda>y. for_each (\<lambda>x. copy_pixel dx dy sx sy x y) [0..w - 1]) [0..h - 1] b
      else if dy > sy
      then for_each (\<lambda>y. for_each (\<lambda>x. copy_pixel dx dy sx sy x y) [0..w - 1]) (rev [0..h - 1]) b
      else if dx > sx
      then for_each (\<lambda>y. for_each (\<lambda>x. copy_pixel dx dy sx sy x y) (rev [0..w - 1])) [0..h - 1] b
      else (b, Inr ()))"

definition draw_clipped_pixel :: "bitmap \<Rightarrow> int \<Rightarrow> int \<Rightarrow> int \<Rightarrow> int \<Rightarrow> (bitmap, unit) act" where
  "draw_clipped_pixel src dx dy x y dst =
     act_then (lift_res (pixel_at dst x y)) (\<lambda>dstp.
     act_then (lift_res (pixel_at src (x - dx) (y - dy))) (\<lambda>srcp.
       case (dstp, srcp) of
         (Some _, Some c) \<Rightarrow> unchecked_draw_point c x y
       | _ \<Rightarrow> act_ok)) dst"

text \<open>The result \<open>None\<close> of the source is the value \<open>False\<close>.\<close>

definition draw_bmp_clipped :: "bitmap \<Rightarrow> int \<Rightarrow> int \<Rightarrow> (bitmap, bool) act" where
  "draw_bmp_clipped src dx dy dst =
     (case (rect_new 0 0 (bm_width dst) (bm_height dst), rect_new dx dy (bm_width src) (bm_height src)) of
        (Some dst_rect, Some src_rect) \<Rightarrow>
          act_then (lift_res (rect_intersection dst_rect src_rect)) (\<lambda>r.
            case r of
              None \<Rightarrow> lift_res (Inr False)
            | Some copy_rect \<Rightarrow>
                act_then (lift_res (frame_ranges copy_rect)) (\<lambda>(rx, ry).
                act_then (for_each (\<lambda>y. for_each (\<lambda>x. draw_clipped_pixel src dx dy x y)
                    [range_start rx..range_end rx - 1]) [range_start ry..range_end ry - 1])
                  (\<lambda>_. lift_res (Inr True)))) dst
      | _ \<Rightarrow> (dst, Inr False))"

subsection \<open>Pixels\<close>

definition bm_ok :: "bitmap \<Rightarrow> bool" where
  "bm_ok b \<longleftrightarrow> 0 \<le> bm_width b \<and> bm_width b \<le> pixels_per_line b \<and> 0 \<le> bm_height b \<and>
     int (length (bm_pixels b)) = pixels_per_line b * bm_height b"

definition inside :: "bitmap \<Rightarrow> int \<times> int \<Rightarrow> bool" where
  "inside b p \<longleftrightarrow> 0 \<le> fst p \<and> fst p < bm_width b \<and> 0 \<le> snd p \<and> snd p < bm_height b"

definition stored :: "bitmap \<Rightarrow> int \<times> int \<Rightarrow> bool" where
  "stored b p \<longleftrightarrow> 0 \<le> fst p \<and> fst p < pixels_per_line b \<and> 0 \<le> snd p \<and> snd p < bm_height b"

definition pix :: "bitmap \<Rightarrow> int \<times> int \<Rightarrow> u32" where
  "pix b p = bm_pixels b ! nat (pixel_offset b (fst p) (snd p))"

definition set_pix :: "u32 \<Rightarrow> int \<times> int \<Rightarrow> bitmap \<Rightarrow> bitmap" where
  "set_pix c p b = b\<lparr>bm_pixels := (bm_pixels b)[nat (pixel_offset b (fst p) (snd p)) := c]\<rparr>"

definition same_shape :: "bitmap \<Rightarrow> bitmap \<Rightarrow> bool" where
  "same_shape b b' \<longleftrightarrow> bm_width b' = bm_width b \<and> bm_height b' = bm_height b \<and>
     pixels_per_line b' = pixels_per_line b \<and> length (bm_pixels b') = length (bm_pixels b)"

lemma same_shape_refl [simp]: "same_shape b b"
  by (simp add: same_shape_def)

lemma same_shape_trans: "same_shape a b \<Longrightarrow> same_shape b c \<Longrightarrow> same_shape a c"
  by (simp add: same_shape_def)

lemma same_shape_cong:
  assumes "same_shape b b'"
  shows "bm_ok b' = bm_ok b" "inside b' p = inside b p" "stored b' p = stored b p"
    "pixel_offset b' x y = pixel_offset b x y" "is_in_x_range b' x = is_in_x_range b x"
    "is_in_y_range b' y = is_in_y_range b y"
  using assms by (simp_all add: same_shape_def bm_ok_def inside_def stored_def pixel_offset_def is_in_x_range_def
      is_in_y_range_def)

lemma set_pix_shape [simp]: "same_shape b (set_pix c p b)"
  by (simp add: same_shape_def set_pix_def)

lemma in_range_inside: "bm_ok b \<Longrightarrow> is_in_x_range b x \<and> is_in_y_range b y \<longleftrightarrow> inside b (x, y)"
  by (auto simp: bm_ok_def is_in_x_range_def is_in_y_range_def inside_def)

lemma inside_x_range: "bm_ok b \<Longrightarrow> inside b (x, y) \<Longrightarrow> is_in_x_range b x"
  by (auto simp: bm_ok_def is_in_x_range_def inside_def)

lemma inside_stored: "bm_ok b \<Longrightarrow> inside b p \<Longrightarrow> stored b p"
  by (auto simp: bm_ok_def inside_def stored_def)

lemma stored_offset:
  assumes "bm_ok b" "stored b p"
  shows "0 \<le> pixel_offset b (fst p) (snd p)" "pixel_offset b (fst p) (snd p) < int (length (bm_pixels b))"
proof -
  let ?l = "pixels_per_line b"
  have l: "0 \<le> ?l" "0 \<le> fst p" "fst p < ?l" "0 \<le> snd p" "snd p + 1 \<le> bm_height b"
    using assms by (auto simp: bm_ok_def stored_def)
  then show "0 \<le> pixel_offset b (fst p) (snd p)" by (simp add: pixel_offset_def)
  have "snd p * ?l + fst p < (snd p + 1) * ?l" using l by (simp add: distrib_right)
  also have "\<dots> \<le> bm_height b * ?l" using l by (intro mult_right_mono) simp_all
  finally show "pixel_offset b (fst p) (snd p) < int (length (bm_pixels b))"
    using assms(1) by (simp add: pixel_offset_def bm_ok_def mult.commute)
qed

lemma offset_inj:
  assumes "stored b p" "stored b q" "pixel_offset b (fst p) (snd p) = pixel_offset b (fst q) (snd q)"
  shows "p = q"
proof -
  let ?l = "pixels_per_line b"
  have r: "0 \<le> fst p" "fst p < ?l" "0 \<le> fst q" "fst q < ?l" using assms by (auto simp: stored_def)
  have "(snd p * ?l + fst p) mod ?l = (snd q * ?l + fst q) mod ?l"
    and "(snd p * ?l + fst p) div ?l = (snd q * ?l + fst q) div ?l"
    using assms(3) by (simp_all add: pixel_offset_def)
  with r have "fst p = fst q" "snd p = snd q" by simp_all
  then show ?thesis by (simp add: prod_eq_iff)
qed

lemma pix_set_pix:
  assumes "bm_ok b" "stored b p" "stored b q"
  shows "pix (set_pix c p b) q = (if q = p then c else pix b q)"
proof -
  have "nat (pixel_offset b (fst p) (snd p)) = nat (pixel_offset b (fst q) (snd q)) \<longleftrightarrow> p = q"
    using stored_offset [OF assms(1)] offset_inj [of b p q] assms(2,3) by (auto simp: nat_eq_iff)
  moreover have "nat (pixel_offset b (fst p) (snd p)) < length (bm_pixels b)"
    using stored_offset [OF assms(1,2)] by simp
  ultimately show ?thesis by (auto simp: pix_def set_pix_def pixel_offset_def nth_list_update)
qed

lemma draw_stored:
  "bm_ok b \<Longrightarrow> stored b (x, y) \<Longrightarrow> unchecked_draw_point c x y b = (set_pix c (x, y) b, Inr ())"
  using stored_offset [of b "(x, y)"] by (simp add: unchecked_draw_point_def set_pix_def)

lemma read_stored: "bm_ok b \<Longrightarrow> stored b (x, y) \<Longrightarrow> unchecked_pixel_at b x y = Inr (pix b (x, y))"
  using stored_offset [of b "(x, y)"] by (simp add: unchecked_pixel_at_def pix_def)

lemma draw_inside:
  "bm_ok b \<Longrightarrow> inside b (x, y) \<Longrightarrow> bitmap_draw_point c x y b = (set_pix c (x, y) b, Inr ())"
  by (simp add: bitmap_draw_point_def inside_x_range draw_stored inside_stored)

subsection \<open>Drawing as painting\<close>

text \<open>
  \<open>painted F D b b'\<close>: at the points of \<open>D\<close> for which the picture \<open>F\<close> has a colour \<open>b'\<close> has that colour, and it
  is \<open>b\<close> everywhere else.  \<open>draws A F D m\<close>: the routine \<open>m\<close> does not fail on a bitmap for which the points of \<open>D\<close> are
  allowed by \<open>A\<close>, and paints those of them that are inside.  \<open>paints F D m\<close>: all the coloured points have to be inside.
\<close>

definition painted :: "(int \<times> int \<rightharpoonup> u32) \<Rightarrow> (int \<times> int) set \<Rightarrow> bitmap \<Rightarrow> bitmap \<Rightarrow> bool" where
  "painted F D b b' \<longleftrightarrow> same_shape b b' \<and>
     (\<forall>p. stored b p \<longrightarrow> pix b' p = (case (F |` D) p of Some c \<Rightarrow> c | None \<Rightarrow> pix b p))"

definition draws ::
    "(bitmap \<Rightarrow> int \<times> int \<Rightarrow> bool) \<Rightarrow> (int \<times> int \<rightharpoonup> u32) \<Rightarrow> (int \<times> int) set \<Rightarrow> (bitmap, unit) act \<Rightarrow> bool" where
  "draws A F D m \<longleftrightarrow> (\<forall>b. bm_ok b \<longrightarrow> (\<forall>p \<in> D. A b p) \<longrightarrow>
     (\<exists>b'. m b = (b', Inr ()) \<and> painted F {p \<in> D. inside b p} b b'))"

definition paints :: "(int \<times> int \<rightharpoonup> u32) \<Rightarrow> (int \<times> int) set \<Rightarrow> (bitmap, unit) act \<Rightarrow> bool" where
  "paints F D m \<longleftrightarrow> draws (\<lambda>b p. F p \<noteq> None \<longrightarrow> inside b p) F D m"

lemma painted_cong: "F |` D = G |` E \<Longrightarrow> painted F D b b' = painted G E b b'"
  by (simp only: painted_def)

lemma paintedD:
  assumes "painted F D b b'"
  shows "same_shape b b'"
    and "stored b p \<Longrightarrow> p \<notin> D \<Longrightarrow> pix b' p = pix b p"
    and "stored b p \<Longrightarrow> p \<in> D \<Longrightarrow> F p = Some c \<Longrightarrow> pix b' p = c"
proof -
  from assms have s: "same_shape b b'"
    and c: "stored b p \<Longrightarrow> pix b' p = (case (F |` D) p of Some c \<Rightarrow> c | None \<Rightarrow> pix b p)"
    unfolding painted_def by blast+
  show "same_shape b b'" by (rule s)
  show "stored b p \<Longrightarrow> p \<notin> D \<Longrightarrow> pix b' p = pix b p"
    and "stored b p \<Longrightarrow> p \<in> D \<Longrightarrow> F p = Some c \<Longrightarrow> pix b' p = c"
    by (simp_all add: c)
qed

lemma paints_iff:
  "paints F D m \<longleftrightarrow> (\<forall>b. bm_ok b \<longrightarrow> (\<forall>p \<in> D. F p \<noteq> None \<longrightarrow> inside b p) \<longrightarrow>
     (\<exists>b'. m b = (b', Inr ()) \<and> painted F D b b'))"
proof -
  have "painted F {p \<in> D. inside b p} b b' = painted F D b b'" if "\<forall>p \<in> D. F p \<noteq> None \<longrightarrow> inside b p" for b b'
    using that by (intro painted_cong ext) (auto simp: restrict_map_def)
  then show ?thesis
    unfolding paints_def draws_def by (intro all_cong1 imp_cong refl ex_cong1 conj_cong) simp
qed

lemma paintsD:
  "paints F D m \<Longrightarrow> bm_ok b \<Longrightarrow> (\<And>p. p \<in> D \<Longrightarrow> F p \<noteq> None \<Longrightarrow> inside b p) \<Longrightarrow>
   \<exists>b'. m b = (b', Inr ()) \<and> painted F D b b'"
  unfolding paints_iff by blast

lemma paints_point: "F (x, y) = Some c \<Longrightarrow> paints F {(x, y)} (bitmap_draw_point c x y)"
  by (auto simp: paints_iff painted_def draw_inside pix_set_pix inside_stored restrict_map_def)

lemma paints_nothing: "(\<And>p. p \<in> D \<Longrightarrow> F p = None) \<Longrightarrow> paints F D act_ok"
  by (auto simp: paints_iff painted_def act_ok_def restrict_map_def)

lemma painted_trans:
  assumes "painted F D a b" "painted F E b c"
  shows "painted F (D \<union> E) a c"
proof -
  have s: "same_shape a b" "same_shape b c" using assms by (simp_all add: painted_def)
  have "pix c p = (case (F |` (D \<union> E)) p of Some x \<Rightarrow> x | None \<Rightarrow> pix a p)" if "stored a p" for p
  proof -
    have "stored b p" using that same_shape_cong(3) [OF s(1)] by simp
    then have "pix b p = (case (F |` D) p of Some x \<Rightarrow> x | None \<Rightarrow> pix a p)"
        "pix c p = (case (F |` E) p of Some x \<Rightarrow> x | None \<Rightarrow> pix b p)"
      using assms that unfolding painted_def by blast+
    then show ?thesis by (cases "F p") (simp_all add: restrict_map_def)
  qed
  with same_shape_trans [OF s] show ?thesis by (simp add: painted_def)
qed

text \<open>
  Drawings compose, for every condition on the points that depends on the size of the bitmap only.
\<close>

locale drawing =
  fixes allowed :: "bitmap \<Rightarrow> int \<times> int \<Rightarrow> bool"
  assumes allowed_shape: "same_shape b b' \<Longrightarrow> allowed b' p = allowed b p"
begin

lemma draws_then:
  assumes "draws allowed F D m" "draws allowed F E n"
  shows "draws allowed F (D \<union> E) (act_then m (\<lambda>_. n))"
  unfolding draws_def
proof (intro allI impI)
  fix b assume b: "bm_ok b" "\<forall>p \<in> D \<union> E. allowed b p"
  obtain b1 where b1: "m b = (b1, Inr ())" "painted F {p \<in> D. inside b p} b b1"
    using assms(1) b unfolding draws_def by blast
  then have s: "same_shape b b1" by (simp add: painted_def)
  have "bm_ok b1" "\<forall>p \<in> E. allowed b1 p" using b by (simp_all add: same_shape_cong [OF s] allowed_shape [OF s])
  then obtain b2 where b2: "n b1 = (b2, Inr ())" "painted F {p \<in> E. inside b1 p} b1 b2"
    using assms(2) unfolding draws_def by blast
  have "{p \<in> D. inside b p} \<union> {p \<in> E. inside b1 p} = {p \<in> D \<union> E. inside b p}"
    by (auto simp: same_shape_cong [OF s])
  with painted_trans [OF b1(2) b2(2)] have "painted F {p \<in> D \<union> E. inside b p} b b2" by simp
  with b1(1) b2(1) show "\<exists>b'. act_then m (\<lambda>_. n) b = (b', Inr ()) \<and> painted F {p \<in> D \<union> E. inside b p} b b'" by simp
qed

lemma draws_for_each:
  "(\<And>i. i \<in> set xs \<Longrightarrow> draws allowed F (D i) (f i)) \<Longrightarrow> draws allowed F (\<Union>i \<in> set xs. D i) (for_each f xs)"
proof (induction xs)
  case Nil
  then show ?case by (simp add: draws_def painted_def)
next
  case (Cons i xs)
  have "for_each f (i # xs) = act_then (f i) (\<lambda>_. for_each f xs)" by (rule ext) simp
  with draws_then [of F "D i" "f i" "\<Union>i \<in> set xs. D i" "for_each f xs"] Cons show ?case by simp
qed

end

interpretation painting: drawing "\<lambda>b p. F p \<noteq> None \<longrightarrow> inside b p" for F
  by unfold_locales (simp add: same_shape_cong)

lemma paints_then: "paints F D m \<Longrightarrow> paints F E n \<Longrightarrow> paints F (D \<union> E) (act_then m (\<lambda>_. n))"
  unfolding paints_def by (rule painting.draws_then)

lemma paints_for_each:
  "(\<And>i. i \<in> set xs \<Longrightarrow> paints F (D i) (f i)) \<Longrightarrow> paints F (\<Union>i \<in> set xs. D i) (for_each f xs)"
  unfolding paints_def by (rule painting.draws_for_each)

lemma paints_cong: "paints F D m \<Longrightarrow> D = E \<Longrightarrow> paints F E m"
  by simp

subsection \<open>Rectangles, characters and lines\<close>

lemma bitmap_draw_rect_ok:
  assumes "bm_ok b" "0 < w" "0 < h" "inside b (px, py)" "inside b (px + w - 1, py + h - 1)"
  shows "\<exists>b'. bitmap_draw_rect c px py w h b = (b', Inr ()) \<and>
    painted (\<lambda>_. Some c) ({px..px + w - 1} \<times> {py..py + h - 1}) b b'"
proof -
  have "paints (\<lambda>_. Some c) (\<Union>y \<in> set [py..py + h - 1]. \<Union>x \<in> set [px..px + w - 1]. {(x, y)})
      (for_each (\<lambda>y. for_each (\<lambda>x. bitmap_draw_point c x y) [px..px + w - 1]) [py..py + h - 1])"
    by (intro paints_for_each paints_point) simp
  then have p: "paints (\<lambda>_. Some c) ({px..px + w - 1} \<times> {py..py + h - 1})
      (for_each (\<lambda>y. for_each (\<lambda>x. bitmap_draw_point c x y) [px..px + w - 1]) [py..py + h - 1])"
    by (rule paints_cong) auto
  have "inside b p" if "p \<in> {px..px + w - 1} \<times> {py..py + h - 1}" for p
    using assms that by (cases p) (simp add: inside_def)
  with paintsD [OF p assms(1)] show ?thesis
    using assms in_range_inside [OF assms(1), of px py] in_range_inside [OF assms(1), of "px + w - 1" "py + h - 1"]
    by (simp add: bitmap_draw_rect_def)
qed

text \<open>The picture of a character: its glyph, magnified \<open>k\<close> times, on the background.\<close>

definition char_picture :: "font \<Rightarrow> int \<Rightarrow> u32 \<Rightarrow> u32 option \<Rightarrow> int \<Rightarrow> int \<Rightarrow> nat \<Rightarrow> (int \<times> int \<rightharpoonup> u32)" where
  "char_picture font k fg bg px py c = (\<lambda>(x, y).
     if glyph_bit font c ((x - px) div k) ((y - py) div k) then Some fg else bg)"

lemma paints_glyph_point:
  assumes "F (x, y) = (if g then Some fg else bg)"
  shows "paints F {(x, y)} (if g then bitmap_draw_point fg x y
    else (case bg of Some c \<Rightarrow> bitmap_draw_point c x y | None \<Rightarrow> act_ok))"
  using assms by (auto intro: paints_point paints_nothing split: option.split)

lemma shifted_box:
  "(\<Union>y \<in> set [0..m]. \<Union>x \<in> set [0..n]. {(px + x, py + y)}) = {px..px + n} \<times> {py..py + m}"
proof (intro set_eqI iffI)
  fix p assume "p \<in> {px..px + n} \<times> {py..py + m}"
  then show "p \<in> (\<Union>y \<in> set [0..m]. \<Union>x \<in> set [0..n]. {(px + x, py + y)})"
    by (intro UN_I [of "snd p - py"] UN_I [of "fst p - px"]) auto
qed auto

lemma paints_glyphs:
  "paints (char_picture font k fg bg px py c) ({px..px + n} \<times> {py..py + m})
     (for_each (\<lambda>y. for_each (\<lambda>x.
        if glyph_bit font c (x div k) (y div k) then bitmap_draw_point fg (px + x) (py + y)
        else (case bg of Some g \<Rightarrow> bitmap_draw_point g (px + x) (py + y) | None \<Rightarrow> act_ok)) [0..n]) [0..m])"
  unfolding shifted_box [symmetric]
  by (intro paints_for_each paints_glyph_point) (simp add: char_picture_def)

lemma box_inside:
  "inside b (x0, y0) \<Longrightarrow> inside b (x1, y1) \<Longrightarrow> p \<in> {x0..x1} \<times> {y0..y1} \<Longrightarrow> inside b p"
  by (cases p) (simp add: inside_def)

lemma inside_char_range:
  "bm_ok b \<Longrightarrow> inside b (px, py) \<Longrightarrow> inside b (px + n, py + m) \<Longrightarrow> 7 \<le> n \<Longrightarrow> 15 \<le> m \<Longrightarrow> char_in_range b px py"
  using in_range_inside [of b px py] in_range_inside [of b "px + 7" "py + 15"]
  by (simp add: char_in_range_def inside_def add.commute)

lemma bitmap_draw_char_ok:
  assumes "bm_ok b" "inside b (px, py)" "inside b (px + 7, py + 15)"
  shows "\<exists>b'. bitmap_draw_char font fg bg px py c b = (b', Inr ()) \<and>
    painted (char_picture font 1 fg bg px py c) ({px..px + 7} \<times> {py..py + 15}) b b'"
  using paintsD [OF paints_glyphs [of font 1] assms(1)] box_inside [OF assms(2,3)] inside_char_range [OF assms]
  by (simp add: bitmap_draw_char_def)

lemma bitmap_draw_char_3x_ok:
  assumes "bm_ok b" "inside b (px, py)" "inside b (px + 23, py + 47)"
  shows "\<exists>b'. bitmap_draw_char_3x font fg bg px py c b = (b', Inr ()) \<and>
    painted (char_picture font 3 fg bg px py c) ({px..px + 23} \<times> {py..py + 47}) b b'"
  using paintsD [OF paints_glyphs [of font 3] assms(1)] box_inside [OF assms(2,3)] inside_char_range [OF assms]
  by (simp add: bitmap_draw_char_3x_def)

lemma paints_column:
  "paints (\<lambda>_. Some c) ({x} \<times> {min y0 y1..max y0 y1}) (draw_column c x y0 y1)"
  unfolding paints_iff
proof (intro allI impI)
  fix b assume b: "bm_ok b" "\<forall>p \<in> {x} \<times> {min y0 y1..max y0 y1}. Some c \<noteq> None \<longrightarrow> inside b p"
  then have "inside b (x, y0)" "inside b (x, y1)" by auto
  then have r: "line_in_range b x y0 x y1"
    using in_range_inside [OF b(1), of x y0] in_range_inside [OF b(1), of x y1] by (simp add: line_in_range_def)
  have "paints (\<lambda>_. Some c) ({x} \<times> {s..e}) (for_each (\<lambda>i. bitmap_draw_point c x i) [s..e])" for s e
  proof -
    have "paints (\<lambda>_. Some c) (\<Union>i \<in> set [s..e]. {(x, i)}) (for_each (\<lambda>i. bitmap_draw_point c x i) [s..e])"
      by (intro paints_for_each paints_point) simp
    then show ?thesis by (rule paints_cong) auto
  qed
  from paintsD [OF this b(1), of "min y0 y1" "max y0 y1"] b(2) r
  show "\<exists>b'. draw_column c x y0 y1 b = (b', Inr ()) \<and> painted (\<lambda>_. Some c) ({x} \<times> {min y0 y1..max y0 y1}) b b'"
    by (auto simp: draw_column_def min_def max_def split: if_splits)
qed

lemma tdiv_between:
  assumes "0 < b" "0 \<le> a" "a \<le> d * b"
  shows "0 \<le> tdiv a b \<and> tdiv a b \<le> d"
proof -
  have "a div b \<le> d * b div b" using assms by (intro zdiv_mono1) simp_all
  with assms show ?thesis by (simp add: tdiv_def pos_imp_zdiv_nonneg_iff)
qed

lemma tdiv_neg: "0 < b \<Longrightarrow> tdiv (- a) b = - tdiv a b"
  by (auto simp: tdiv_def)

lemma tdiv_mult_le: "0 < b \<Longrightarrow> 0 \<le> a \<Longrightarrow> tdiv a b * b \<le> a"
  by (simp add: tdiv_def flip: minus_mod_eq_div_mult)

text \<open>The height of the line at every column is between the heights of its ends.\<close>

lemma slope_between:
  assumes "0 < lx" "0 \<le> i" "i \<le> lx"
  shows "min 0 d \<le> tdiv (tdiv (d * MULTIPLIER) lx * i) MULTIPLIER \<and>
    tdiv (tdiv (d * MULTIPLIER) lx * i) MULTIPLIER \<le> max 0 d"
proof -
  have M: "0 < MULTIPLIER" by (simp add: MULTIPLIER_def)
  have pos: "0 \<le> tdiv (tdiv (d * MULTIPLIER) lx * i) MULTIPLIER \<and> tdiv (tdiv (d * MULTIPLIER) lx * i) MULTIPLIER \<le> d"
    if d: "0 \<le> d" for d
  proof -
    let ?a = "tdiv (d * MULTIPLIER) lx"
    have a: "0 \<le> ?a" using d M assms(1) by (simp add: tdiv_def pos_imp_zdiv_nonneg_iff)
    have "?a * i \<le> ?a * lx" using a assms(3) by (rule mult_left_mono [rotated])
    also have "\<dots> \<le> d * MULTIPLIER" using tdiv_mult_le [OF assms(1)] d M by simp
    finally show ?thesis using a assms(2) by (intro tdiv_between M) simp_all
  qed
  show ?thesis
  proof (cases "0 \<le> d")
    case True
    with pos [of d] show ?thesis by simp
  next
    case False
    have "d * MULTIPLIER = - (- d * MULTIPLIER)" by simp
    then have "tdiv (tdiv (d * MULTIPLIER) lx * i) MULTIPLIER = - tdiv (tdiv (- d * MULTIPLIER) lx * i) MULTIPLIER"
      using tdiv_neg [OF assms(1)] tdiv_neg [OF M] by (metis mult_minus_left)
    with pos [of "- d"] False show ?thesis by simp
  qed
qed

definition line_points :: "int \<Rightarrow> int \<Rightarrow> int \<Rightarrow> int \<Rightarrow> (int \<times> int) set" where
  "line_points x0 y0 x1 y1 =
     (let lx = x1 - x0 + 1; a = tdiv ((y1 - y0) * MULTIPLIER) lx;
          ya = (\<lambda>i. y0 + tdiv (a * i) MULTIPLIER)
      in (\<Union>i \<in> {0..lx - 1}. {x0 + i} \<times> {min (ya i) (ya (i + 1))..max (ya i) (ya (i + 1))})
         \<union> ({(x0, y0)} \<union> {(x1, y1)}))"

lemma paints_line_right: "paints (\<lambda>_. Some c) (line_points x0 y0 x1 y1) (draw_line_right c x0 y0 x1 y1)"
proof -
  have "set [0..x1 - x0 + 1 - 1] = {0..x1 - x0 + 1 - 1}" by simp
  then show ?thesis
    unfolding line_points_def draw_line_right_def Let_def
    by (intro paints_then paints_point) (simp_all only: flip: \<open>set [0..x1 - x0 + 1 - 1] = _\<close>,
      intro paints_for_each paints_column)
qed

lemma line_points_box:
  assumes "x0 \<le> x1"
  shows "line_points x0 y0 x1 y1 \<subseteq> {x0..x1} \<times> {min y0 y1..max y0 y1}"
proof
  fix p assume p: "p \<in> line_points x0 y0 x1 y1"
  let ?lx = "x1 - x0 + 1"
  let ?y = "\<lambda>i. tdiv (tdiv ((y1 - y0) * MULTIPLIER) ?lx * i) MULTIPLIER"
  have s: "min 0 (y1 - y0) \<le> ?y i \<and> ?y i \<le> max 0 (y1 - y0)" if "0 \<le> i" "i \<le> ?lx" for i
    using slope_between [of ?lx i "y1 - y0"] that assms by simp
  show "p \<in> {x0..x1} \<times> {min y0 y1..max y0 y1}"
  proof (cases "p = (x0, y0) \<or> p = (x1, y1)")
    case True
    then show ?thesis using assms by auto
  next
    case False
    then obtain i where i: "0 \<le> i" "i \<le> ?lx - 1" "fst p = x0 + i"
        "min (y0 + ?y i) (y0 + ?y (i + 1)) \<le> snd p" "snd p \<le> max (y0 + ?y i) (y0 + ?y (i + 1))"
      using p by (auto simp: line_points_def Let_def)
    with s [of i] s [of "i + 1"] show ?thesis
      by (cases p) (auto simp: min_def max_def split: if_splits)
  qed
qed

lemma line_points_columns: "x0 \<le> x \<Longrightarrow> x \<le> x1 \<Longrightarrow> \<exists>y. (x, y) \<in> line_points x0 y0 x1 y1"
  unfolding line_points_def Let_def
  by (intro exI UnI1 UN_I [of "x - x0"]) (auto intro: min.cobounded1 max.cobounded1)

lemma bitmap_draw_line_ok:
  assumes "bm_ok b" "inside b (x0, y0)" "inside b (x1, y1)"
  shows "\<exists>b' S. bitmap_draw_line c x0 y0 x1 y1 b = (b', Inr ()) \<and> painted (\<lambda>_. Some c) S b b' \<and>
    {(x0, y0), (x1, y1)} \<subseteq> S \<and> S \<subseteq> {min x0 x1..max x0 x1} \<times> {min y0 y1..max y0 y1} \<and>
    (\<forall>x \<in> {min x0 x1..max x0 x1}. \<exists>y. (x, y) \<in> S)"
proof -
  have r: "line_in_range b x0 y0 x1 y1"
    using assms in_range_inside [of b x0 y0] in_range_inside [of b x1 y1] by (simp add: line_in_range_def)
  have line: ?thesis
    if "paints (\<lambda>_. Some c) S m" "bitmap_draw_line c x0 y0 x1 y1 b = m b" "{(x0, y0), (x1, y1)} \<subseteq> S"
      "S \<subseteq> {min x0 x1..max x0 x1} \<times> {min y0 y1..max y0 y1}" "\<forall>x \<in> {min x0 x1..max x0 x1}. \<exists>y. (x, y) \<in> S" for S m
  proof -
    have "inside b p" if "p \<in> S" for p
      using subsetD [OF \<open>S \<subseteq> _\<close> that] assms(2,3) by (cases p) (auto simp: inside_def)
    with paintsD [OF that(1) assms(1)] that(2-5) show ?thesis by auto
  qed
  have ends: "{(x0, y0), (x1, y1)} \<subseteq> line_points x0 y0 x1 y1" for x0 y0 x1 y1 by (simp add: line_points_def Let_def)
  consider "x1 < x0" | "x1 = x0" | "x0 < x1" by linarith
  then show ?thesis
  proof cases
    case 1
    then show ?thesis
      using r ends [of x1 y1 x0 y0] line_points_box [of x1 x0 y1 y0] line_points_columns [of x1 _ x0 y1 y0]
      by (intro line [OF paints_line_right [of c x1 y1 x0 y0]])
        (simp_all add: bitmap_draw_line_def min.commute [of y1 y0] max.commute [of y1 y0])
  next
    case 2
    then show ?thesis
      using r by (intro line [OF paints_column [of c x0 y0 y1]]) (auto simp: bitmap_draw_line_def)
  next
    case 3
    then show ?thesis
      using r ends [of x0 y0 x1 y1] line_points_box [of x0 x1 y0 y1] line_points_columns [of x0 _ x1 y0 y1]
      by (intro line [OF paints_line_right [of c x0 y0 x1 y1]]) (simp_all add: bitmap_draw_line_def)
  qed
qed

subsection \<open>Copies are simultaneous\<close>

text \<open>
  A copy in which no pixel is read after it was written moves the old pixels; each of the three orders of
  \<open>transfer_rect\<close> has that property for the displacements it is used for.
\<close>

lemma copies_ok:
  assumes "bm_ok b" "\<forall>p \<in> set ps. stored b (sx + fst p, sy + snd p) \<and> stored b (dx + fst p, dy + snd p)"
    and "sorted_wrt (\<lambda>p q. (dx + fst p, dy + snd p) \<noteq> (sx + fst q, sy + snd q)) ps"
  shows "\<exists>b'. for_each (\<lambda>p. copy_pixel dx dy sx sy (fst p) (snd p)) ps b = (b', Inr ()) \<and>
    painted (\<lambda>(x, y). Some (pix b (sx + (x - dx), sy + (y - dy)))) ((\<lambda>p. (dx + fst p, dy + snd p)) ` set ps) b b'"
  using assms
proof (induction ps arbitrary: b)
  case Nil
  then show ?case by (simp add: painted_def)
next
  case (Cons p ps)
  let ?src = "(sx + fst p, sy + snd p)" and ?dst = "(dx + fst p, dy + snd p)"
  let ?b = "set_pix (pix b ?src) ?dst b"
  have st: "stored b ?src" "stored b ?dst" using Cons.prems(2) by simp_all
  have c: "copy_pixel dx dy sx sy (fst p) (snd p) b = (?b, Inr ())"
    using st Cons.prems(1) by (simp add: copy_pixel_def read_stored draw_stored)
  note sh = same_shape_cong [OF set_pix_shape [of b "pix b ?src" ?dst]]
  have b: "bm_ok ?b" "\<forall>p \<in> set ps. stored ?b (sx + fst p, sy + snd p) \<and> stored ?b (dx + fst p, dy + snd p)"
    "sorted_wrt (\<lambda>p q. (dx + fst p, dy + snd p) \<noteq> (sx + fst q, sy + snd q)) ps"
    using Cons.prems by (simp_all add: sh)
  obtain b' where b': "for_each (\<lambda>p. copy_pixel dx dy sx sy (fst p) (snd p)) ps ?b = (b', Inr ())"
      "painted (\<lambda>(x, y). Some (pix ?b (sx + (x - dx), sy + (y - dy)))) ((\<lambda>p. (dx + fst p, dy + snd p)) ` set ps) ?b b'"
    using Cons.IH [OF b] by blast
  have px: "pix b' r = (case ((\<lambda>(x, y). Some (pix b (sx + (x - dx), sy + (y - dy)))) |`
      ((\<lambda>p. (dx + fst p, dy + snd p)) ` set (p # ps))) r of Some x \<Rightarrow> x | None \<Rightarrow> pix b r)" if r: "stored b r" for r
  proof (cases "r \<in> (\<lambda>p. (dx + fst p, dy + snd p)) ` set ps")
    case True
    then obtain q where q: "q \<in> set ps" "r = (dx + fst q, dy + snd q)" by blast
    with Cons.prems have "stored b (sx + fst q, sy + snd q)" "(sx + fst q, sy + snd q) \<noteq> ?dst" by auto
    then have "pix ?b (sx + fst q, sy + snd q) = pix b (sx + fst q, sy + snd q)"
      using pix_set_pix [OF Cons.prems(1) st(2)] by auto
    with b'(2) r True q(2) show ?thesis by (auto simp: painted_def sh restrict_map_def)
  next
    case False
    have "stored ?b r" using r by (simp add: sh)
    with b'(2) have "pix b' r = (case ((\<lambda>(x, y). Some (pix ?b (sx + (x - dx), sy + (y - dy)))) |`
        ((\<lambda>p. (dx + fst p, dy + snd p)) ` set ps)) r of Some c \<Rightarrow> c | None \<Rightarrow> pix ?b r)"
      unfolding painted_def by blast
    with False have "pix b' r = pix ?b r" by (simp only: restrict_out not_False_eq_True option.case)
    then have "pix b' r = (if r = ?dst then pix b ?src else pix b r)"
      by (simp only: pix_set_pix [OF Cons.prems(1) st(2) r])
    with False show ?thesis by (cases "r = ?dst") (simp_all add: restrict_map_def)
  qed
  have "same_shape b b'"
    by (rule same_shape_trans [OF set_pix_shape conjunct1 [OF b'(2) [unfolded painted_def]]])
  then have "painted (\<lambda>(x, y). Some (pix b (sx + (x - dx), sy + (y - dy))))
      ((\<lambda>p. (dx + fst p, dy + snd p)) ` set (p # ps)) b b'"
    unfolding painted_def by (intro conjI allI impI px)
  then show ?case by (intro exI [of _ b']) (simp only: for_each.simps act_then_simps c b'(1) simp_thms)
qed

lemma sorted_wrt_upto: "sorted_wrt (<) [i..j]" "sorted_wrt (>) (rev [i..j])"
  by (simp_all add: sorted_wrt_rev strict_sorted_iff)

lemma grid_image:
  "(\<lambda>p. (dx + fst p, dy + snd p)) ` set (grid xs ys) = (\<Union>y \<in> set ys. \<Union>x \<in> set xs. {(dx + x, dy + y)})"
  by force

lemma copies_grid_ok:
  assumes "bm_ok b" "inside b (sx, sy)" "inside b (sx + w - 1, sy + h - 1)"
    "inside b (dx, dy)" "inside b (dx + w - 1, dy + h - 1)"
    and xs: "set xs = {0..w - 1}" "sorted_wrt Q xs" and ys: "set ys = {0..h - 1}" "sorted_wrt P ys"
    and apart: "\<And>x y x' y'. P y y' \<or> y = y' \<and> Q x x' \<Longrightarrow> (dx + x, dy + y) \<noteq> (sx + x', sy + y')"
  shows "\<exists>b'. for_each (\<lambda>y. for_each (\<lambda>x. copy_pixel dx dy sx sy x y) xs) ys b = (b', Inr ()) \<and>
    painted (\<lambda>(x, y). Some (pix b (sx + (x - dx), sy + (y - dy)))) ({dx..dx + w - 1} \<times> {dy..dy + h - 1}) b b'"
proof -
  have st: "\<forall>p \<in> set (grid xs ys). stored b (sx + fst p, sy + snd p) \<and> stored b (dx + fst p, dy + snd p)"
    using assms(2-5) xs ys by (auto intro!: inside_stored [OF assms(1)] simp: inside_def)
  have ord: "sorted_wrt (\<lambda>p q. (dx + fst p, dy + snd p) \<noteq> (sx + fst q, sy + snd q)) (grid xs ys)"
    using sorted_wrt_mono_rel [OF _ sorted_wrt_grid [OF ys(2) xs(2)]] apart by (smt (verit))
  have box: "(\<lambda>p. (dx + fst p, dy + snd p)) ` set (grid xs ys) = {dx..dx + w - 1} \<times> {dy..dy + h - 1}"
    using shifted_box [of dx dy "w - 1" "h - 1"] by (simp add: grid_image xs ys algebra_simps del: set_concat)
  show ?thesis unfolding for_each_grid using copies_ok [OF assms(1) st ord] unfolding box .
qed

lemma transfer_rect_ok:
  assumes "bm_ok b" "0 < w" "0 < h" "inside b (sx, sy)" "inside b (sx + w - 1, sy + h - 1)"
    "inside b (dx, dy)" "inside b (dx + w - 1, dy + h - 1)"
  shows "\<exists>b'. transfer_rect dx dy sx sy w h b = (b', Inr ()) \<and>
    painted (\<lambda>(x, y). Some (pix b (sx + (x - dx), sy + (y - dy)))) ({dx..dx + w - 1} \<times> {dy..dy + h - 1}) b b'"
proof -
  note copy = copies_grid_ok [OF assms(1,4-7)]
  have r: "is_in_x_range b sx" "is_in_y_range b sy" "is_in_x_range b (sx + w - 1)" "is_in_y_range b (sy + h - 1)"
    "is_in_x_range b dx" "is_in_y_range b dy" "is_in_x_range b (dx + w - 1)" "is_in_y_range b (dy + h - 1)"
    using assms(4-7) in_range_inside [OF assms(1)] by blast+
  consider (up) "dy < sy \<or> dy = sy \<and> dx < sx" | (down) "dy > sy" | (right) "dy = sy" "dx > sx" | (same) "dy = sy" "dx = sx"
    by linarith
  then show ?thesis
  proof cases
    case up
    then show ?thesis
      by (simp add: transfer_rect_def r) (rule copy [of _ "(<)" _ "(<)"], auto simp: sorted_wrt_upto)
  next
    case down
    then show ?thesis
      by (simp add: transfer_rect_def r) (rule copy [of _ "(<)" _ "(>)"], auto simp: sorted_wrt_upto)
  next
    case right
    then have "(dx + x, dy + y) \<noteq> (sx + x', sy + y')" if "y < y' \<or> y = y' \<and> x > x'" for x y x' y'
      using that by auto
    from copy [of "rev [0..w - 1]" "(>)" "[0..h - 1]" "(<)", OF _ _ _ _ this] right show ?thesis
      by (simp add: transfer_rect_def r sorted_wrt_upto)
  next
    case same
    then show ?thesis using r by (auto simp: transfer_rect_def painted_def restrict_map_def)
  qed
qed

text \<open>The part of one bitmap that lies in another one, when its corner is put at \<open>(dx, dy)\<close>.\<close>

definition clip_picture :: "bitmap \<Rightarrow> int \<Rightarrow> int \<Rightarrow> (int \<times> int \<rightharpoonup> u32)" where
  "clip_picture src dx dy = (\<lambda>(x, y). if inside src (x - dx, y - dy) then Some (pix src (x - dx, y - dy)) else None)"

lemma pixel_at_ok:
  "bm_ok b \<Longrightarrow> pixel_at b x y = Inr (if inside b (x, y) then Some (pix b (x, y)) else None)"
  using in_range_inside [of b x y] read_stored [of b x y] inside_stored [of b "(x, y)"] by (auto simp: pixel_at_def)

lemma paints_clipped:
  assumes "bm_ok src"
  shows "paints (clip_picture src dx dy) {(x, y)} (draw_clipped_pixel src dx dy x y)"
  using assms by (auto simp: paints_iff painted_def clip_picture_def draw_clipped_pixel_def pixel_at_ok act_ok_def
      draw_stored pix_set_pix inside_stored restrict_map_def)

lemma rect_intersection_ok:
  assumes "0 < rect_w r" "0 < rect_h r" "0 < rect_w s" "0 < rect_h s"
  shows "rect_intersection r s = Inr (let x0 = max (rect_x r) (rect_x s); y0 = max (rect_y r) (rect_y s);
      x1 = min (rect_x r + rect_w r) (rect_x s + rect_w s); y1 = min (rect_y r + rect_h r) (rect_y s + rect_h s)
    in if x0 < x1 \<and> y0 < y1 then Some \<lparr>rect_x = x0, rect_y = y0, rect_w = x1 - x0, rect_h = y1 - y0\<rparr> else None)"
  using assms by (simp add: rect_intersection_def frame_ranges_def scalar_range_new_def scalar_range_intersection_def
      unwrap_def Let_def)

lemma draw_bmp_clipped_eq:
  assumes "0 < bm_width src" "0 < bm_height src" "0 < bm_width dst" "0 < bm_height dst"
    and x: "x0 = max 0 dx" "x1 = min (bm_width dst) (dx + bm_width src)"
    and y: "y0 = max 0 dy" "y1 = min (bm_height dst) (dy + bm_height src)"
  shows "draw_bmp_clipped src dx dy dst = (if x0 < x1 \<and> y0 < y1
    then act_then (for_each (\<lambda>y. for_each (\<lambda>x. draw_clipped_pixel src dx dy x y) [x0..x1 - 1]) [y0..y1 - 1])
      (\<lambda>_. lift_res (Inr True)) dst
    else (dst, Inr False))"
proof -
  have "rect_intersection \<lparr>rect_x = 0, rect_y = 0, rect_w = bm_width dst, rect_h = bm_height dst\<rparr>
      \<lparr>rect_x = dx, rect_y = dy, rect_w = bm_width src, rect_h = bm_height src\<rparr> =
    Inr (if x0 < x1 \<and> y0 < y1 then Some \<lparr>rect_x = x0, rect_y = y0, rect_w = x1 - x0, rect_h = y1 - y0\<rparr> else None)"
    using assms(1-4) unfolding x y by (subst rect_intersection_ok) (simp_all add: Let_def)
  then show ?thesis
    using assms(1-4) by (simp add: draw_bmp_clipped_def rect_new_def frame_ranges_def scalar_range_new_def unwrap_def
        lift_res_def del: x y)
qed

lemma draw_bmp_clipped_ok:
  assumes "bm_ok src" "bm_ok dst" "0 < bm_width src" "0 < bm_height src" "0 < bm_width dst" "0 < bm_height dst"
  shows "\<exists>dst'. draw_bmp_clipped src dx dy dst = (dst', Inr (\<exists>p. inside dst p \<and> clip_picture src dx dy p \<noteq> None)) \<and>
    painted (clip_picture src dx dy) {p. inside dst p} dst dst'"
proof -
  let ?x0 = "max 0 dx" and ?x1 = "min (bm_width dst) (dx + bm_width src)"
  let ?y0 = "max 0 dy" and ?y1 = "min (bm_height dst) (dy + bm_height src)"
  let ?F = "clip_picture src dx dy"
  have com: "inside dst p \<and> ?F p \<noteq> None \<longleftrightarrow> p \<in> {?x0..?x1 - 1} \<times> {?y0..?y1 - 1}" for p
    by (cases p) (auto simp: clip_picture_def inside_def)
  have ex: "(\<exists>p. inside dst p \<and> ?F p \<noteq> None) \<longleftrightarrow> ?x0 < ?x1 \<and> ?y0 < ?y1"
    unfolding com ex_in_conv by auto
  have "paints ?F (\<Union>y \<in> set [?y0..?y1 - 1]. \<Union>x \<in> set [?x0..?x1 - 1]. {(x, y)})
      (for_each (\<lambda>y. for_each (\<lambda>x. draw_clipped_pixel src dx dy x y) [?x0..?x1 - 1]) [?y0..?y1 - 1])"
    by (intro paints_for_each paints_clipped assms(1))
  then have P: "paints ?F ({?x0..?x1 - 1} \<times> {?y0..?y1 - 1})
      (for_each (\<lambda>y. for_each (\<lambda>x. draw_clipped_pixel src dx dy x y) [?x0..?x1 - 1]) [?y0..?y1 - 1])"
    by (rule paints_cong) auto
  have "inside dst p" if "p \<in> {?x0..?x1 - 1} \<times> {?y0..?y1 - 1}" for p using com that by blast
  with paintsD [OF P assms(2)] obtain d where
    d: "for_each (\<lambda>y. for_each (\<lambda>x. draw_clipped_pixel src dx dy x y) [?x0..?x1 - 1]) [?y0..?y1 - 1] dst = (d, Inr ())"
      "painted ?F ({?x0..?x1 - 1} \<times> {?y0..?y1 - 1}) dst d" by blast
  have eq: "?F |` ({?x0..?x1 - 1} \<times> {?y0..?y1 - 1}) = ?F |` {p. inside dst p}"
  proof
    fix p
    show "(?F |` ({?x0..?x1 - 1} \<times> {?y0..?y1 - 1})) p = (?F |` {p. inside dst p}) p"
      using com [of p] by (cases "inside dst p"; cases "?F p") (simp_all add: restrict_map_def)
  qed
  have p: "painted ?F {p. inside dst p} dst d" using d(2) painted_cong [OF eq] by blast
  note run = draw_bmp_clipped_eq [OF assms(3-6) refl refl refl refl, of dx dy]
  show ?thesis
  proof (cases "?x0 < ?x1 \<and> ?y0 < ?y1")
    case True
    then have "draw_bmp_clipped src dx dy dst = (d, Inr True)" 
      by (simp only: run if_True simp_thms act_then_simps d(1) lift_res_def)
    with p show ?thesis unfolding ex by (intro exI [of _ d]) (simp only: True simp_thms)
  next
    case False
    have "(?F |` {p. inside dst p}) p = None" for p
    proof -
      have "\<not> (inside dst p \<and> ?F p \<noteq> None)" using False unfolding ex [symmetric] by blast
      then show ?thesis by (auto simp: restrict_map_def)
    qed
    then have "painted ?F {p. inside dst p} dst dst" by (simp add: painted_def)
    moreover have "draw_bmp_clipped src dx dy dst = (dst, Inr False)"
      using False by (simp only: run if_False simp_thms)
    ultimately show ?thesis unfolding ex by (intro exI [of _ dst]) (simp only: False simp_thms)
  qed
qed

text \<open>Since only \<open>x\<close> is checked, a point below the bitmap is written outside of its buffer.\<close>

lemma draw_point_below:
  assumes "bm_ok b" "is_in_x_range b x" "bm_height b \<le> y"
  shows "bitmap_draw_point c x y b = (b, Inl (UB ''write outside of the buffer''))"
proof -
  have "int (length (bm_pixels b)) = pixels_per_line b * bm_height b" using assms(1) by (simp add: bm_ok_def)
  also have "\<dots> \<le> pixels_per_line b * y" using assms by (intro mult_left_mono) (simp_all add: bm_ok_def)
  also have "\<dots> \<le> pixel_offset b x y" using assms(2) by (simp add: pixel_offset_def is_in_x_range_def)
  finally have "\<not> pixel_offset b x y < int (length (bm_pixels b))" by simp
  with assms(2) show ?thesis by (simp add: bitmap_draw_point_def unchecked_draw_point_def)
qed

end
