(* ===== verification/Text_Area.thy ===== *)
theory Text_Area
  imports Bitmap
begin

text \<open>
  The text area of \<open>noli/src/text_area.rs\<close>: a rectangle of a bitmap in which characters are printed at a cursor, with
  scrolling or with wrapping around.  The lemmas refine it, in the scrolling mode, to a terminal, a grid of cells with a
  cursor: every character is drawn in the cell of the cursor, the cells move up when the last line is left, no
  pixel outside of the area is touched and printing never fails.
\<close>

subsection \<open>The text area\<close>

datatype text_area_mode = Scroll_mode | Ring_mode

record text_area =
  ta_buf :: bitmap
  ta_x :: int
  ta_y :: int
  ta_w :: int
  ta_h :: int
  ta_cx :: int
  ta_cy :: int
  ta_mode :: text_area_mode
  ring_count :: nat

text \<open>A drawing routine on the bitmap of the area.\<close>

definition on_buf :: "(bitmap, unit) act \<Rightarrow> (text_area, unit) act" where
  "on_buf m t = (case m (ta_buf t) of (b, r) \<Rightarrow> (t\<lparr>ta_buf := b\<rparr>, r))"

definition clear_screen :: "(text_area, unit) act" where
  "clear_screen t = on_buf (bitmap_draw_rect 0 (ta_x t) (ta_y t) (ta_w t) (ta_h t)) t"

definition text_area_new :: "bitmap \<Rightarrow> int \<Rightarrow> int \<Rightarrow> int \<Rightarrow> int \<Rightarrow> text_area res" where
  "text_area_new buf x y w h =
     (case clear_screen \<lparr>ta_buf = buf, ta_x = x, ta_y = y, ta_w = w, ta_h = h, ta_cx = 0, ta_cy = 0,
         ta_mode = Scroll_mode, ring_count = 0\<rparr> of
        (t, Inr _) \<Rightarrow> Inr t
      | (t, Inl (Err e)) \<Rightarrow> Inl (Panic ''called `Result::unwrap()` on an `Err` value'')
      | (t, Inl f) \<Rightarrow> Inl f)"

definition set_mode :: "text_area_mode \<Rightarrow> text_area \<Rightarrow> text_area" where
  "set_mode m t = t\<lparr>ta_mode := m\<rparr>"

definition text_new_line :: "(text_area, unit) act" where
  "text_new_line t0 =
     (let t = t0\<lparr>ta_cx := 0\<rparr>
      in case ta_mode t of
           Scroll_mode \<Rightarrow>
             if (ta_cy t + 1 + 1) * 16 \<le> ta_h t then (t\<lparr>ta_cy := ta_cy t + 1\<rparr>, Inr ())
             else act_then (on_buf (transfer_rect (ta_x t) (ta_y t) (ta_x t) (ta_y t + 16) (ta_w t) (ta_cy t * 16))) (\<lambda>_.
                  on_buf (bitmap_draw_rect 0 (ta_x t) (ta_y t + ta_cy t * 16) (ta_w t) 16)) t
         | Ring_mode \<Rightarrow>
             act_then (on_buf (bitmap_draw_line (push_bit (ring_count t mod 3 * 8) 0xff) (ta_x t) (ta_y t + ta_cy t * 16)
                 (ta_x t) (ta_y t + (ta_cy t + 1) * 16 - 1))) (\<lambda>_.
             act_then (\<lambda>t. if (ta_cy t + 1 + 1) * 16 > ta_h t
                 then (case usize_add (ring_count t) 1 of
                         Inr n \<Rightarrow> (t\<lparr>ta_cy := 0, ring_count := n\<rparr>, Inr ())
                       | Inl f \<Rightarrow> (t\<lparr>ta_cy := 0\<rparr>, Inl f))
                 else (t\<lparr>ta_cy := ta_cy t + 1\<rparr>, Inr ())) (\<lambda>_.
             (\<lambda>t. on_buf (bitmap_draw_rect 0 (ta_x t) (ta_y t + ta_cy t * 16) (ta_w t) 16) t))) t)"

definition move_cursor_next :: "(text_area, unit) act" where
  "move_cursor_next t0 =
     (let t = t0\<lparr>ta_cx := ta_cx t0 + 1\<rparr>
      in if ta_cx t * 8 + 8 \<le> ta_w t then (t, Inr ()) else text_new_line t)"

definition move_cursor_prev :: "(text_area, unit) act" where
  "move_cursor_prev t = (t\<lparr>ta_cx := max 0 (ta_cx t - 1)\<rparr>, Inr ())"

definition print_char_with_color :: "font \<Rightarrow> u32 \<Rightarrow> u32 \<Rightarrow> nat \<Rightarrow> (text_area, unit) act" where
  "print_char_with_color font fg bg c t =
     (if c = 10 then text_new_line t
      else if c = 8 \<or> c = 0x7f then move_cursor_prev t
      else act_then (on_buf (bitmap_draw_char font fg (Some bg) (ta_x t + ta_cx t * 8) (ta_y t + ta_cy t * 16) c))
             (\<lambda>_. move_cursor_next) t)"

definition print_char :: "font \<Rightarrow> nat \<Rightarrow> (text_area, unit) act" where
  "print_char font c = print_char_with_color font 0xFFFFFF 0x000000 c"

definition print_string_with_color :: "font \<Rightarrow> nat list \<Rightarrow> u32 \<Rightarrow> u32 \<Rightarrow> (text_area, unit) act" where
  "print_string_with_color font s fg bg = for_each (print_char_with_color font fg bg) s"

definition print_string :: "font \<Rightarrow> nat list \<Rightarrow> (text_area, unit) act" where
  "print_string font s = print_string_with_color font s 0xFFFFFF 0x000000"

subsection \<open>The terminal\<close>

text \<open>A cell is empty or holds a character and its two colours.\<close>

type_synonym cell = "(nat \<times> u32 \<times> u32) option"

record terminal =
  cells :: "int \<Rightarrow> int \<Rightarrow> cell"
  term_col :: int
  term_row :: int

definition blank_terminal :: terminal where
  "blank_terminal = \<lparr>cells = \<lambda>_ _. None, term_col = 0, term_row = 0\<rparr>"

definition term_newline :: "int \<Rightarrow> terminal \<Rightarrow> terminal" where
  "term_newline rows T =
     (if term_row T + 1 < rows then T\<lparr>term_col := 0, term_row := term_row T + 1\<rparr>
      else T\<lparr>term_col := 0, cells := \<lambda>i j. if j < term_row T then cells T i (j + 1) else None\<rparr>)"

definition term_char :: "int \<Rightarrow> int \<Rightarrow> u32 \<Rightarrow> u32 \<Rightarrow> nat \<Rightarrow> terminal \<Rightarrow> terminal" where
  "term_char cols rows fg bg c T =
     (if c = 10 then term_newline rows T
      else if c = 8 \<or> c = 0x7f then T\<lparr>term_col := max 0 (term_col T - 1)\<rparr>
      else let T' = T\<lparr>cells := (cells T)(term_col T := (cells T (term_col T))(term_row T := Some (c, fg, bg)))\<rparr>
           in if term_col T + 1 < cols then T'\<lparr>term_col := term_col T + 1\<rparr> else term_newline rows T')"

definition cell_pixel :: "font \<Rightarrow> cell \<Rightarrow> int \<Rightarrow> int \<Rightarrow> u32" where
  "cell_pixel font k x y =
     (case k of None \<Rightarrow> 0 | Some (c, fg, bg) \<Rightarrow> if glyph_bit font c x y then fg else bg)"

definition ta_cols :: "text_area \<Rightarrow> int" where "ta_cols t = ta_w t div 8"
definition ta_rows :: "text_area \<Rightarrow> int" where "ta_rows t = ta_h t div 16"

definition ta_area :: "text_area \<Rightarrow> (int \<times> int) set" where
  "ta_area t = {ta_x t..ta_x t + ta_w t - 1} \<times> {ta_y t..ta_y t + ta_h t - 1}"

definition ta_ok :: "text_area \<Rightarrow> bool" where
  "ta_ok t \<longleftrightarrow> bm_ok (ta_buf t) \<and> inside (ta_buf t) (ta_x t, ta_y t) \<and>
     inside (ta_buf t) (ta_x t + ta_w t - 1, ta_y t + ta_h t - 1) \<and> 8 \<le> ta_w t \<and> 32 \<le> ta_h t \<and>
     0 \<le> ta_cx t \<and> ta_cx t * 8 + 8 \<le> ta_w t \<and> 0 \<le> ta_cy t \<and> (ta_cy t + 1) * 16 \<le> ta_h t"

text \<open>\<open>ta_shows font b0 t T\<close>: the area shows the terminal \<open>T\<close>, and outside of the area the bitmap is still \<open>b0\<close>.\<close>

definition ta_shows :: "font \<Rightarrow> text_area \<Rightarrow> terminal \<Rightarrow> bool" where
  "ta_shows font t T \<longleftrightarrow> term_col T = ta_cx t \<and> term_row T = ta_cy t \<and>
     (\<forall>i j x y. 0 \<le> i \<and> i < ta_cols t \<and> 0 \<le> j \<and> j < ta_rows t \<and> 0 \<le> x \<and> x < 8 \<and> 0 \<le> y \<and> y < 16 \<longrightarrow>
        pix (ta_buf t) (ta_x t + 8 * i + x, ta_y t + 16 * j + y) = cell_pixel font (cells T i j) x y)"

text \<open>\<open>ta_same t t'\<close>: the two areas are the same rectangle of bitmaps that agree outside of it.\<close>

definition ta_same :: "text_area \<Rightarrow> text_area \<Rightarrow> bool" where
  "ta_same t t' \<longleftrightarrow> ta_x t' = ta_x t \<and> ta_y t' = ta_y t \<and> ta_w t' = ta_w t \<and> ta_h t' = ta_h t \<and> ta_mode t' = ta_mode t \<and>
     same_shape (ta_buf t) (ta_buf t') \<and>
     (\<forall>p. stored (ta_buf t) p \<longrightarrow> p \<notin> ta_area t \<longrightarrow> pix (ta_buf t') p = pix (ta_buf t) p)"

lemma ta_same_refl [simp]: "ta_same t t"
  by (simp add: ta_same_def)

lemma ta_same_trans:
  assumes "ta_same t u" "ta_same u v"
  shows "ta_same t v"
proof -
  have s: "same_shape (ta_buf t) (ta_buf u)" "same_shape (ta_buf u) (ta_buf v)"
    using assms by (simp_all add: ta_same_def)
  show ?thesis
    using assms same_shape_trans [OF s] by (auto simp: ta_same_def ta_area_def same_shape_cong(3) [OF s(1)])
qed

lemma on_buf_ok [simp]: "m (ta_buf t) = (b, Inr ()) \<Longrightarrow> on_buf m t = (t\<lparr>ta_buf := b\<rparr>, Inr ())"
  by (simp add: on_buf_def)

lemma area_inside: "ta_ok t \<Longrightarrow> p \<in> ta_area t \<Longrightarrow> inside (ta_buf t) p"
  by (cases p) (auto simp: ta_ok_def ta_area_def inside_def)

lemma cell_in_area:
  assumes "ta_ok t" "0 \<le> i" "i < ta_cols t" "0 \<le> j" "j < ta_rows t" "0 \<le> x" "x < 8" "0 \<le> y" "y < 16"
  shows "(ta_x t + 8 * i + x, ta_y t + 16 * j + y) \<in> ta_area t"
proof -
  have "8 * i + 8 \<le> ta_w t" "16 * j + 16 \<le> ta_h t" using assms by (auto simp: ta_cols_def ta_rows_def)
  with assms show ?thesis by (auto simp: ta_area_def)
qed

text \<open>What a drawing inside of the area does to the cells.\<close>

lemma painted_same:
  assumes "painted F D (ta_buf t) b" "D \<subseteq> ta_area t"
  shows "ta_same t (t\<lparr>ta_buf := b, ta_cx := cx, ta_cy := cy, ring_count := r\<rparr>)"
  using paintedD(1) [OF assms(1)] paintedD(2) [OF assms(1)] assms(2) by (auto simp: ta_same_def)

lemma ta_ok_update:
  "ta_ok t \<Longrightarrow> same_shape (ta_buf t) b \<Longrightarrow> 0 \<le> cx \<Longrightarrow> cx * 8 + 8 \<le> ta_w t \<Longrightarrow> 0 \<le> cy \<Longrightarrow> (cy + 1) * 16 \<le> ta_h t \<Longrightarrow>
   ta_ok (t\<lparr>ta_buf := b, ta_cx := cx, ta_cy := cy, ring_count := r\<rparr>)"
  by (simp add: ta_ok_def same_shape_cong)

text \<open>The relation between the area and the terminal it shows.\<close>

definition ta_sim :: "font \<Rightarrow> text_area \<Rightarrow> text_area \<Rightarrow> terminal \<Rightarrow> bool" where
  "ta_sim font t0 t T \<longleftrightarrow> ta_ok t \<and> ta_mode t = Scroll_mode \<and> ta_same t0 t \<and> ta_shows font t T"

lemma scroll_pixels:
  assumes ok: "ta_ok t" and cy: "0 < ta_cy t"
  shows "\<exists>b. act_then (on_buf (transfer_rect (ta_x t) (ta_y t) (ta_x t) (ta_y t + 16) (ta_w t) (ta_cy t * 16))) (\<lambda>_.
      on_buf (bitmap_draw_rect 0 (ta_x t) (ta_y t + ta_cy t * 16) (ta_w t) 16)) t = (t\<lparr>ta_buf := b\<rparr>, Inr ()) \<and>
    same_shape (ta_buf t) b \<and>
    (\<forall>p. stored (ta_buf t) p \<longrightarrow> p \<notin> ta_area t \<longrightarrow> pix b p = pix (ta_buf t) p) \<and>
    (\<forall>x y. ta_x t \<le> x \<longrightarrow> x < ta_x t + ta_w t \<longrightarrow> ta_y t \<le> y \<longrightarrow> y < ta_y t + ta_cy t * 16 \<longrightarrow>
       pix b (x, y) = pix (ta_buf t) (x, y + 16)) \<and>
    (\<forall>x y. ta_x t \<le> x \<longrightarrow> x < ta_x t + ta_w t \<longrightarrow> ta_y t + ta_cy t * 16 \<le> y \<longrightarrow> y < ta_y t + ta_cy t * 16 + 16 \<longrightarrow>
       pix b (x, y) = 0)"
proof -
  let ?D = "{ta_x t..ta_x t + ta_w t - 1} \<times> {ta_y t..ta_y t + ta_cy t * 16 - 1}"
  let ?E = "{ta_x t..ta_x t + ta_w t - 1} \<times> {ta_y t + ta_cy t * 16..ta_y t + ta_cy t * 16 + 16 - 1}"
  note bounds = ok [unfolded ta_ok_def inside_def fst_conv snd_conv]
  obtain b1 where b1: "transfer_rect (ta_x t) (ta_y t) (ta_x t) (ta_y t + 16) (ta_w t) (ta_cy t * 16) (ta_buf t) = (b1, Inr ())"
      "painted (\<lambda>(x, y). Some (pix (ta_buf t) (ta_x t + (x - ta_x t), ta_y t + 16 + (y - ta_y t)))) ?D (ta_buf t) b1"
    using transfer_rect_ok [of "ta_buf t" "ta_w t" "ta_cy t * 16" "ta_x t" "ta_y t + 16" "ta_x t" "ta_y t"] bounds cy
    by (auto simp: inside_def)
  note s1 = paintedD(1) [OF b1(2)]
  obtain b where b: "bitmap_draw_rect 0 (ta_x t) (ta_y t + ta_cy t * 16) (ta_w t) 16 b1 = (b, Inr ())"
      "painted (\<lambda>_. Some 0) ?E b1 b"
  proof -
    have "bm_ok b1" "inside b1 (ta_x t, ta_y t + ta_cy t * 16)"
        "inside b1 (ta_x t + ta_w t - 1, ta_y t + ta_cy t * 16 + 16 - 1)"
      using bounds by (simp_all add: same_shape_cong [OF s1], simp_all add: inside_def)
    with bounds bitmap_draw_rect_ok [of b1 "ta_w t" 16 "ta_x t" "ta_y t + ta_cy t * 16" 0] that show ?thesis by auto
  qed
  have st: "stored (ta_buf t) (x, y)" if "(x, y) \<in> ta_area t" for x y
    using area_inside [OF ok that] inside_stored ok by (simp add: ta_ok_def)
  have "pix b p = pix (ta_buf t) p" if "stored (ta_buf t) p" "p \<notin> ta_area t" for p
    using paintedD(2) [OF b1(2) that(1)] paintedD(2) [OF b(2), of p] that bounds
    by (cases p) (auto simp: same_shape_cong [OF s1] ta_area_def)
  moreover have "pix b (x, y) = pix (ta_buf t) (x, y + 16)"
    if "ta_x t \<le> x" "x < ta_x t + ta_w t" "ta_y t \<le> y" "y < ta_y t + ta_cy t * 16" for x y
    using paintedD(3) [OF b1(2), of "(x, y)"] paintedD(2) [OF b(2), of "(x, y)"] st [of x y] that bounds
    by (simp add: same_shape_cong [OF s1] ta_area_def add.commute)
  moreover have "pix b (x, y) = 0" if "ta_x t \<le> x" "x < ta_x t + ta_w t"
      "ta_y t + ta_cy t * 16 \<le> y" "y < ta_y t + ta_cy t * 16 + 16" for x y
    using paintedD(3) [OF b(2), of "(x, y)"] st [of x y] that bounds
    by (simp add: same_shape_cong [OF s1] ta_area_def)
  ultimately show ?thesis
    using b1(1) b(1) same_shape_trans [OF s1 paintedD(1) [OF b(2)]] by (intro exI [of _ b]) simp
qed

lemma ta_simD:
  assumes "ta_sim font t0 t T"
  shows "ta_ok t" "ta_mode t = Scroll_mode" "ta_same t0 t" "term_col T = ta_cx t" "term_row T = ta_cy t"
    "ta_rows t0 = ta_rows t" "ta_cols t0 = ta_cols t"
    "\<And>i j x y. 0 \<le> i \<Longrightarrow> i < ta_cols t \<Longrightarrow> 0 \<le> j \<Longrightarrow> j < ta_rows t \<Longrightarrow> 0 \<le> x \<Longrightarrow> x < 8 \<Longrightarrow> 0 \<le> y \<Longrightarrow> y < 16 \<Longrightarrow>
      pix (ta_buf t) (ta_x t + 8 * i + x, ta_y t + 16 * j + y) = cell_pixel font (cells T i j) x y"
proof -
  have s: "ta_ok t" "ta_mode t = Scroll_mode" "ta_same t0 t" "ta_shows font t T" using assms by (simp_all add: ta_sim_def)
  show "ta_ok t" "ta_mode t = Scroll_mode" "ta_same t0 t" by fact+
  show "ta_rows t0 = ta_rows t" "ta_cols t0 = ta_cols t" using s(3) by (simp_all add: ta_same_def ta_rows_def ta_cols_def)
qed (use assms in \<open>simp_all add: ta_sim_def ta_shows_def\<close>)

lemma row_room: "ta_cy t + 1 < ta_rows t \<longleftrightarrow> (ta_cy t + 1 + 1) * 16 \<le> ta_h t"
  and col_room: "ta_cx t + 1 < ta_cols t \<longleftrightarrow> (ta_cx t + 1) * 8 + 8 \<le> ta_w t"
  by (auto simp: ta_rows_def ta_cols_def)

lemma ta_sim_cursor:
  assumes "ta_sim font t0 t T" "0 \<le> cx" "cx * 8 + 8 \<le> ta_w t" "0 \<le> cy" "(cy + 1) * 16 \<le> ta_h t"
  shows "ta_sim font t0 (t\<lparr>ta_cx := cx, ta_cy := cy\<rparr>) (T\<lparr>term_col := cx, term_row := cy\<rparr>)"
proof -
  note sim = ta_simD [OF assms(1)]
  have "ta_ok (t\<lparr>ta_cx := cx, ta_cy := cy\<rparr>)" using sim(1) assms(2-5) by (simp add: ta_ok_def)
  moreover have "ta_same t0 (t\<lparr>ta_cx := cx, ta_cy := cy\<rparr>)" using sim(3) by (simp add: ta_same_def)
  moreover have "ta_shows font (t\<lparr>ta_cx := cx, ta_cy := cy\<rparr>) (T\<lparr>term_col := cx, term_row := cy\<rparr>)"
    using sim(8) by (simp add: ta_shows_def ta_rows_def ta_cols_def)
  ultimately show ?thesis using sim(2) by (simp add: ta_sim_def)
qed

lemma ta_sim_col:
  assumes "ta_sim font t0 t T" "0 \<le> cx" "cx * 8 + 8 \<le> ta_w t"
  shows "ta_sim font t0 (t\<lparr>ta_cx := cx\<rparr>) (T\<lparr>term_col := cx\<rparr>)"
proof -
  note sim = ta_simD [OF assms(1)]
  have "t\<lparr>ta_cx := cx, ta_cy := ta_cy t\<rparr> = t\<lparr>ta_cx := cx\<rparr>" by simp
  moreover have "T\<lparr>term_col := cx, term_row := ta_cy t\<rparr> = T\<lparr>term_col := cx\<rparr>" using sim(5) by (cases T) simp
  ultimately show ?thesis
    using ta_sim_cursor [OF assms, of "ta_cy t"] sim(1) by (simp add: ta_ok_def)
qed

lemma newline_sim:
  assumes "ta_sim font t0 (t\<lparr>ta_cx := 0\<rparr>) (T\<lparr>term_col := 0\<rparr>)"
  shows "\<exists>t'. text_new_line t = (t', Inr ()) \<and> ta_sim font t0 t' (term_newline (ta_rows t0) T)"
proof -
  let ?t = "t\<lparr>ta_cx := 0\<rparr>"
  note sim = ta_simD [OF assms]
  have rows: "ta_rows t0 = ta_rows t" using sim(6) by (simp add: ta_rows_def)
  show ?thesis
  proof (cases "ta_cy t + 1 < ta_rows t")
    case True
    have "ta_sim font t0 (t\<lparr>ta_cx := 0, ta_cy := ta_cy t + 1\<rparr>) (T\<lparr>term_col := 0, term_row := ta_cy t + 1\<rparr>)"
      using ta_sim_cursor [OF assms, of 0 "ta_cy t + 1"] sim(1) True by (simp add: row_room ta_ok_def)
    with sim(2,5) True True [unfolded row_room] rows show ?thesis by (simp add: text_new_line_def term_newline_def)
  next
    case False
    have cy: "0 < ta_cy ?t" "ta_cy t + 1 = ta_rows t" using False sim(1) by (auto simp: ta_ok_def ta_rows_def)
    obtain b where b: "act_then (on_buf (transfer_rect (ta_x t) (ta_y t) (ta_x t) (ta_y t + 16) (ta_w t) (ta_cy t * 16))) (\<lambda>_.
        on_buf (bitmap_draw_rect 0 (ta_x t) (ta_y t + ta_cy t * 16) (ta_w t) 16)) ?t = (?t\<lparr>ta_buf := b\<rparr>, Inr ())"
      and sh: "same_shape (ta_buf t) b"
      and out: "\<And>p. stored (ta_buf t) p \<Longrightarrow> p \<notin> ta_area ?t \<Longrightarrow> pix b p = pix (ta_buf t) p"
      and up: "\<And>x y. ta_x t \<le> x \<Longrightarrow> x < ta_x t + ta_w t \<Longrightarrow> ta_y t \<le> y \<Longrightarrow> y < ta_y t + ta_cy t * 16 \<Longrightarrow>
          pix b (x, y) = pix (ta_buf t) (x, y + 16)"
      and new: "\<And>x y. ta_x t \<le> x \<Longrightarrow> x < ta_x t + ta_w t \<Longrightarrow> ta_y t + ta_cy t * 16 \<le> y \<Longrightarrow> y < ta_y t + ta_cy t * 16 + 16 \<Longrightarrow>
          pix b (x, y) = 0"
      using scroll_pixels [OF sim(1) cy(1)] by auto
    have "text_new_line t = (?t\<lparr>ta_buf := b\<rparr>, Inr ())"
      using b False sim(2) by (simp add: text_new_line_def row_room)
    moreover have "ta_same ?t (?t\<lparr>ta_buf := b\<rparr>)" using sh out by (simp add: ta_same_def)
    moreover have "ta_ok (?t\<lparr>ta_buf := b\<rparr>)" using sim(1) sh by (simp add: ta_ok_def same_shape_cong)
    moreover have "ta_shows font (?t\<lparr>ta_buf := b\<rparr>) (term_newline (ta_rows t0) T)"
    proof -
      have "pix b (ta_x t + 8 * i + x, ta_y t + 16 * j + y) =
          cell_pixel font (if j < ta_cy t then cells T i (j + 1) else None) x y"
        if "0 \<le> i" "i < ta_cols t" "0 \<le> j" "j < ta_rows t" "0 \<le> x" "x < 8" "0 \<le> y" "y < 16" for i j x y
      proof (cases "j < ta_cy t")
        case True
        have room: "8 * i + x < ta_w t" using that by (simp add: ta_cols_def)
        with True show ?thesis
          using up [of "ta_x t + 8 * i + x" "ta_y t + 16 * j + y"] sim(8) [of i "j + 1" x y] that cy(2) room
          by (simp add: ta_rows_def ta_cols_def algebra_simps)
      next
        case False
        then have "j = ta_cy t" using that cy(2) by simp
        then show ?thesis
          using new [of "ta_x t + 8 * i + x" "ta_y t + 16 * j + y"] that
          by (simp add: cell_pixel_def ta_cols_def)
      qed
      moreover have "term_newline (ta_rows t0) T =
          T\<lparr>term_col := 0, cells := \<lambda>i j. if j < ta_cy t then cells T i (j + 1) else None\<rparr>"
        using sim(5) cy(2) by (simp add: term_newline_def rows)
      ultimately show ?thesis using sim(5) by (simp add: ta_shows_def ta_rows_def ta_cols_def)
    qed
    ultimately show ?thesis using ta_same_trans [OF sim(3)] sim(2) by (auto simp: ta_sim_def)
  qed
qed

lemma draw_char_sim:
  assumes "ta_sim font t0 t T"
  shows "\<exists>b. bitmap_draw_char font fg (Some bg) (ta_x t + ta_cx t * 8) (ta_y t + ta_cy t * 16) c (ta_buf t) = (b, Inr ()) \<and>
    ta_sim font t0 (t\<lparr>ta_buf := b\<rparr>)
      (T\<lparr>cells := (cells T)(ta_cx t := (cells T (ta_cx t))(ta_cy t := Some (c, fg, bg)))\<rparr>)"
proof -
  note sim = ta_simD [OF assms]
  note bounds = sim(1) [unfolded ta_ok_def inside_def fst_conv snd_conv]
  let ?px = "ta_x t + ta_cx t * 8" and ?py = "ta_y t + ta_cy t * 16"
  let ?D = "{?px..?px + 7} \<times> {?py..?py + 15}"
  obtain b where b: "bitmap_draw_char font fg (Some bg) ?px ?py c (ta_buf t) = (b, Inr ())"
      "painted (char_picture font 1 fg (Some bg) ?px ?py c) ?D (ta_buf t) b"
    using bitmap_draw_char_ok [of "ta_buf t" ?px ?py font fg "Some bg" c] bounds by (auto simp: inside_def)
  have "?D \<subseteq> ta_area t" using bounds by (auto simp: ta_area_def)
  then have "ta_same t (t\<lparr>ta_buf := b\<rparr>)"
    using painted_same [OF b(2), where cx = "ta_cx t" and cy = "ta_cy t" and r = "ring_count t"] by simp
  with ta_same_trans [OF sim(3)] have same: "ta_same t0 (t\<lparr>ta_buf := b\<rparr>)" .
  have ok: "ta_ok (t\<lparr>ta_buf := b\<rparr>)" using sim(1) paintedD(1) [OF b(2)] by (simp add: ta_ok_def same_shape_cong)
  have "pix b (ta_x t + 8 * i + x, ta_y t + 16 * j + y) =
      cell_pixel font (if i = ta_cx t \<and> j = ta_cy t then Some (c, fg, bg) else cells T i j) x y"
    if "0 \<le> i" "i < ta_cols t" "0 \<le> j" "j < ta_rows t" "0 \<le> x" "x < 8" "0 \<le> y" "y < 16" for i j x y
  proof -
    let ?p = "(ta_x t + 8 * i + x, ta_y t + 16 * j + y)"
    have st: "stored (ta_buf t) ?p"
      using area_inside [OF sim(1) cell_in_area [OF sim(1) that]] bounds inside_stored by blast
    show ?thesis
    proof (cases "i = ta_cx t \<and> j = ta_cy t")
      case True
      then have "?p \<in> ?D" using that by auto
      with True paintedD(3) [OF b(2) st] show ?thesis by (simp add: char_picture_def cell_pixel_def)
    next
      case False
      then have "?p \<notin> ?D" using that by auto
      with False paintedD(2) [OF b(2) st] sim(8) that show ?thesis by auto
    qed
  qed
  then have "ta_shows font (t\<lparr>ta_buf := b\<rparr>)
      (T\<lparr>cells := (cells T)(ta_cx t := (cells T (ta_cx t))(ta_cy t := Some (c, fg, bg)))\<rparr>)"
    using sim(4,5) by (auto simp: ta_shows_def ta_rows_def ta_cols_def)
  with b(1) ok same sim(2) show ?thesis by (simp add: ta_sim_def)
qed

lemma print_char_sim:
  assumes "ta_sim font t0 t T"
  shows "\<exists>t'. print_char_with_color font fg bg c t = (t', Inr ()) \<and>
    ta_sim font t0 t' (term_char (ta_cols t0) (ta_rows t0) fg bg c T)"
proof -
  note sim = ta_simD [OF assms]
  consider (nl) "c = 10" | (bs) "c = 8 \<or> c = 0x7f" | (other) "c \<noteq> 10" "c \<noteq> 8" "c \<noteq> 0x7f" by blast
  then show ?thesis
  proof cases
    case nl
    have "ta_sim font t0 (t\<lparr>ta_cx := 0\<rparr>) (T\<lparr>term_col := 0\<rparr>)"
      using ta_sim_col [OF assms, of 0] sim(1) by (simp add: ta_ok_def)
    from newline_sim [OF this] nl show ?thesis by (simp add: print_char_with_color_def term_char_def)
  next
    case bs
    have "ta_sim font t0 (t\<lparr>ta_cx := max 0 (ta_cx t - 1)\<rparr>) (T\<lparr>term_col := max 0 (ta_cx t - 1)\<rparr>)"
      using ta_sim_col [OF assms, of "max 0 (ta_cx t - 1)"] sim(1) by (simp add: ta_ok_def max_def)
    with bs sim(4) show ?thesis by (auto simp: print_char_with_color_def term_char_def move_cursor_prev_def)
  next
    case other
    obtain b where b: "bitmap_draw_char font fg (Some bg) (ta_x t + ta_cx t * 8) (ta_y t + ta_cy t * 16) c (ta_buf t) = (b, Inr ())"
      and sim': "ta_sim font t0 (t\<lparr>ta_buf := b\<rparr>)
        (T\<lparr>cells := (cells T)(ta_cx t := (cells T (ta_cx t))(ta_cy t := Some (c, fg, bg)))\<rparr>)"
      using draw_char_sim [OF assms] by blast
    let ?T = "T\<lparr>cells := (cells T)(ta_cx t := (cells T (ta_cx t))(ta_cy t := Some (c, fg, bg)))\<rparr>"
    note s' = ta_simD [OF sim']
    show ?thesis
    proof (cases "ta_cx t + 1 < ta_cols t")
      case True
      with ta_sim_col [OF sim', of "ta_cx t + 1"] sim(1)
      have "ta_sim font t0 (t\<lparr>ta_buf := b, ta_cx := ta_cx t + 1\<rparr>) (?T\<lparr>term_col := ta_cx t + 1\<rparr>)"
        by (simp add: ta_ok_def col_room)
      with other b True True [unfolded col_room] sim(4,5,7) show ?thesis
        by (simp add: print_char_with_color_def term_char_def move_cursor_next_def Let_def)
    next
      case False
      have "ta_sim font t0 (t\<lparr>ta_buf := b, ta_cx := 0\<rparr>) (?T\<lparr>term_col := 0\<rparr>)"
        using ta_sim_col [OF sim', of 0] sim(1) by (simp add: ta_ok_def)
      with newline_sim [of font t0 "t\<lparr>ta_buf := b, ta_cx := ta_cx t + 1\<rparr>" ?T] other b False False [unfolded col_room] sim(4,5,7) show ?thesis
        by (simp add: print_char_with_color_def term_char_def move_cursor_next_def Let_def)
    qed
  qed
qed

interpretation ta: simulation "print_char_with_color font fg bg" "ta_sim font t0"
    "term_char (ta_cols t0) (ta_rows t0) fg bg"
  for font fg bg t0
  by unfold_locales (rule print_char_sim)

lemma print_string_sim:
  "ta_sim font t0 t T \<Longrightarrow> \<exists>t'. print_string_with_color font s fg bg t = (t', Inr ()) \<and>
     ta_sim font t0 t' (fold (term_char (ta_cols t0) (ta_rows t0) fg bg) s T)"
  unfolding print_string_with_color_def by (rule ta.run_all)

lemma text_area_new_ok:
  assumes "bm_ok b" "8 \<le> w" "32 \<le> h" "inside b (x, y)" "inside b (x + w - 1, y + h - 1)"
  shows "\<exists>t. text_area_new b x y w h = Inr t \<and> ta_sim font t t blank_terminal \<and> ta_cols t = w div 8 \<and> ta_rows t = h div 16 \<and>
    ta_area t = {x..x + w - 1} \<times> {y..y + h - 1} \<and> painted (\<lambda>_. Some 0) (ta_area t) b (ta_buf t)"
proof -
  obtain b' where b': "bitmap_draw_rect 0 x y w h b = (b', Inr ())"
      "painted (\<lambda>_. Some 0) ({x..x + w - 1} \<times> {y..y + h - 1}) b b'"
    using bitmap_draw_rect_ok [OF assms(1) _ _ assms(4,5), of 0] assms(2,3) by auto
  let ?t = "\<lparr>ta_buf = b', ta_x = x, ta_y = y, ta_w = w, ta_h = h, ta_cx = 0, ta_cy = 0, ta_mode = Scroll_mode, ring_count = 0\<rparr>"
  have t: "text_area_new b x y w h = Inr ?t"
    using b'(1) by (simp add: text_area_new_def clear_screen_def)
  have ok: "ta_ok ?t" using assms paintedD(1) [OF b'(2)] by (simp add: ta_ok_def same_shape_cong)
  have area: "ta_area ?t = {x..x + w - 1} \<times> {y..y + h - 1}" by (simp add: ta_area_def)
  have "pix b' p = 0" if "p \<in> ta_area ?t" for p
  proof -
    have "stored b p"
      using inside_stored [OF _ area_inside [OF ok that]] ok same_shape_cong(3) [OF paintedD(1) [OF b'(2)]]
      by (simp add: ta_ok_def)
    with that paintedD(3) [OF b'(2)] show ?thesis by (simp add: area)
  qed
  then have "ta_shows font ?t blank_terminal"
    using cell_in_area [OF ok] by (simp add: ta_shows_def blank_terminal_def cell_pixel_def)
  with ok have "ta_sim font ?t ?t blank_terminal" by (simp add: ta_sim_def)
  with t b'(2) area show ?thesis by (intro exI [of _ ?t]) (simp add: ta_cols_def ta_rows_def)
qed

text \<open>In the ring mode, too, a line feed never fails while the counter of rounds has room, and stays in the area.\<close>

lemma ring_newline_ok:
  assumes "ta_ok (t\<lparr>ta_cx := 0\<rparr>)" "ta_mode t = Ring_mode" "ring_count t + 1 < USIZE"
  shows "\<exists>t'. text_new_line t = (t', Inr ()) \<and> ta_ok t' \<and> ta_same t t' \<and> ring_count t' \<le> ring_count t + 1 \<and>
    ta_cy t' = (if (ta_cy t + 2) * 16 \<le> ta_h t then ta_cy t + 1 else 0)"
proof -
  note bounds = assms(1) [unfolded ta_ok_def inside_def, simplified]
  let ?c = "push_bit (ring_count t mod 3 * 8) 0xff :: u32"
  obtain b1 S where b1: "bitmap_draw_line ?c (ta_x t) (ta_y t + ta_cy t * 16) (ta_x t) (ta_y t + (ta_cy t + 1) * 16 - 1) (ta_buf t) = (b1, Inr ())"
      "painted (\<lambda>_. Some ?c) S (ta_buf t) b1"
      "S \<subseteq> {ta_x t..ta_x t} \<times> {ta_y t + ta_cy t * 16..ta_y t + (ta_cy t + 1) * 16 - 1}"
    using bitmap_draw_line_ok [of "ta_buf t" "ta_x t" "ta_y t + ta_cy t * 16" "ta_x t" "ta_y t + (ta_cy t + 1) * 16 - 1" ?c] bounds
    by (auto simp: inside_def)
  note s1 = paintedD(1) [OF b1(2)]
  define cy' where "cy' = (if (ta_cy t + 2) * 16 \<le> ta_h t then ta_cy t + 1 else 0)"
  have cy: "0 \<le> cy'" "(cy' + 1) * 16 \<le> ta_h t" using bounds by (auto simp: cy'_def)
  obtain b where b: "bitmap_draw_rect 0 (ta_x t) (ta_y t + cy' * 16) (ta_w t) 16 b1 = (b, Inr ())"
      "painted (\<lambda>_. Some 0) ({ta_x t..ta_x t + ta_w t - 1} \<times> {ta_y t + cy' * 16..ta_y t + cy' * 16 + 16 - 1}) b1 b"
  proof -
    have "bm_ok b1" "inside b1 (ta_x t, ta_y t + cy' * 16)" "inside b1 (ta_x t + ta_w t - 1, ta_y t + cy' * 16 + 16 - 1)"
      using bounds cy by (simp_all add: same_shape_cong [OF s1], simp_all add: inside_def)
    with bounds bitmap_draw_rect_ok [of b1 "ta_w t" 16 "ta_x t" "ta_y t + cy' * 16" 0] that show ?thesis by auto
  qed
  define r' where "r' = (if (ta_cy t + 2) * 16 \<le> ta_h t then ring_count t else ring_count t + 1)"
  let ?t1 = "t\<lparr>ta_buf := b1, ta_cx := 0, ta_cy := cy', ring_count := r'\<rparr>"
  let ?t' = "?t1\<lparr>ta_buf := b\<rparr>"
  have "text_new_line t = (?t', Inr ())"
    using b1(1) b(1) assms(2,3) by (cases "(ta_cy t + 2) * 16 \<le> ta_h t") (simp_all add: text_new_line_def cy'_def r'_def)
  moreover have "ta_same t ?t1" using b1(3) bounds by (intro painted_same [OF b1(2)]) (force simp: ta_area_def)
  moreover have "ta_same ?t1 ?t'"
  proof -
    have "{ta_x t..ta_x t + ta_w t - 1} \<times> {ta_y t + cy' * 16..ta_y t + cy' * 16 + 16 - 1} \<subseteq> ta_area ?t1"
      using cy by (auto simp: ta_area_def)
    with painted_same [of _ _ ?t1 b] b(2) show ?thesis by (simp add: ta_same_def)
  qed
  moreover have "ta_ok ?t'"
  proof -
    have "bm_ok b" "inside b (ta_x t, ta_y t)" "inside b (ta_x t + ta_w t - 1, ta_y t + ta_h t - 1)"
      using assms(1) same_shape_cong [OF same_shape_trans [OF s1 paintedD(1) [OF b(2)]]] by (simp_all add: ta_ok_def)
    with bounds cy show ?thesis by (simp add: ta_ok_def)
  qed
  ultimately show ?thesis using ta_same_trans [of t ?t1 ?t'] by (intro exI [of _ ?t']) (auto simp: cy'_def r'_def)
qed

end
