(* ===== verification/Mutex.thy ===== *)
theory Mutex
  imports Prelude
begin

text \<open>
  The lock of \<open>os/src/mutex.rs\<close>.  \<open>try_lock\<close>, \<open>lock\<close>, \<open>under_locked\<close> and the end of a guard are functions on the
  state of one mutex.  Under threads that run at the same time each atomic access is a step of its own: the exchange of
  the flag and the store of the line are two steps of \<open>try_lock\<close>, between which other threads may run.
  The lemmas show that at most one thread holds the lock, that only the holder changes the data, that a call of
  \<open>lock\<close> ends after at most 10000 attempts, and that it panics when the caller holds the lock already.
\<close>

subsection \<open>One thread\<close>

record 'a mutex =
  m_data :: 'a
  is_taken :: bool
  taker_line_num :: u32
  created_at_file :: string
  created_at_line :: u32

definition mutex_new :: "string \<Rightarrow> u32 \<Rightarrow> 'a \<Rightarrow> 'a mutex" where
  "mutex_new file line x =
     \<lparr>m_data = x, is_taken = False, taker_line_num = 0, created_at_file = file, created_at_line = line\<rparr>"

text \<open>\<open>compare_exchange(false, true)\<close>\<close>

definition exchange_taken :: "'a mutex \<Rightarrow> 'a mutex \<times> bool" where
  "exchange_taken m = (if is_taken m then (m, False) else (m\<lparr>is_taken := True\<rparr>, True))"

definition try_lock :: "u32 \<Rightarrow> ('a mutex, unit) act" where
  "try_lock line m =
     (case exchange_taken m of
        (m, True) \<Rightarrow> (m\<lparr>taker_line_num := line\<rparr>, Inr ())
      | (m, False) \<Rightarrow> (m, Inl (Err LockFailed)))"

fun lock_loop :: "nat \<Rightarrow> u32 \<Rightarrow> ('a mutex, unit) act" where
  "lock_loop 0 line m = (m, Inl (Panic ''Failed to lock Mutex''))"
| "lock_loop (Suc n) line m =
     (case try_lock line m of
        (m, Inr _) \<Rightarrow> (m, Inr ())
      | (m, Inl (Err _)) \<Rightarrow> lock_loop n line m
      | (m, Inl f) \<Rightarrow> (m, Inl f))"

definition LOCK_ATTEMPTS :: nat where "LOCK_ATTEMPTS = 10000"

definition mutex_lock :: "u32 \<Rightarrow> ('a mutex, unit) act" where
  "mutex_lock line = lock_loop LOCK_ATTEMPTS line"

definition guard_drop :: "'a mutex \<Rightarrow> 'a mutex" where
  "guard_drop m = m\<lparr>is_taken := False\<rparr>"

definition under_locked :: "u32 \<Rightarrow> ('a \<Rightarrow> 'a \<times> 'r res) \<Rightarrow> ('a mutex, 'r) act" where
  "under_locked line f =
     act_then (mutex_lock line) (\<lambda>_ m.
       case f (m_data m) of (x, r) \<Rightarrow> (guard_drop (m\<lparr>m_data := x\<rparr>), r))"

lemma lock_loop_free: "\<not> is_taken m \<Longrightarrow> lock_loop (Suc n) line m = (m\<lparr>is_taken := True, taker_line_num := line\<rparr>, Inr ())"
  by (simp add: try_lock_def exchange_taken_def)

lemma lock_loop_taken: "is_taken m \<Longrightarrow> lock_loop n line m = (m, Inl (Panic ''Failed to lock Mutex''))"
  by (induction n) (simp_all add: try_lock_def exchange_taken_def)

lemma mutex_lock_free: "\<not> is_taken m \<Longrightarrow> mutex_lock line m = (m\<lparr>is_taken := True, taker_line_num := line\<rparr>, Inr ())"
  using lock_loop_free [of m 9999 line] by (simp add: mutex_lock_def LOCK_ATTEMPTS_def)

lemma under_locked_free:
  assumes "\<not> is_taken m"
  shows "under_locked line f m = (m\<lparr>m_data := fst (f (m_data m)), taker_line_num := line\<rparr>, snd (f (m_data m)))"
  using mutex_lock_free [OF assms, of line] assms
  by (cases m) (simp add: under_locked_def guard_drop_def split: prod.split)

subsection \<open>Several threads\<close>

text \<open>Where a thread is: outside, with a number of attempts left, between the exchange and the store of the line, with
  the guard, or in the panic that ends an unsuccessful \<open>lock\<close>.\<close>

datatype lock_pc = Outside | Trying nat | Storing | Inside | Panicked

record 'a locking =
  shared :: "'a mutex"
  pcs :: "nat \<Rightarrow> lock_pc"

definition go :: "nat \<Rightarrow> lock_pc \<Rightarrow> 'a locking \<Rightarrow> 'a locking" where
  "go t p s = s\<lparr>pcs := (pcs s)(t := p)\<rparr>"

inductive lock_step :: "'a locking \<Rightarrow> nat \<Rightarrow> 'a locking \<Rightarrow> bool" where
  call: "pcs s t = Outside \<Longrightarrow> lock_step s t (go t (Trying LOCK_ATTEMPTS) s)"
| got: "pcs s t = Trying (Suc n) \<Longrightarrow> exchange_taken (shared s) = (m, True) \<Longrightarrow> lock_step s t (go t Storing (s\<lparr>shared := m\<rparr>))"
| missed: "pcs s t = Trying (Suc n) \<Longrightarrow> exchange_taken (shared s) = (m, False) \<Longrightarrow> lock_step s t (go t (Trying n) (s\<lparr>shared := m\<rparr>))"
| gave_up: "pcs s t = Trying 0 \<Longrightarrow> lock_step s t (go t Panicked s)"
| store: "pcs s t = Storing \<Longrightarrow> lock_step s t (go t Inside (s\<lparr>shared := (shared s)\<lparr>taker_line_num := line\<rparr>\<rparr>))"
| change: "pcs s t = Inside \<Longrightarrow> lock_step s t (s\<lparr>shared := (shared s)\<lparr>m_data := x\<rparr>\<rparr>)"
| unlock: "pcs s t = Inside \<Longrightarrow> lock_step s t (go t Outside (s\<lparr>shared := guard_drop (shared s)\<rparr>))"

inductive_cases lock_stepE: "lock_step s t s'"

inductive lock_reachable :: "'a mutex \<Rightarrow> 'a locking \<Rightarrow> bool" for m0 where
  start: "lock_reachable m0 \<lparr>shared = m0, pcs = (\<lambda>_. Outside)\<rparr>"
| more: "lock_reachable m0 s \<Longrightarrow> lock_step s t s' \<Longrightarrow> lock_reachable m0 s'"

definition holds_lock :: "'a locking \<Rightarrow> nat \<Rightarrow> bool" where
  "holds_lock s t \<longleftrightarrow> pcs s t = Storing \<or> pcs s t = Inside"

definition lock_inv :: "'a locking \<Rightarrow> bool" where
  "lock_inv s \<longleftrightarrow> (is_taken (shared s) \<longleftrightarrow> (\<exists>t. holds_lock s t)) \<and> (\<forall>t u. holds_lock s t \<longrightarrow> holds_lock s u \<longrightarrow> t = u)"

lemma holds_lock_go: "holds_lock (go t p s) u \<longleftrightarrow> (if u = t then p = Storing \<or> p = Inside else holds_lock s u)"
  by (simp add: holds_lock_def go_def)

lemma shared_go [simp]: "shared (go t p s) = shared s"
  by (simp add: go_def)

lemma holds_lock_shared [simp]: "holds_lock (s\<lparr>shared := m\<rparr>) t \<longleftrightarrow> holds_lock s t"
  by (simp add: holds_lock_def)

lemma lock_inv_cong:
  "(\<And>u. holds_lock s' u \<longleftrightarrow> holds_lock s u) \<Longrightarrow> is_taken (shared s') \<longleftrightarrow> is_taken (shared s) \<Longrightarrow> lock_inv s \<Longrightarrow> lock_inv s'"
  by (simp add: lock_inv_def)

lemma lock_step_inv:
  assumes "lock_step s t s'" "lock_inv s"
  shows "lock_inv s'"
  using assms(1)
proof cases
  case (got n m)
  with assms(2) show ?thesis
    by (auto simp: lock_inv_def holds_lock_go exchange_taken_def split: if_splits)
next
  case unlock
  then have "holds_lock s t" by (simp add: holds_lock_def)
  with unlock assms(2) show ?thesis by (auto simp: lock_inv_def holds_lock_go guard_drop_def)
qed (rule lock_inv_cong [OF _ _ assms(2)],
     auto simp: holds_lock_go holds_lock_def [of s t] exchange_taken_def split: if_splits)+

lemma lock_reachable_inv:
  assumes "lock_reachable m0 s" "\<not> is_taken m0"
  shows "lock_inv s"
  using assms(1)
proof induction
  case start
  then show ?case using assms(2) by (simp add: lock_inv_def holds_lock_def)
qed (rule lock_step_inv)

lemma only_holder_changes:
  "lock_step s t s' \<Longrightarrow> m_data (shared s') \<noteq> m_data (shared s) \<Longrightarrow> pcs s t = Inside"
  by (erule lock_stepE) (auto simp: exchange_taken_def guard_drop_def split: if_splits)

text \<open>A call makes at most 10000 attempts: the attempts left never exceed it and each attempt uses one up.\<close>

lemma attempts_bounded: "lock_reachable m0 s \<Longrightarrow> pcs s t = Trying n \<Longrightarrow> n \<le> LOCK_ATTEMPTS"
proof (induction arbitrary: n rule: lock_reachable.induct)
  case (more s u s')
  from more.hyps(2) show ?case
    using more.IH more.prems by cases (auto simp: go_def split: if_splits intro: le_SucI Suc_leD)
qed simp

end
