(* ===== verification/Util.thy ===== *)
theory Util
  imports Prelude
begin

text \<open>
  The helpers of \<open>os/src/util.rs\<close>, the bit-field accessors of \<open>os/src/volatile.rs\<close> and the
  random number generator of \<open>os/src/xorshift.rs\<close>.  Values that the source shifts and masks are
  words; sizes are naturals below \<open>2 ^ 64\<close>.  The lemmas read the bit manipulations
  as arithmetic: \<open>round_up_to_nearest_pow2\<close> is the least power of two above its argument,
  \<open>align_down\<close> rounds down to a multiple, and a field written with
  \<open>write_bits\<close> is read back by \<open>read_bits\<close> with every other bit kept.
\<close>

subsection \<open>Pages, powers of two and alignment\<close>

definition PAGE_OFFSET_BITS :: nat where "PAGE_OFFSET_BITS = 12"

definition PAGE_SIZE :: nat where "PAGE_SIZE = 2 ^ PAGE_OFFSET_BITS"

definition size_in_pages_from_bytes :: "nat \<Rightarrow> nat res" where
  "size_in_pages_from_bytes size_in_bytes =
     and_then (usize_add size_in_bytes PAGE_SIZE) (\<lambda>s.
     and_then (usize_sub s 1) (\<lambda>t. Inr (t div 2 ^ PAGE_OFFSET_BITS)))"

fun bit_length :: "nat \<Rightarrow> nat" where
  "bit_length n = (if n = 0 then 0 else Suc (bit_length (n div 2)))"

declare bit_length.simps [simp del]

definition leading_zeros :: "nat \<Rightarrow> nat" where
  "leading_zeros v = 64 - bit_length v"

definition wrapping_sub :: "nat \<Rightarrow> nat \<Rightarrow> nat" where
  "wrapping_sub a b = (a + (USIZE - b)) mod USIZE"

definition checked_shl_one :: "nat \<Rightarrow> nat option" where
  "checked_shl_one n = (if n < 64 then Some (2 ^ n) else None)"

definition round_up_to_nearest_pow2 :: "nat \<Rightarrow> nat res" where
  "round_up_to_nearest_pow2 v =
     ok_or (checked_shl_one (64 - leading_zeros (wrapping_sub v 1))) CalcOutOfRange"

text \<open>The mask \<open>x & !(align - 1)\<close> that the allocators and the page tables use.\<close>

definition align_down :: "nat \<Rightarrow> nat \<Rightarrow> nat" where
  "align_down x al = unat ((word_of_nat x :: u64) AND NOT (word_of_nat al - 1))"

lemma bit_length_0 [simp]: "bit_length 0 = 0"
  by (simp add: bit_length.simps)

lemma bit_length_pos [simp]: "0 < bit_length n \<longleftrightarrow> 0 < n"
  by (simp add: bit_length.simps [of n])

lemma bit_length_le_iff: "bit_length n \<le> k \<longleftrightarrow> n < 2 ^ k"
proof (induction n arbitrary: k rule: bit_length.induct)
  case (1 n)
  show ?case
  proof (cases k)
    case 0
    then show ?thesis by (simp add: bit_length.simps [of n])
  next
    case (Suc j)
    with 1 show ?thesis
      by (cases "n = 0") (simp_all add: bit_length.simps [of n] div_less_iff_less_mult mult.commute)
  qed
qed

lemma bit_length_bounds:
  assumes "0 < n"
  shows "2 ^ (bit_length n - 1) \<le> n" "n < 2 ^ bit_length n"
proof -
  show "n < 2 ^ bit_length n" using bit_length_le_iff [of n "bit_length n"] by simp
  have "0 < bit_length n" using assms by simp
  then have "\<not> bit_length n \<le> bit_length n - 1" by linarith
  then show "2 ^ (bit_length n - 1) \<le> n" by (simp only: bit_length_le_iff not_less)
qed

lemma wrapping_sub_simps [simp]:
  "b \<le> a \<Longrightarrow> a < USIZE \<Longrightarrow> wrapping_sub a b = a - b"
  "a < b \<Longrightarrow> b < USIZE \<Longrightarrow> wrapping_sub a b = a + USIZE - b"
proof -
  assume "b \<le> a" "a < USIZE"
  then have "a + (USIZE - b) = (a - b) + USIZE" "a - b < USIZE" by simp_all
  then show "wrapping_sub a b = a - b"
    unfolding wrapping_sub_def by (simp only: mod_add_self2 mod_less)
next
  assume "a < b" "b < USIZE"
  then have "a + (USIZE - b) = a + USIZE - b" "a + USIZE - b < USIZE" by simp_all
  then show "wrapping_sub a b = a + USIZE - b"
    unfolding wrapping_sub_def by (simp only: mod_less)
qed

lemma round_up_pow2_exact:
  assumes "0 < v" "v \<le> 2 ^ 63"
  shows "round_up_to_nearest_pow2 v = Inr (2 ^ bit_length (v - 1))"
proof -
  have ws: "wrapping_sub v 1 = v - 1"
    using assms by simp
  have le: "bit_length (v - 1) \<le> 63"
    using assms bit_length_le_iff [of "v - 1" 63] by simp
  then have "64 - leading_zeros (v - 1) = bit_length (v - 1)"
    by (simp add: leading_zeros_def)
  with ws le show ?thesis
    by (simp add: round_up_to_nearest_pow2_def checked_shl_one_def)
qed

lemma round_up_pow2_out_of_range:
  assumes "v = 0 \<or> 2 ^ 63 < v" "v < USIZE"
  shows "round_up_to_nearest_pow2 v = Inl (Err CalcOutOfRange)"
proof -
  have "2 ^ 63 \<le> wrapping_sub v 1" and "wrapping_sub v 1 < USIZE"
    using assms by auto
  then have "bit_length (wrapping_sub v 1) = 64"
    using bit_length_le_iff [of "wrapping_sub v 1" 63] bit_length_le_iff [of "wrapping_sub v 1" 64]
    by simp
  then show ?thesis
    by (simp add: round_up_to_nearest_pow2_def checked_shl_one_def leading_zeros_def)
qed

lemma round_up_pow2_Inr:
  assumes "round_up_to_nearest_pow2 v = Inr s" "v < USIZE"
  shows "\<exists>k \<le> 63. s = 2 ^ k \<and> v \<le> 2 ^ k \<and> 0 < v \<and> 2 ^ k < 2 * v"
proof -
  have "\<not> (v = 0 \<or> 2 ^ 63 < v)"
    using assms round_up_pow2_out_of_range [of v] by (metis Inl_Inr_False)
  then have v: "0 < v" "v \<le> 2 ^ 63" by simp_all
  let ?k = "bit_length (v - 1)"
  from v assms have s: "s = 2 ^ ?k" by (simp add: round_up_pow2_exact)
  have k: "?k \<le> 63" using v bit_length_le_iff [of "v - 1" 63] by simp
  have up: "v - 1 < 2 ^ ?k" using bit_length_le_iff [of "v - 1" ?k] by simp
  have "2 ^ ?k < 2 * v"
  proof (cases "v = 1")
    case False
    with v bit_length_bounds [of "v - 1"] have "2 ^ (?k - 1) \<le> v - 1" by simp
    moreover from False v have "0 < ?k" by simp
    ultimately show ?thesis using v by (cases ?k) simp_all
  qed (simp add: bit_length.simps)
  with s k up v show ?thesis by (intro exI [of _ ?k]) simp
qed

lemma unat_and_not_mask:
  "k < LENGTH('a) \<Longrightarrow> unat ((x :: 'a :: len word) AND NOT (2 ^ k - 1)) = unat x div 2 ^ k * 2 ^ k"
proof -
  have "x AND NOT (2 ^ k - 1) = push_bit k (drop_bit k x)"
    by (rule bit_word_eqI)
      (auto simp: bit_simps simp flip: mask_eq_exp_minus_1)
  moreover have "unat (push_bit k (drop_bit k x)) = unat x div 2 ^ k * 2 ^ k"
    if "k < LENGTH('a)"
  proof -
    have "unat x div 2 ^ k * 2 ^ k < 2 ^ LENGTH('a)"
      using unsigned_less [of x] by (rule le_less_trans [rotated]) simp
    then show ?thesis
      unfolding unsigned_push_bit_eq unsigned_drop_bit_eq
      by (simp add: push_bit_eq_mult drop_bit_eq_div take_bit_nat_eq_self)
  qed
  ultimately show "k < LENGTH('a) \<Longrightarrow> ?thesis" by simp
qed

lemma align_down_pow2:
  assumes "k < 64" "x < USIZE"
  shows "align_down x (2 ^ k) = x div 2 ^ k * 2 ^ k"
  using assms unat_and_not_mask [of k "word_of_nat x :: u64"]
  by (simp add: align_down_def unat_of_nat)

lemma align_down_bounds:
  assumes "k < 64" "x < USIZE"
  shows "2 ^ k dvd align_down x (2 ^ k)" "align_down x (2 ^ k) \<le> x" "x < align_down x (2 ^ k) + 2 ^ k"
  using assms dividend_less_div_times [of "2 ^ k" x] by (simp_all add: align_down_pow2)

lemma size_in_pages_exact:
  assumes "n + PAGE_SIZE < USIZE"
  shows "\<exists>p. size_in_pages_from_bytes n = Inr p \<and> n \<le> p * PAGE_SIZE \<and> p * PAGE_SIZE < n + PAGE_SIZE"
proof -
  have "(n + 4095) div 4096 * 4096 + (n + 4095) mod 4096 = n + 4095" "(n + 4095) mod 4096 < 4096"
    by (rule div_mult_mod_eq, simp)
  then have "n \<le> (n + 4095) div 4096 * 4096" "(n + 4095) div 4096 * 4096 < n + 4096"
    by linarith+
  with assms show ?thesis
    by (simp add: size_in_pages_from_bytes_def PAGE_SIZE_def PAGE_OFFSET_BITS_def add.commute)
qed

subsection \<open>Reading and writing little-endian fields\<close>

definition read_le_u16 :: "bytes \<Rightarrow> nat \<Rightarrow> u16 res" where
  "read_le_u16 data ofs =
     and_then (usize_add ofs 2) (\<lambda>e.
     and_then (slice_of data ofs e) (\<lambda>b. Inr (word_of_nat (of_le_bytes b))))"

definition read_le_u32 :: "bytes \<Rightarrow> nat \<Rightarrow> u32 res" where
  "read_le_u32 data ofs =
     and_then (usize_add ofs 4) (\<lambda>e.
     and_then (slice_of data ofs e) (\<lambda>b. Inr (word_of_nat (of_le_bytes b))))"

definition read_le_u64 :: "bytes \<Rightarrow> nat \<Rightarrow> u64 res" where
  "read_le_u64 data ofs =
     and_then (usize_add ofs 8) (\<lambda>e.
     and_then (slice_of data ofs e) (\<lambda>b. Inr (word_of_nat (of_le_bytes b))))"

text \<open>\<open>write_le_u64\<close> stores through a raw pointer: no bound is checked by the code.\<close>

definition write_le_u64 :: "bytes \<Rightarrow> nat \<Rightarrow> u64 \<Rightarrow> bytes res" where
  "write_le_u64 data ofs v =
     (if ofs + 8 \<le> length data
      then Inr (take ofs data @ le_bytes 8 (unat v) @ drop (ofs + 8) data)
      else Inl (UB ''write out of bounds''))"

definition as_mut_slice_sized :: "bytes \<Rightarrow> nat \<Rightarrow> bytes res" where
  "as_mut_slice_sized obj n =
     (if length obj < n then Inl (Err (Failed ''Cannot take mut slice longer than the object''))
      else Inr (take n obj))"

lemma read_write_le_u64:
  assumes "ofs + 8 \<le> length data" "length data < USIZE"
  shows "and_then (write_le_u64 data ofs v) (\<lambda>d. read_le_u64 d ofs) = Inr v"
proof -
  have "unat v < 2 ^ 64" using unsigned_less [of v] by simp
  with assms show ?thesis
    by (simp add: write_le_u64_def read_le_u64_def of_le_bytes_le_bytes)
qed

subsection \<open>Bit fields\<close>

definition extract_bits :: "'a :: len word \<Rightarrow> nat \<Rightarrow> nat \<Rightarrow> 'a word" where
  "extract_bits v shift width =
     (let mask = push_bit (min 63 width) (1 :: u64) - 1;
          n = shift mod 2 ^ 32;
          value = (if n < 64 then drop_bit n (ucast v :: u64) else 0) AND mask
      in if unat value < 2 ^ LENGTH('a) then ucast value else 0)"

definition write_bits :: "'a :: len word \<Rightarrow> nat \<Rightarrow> nat \<Rightarrow> 'a word \<Rightarrow> 'a word res" where
  "write_bits old shift width v =
     (if LENGTH('a) \<le> width then Inl (Panic ''shl overflow'')
      else let mask = push_bit width 1 - 1
           in if mask AND v \<noteq> v then Inl (Err (Failed ''Value out of range''))
              else if LENGTH('a) \<le> shift then Inl (Panic ''shl overflow'')
              else let mask = push_bit shift mask
                   in Inr (push_bit shift v OR (old AND NOT mask)))"

definition read_bits :: "'a :: len word \<Rightarrow> nat \<Rightarrow> nat \<Rightarrow> 'a word res" where
  "read_bits old shift width =
     (if LENGTH('a) \<le> width then Inl (Panic ''shl overflow'')
      else if LENGTH('a) \<le> shift then Inl (Panic ''shr overflow'')
      else let mask = push_bit width 1 - 1 in Inr (drop_bit shift old AND mask))"

lemma push_bit_one_minus_one: "push_bit n 1 - 1 = (mask n :: 'a :: len word)"
  by (simp add: push_bit_eq_mult mask_eq_exp_minus_1)

lemma unat_take_bit: "unat (take_bit n (w :: 'a :: len word)) = unat w mod 2 ^ n"
  by (simp add: unsigned_take_bit_eq flip: take_bit_eq_mod)

lemma unat_drop_bit: "unat (drop_bit n (w :: 'a :: len word)) = unat w div 2 ^ n"
  unfolding unsigned_drop_bit_eq by (simp add: drop_bit_eq_div take_bit_nat_eq_self)

lemma unat_less_of_length:
  "LENGTH('a) \<le> n \<Longrightarrow> unat (v :: 'a :: len word) < 2 ^ n"
  by (rule less_le_trans [OF unsigned_less]) simp

lemma word_xor_eq_0_iff: "x XOR y = 0 \<longleftrightarrow> x = (y :: 'a :: len word)"
  by (auto simp: bit_eq_iff bit_xor_iff)

lemma extract_bits_arith:
  fixes v :: "'a :: len word"
  assumes "LENGTH('a) \<le> 64" "shift < 64" "width \<le> 63"
  shows "unat (extract_bits v shift width) = unat v div 2 ^ shift mod 2 ^ width"
proof -
  let ?w = "drop_bit shift (ucast v :: u64) AND mask width"
  have "unat (ucast v :: u64) = unat v"
    using unat_less_of_length [OF assms(1), of v]
    by (simp add: unsigned_ucast_eq take_bit_nat_eq_self_iff)
  then have u: "unat ?w = unat v div 2 ^ shift mod 2 ^ width"
    by (simp add: unat_take_bit unat_drop_bit flip: take_bit_eq_mask)
  have "unat v div 2 ^ shift mod 2 ^ width \<le> unat v"
    by (meson div_le_dividend le_trans mod_less_eq_dividend)
  with u have lt: "unat ?w < 2 ^ LENGTH('a)"
    by (metis le_less_trans unsigned_less)
  then have "unat (ucast ?w :: 'a word) = unat ?w"
    by (simp only: unsigned_ucast_eq take_bit_nat_eq_self_iff)
  moreover have "shift mod 2 ^ 32 = shift" "min 63 width = width" using assms by simp_all
  ultimately show ?thesis
    using lt u assms by (simp only: extract_bits_def Let_def push_bit_one_minus_one if_True)
qed

lemma write_bits_Inr:
  fixes old :: "'a :: len word"
  shows "write_bits old shift width v = Inr new \<longleftrightarrow>
     width < LENGTH('a) \<and> shift < LENGTH('a) \<and> take_bit width v = v \<and>
     new = push_bit shift v OR (old AND NOT (push_bit shift (mask width)))"
  by (auto simp: write_bits_def Let_def push_bit_one_minus_one take_bit_eq_mask ac_simps
      simp del: push_bit_of_1)

lemma read_write_bits:
  fixes old :: "'a :: len word"
  assumes "write_bits old shift width v = Inr new" "shift + width \<le> LENGTH('a)"
  shows "read_bits new shift width = Inr v"
proof -
  from assms(1) have w: "width < LENGTH('a)" "shift < LENGTH('a)" and v: "take_bit width v = v"
    and new: "new = push_bit shift v OR (old AND NOT (push_bit shift (mask width)))"
    by (simp_all add: write_bits_Inr)
  have "drop_bit shift new AND mask width = take_bit width v"
    unfolding new using assms(2) by (intro bit_word_eqI) (auto simp: bit_simps)
  with w v show ?thesis by (simp add: read_bits_def Let_def push_bit_one_minus_one del: push_bit_of_1)
qed

lemma write_bits_frame:
  fixes old :: "'a :: len word"
  assumes "write_bits old shift width v = Inr new" "i < shift \<or> shift + width \<le> i"
  shows "bit new i = bit old i"
proof -
  from assms(1) have v: "v = take_bit width v"
    and new: "new = push_bit shift v OR (old AND NOT (push_bit shift (mask width)))"
    by (simp_all add: write_bits_Inr)
  show ?thesis unfolding new
    using assms(2) by (subst v) (auto simp: bit_simps dest: bit_imp_le_length)
qed

subsection \<open>The xorshift generator\<close>

record Xorshift = xs_x :: u64

definition xorshift_init :: Xorshift where
  "xorshift_init = \<lparr>xs_x = 88172645463325252\<rparr>"

definition xorshift_next :: "Xorshift \<Rightarrow> u64 option \<times> Xorshift" where
  "xorshift_next s =
     (let s = s\<lparr>xs_x := xs_x s XOR push_bit 7 (xs_x s)\<rparr>;
          s = s\<lparr>xs_x := xs_x s XOR drop_bit 9 (xs_x s)\<rparr>
      in (Some (xs_x s), s))"

lemma xor_push_bit_eq_0:
  fixes x :: "'a :: len word"
  assumes "0 < k" "x XOR push_bit k x = 0"
  shows "x = 0"
proof -
  from assms(2) have eq: "x = push_bit k x" by (simp add: word_xor_eq_0_iff)
  have "\<not> bit x n" for n
  proof (induction n rule: less_induct)
    case (less n)
    with \<open>0 < k\<close> show ?case by (subst eq) (auto simp: bit_push_bit_iff)
  qed
  then show ?thesis by (simp add: bit_eq_iff)
qed

lemma xor_drop_bit_eq_0:
  fixes x :: "'a :: len word"
  assumes "0 < k" "x XOR drop_bit k x = 0"
  shows "x = 0"
proof -
  from assms(2) have eq: "x = drop_bit k x" by (simp add: word_xor_eq_0_iff)
  have "\<not> bit x n" for n
  proof (induction "LENGTH('a) - n" arbitrary: n rule: less_induct)
    case (less n)
    show ?case
    proof (cases "n < LENGTH('a)")
      case True
      with \<open>0 < k\<close> have "LENGTH('a) - (k + n) < LENGTH('a) - n" by simp
      then have "\<not> bit x (k + n)" by (rule less)
      then show ?thesis by (subst eq) (simp add: bit_drop_bit_eq)
    qed (auto dest: bit_imp_le_length)
  qed
  then show ?thesis by (simp add: bit_eq_iff)
qed

lemma xorshift_next_nonzero:
  assumes "xs_x s \<noteq> 0"
  shows "xs_x (snd (xorshift_next s)) \<noteq> 0"
proof -
  let ?y = "xs_x s XOR push_bit 7 (xs_x s)"
  have "?y \<noteq> 0" using assms xor_push_bit_eq_0 [of 7 "xs_x s"] by auto
  then have "?y XOR drop_bit 9 ?y \<noteq> 0" using xor_drop_bit_eq_0 [of 9 ?y] by auto
  then show ?thesis by (simp add: xorshift_next_def Let_def)
qed

end
