(* ===== verification/Allocator.thy ===== *)
theory Allocator
  imports Util
begin

text \<open>
  The kernel heap of \<open>os/src/allocator.rs\<close>.  A \<open>Header\<close> is a 32-byte record at the start of a
  block; headers are linked through \<open>next_header\<close> and live in the memory they describe, so the
  model keeps them in a store from addresses to headers.  Addresses and sizes are naturals below
  \<open>2 ^ 64\<close>, with the overflow checks written out.  A read or write of a header that
  is not in the store is \<open>UB\<close>.

  The abstraction \<open>chain\<close> reads the linked list as a list of blocks \<open>(address, size, allocated)\<close>;
  \<open>heap_inv\<close> says that the blocks are pairwise disjoint, 32-byte aligned and inside the address
  space.  Every operation keeps it, and \<open>alloc\<close> refines first fit on the block list.
\<close>

definition HEADER_SIZE :: nat where "HEADER_SIZE = 32"

record header =
  next_header :: "nat option"
  hsize :: nat
  is_allocated :: bool
  reserved :: nat

type_synonym header_mem = "nat \<Rightarrow> header option"

record layout =
  l_size :: nat
  l_align :: nat

definition load :: "header_mem \<Rightarrow> nat \<Rightarrow> header res" where
  "load m a = (case m a of None \<Rightarrow> Inl (UB ''no header'') | Some h \<Rightarrow> Inr h)"

definition upd :: "header_mem \<Rightarrow> nat \<Rightarrow> (header \<Rightarrow> header) \<Rightarrow> header_mem res" where
  "upd m a f = and_then (load m a) (\<lambda>h. Inr (m(a \<mapsto> f h)))"

definition can_provide :: "header \<Rightarrow> nat \<Rightarrow> nat \<Rightarrow> bool res" where
  "can_provide h sz al =
     and_then (usize_add sz (HEADER_SIZE * 3)) (\<lambda>n.
     and_then (usize_add n al) (\<lambda>n. Inr (n \<le> hsize h)))"

definition end_addr :: "header_mem \<Rightarrow> nat \<Rightarrow> nat res" where
  "end_addr m self = and_then (load m self) (\<lambda>h. usize_add self (hsize h))"

definition new_from_addr :: "header_mem \<Rightarrow> nat \<Rightarrow> header_mem" where
  "new_from_addr m addr =
     m(addr \<mapsto> \<lparr>next_header = None, hsize = 0, is_allocated = False, reserved = 0\<rparr>)"

definition from_allocated_region :: "nat \<Rightarrow> nat res" where
  "from_allocated_region ptr =
     (if HEADER_SIZE \<le> ptr then Inr (ptr - HEADER_SIZE) else Inl (UB ''pointer underflow''))"

text \<open>
  \<open>Header::provide\<close>, in three steps: the header of the allocated object, the header of the
  padding behind it when there is any, and the shrinking of \<open>self\<close>.
\<close>

definition provide_object :: "header_mem \<Rightarrow> nat \<Rightarrow> nat \<Rightarrow> nat \<Rightarrow> (header_mem \<times> nat) res" where
  "provide_object m self sz ha =
     and_then (usize_add sz HEADER_SIZE) (\<lambda>hs.
     and_then (upd (new_from_addr m ha) ha (\<lambda>h. h\<lparr>is_allocated := True, hsize := hs\<rparr>)) (\<lambda>m.
     and_then (load m self) (\<lambda>s.
     and_then (upd m self (\<lambda>h. h\<lparr>next_header := None\<rparr>)) (\<lambda>m.
     and_then (upd m ha (\<lambda>h. h\<lparr>next_header := next_header s\<rparr>)) (\<lambda>m. Inr (m, hs))))))"

definition provide_padding :: "header_mem \<Rightarrow> nat \<Rightarrow> nat \<Rightarrow> nat \<Rightarrow> (header_mem \<times> nat) res" where
  "provide_padding m self ha used =
     and_then (end_addr m ha) (\<lambda>ae.
     and_then (end_addr m self) (\<lambda>se.
     if ae = se then Inr (m, used)
     else
       and_then (usize_sub se ae) (\<lambda>pad.
       and_then (upd (new_from_addr m ae) ae (\<lambda>h. h\<lparr>is_allocated := False, hsize := pad\<rparr>)) (\<lambda>m.
       and_then (usize_add used pad) (\<lambda>used.
       and_then (load m ha) (\<lambda>a.
       and_then (upd m ae (\<lambda>h. h\<lparr>next_header := next_header a\<rparr>)) (\<lambda>m.
       and_then (upd m ha (\<lambda>h. h\<lparr>next_header := Some ae\<rparr>)) (\<lambda>m. Inr (m, used)))))))))"

definition provide_shrink :: "header_mem \<Rightarrow> nat \<Rightarrow> nat \<Rightarrow> nat \<Rightarrow> header_mem res" where
  "provide_shrink m self ha used =
     and_then (load m self) (\<lambda>s.
     and_then (usize_add used HEADER_SIZE) (\<lambda>need.
     if hsize s < need then Inl (Panic ''assertion failed'')
     else
       and_then (usize_sub (hsize s) used) (\<lambda>sz.
       upd m self (\<lambda>h. h\<lparr>hsize := sz, next_header := Some ha\<rparr>))))"

definition provide :: "header_mem \<Rightarrow> nat \<Rightarrow> nat \<Rightarrow> nat \<Rightarrow> (header_mem \<times> nat option) res" where
  "provide m self req_size req_align =
     (case round_up_to_nearest_pow2 req_size of
        Inl (Err _) \<Rightarrow> Inr (m, None)
      | Inl e \<Rightarrow> Inl e
      | Inr p2 \<Rightarrow>
          let sz = max p2 HEADER_SIZE; al = max req_align HEADER_SIZE in
          and_then (load m self) (\<lambda>h.
          if is_allocated h then Inr (m, None)
          else and_then (can_provide h sz al) (\<lambda>ok.
          if \<not> ok then Inr (m, None)
          else
            and_then (end_addr m self) (\<lambda>e.
            and_then (usize_sub e sz) (\<lambda>top.
            let allocated_addr = align_down top al in
            and_then (usize_sub allocated_addr HEADER_SIZE) (\<lambda>ha.
            and_then (provide_object m self sz ha) (\<lambda>(m, used).
            and_then (provide_padding m self ha used) (\<lambda>(m, used).
            and_then (provide_shrink m self ha used) (\<lambda>m.
            Inr (m, Some allocated_addr))))))))))"

record allocator =
  first_header :: "nat option"
  amem :: header_mem

text \<open>
  The loop of \<open>alloc_with_options\<close> follows \<open>next_header\<close>; on a cyclic list it would not
  return, so it is a partial function whose result is \<open>None\<close> in that case.  The null pointer is 0.
\<close>

partial_function (option) alloc_loop ::
  "header_mem \<Rightarrow> nat option \<Rightarrow> nat \<Rightarrow> nat \<Rightarrow> ((header_mem \<times> nat) res) option" where
  "alloc_loop m hdr sz al =
     (case hdr of
        None \<Rightarrow> Some (Inr (m, 0))
      | Some e \<Rightarrow>
          (case provide m e sz al of
             Inl err \<Rightarrow> Some (Inl err)
           | Inr (m', Some p) \<Rightarrow> Some (Inr (m', p))
           | Inr (m', None) \<Rightarrow>
               (case load m' e of
                  Inl err \<Rightarrow> Some (Inl err)
                | Inr h \<Rightarrow> alloc_loop m' (next_header h) sz al)))"

declare alloc_loop.simps [code]

definition alloc_with_options :: "allocator \<Rightarrow> layout \<Rightarrow> (allocator \<times> nat) res" where
  "alloc_with_options A l =
     and_then (returned (alloc_loop (amem A) (first_header A) (l_size l) (l_align l))) (\<lambda>(m, p).
     Inr (A\<lparr>amem := m\<rparr>, p))"

definition dealloc :: "allocator \<Rightarrow> nat \<Rightarrow> layout \<Rightarrow> allocator res" where
  "dealloc A ptr lay =
     and_then (from_allocated_region ptr) (\<lambda>ha.
     and_then (upd (amem A) ha (\<lambda>h. h\<lparr>is_allocated := False\<rparr>)) (\<lambda>m. Inr (A\<lparr>amem := m\<rparr>)))"

definition add_free_from_descriptor :: "allocator \<Rightarrow> nat \<Rightarrow> nat \<Rightarrow> allocator res" where
  "add_free_from_descriptor A physical_start number_of_pages =
     (let m = new_from_addr (amem A) physical_start in
      and_then (usize_mul number_of_pages 4096) (\<lambda>n.
      and_then (upd m physical_start (\<lambda>h. h\<lparr>next_header := None, is_allocated := False, hsize := n\<rparr>)) (\<lambda>m.
      let prev_last = first_header A in
      and_then (upd m physical_start (\<lambda>h. h\<lparr>next_header := prev_last\<rparr>)) (\<lambda>m.
      Inr (A\<lparr>first_header := Some physical_start, amem := m\<rparr>)))))"

subsection \<open>Blocks and first fit on the block list\<close>

type_synonym block = "nat \<times> nat \<times> bool"

definition span :: "block \<Rightarrow> nat set" where
  "span b = {fst b ..< fst b + fst (snd b)}"

definition block_ok :: "block \<Rightarrow> bool" where
  "block_ok b \<longleftrightarrow> 32 dvd fst b \<and> 32 dvd fst (snd b) \<and> 32 \<le> fst (snd b) \<and> fst b + fst (snd b) < USIZE"

definition blocks_ok :: "block list \<Rightarrow> bool" where
  "blocks_ok bs \<longleftrightarrow> list_all block_ok bs \<and> sorted_wrt (\<lambda>b c. span b \<inter> span c = {}) bs"

definition valid_layout :: "layout \<Rightarrow> bool" where
  "valid_layout l \<longleftrightarrow> l_align l \<in> (\<lambda>k. 2 ^ k) ` {..<64} \<and> l_size l + (l_align l - 1) < 2 ^ 63"

definition carve :: "nat \<Rightarrow> nat \<Rightarrow> nat \<Rightarrow> nat \<Rightarrow> nat \<times> block list" where
  "carve a s sz al =
     (let p = align_down (a + s - sz) al; pad = a + s - (p + sz)
      in (p, [(a, p - 32 - a, False), (p - 32, sz + 32, True)] @
             (if pad = 0 then [] else [(p + sz, pad, False)])))"

definition fit :: "block \<Rightarrow> layout \<Rightarrow> (nat \<times> block list) option" where
  "fit b l =
     (case b of (a, s, f) \<Rightarrow>
        let sz = max (2 ^ bit_length (l_size l - 1)) 32; al = max (l_align l) 32
        in if l_size l = 0 \<or> f \<or> s < sz + 96 + al then None else Some (carve a s sz al))"

fun first_fit :: "block list \<Rightarrow> layout \<Rightarrow> block list \<times> nat" where
  "first_fit [] l = ([], 0)"
| "first_fit (b # bs) l =
     (case fit b l of
        Some (p, cs) \<Rightarrow> (cs @ bs, p)
      | None \<Rightarrow> (let (bs', p) = first_fit bs l in (b # bs', p)))"

primrec chain :: "header_mem \<Rightarrow> nat option \<Rightarrow> block list \<Rightarrow> bool" where
  "chain m p [] \<longleftrightarrow> p = None"
| "chain m p (b # bs) \<longleftrightarrow> p = Some (fst b) \<and>
     (\<exists>h. m (fst b) = Some h \<and> hsize h = fst (snd b) \<and> is_allocated h = snd (snd b) \<and>
          chain m (next_header h) bs)"

lemma in_span: "x \<in> span (a, s, f) \<longleftrightarrow> a \<le> x \<and> x < a + s"
  by (simp add: span_def)

lemma blocks_ok_Cons:
  "blocks_ok (b # bs) \<longleftrightarrow> block_ok b \<and> (\<forall>c\<in>set bs. span b \<inter> span c = {}) \<and> blocks_ok bs"
  by (auto simp: blocks_ok_def)

lemma addr_in_span: "block_ok b \<Longrightarrow> fst b \<in> span b"
  by (cases b) (simp add: block_ok_def in_span)

lemma chain_frame:
  "chain m p bs \<Longrightarrow> (\<And>b. b \<in> set bs \<Longrightarrow> m' (fst b) = m (fst b)) \<Longrightarrow> chain m' p bs"
  by (induction bs arbitrary: p) auto

lemma chain_unique: "chain m p bs \<Longrightarrow> chain m p cs \<Longrightarrow> bs = cs"
proof (induction bs arbitrary: p cs)
  case Nil
  then show ?case by (cases cs) simp_all
next
  case (Cons b bs)
  then show ?case by (cases cs) (auto simp: prod_eq_iff)
qed

subsection \<open>Arithmetic of one placement\<close>

lemma max_pow2_32: "\<exists>j. max (2 ^ k) 32 = (2 :: nat) ^ j \<and> 5 \<le> j \<and> j = max k 5"
proof (cases "5 \<le> k")
  case True
  then have "(2 :: nat) ^ 5 \<le> 2 ^ k" by (rule power_increasing) simp
  with True show ?thesis by (intro exI [of _ k]) (simp add: max_def)
next
  case False
  then have "(2 :: nat) ^ k \<le> 2 ^ 5" by (intro power_increasing) simp_all
  with False show ?thesis by (intro exI [of _ 5]) (simp add: max_def)
qed

lemma dvd_32_pow2: "5 \<le> j \<Longrightarrow> 32 dvd (2 :: nat) ^ j"
  using le_imp_power_dvd [of 5 j "2 :: nat"] by simp

text \<open>The sizes that \<open>provide\<close> works with are powers of two and their sum does not overflow.\<close>

lemma valid_layout_sizes:
  assumes "valid_layout l" "0 < l_size l"
  obtains i j where
    "max (2 ^ bit_length (l_size l - 1)) 32 = (2 :: nat) ^ i" "max (l_align l) 32 = 2 ^ j"
    "5 \<le> i" "5 \<le> j" "j < 63" "(2 :: nat) ^ i + 96 + 2 ^ j < USIZE" "l_size l \<le> 2 ^ i" "l_align l dvd 2 ^ j"
    "round_up_to_nearest_pow2 (l_size l) = Inr (2 ^ bit_length (l_size l - 1))"
proof -
  from assms obtain k where k: "l_align l = 2 ^ k" "k < 64" "l_size l + (2 ^ k - 1) < 2 ^ 63"
    by (auto simp: valid_layout_def)
  have "(2 :: nat) ^ k < 2 ^ 63" using k(3) assms(2) by linarith
  then have k63: "k < 63" by (simp only: power_strict_increasing_iff)
  let ?b = "bit_length (l_size l - 1)"
  have b63: "?b \<le> 63" using k(3) bit_length_le_iff [of "l_size l - 1" 63] by simp
  have le: "l_size l - 1 < 2 ^ ?b" using bit_length_le_iff [of "l_size l - 1" ?b] by simp
  from max_pow2_32 [of ?b] obtain i where i: "max (2 ^ ?b) 32 = (2 :: nat) ^ i" "5 \<le> i" "i = max ?b 5"
    by blast
  from max_pow2_32 [of k] obtain j where j: "max (2 ^ k) 32 = (2 :: nat) ^ j" "5 \<le> j" "j = max k 5"
    by blast
  have "j < 63" "i \<le> 63" using k63 b63 i j by simp_all
  then have "(2 :: nat) ^ j \<le> 2 ^ 62" "(2 :: nat) ^ i \<le> 2 ^ 63" by (intro power_increasing; simp)+
  then have sum: "(2 :: nat) ^ i + 96 + 2 ^ j < USIZE" by simp
  have "l_size l \<le> 2 ^ ?b" using le assms(2) by linarith
  also have "\<dots> \<le> 2 ^ i" using i(1) by (metis max.cobounded1)
  finally have "l_size l \<le> 2 ^ i" .
  moreover have "l_align l dvd 2 ^ j" using k j(3) by (simp add: le_imp_power_dvd)
  moreover have "round_up_to_nearest_pow2 (l_size l) = Inr (2 ^ ?b)"
    using assms(2) k(3) by (intro round_up_pow2_exact) simp_all
  ultimately show ?thesis using that i j k \<open>j < 63\<close> sum by simp
qed

lemma carve_bounds:
  assumes "32 dvd a" "32 dvd s" "a + s < USIZE" "sz = 2 ^ i" "al = 2 ^ j" "5 \<le> i" "5 \<le> j" "j < 63"
    "sz + 96 + al \<le> s" and p: "p = align_down (a + s - sz) al"
  shows "al dvd p" "a + 96 \<le> p" "p + sz \<le> a + s" "32 dvd p" "a + s - (p + sz) < al"
    "32 dvd sz"
proof -
  let ?top = "a + s - sz"
  have "?top < USIZE" using assms(3) by simp
  with p assms(5,8) align_down_bounds [of j ?top]
  have b: "al dvd p" "p \<le> ?top" "?top < p + al" by simp_all
  show "al dvd p" by (rule b)
  show "a + 96 \<le> p" "p + sz \<le> a + s" "a + s - (p + sz) < al" using b assms(9) by linarith+
  show "32 dvd p" using b(1) dvd_32_pow2 [OF assms(7)] assms(5) by (metis dvd_trans)
  show "32 dvd sz" using dvd_32_pow2 [OF assms(6)] assms(4) by simp
qed

subsection \<open>\<open>provide\<close> implements \<open>fit\<close>\<close>

lemma load_simps [simp]: "m a = Some h \<Longrightarrow> load m a = Inr h"
  by (simp add: load_def)

lemma upd_simps [simp]: "m a = Some h \<Longrightarrow> upd m a f = Inr (m(a \<mapsto> f h))"
  by (simp add: upd_def)

lemma provide_object_eval:
  assumes "m self = Some h" "ha \<noteq> self" "sz + 32 < USIZE"
  shows "provide_object m self sz ha =
    Inr (m(self \<mapsto> h\<lparr>next_header := None\<rparr>,
           ha \<mapsto> \<lparr>next_header = next_header h, hsize = sz + 32, is_allocated = True, reserved = 0\<rparr>),
         sz + 32)"
  using assms
  by (simp add: provide_object_def new_from_addr_def HEADER_SIZE_def fun_upd_twist)

lemma provide_padding_eval:
  assumes "m self = Some s" "m ha = Some g" "ha \<noteq> self"
    "self + hsize s < USIZE" "ha + hsize g \<le> self + hsize s"
    "ha + hsize g \<noteq> self" "0 < hsize g" "used + (self + hsize s - (ha + hsize g)) < USIZE"
  shows "provide_padding m self ha used =
    (let ae = ha + hsize g; pad = self + hsize s - ae
     in if pad = 0 then Inr (m, used)
        else Inr (m(ae \<mapsto> \<lparr>next_header = next_header g, hsize = pad, is_allocated = False, reserved = 0\<rparr>,
                    ha \<mapsto> g\<lparr>next_header := Some ae\<rparr>), used + pad))"
proof -
  have "end_addr m ha = Inr (ha + hsize g)" "end_addr m self = Inr (self + hsize s)"
    using assms by (simp_all add: end_addr_def)
  with assms show ?thesis
    by (simp add: provide_padding_def new_from_addr_def Let_def)
qed

lemma provide_shrink_eval:
  assumes "m self = Some s" "used + 32 \<le> hsize s" "used + 32 < USIZE"
  shows "provide_shrink m self ha used =
    Inr (m(self \<mapsto> s\<lparr>hsize := hsize s - used, next_header := Some ha\<rparr>))"
  using assms by (simp add: provide_shrink_def HEADER_SIZE_def)

text \<open>The memory after a successful placement.\<close>

definition placed :: "header_mem \<Rightarrow> nat \<Rightarrow> header \<Rightarrow> nat \<Rightarrow> nat \<Rightarrow> header_mem" where
  "placed m self h p sz =
     (let pad = self + hsize h - (p + sz) in
      (if pad = 0 then m else
         m(p + sz \<mapsto> \<lparr>next_header = next_header h, hsize = pad, is_allocated = False, reserved = 0\<rparr>))
      (p - 32 \<mapsto> \<lparr>next_header = (if pad = 0 then next_header h else Some (p + sz)),
                  hsize = sz + 32, is_allocated = True, reserved = 0\<rparr>,
       self \<mapsto> h\<lparr>hsize := p - 32 - self, next_header := Some (p - 32)\<rparr>))"

lemma provide_placed:
  assumes h: "m self = Some h" and b: "self + 96 \<le> p" "p + sz \<le> self + hsize h"
    "self + hsize h < USIZE" "0 < sz" and used: "sz + 32 < USIZE"
  shows "and_then (provide_object m self sz (p - 32)) (\<lambda>(m, used).
         and_then (provide_padding m self (p - 32) used) (\<lambda>(m, used).
         and_then (provide_shrink m self (p - 32) used) (\<lambda>m. Inr (m, Some p))))
       = Inr (placed m self h p sz, Some p)"
proof -
  define g where "g = \<lparr>next_header = next_header h, hsize = sz + 32, is_allocated = True, reserved = 0\<rparr>"
  define m1 where "m1 = m(self \<mapsto> h\<lparr>next_header := None\<rparr>, p - 32 \<mapsto> g)"
  have ne: "p - 32 \<noteq> self" "p + sz \<noteq> self" "p + sz \<noteq> p - 32" "p - 32 + (sz + 32) = p + sz"
    using b by linarith+
  have o: "provide_object m self sz (p - 32) = Inr (m1, sz + 32)"
    using provide_object_eval [of m self h "p - 32" sz] h ne(1) used by (simp add: m1_def g_def)
  define pad where "pad = self + hsize h - (p + sz)"
  define m2 where "m2 = (if pad = 0 then m1 else
      m1(p + sz \<mapsto> \<lparr>next_header = next_header h, hsize = pad, is_allocated = False, reserved = 0\<rparr>,
         p - 32 \<mapsto> g\<lparr>next_header := Some (p + sz)\<rparr>))"
  have q: "provide_padding m1 self (p - 32) (sz + 32) = Inr (m2, sz + 32 + pad)"
    using ne b h by (subst provide_padding_eval [where s = "h\<lparr>next_header := None\<rparr>" and g = g])
      (simp_all add: m1_def m2_def g_def pad_def Let_def)
  have r: "provide_shrink m2 self (p - 32) (sz + 32 + pad) =
      Inr (m2(self \<mapsto> h\<lparr>hsize := hsize h - (sz + 32 + pad), next_header := Some (p - 32)\<rparr>))"
    using ne b by (subst provide_shrink_eval [where s = "h\<lparr>next_header := None\<rparr>"])
      (auto simp: m2_def m1_def pad_def)
  have "hsize h - (sz + 32 + pad) = p - 32 - self" using b by (simp add: pad_def)
  moreover have "m2(self \<mapsto> h\<lparr>hsize := p - 32 - self, next_header := Some (p - 32)\<rparr>) = placed m self h p sz"
    using ne by (auto simp: m2_def m1_def placed_def pad_def [symmetric] g_def Let_def fun_eq_iff)
  ultimately show ?thesis using o q r by simp
qed

lemma placed_lookup:
  assumes "self + 96 \<le> p" "0 < sz"
  defines "pad h \<equiv> self + hsize h - (p + sz)"
  shows "placed m self h p sz self = Some (h\<lparr>hsize := p - 32 - self, next_header := Some (p - 32)\<rparr>)"
    "placed m self h p sz (p - 32) =
       Some \<lparr>next_header = (if pad h = 0 then next_header h else Some (p + sz)),
             hsize = sz + 32, is_allocated = True, reserved = 0\<rparr>"
    "pad h \<noteq> 0 \<Longrightarrow> placed m self h p sz (p + sz) =
       Some \<lparr>next_header = next_header h, hsize = pad h, is_allocated = False, reserved = 0\<rparr>"
    "p + sz \<le> self + hsize h \<Longrightarrow> \<not> (self \<le> x \<and> x < self + hsize h) \<Longrightarrow> placed m self h p sz x = m x"
  using assms by (auto simp: placed_def Let_def)

lemma chain_placed:
  assumes h: "m self = Some h" and c: "chain m (next_header h) bs"
    and out: "\<And>b. b \<in> set bs \<Longrightarrow> \<not> (self \<le> fst b \<and> fst b < self + hsize h)"
    and b: "self + 96 \<le> p" "p + sz \<le> self + hsize h" "0 < sz" and free: "\<not> is_allocated h"
  shows "chain (placed m self h p sz) (Some self)
    ([(self, p - 32 - self, False), (p - 32, sz + 32, True)] @
     (if self + hsize h - (p + sz) = 0 then [] else [(p + sz, self + hsize h - (p + sz), False)]) @ bs)"
proof -
  have "chain (placed m self h p sz) (next_header h) bs"
    by (rule chain_frame [OF c]) (use out placed_lookup(4) [OF b(1,3,2)] in simp)
  with placed_lookup(1-3) [OF b(1,3), where m = m and h = h] free show ?thesis
    by (cases "self + hsize h - (p + sz) = 0") simp_all
qed

lemma provide_refines_fit:
  assumes c: "chain m (Some a) ((a, s, f) # bs)" and ok: "blocks_ok ((a, s, f) # bs)"
    and l: "valid_layout l"
  shows "case fit (a, s, f) l of
      None \<Rightarrow> provide m a (l_size l) (l_align l) = Inr (m, None)
    | Some (p, cs) \<Rightarrow> \<exists>m'. provide m a (l_size l) (l_align l) = Inr (m', Some p) \<and>
        chain m' (Some a) (cs @ bs) \<and> (\<forall>x. x \<notin> span (a, s, f) \<longrightarrow> m' x = m x)"
proof (cases "l_size l = 0")
  case True
  then show ?thesis
    by (simp add: fit_def provide_def round_up_pow2_out_of_range)
next
  case False
  obtain h where h: "m a = Some h" "hsize h = s" "is_allocated h = f" "chain m (next_header h) bs"
    using c by auto
  have bk: "32 dvd a" "32 dvd s" "32 \<le> s" "a + s < USIZE"
    using ok by (simp_all add: blocks_ok_def block_ok_def)
  from False obtain i j where ij:
    "max (2 ^ bit_length (l_size l - 1)) 32 = (2 :: nat) ^ i" "max (l_align l) 32 = 2 ^ j"
    "5 \<le> i" "5 \<le> j" "j < 63" "(2 :: nat) ^ i + 96 + 2 ^ j < USIZE"
    "round_up_to_nearest_pow2 (l_size l) = Inr (2 ^ bit_length (l_size l - 1))"
    using valid_layout_sizes [OF l] by (metis gr0I)
  let ?sz = "(2 :: nat) ^ i" and ?al = "(2 :: nat) ^ j"
  have can: "can_provide h ?sz ?al = Inr (?sz + 96 + ?al \<le> s)"
    using ij(6) h(2) by (simp add: can_provide_def HEADER_SIZE_def)
  show ?thesis
  proof (cases "f \<or> s < ?sz + 96 + ?al")
    case True
    then show ?thesis using ij h can False
      by (auto simp: fit_def provide_def HEADER_SIZE_def Let_def)
  next
    case fits: False
    define p where "p = align_down (a + s - ?sz) ?al"
    have pb: "a + 96 \<le> p" "p + ?sz \<le> a + s"
      using carve_bounds [OF bk(1,2,4) refl refl ij(3,4,5) _ p_def] fits by simp_all
    have cv: "carve a s ?sz ?al = (p, [(a, p - 32 - a, False), (p - 32, ?sz + 32, True)] @
        (if a + s - (p + ?sz) = 0 then [] else [(p + ?sz, a + s - (p + ?sz), False)]))"
      by (simp add: carve_def Let_def p_def)
    have fit: "fit (a, s, f) l = Some (carve a s ?sz ?al)"
      using False fits ij by (simp add: fit_def)
    have "provide m a (l_size l) (l_align l) = Inr (placed m a h p ?sz, Some p)"
      using provide_placed [of m a h p ?sz] h bk pb ij fits can False p_def [symmetric]
      by (simp add: provide_def HEADER_SIZE_def Let_def end_addr_def)
    moreover have out: "\<not> (a \<le> fst b \<and> fst b < a + hsize h)" if "b \<in> set bs" for b
    proof -
      have "fst b \<in> span b" "span (a, s, f) \<inter> span b = {}"
        using ok that addr_in_span [of b] by (auto simp: blocks_ok_def list_all_iff)
      then have "fst b \<notin> span (a, s, f)" by blast
      then show ?thesis using h(2) by (simp add: in_span)
    qed
    have ch: "chain (placed m a h p ?sz) (Some a) (snd (carve a s ?sz ?al) @ bs)"
      unfolding cv snd_conv append_assoc unfolding h(2) [symmetric]
      by (intro chain_placed) (use h pb fits out in simp_all)
    moreover have "\<forall>x. x \<notin> span (a, s, f) \<longrightarrow> placed m a h p ?sz x = m x"
      using placed_lookup(4) [OF pb(1)] pb h(2) by (simp add: in_span)
    ultimately show ?thesis using fit ch by (simp add: cv)
  qed
qed

subsection \<open>The allocation loop implements first fit\<close>

lemma alloc_loop_refines_first_fit:
  assumes "chain m p bs" "blocks_ok bs" "valid_layout l"
  shows "\<exists>m'. alloc_loop m p (l_size l) (l_align l) = Some (Inr (m', snd (first_fit bs l))) \<and>
    chain m' p (fst (first_fit bs l)) \<and> (\<forall>x. x \<notin> \<Union> (span ` set bs) \<longrightarrow> m' x = m x)"
  using assms(1,2)
proof (induction bs arbitrary: p)
  case Nil
  then show ?case by (simp add: alloc_loop.simps)
next
  case (Cons b bs)
  obtain a s f where b: "b = (a, s, f)" by (cases b)
  with Cons.prems obtain h where h: "p = Some a" "m a = Some h" "hsize h = s" "is_allocated h = f"
    "chain m (next_header h) bs"
    by auto
  note r = provide_refines_fit [OF Cons.prems(1) [unfolded b h(1)] Cons.prems(2) [unfolded b] assms(3)]
  show ?case
  proof (cases "fit (a, s, f) l")
    case None
    with r have pr: "provide m a (l_size l) (l_align l) = Inr (m, None)" by simp
    from Cons.prems(2) have ok: "blocks_ok bs" and a: "a \<notin> \<Union> (span ` set bs)"
      using addr_in_span [of b] b by (auto simp: blocks_ok_Cons)
    from Cons.IH [OF h(5) ok] obtain m' where m':
      "alloc_loop m (next_header h) (l_size l) (l_align l) = Some (Inr (m', snd (first_fit bs l)))"
      "chain m' (next_header h) (fst (first_fit bs l))" "\<forall>x. x \<notin> \<Union> (span ` set bs) \<longrightarrow> m' x = m x"
      by blast
    have "alloc_loop m p (l_size l) (l_align l) = Some (Inr (m', snd (first_fit bs l)))"
      using pr h m'(1) by (simp add: alloc_loop.simps [of m "Some a"])
    moreover have "m' a = Some h" using a m'(3) h(2) by simp
    ultimately show ?thesis
      using None b h m'(2,3) by (auto simp: split_beta intro!: exI [of _ m'])
  next
    case (Some pc)
    then obtain q cs where pc: "fit (a, s, f) l = Some (q, cs)" by (cases pc) simp
    with r obtain m' where m': "provide m a (l_size l) (l_align l) = Inr (m', Some q)"
      "chain m' (Some a) (cs @ bs)" "\<forall>x. x \<notin> span (a, s, f) \<longrightarrow> m' x = m x"
      by auto
    have "alloc_loop m p (l_size l) (l_align l) = Some (Inr (m', q))"
      using m'(1) h(1) by (simp add: alloc_loop.simps [of m "Some a"])
    with m' pc b h(1) show ?thesis by (auto intro!: exI [of _ m'])
  qed
qed

subsection \<open>First fit keeps the blocks apart\<close>

lemma fit_Some:
  assumes "fit (a, s, f) l = Some (p, cs)" "block_ok (a, s, f)" "valid_layout l"
  shows "\<exists>c. \<not> f \<and> l_size l \<le> c \<and> l_align l dvd p \<and> a + 96 \<le> p \<and> p + c \<le> a + s \<and>
    cs = [(a, p - 32 - a, False), (p - 32, c + 32, True)] @
         (if a + s - (p + c) = 0 then [] else [(p + c, a + s - (p + c), False)]) \<and>
    list_all block_ok cs"
proof -
  from assms(1) have z: "0 < l_size l" "\<not> f" by (auto simp: fit_def Let_def split: if_splits)
  from valid_layout_sizes [OF assms(3) z(1)] obtain i j where ij:
    "max (2 ^ bit_length (l_size l - 1)) 32 = (2 :: nat) ^ i" "max (l_align l) 32 = 2 ^ j"
    "5 \<le> i" "5 \<le> j" "j < 63" "l_size l \<le> 2 ^ i" "l_align l dvd 2 ^ j"
    by metis
  have bk: "32 dvd a" "32 dvd s" "a + s < USIZE" using assms(2) by (simp_all add: block_ok_def)
  from assms(1) ij have le: "(2 :: nat) ^ i + 96 + 2 ^ j \<le> s" and pcs: "(p, cs) = carve a s (2 ^ i) (2 ^ j)"
    by (auto simp: fit_def Let_def split: if_splits)
  then have p: "p = align_down (a + s - 2 ^ i) (2 ^ j)"
    and cs: "cs = [(a, p - 32 - a, False), (p - 32, 2 ^ i + 32, True)] @
         (if a + s - (p + 2 ^ i) = 0 then [] else [(p + 2 ^ i, a + s - (p + 2 ^ i), False)])"
    by (simp_all add: carve_def Let_def)
  note cb = carve_bounds [OF bk refl refl ij(3,4,5) le p]
  have "list_all block_ok cs"
    using cb bk unfolding cs block_ok_def
    by (auto simp: dvd_diff_nat intro!: dvd_imp_le dvd_diff_nat dvd_add)
  with cb cs ij z show ?thesis
    by (intro exI [of _ "2 ^ i"]) (auto intro: dvd_trans)
qed

lemma first_fit_blocks:
  assumes "blocks_ok bs" "valid_layout l" "first_fit bs l = (bs', p)"
  shows "blocks_ok bs' \<and> \<Union> (span ` set bs') \<subseteq> \<Union> (span ` set bs) \<and>
    (if p = 0 then bs' = bs
     else l_align l dvd p \<and> (\<exists>c \<ge> l_size l. (p - 32, c + 32, True) \<in> set bs' \<and> 96 \<le> p \<and>
       {b \<in> set bs'. snd (snd b)} = insert (p - 32, c + 32, True) {b \<in> set bs. snd (snd b)} \<and>
       (\<forall>b \<in> set bs. snd (snd b) \<longrightarrow> span b \<inter> span (p - 32, c + 32, True) = {})))"
  using assms(1,3)
proof (induction bs arbitrary: bs')
  case (Cons b bs)
  obtain a s f where b: "b = (a, s, f)" by (cases b)
  from Cons.prems(1) have ok: "block_ok b" "blocks_ok bs" and dis: "\<forall>c\<in>set bs. span b \<inter> span c = {}"
    by (simp_all add: blocks_ok_Cons)
  show ?case
  proof (cases "fit b l")
    case None
    with Cons.prems(2) obtain bs2 where bs2: "first_fit bs l = (bs2, p)" "bs' = b # bs2"
      by (auto split: prod.splits)
    note IH = Cons.IH [OF ok(2) bs2(1)]
    have "\<forall>c\<in>set bs2. span b \<inter> span c = {}" using IH dis by blast
    with ok bs2 IH have ok': "blocks_ok bs'" by (simp add: blocks_ok_Cons)
    have sub: "\<Union> (span ` set bs') \<subseteq> \<Union> (span ` set (b # bs))" using bs2 IH by auto
    show ?thesis
    proof (cases "p = 0")
      case True
      with IH ok' sub bs2 show ?thesis by simp
    next
      case False
      with IH obtain c where c: "l_size l \<le> c" "l_align l dvd p" "(p - 32, c + 32, True) \<in> set bs2" "96 \<le> p"
        "{b \<in> set bs2. snd (snd b)} = insert (p - 32, c + 32, True) {b \<in> set bs. snd (snd b)}"
        "\<forall>b \<in> set bs. snd (snd b) \<longrightarrow> span b \<inter> span (p - 32, c + 32, True) = {}"
        by auto
      have "span b \<inter> span (p - 32, c + 32, True) = {}"
        using c(3) \<open>\<forall>c\<in>set bs2. span b \<inter> span c = {}\<close> by blast
      moreover have "{d \<in> set bs'. snd (snd d)} =
          insert (p - 32, c + 32, True) {d \<in> set (b # bs). snd (snd d)}"
      proof -
        have "{d \<in> set (b # xs). snd (snd d)} = {d \<in> {b}. snd (snd d)} \<union> {d \<in> set xs. snd (snd d)}"
          for xs :: "block list" by auto
        then show ?thesis unfolding bs2(2) by (simp only: c(5) Un_insert_right)
      qed
      ultimately show ?thesis using c False ok' sub bs2(2) by auto
    qed
  next
    case (Some pc)
    then obtain q cs where pc: "fit (a, s, f) l = Some (q, cs)" by (cases pc) (simp add: b)
    with Cons.prems(2) b have q: "q = p" "bs' = cs @ bs" by auto
    from fit_Some [OF pc ok(1) [unfolded b] assms(2)] obtain c where
      c: "\<not> f" "l_size l \<le> c" "l_align l dvd q" "a + 96 \<le> q" "q + c \<le> a + s" "list_all block_ok cs"
      and cs: "cs = [(a, q - 32 - a, False), (q - 32, c + 32, True)] @
         (if a + s - (q + c) = 0 then [] else [(q + c, a + s - (q + c), False)])"
      by blast
    have in_b: "span d \<subseteq> span b" if "d \<in> set cs" for d
      using that c b unfolding cs by (auto simp: span_def split: if_splits)
    have apart: "sorted_wrt (\<lambda>b c. span b \<inter> span c = {}) cs"
      using c unfolding cs by (auto simp: span_def)
    have ok': "blocks_ok bs'"
      using c(6) apart ok(2) dis in_b unfolding q blocks_ok_def
      by (auto simp: sorted_wrt_append) blast
    have "\<forall>d\<in>set bs. snd (snd d) \<longrightarrow> span d \<inter> span (q - 32, c + 32, True) = {}"
      using dis in_b [of "(q - 32, c + 32, True)"] cs by auto
    moreover have "{d \<in> set bs'. snd (snd d)} =
        insert (q - 32, c + 32, True) {d \<in> set (b # bs). snd (snd d)}"
      using b c(1) q(2) cs by auto
    moreover have "\<Union> (span ` set bs') \<subseteq> \<Union> (span ` set (b # bs))"
      using in_b q(2) by auto
    moreover have "q \<noteq> 0" "96 \<le> q" using c(4) by simp_all
    ultimately show ?thesis using ok' c q cs b by auto
  qed
qed (simp add: assms)

subsection \<open>The allocator as a whole\<close>

definition heap_blocks :: "allocator \<Rightarrow> block list \<Rightarrow> bool" where
  "heap_blocks A bs \<longleftrightarrow> chain (amem A) (first_header A) bs \<and> blocks_ok bs"

definition heap_inv :: "allocator \<Rightarrow> bool" where
  "heap_inv A \<longleftrightarrow> (\<exists>bs. heap_blocks A bs)"

definition live :: "allocator \<Rightarrow> (nat \<times> nat) set" where
  "live A = {(p, n). \<exists>bs. heap_blocks A bs \<and> 32 \<le> p \<and> (p - 32, n + 32, True) \<in> set bs}"

definition area :: "nat \<times> nat \<Rightarrow> nat set" where
  "area r = {fst r ..< fst r + snd r}"

definition allocator_new :: allocator where
  "allocator_new = \<lparr>first_header = None, amem = Map.empty\<rparr>"

lemma heap_inv_new: "heap_inv allocator_new"
  by (auto simp: heap_inv_def heap_blocks_def allocator_new_def blocks_ok_def intro!: exI [of _ "[]"])

lemma live_eq:
  "heap_blocks A bs \<Longrightarrow> live A = {(p, n). 32 \<le> p \<and> (p - 32, n + 32, True) \<in> set bs}"
  by (auto simp: live_def heap_blocks_def dest: chain_unique)

lemma region_in_span: "32 \<le> p \<Longrightarrow> area (p, n) \<subseteq> span (p - 32, n + 32, f)"
  by (auto simp: area_def span_def)

lemma blocks_ok_apart:
  "blocks_ok bs \<Longrightarrow> b \<in> set bs \<Longrightarrow> c \<in> set bs \<Longrightarrow> b \<noteq> c \<Longrightarrow> span b \<inter> span c = {}"
proof (induction bs)
  case (Cons d ds)
  then show ?case by (auto simp: blocks_ok_Cons)
qed simp

lemma live_disjoint:
  assumes "heap_inv A" "r \<in> live A" "r' \<in> live A" "r \<noteq> r'"
  shows "area r \<inter> area r' = {}"
proof -
  obtain p n q k where r: "r = (p, n)" "r' = (q, k)" by (cases r, cases r')
  from assms(1) obtain bs where bs: "heap_blocks A bs" by (auto simp: heap_inv_def)
  with assms r have b: "32 \<le> p" "32 \<le> q" "(p - 32, n + 32, True) \<in> set bs" "(q - 32, k + 32, True) \<in> set bs"
    and ne: "(p - 32, n + 32, True) \<noteq> (q - 32, k + 32, True)"
    by (auto simp: live_eq)
  from blocks_ok_apart [OF _ b(3,4) ne] bs
  have "span (p - 32, n + 32, True) \<inter> span (q - 32, k + 32, True) = {}"
    by (simp add: heap_blocks_def)
  with region_in_span [OF b(1), of n True] region_in_span [OF b(2), of k True] r show ?thesis
    by blast
qed

text \<open>What a successful allocation promises.\<close>

definition fresh_region :: "allocator \<Rightarrow> allocator \<Rightarrow> layout \<Rightarrow> nat \<Rightarrow> bool" where
  "fresh_region A A' l p \<longleftrightarrow> l_align l dvd p \<and>
     (\<exists>c \<ge> l_size l. live A' = insert (p, c) (live A) \<and> (\<forall>r \<in> live A. area r \<inter> area (p, c) = {}))"

lemma alloc_with_options_correct:
  assumes "heap_inv A" "valid_layout l"
  shows "\<exists>A' p. alloc_with_options A l = Inr (A', p) \<and> heap_inv A' \<and>
    (if p = 0 then live A' = live A else fresh_region A A' l p)"
proof -
  from assms(1) obtain bs where bs: "chain (amem A) (first_header A) bs" "blocks_ok bs"
    by (auto simp: heap_inv_def heap_blocks_def)
  obtain bs' p where ff: "first_fit bs l = (bs', p)" by (cases "first_fit bs l")
  from alloc_loop_refines_first_fit [OF bs assms(2)] ff obtain m' where
    al: "alloc_loop (amem A) (first_header A) (l_size l) (l_align l) = Some (Inr (m', p))"
    and ch: "chain m' (first_header A) bs'" by auto
  let ?A' = "A\<lparr>amem := m'\<rparr>"
  note f = first_fit_blocks [OF bs(2) assms(2) ff]
  have hb: "heap_blocks A bs" "heap_blocks ?A' bs'" using bs ch f by (simp_all add: heap_blocks_def)
  have "if p = 0 then live ?A' = live A else fresh_region A ?A' l p"
  proof (cases "p = 0")
    case True
    with f hb show ?thesis by (simp add: live_eq)
  next
    case False
    with f obtain c where c: "l_align l dvd p" "l_size l \<le> c" "96 \<le> p"
      "{b \<in> set bs'. snd (snd b)} = insert (p - 32, c + 32, True) {b \<in> set bs. snd (snd b)}"
      "\<forall>b \<in> set bs. snd (snd b) \<longrightarrow> span b \<inter> span (p - 32, c + 32, True) = {}"
      by auto
    have iff: "(q - 32, n + 32, True) \<in> set bs' \<longleftrightarrow>
        (q - 32, n + 32, True) = (p - 32, c + 32, True) \<or> (q - 32, n + 32, True) \<in> set bs" for q n
    proof -
      have "(q - 32, n + 32, True) \<in> set bs' \<longleftrightarrow> (q - 32, n + 32, True) \<in> {b \<in> set bs'. snd (snd b)}"
        by simp
      then show ?thesis unfolding c(4) by simp
    qed
    then have "live ?A' = insert (p, c) (live A)"
      using c(3) unfolding live_eq [OF hb(1)] live_eq [OF hb(2)] by auto
    moreover have "area r \<inter> area (p, c) = {}" if "r \<in> live A" for r
    proof -
      obtain q n where r: "r = (q, n)" by (cases r)
      with that hb have "32 \<le> q" "(q - 32, n + 32, True) \<in> set bs" by (auto simp: live_eq)
      with c(5) have "span (q - 32, n + 32, True) \<inter> span (p - 32, c + 32, True) = {}" by auto
      with region_in_span [OF \<open>32 \<le> q\<close>, of n True] region_in_span [of p c True] c(3) r show ?thesis
        by auto
    qed
    ultimately show ?thesis using False c by (auto simp: fresh_region_def intro!: exI [of _ c])
  qed
  with al hb show ?thesis by (auto simp: alloc_with_options_def heap_inv_def)
qed

lemma chain_dealloc:
  "chain m p bs \<Longrightarrow> blocks_ok bs \<Longrightarrow> (a, n, f) \<in> set bs \<Longrightarrow>
   \<exists>h. m a = Some h \<and> chain (m(a \<mapsto> h\<lparr>is_allocated := False\<rparr>)) p
     (map (\<lambda>b. if fst b = a then (a, fst (snd b), False) else b) bs)"
proof (induction bs arbitrary: p)
  case (Cons b bs)
  from Cons.prems obtain h where h: "p = Some (fst b)" "m (fst b) = Some h" "hsize h = fst (snd b)"
    "is_allocated h = snd (snd b)" "chain m (next_header h) bs"
    by auto
  have out: "fst c \<noteq> fst b" if "c \<in> set bs" for c
  proof -
    have "fst c \<in> span c" "fst b \<in> span b" "span b \<inter> span c = {}"
      using Cons.prems(2) that addr_in_span by (auto simp: blocks_ok_def list_all_iff)
    then show ?thesis by (metis disjoint_iff)
  qed
  show ?case
  proof (cases "fst b = a")
    case True
    have same: "map (\<lambda>b. if fst b = a then (a, fst (snd b), False) else b) bs = bs"
      using out True by (intro map_idI) auto
    have "chain (m(a \<mapsto> h\<lparr>is_allocated := False\<rparr>)) (next_header h) bs"
      by (rule chain_frame [OF h(5)]) (use out True in auto)
    with h True show ?thesis by (simp add: same fun_upd_def)
  next
    case False
    with Cons.prems have "(a, n, f) \<in> set bs" "blocks_ok bs" by (auto simp: blocks_ok_Cons)
    from Cons.IH [OF h(5) this(2,1)] h False show ?thesis by auto
  qed
qed simp


lemma dealloc_correct:
  assumes "heap_inv A" "(p, n) \<in> live A"
  shows "\<exists>A'. dealloc A p l = Inr A' \<and> heap_inv A' \<and> live A' = live A - {(p, n)}"
proof -
  from assms obtain bs where bs: "heap_blocks A bs" by (auto simp: heap_inv_def)
  with assms(2) have p: "32 \<le> p" "(p - 32, n + 32, True) \<in> set bs" by (auto simp: live_eq)
  let ?free = "\<lambda>b. if fst b = p - 32 then (p - 32, fst (snd b), False) else b"
  from chain_dealloc [of "amem A" "first_header A" bs] bs p(2) obtain h where
    h: "amem A (p - 32) = Some h"
    and ch: "chain ((amem A)(p - 32 \<mapsto> h\<lparr>is_allocated := False\<rparr>)) (first_header A) (map ?free bs)"
    unfolding heap_blocks_def by blast
  let ?A' = "A\<lparr>amem := (amem A)(p - 32 \<mapsto> h\<lparr>is_allocated := False\<rparr>)\<rparr>"
  have sp: "span (?free b) = span b" "block_ok (?free b) = block_ok b" for b
    by (auto simp: span_def block_ok_def)
  have ok: "blocks_ok bs" using bs by (simp add: heap_blocks_def)
  then have "blocks_ok (map ?free bs)"
    by (simp add: blocks_ok_def list.pred_map sorted_wrt_map sp comp_def)
  with ch have hb: "heap_blocks ?A' (map ?free bs)" by (simp add: heap_blocks_def)
  have uniq: "b = (p - 32, n + 32, True)" if "b \<in> set bs" "fst b = p - 32" for b
  proof (rule ccontr)
    assume "b \<noteq> (p - 32, n + 32, True)"
    from blocks_ok_apart [OF ok that(1) p(2) this] that
      addr_in_span [of b] addr_in_span [of "(p - 32, n + 32, True)"] ok p(2)
    show False by (auto simp: blocks_ok_def list_all_iff)
  qed
  have iff: "(q - 32, k + 32, True) \<in> set (map ?free bs) \<longleftrightarrow>
      q - 32 \<noteq> p - 32 \<and> (q - 32, k + 32, True) \<in> set bs" for q k
    by (auto simp: image_iff split: if_splits)
  have "(q, k) \<in> live ?A' \<longleftrightarrow> (q, k) \<in> live A - {(p, n)}" for q k
  proof -
    have "(p - 32, k + 32, True) \<in> set bs \<Longrightarrow> k = n" using uniq [of "(p - 32, k + 32, True)"] by simp
    moreover have "32 \<le> q \<Longrightarrow> q - 32 = p - 32 \<longleftrightarrow> q = p" using p(1) by linarith
    ultimately show ?thesis
      unfolding live_eq [OF hb] live_eq [OF bs] mem_Collect_eq case_prod_conv iff Diff_iff by blast
  qed
  then have "live ?A' = live A - {(p, n)}" by (simp only: set_eq_iff split_paired_All simp_thms)
  moreover have "dealloc A p l = Inr ?A'"
    using p(1) h by (simp add: dealloc_def from_allocated_region_def HEADER_SIZE_def)
  ultimately show ?thesis using hb by (auto simp: heap_inv_def)
qed

lemma add_free_blocks:
  assumes bs: "heap_blocks A bs" and "4096 dvd start" "0 < pages" "start + pages * 4096 < USIZE"
    and out: "\<And>b. b \<in> set bs \<Longrightarrow> span b \<inter> {start..<start + pages * 4096} = {}"
  shows "\<exists>A'. add_free_from_descriptor A start pages = Inr A' \<and> heap_blocks A' ((start, pages * 4096, False) # bs)"
proof -
  define h where "h = \<lparr>next_header = first_header A, hsize = pages * 4096, is_allocated = False, reserved = 0\<rparr>"
  let ?A' = "A\<lparr>first_header := Some start, amem := (amem A)(start \<mapsto> h)\<rparr>"
  have eval: "add_free_from_descriptor A start pages = Inr ?A'"
    using assms(4) by (simp add: add_free_from_descriptor_def new_from_addr_def h_def Let_def)
  have ok: "blocks_ok bs" using bs by (simp add: heap_blocks_def)
  have ne: "fst b \<noteq> start" if "b \<in> set bs" for b
  proof
    assume "fst b = start"
    moreover have "block_ok b" using ok that by (simp add: blocks_ok_def list_all_iff)
    then have "fst b \<in> span b" by (rule addr_in_span)
    moreover have "start \<in> {start..<start + pages * 4096}" using assms(3) by simp
    ultimately show False using out [OF that] by (metis disjoint_iff)
  qed
  have "chain (amem A) (first_header A) bs" using bs by (simp add: heap_blocks_def)
  then have "chain ((amem A)(start \<mapsto> h)) (first_header A) bs"
    by (rule chain_frame) (simp add: ne)
  moreover have disj: "span (start, pages * 4096, False) \<inter> span b = {}" if "b \<in> set bs" for b
    using out [OF that] by (simp add: span_def Int_commute)
  moreover have "32 dvd start" using assms(2) by (rule dvd_trans [rotated]) simp
  then have "block_ok (start, pages * 4096, False)"
    using assms(3,4) by (simp add: block_ok_def)
  ultimately have "heap_blocks ?A' ((start, pages * 4096, False) # bs)"
    using ok by (simp add: heap_blocks_def blocks_ok_Cons h_def disj fun_upd_def)
  with eval show ?thesis by blast
qed

lemma add_free_correct:
  assumes "heap_inv A" "4096 dvd start" "0 < pages" "start + pages * 4096 < USIZE"
    and out: "\<And>bs b. heap_blocks A bs \<Longrightarrow> b \<in> set bs \<Longrightarrow> span b \<inter> {start..<start + pages * 4096} = {}"
  shows "\<exists>A'. add_free_from_descriptor A start pages = Inr A' \<and> heap_inv A' \<and> live A' = live A"
proof -
  from assms obtain bs where bs: "heap_blocks A bs" by (auto simp: heap_inv_def)
  from add_free_blocks [OF bs assms(2-4)] out [OF bs] obtain A' where
    A': "add_free_from_descriptor A start pages = Inr A'" "heap_blocks A' ((start, pages * 4096, False) # bs)" by blast
  have "live A' = live A" unfolding live_eq [OF A'(2)] live_eq [OF bs] by auto
  with A' show ?thesis by (auto simp: heap_inv_def)
qed

subsection \<open>Histories of the heap\<close>

text \<open>
  A history starts with no memory.  The boot code hands over page-aligned regions that no block
  occupies, and the kernel allocates with valid layouts and frees live pointers.
\<close>

inductive heap_step :: "allocator \<Rightarrow> allocator \<Rightarrow> bool" where
  step_add: "4096 dvd start \<Longrightarrow> 0 < pages \<Longrightarrow> start + pages * 4096 < USIZE \<Longrightarrow>
     (\<And>bs b. heap_blocks A bs \<Longrightarrow> b \<in> set bs \<Longrightarrow> span b \<inter> {start..<start + pages * 4096} = {}) \<Longrightarrow>
     add_free_from_descriptor A start pages = Inr A' \<Longrightarrow> heap_step A A'"
| step_alloc: "valid_layout l \<Longrightarrow> alloc_with_options A l = Inr (A', p) \<Longrightarrow> heap_step A A'"
| step_dealloc: "(p, n) \<in> live A \<Longrightarrow> dealloc A p l = Inr A' \<Longrightarrow> heap_step A A'"

inductive_cases heap_stepE: "heap_step A A'"

inductive heap_reachable :: "allocator \<Rightarrow> bool" where
  reach_new: "heap_reachable allocator_new"
| reach_step: "heap_reachable A \<Longrightarrow> heap_step A A' \<Longrightarrow> heap_reachable A'"

lemma heap_step_inv:
  assumes "heap_step A A'" "heap_inv A"
  shows "heap_inv A'"
  using assms(1)
proof cases
  case (step_add start pages)
  with add_free_correct [OF assms(2) step_add(1-3)] show ?thesis by (metis Inr_inject)
next
  case (step_alloc l p)
  with alloc_with_options_correct [OF assms(2) step_alloc(1)] show ?thesis by auto
next
  case (step_dealloc p n l)
  with dealloc_correct [OF assms(2) step_dealloc(1), of l] show ?thesis by (metis Inr_inject)
qed

lemma heap_reachable_inv: "heap_reachable A \<Longrightarrow> heap_inv A"
  by (induction rule: heap_reachable.induct) (auto intro: heap_inv_new heap_step_inv)

subsection \<open>The contract of a global allocator\<close>

text \<open>
  \<open>GlobalAlloc\<close> seen from a client: \<open>used s\<close> is the set of addresses handed out so far (and not
  given back), \<open>supported\<close> the layouts the allocator serves.  The kernel heap and the allocator of
  the applications both satisfy it.  \<open>alloc_list\<close> is a client that asks for a list of layouts.
\<close>

fun alloc_list ::
  "('s \<Rightarrow> layout \<Rightarrow> ('s \<times> nat) res) \<Rightarrow> 's \<Rightarrow> layout list \<Rightarrow> ('s \<times> (nat \<times> nat) list) res" where
  "alloc_list al s [] = Inr (s, [])"
| "alloc_list al s (l # ls) =
     and_then (al s l) (\<lambda>(s', p).
     and_then (alloc_list al s' ls) (\<lambda>(s'', rs). Inr (s'', (p, l_size l) # rs)))"

locale global_alloc =
  fixes inv :: "'s \<Rightarrow> bool"
    and used :: "'s \<Rightarrow> nat set"
    and supported :: "layout \<Rightarrow> bool"
    and alloc :: "'s \<Rightarrow> layout \<Rightarrow> ('s \<times> nat) res"
  assumes alloc_law: "inv s \<Longrightarrow> supported l \<Longrightarrow>
    \<exists>s' p. alloc s l = Inr (s', p) \<and> inv s' \<and> used s \<subseteq> used s' \<and>
      (p \<noteq> 0 \<longrightarrow> l_align l dvd p \<and> p + l_size l < USIZE \<and> area (p, l_size l) \<inter> used s = {} \<and>
        area (p, l_size l) \<subseteq> used s')"
begin

lemma alloc_list_ok:
  assumes "inv s" "\<And>l. l \<in> set ls \<Longrightarrow> supported l"
  shows "\<exists>s' rs. alloc_list alloc s ls = Inr (s', rs) \<and> inv s' \<and> used s \<subseteq> used s' \<and>
    length rs = length ls \<and> (\<forall>r \<in> set rs. fst r \<noteq> 0 \<longrightarrow> area r \<inter> used s = {}) \<and>
    sorted_wrt (\<lambda>r r'. fst r \<noteq> 0 \<longrightarrow> fst r' \<noteq> 0 \<longrightarrow> area r \<inter> area r' = {}) rs"
  using assms
proof (induction ls arbitrary: s)
  case (Cons l ls)
  from alloc_law [OF Cons.prems(1), of l] Cons.prems(2) obtain s1 p where
    s1: "alloc s l = Inr (s1, p)" "inv s1" "used s \<subseteq> used s1"
      "p \<noteq> 0 \<longrightarrow> area (p, l_size l) \<inter> used s = {} \<and> area (p, l_size l) \<subseteq> used s1"
    by auto
  from Cons.IH [OF s1(2)] Cons.prems(2) obtain s2 rs where
    s2: "alloc_list alloc s1 ls = Inr (s2, rs)" "inv s2" "used s1 \<subseteq> used s2" "length rs = length ls"
      "\<forall>r \<in> set rs. fst r \<noteq> 0 \<longrightarrow> area r \<inter> used s1 = {}"
      "sorted_wrt (\<lambda>r r'. fst r \<noteq> 0 \<longrightarrow> fst r' \<noteq> 0 \<longrightarrow> area r \<inter> area r' = {}) rs"
    by auto
  have "\<forall>r \<in> set rs. p \<noteq> 0 \<longrightarrow> fst r \<noteq> 0 \<longrightarrow> area (p, l_size l) \<inter> area r = {}"
    using s1(4) s2(5) by blast
  moreover have "\<forall>r \<in> set rs. fst r \<noteq> 0 \<longrightarrow> area r \<inter> used s = {}"
    using s1(3) s2(5) by blast
  moreover have "used s \<subseteq> used s2" using s1(3) s2(3) by blast
  ultimately show ?case using s1 s2 by simp
qed simp

end

definition heap_used :: "allocator \<Rightarrow> nat set" where
  "heap_used A = \<Union> (area ` live A)"

lemma fresh_region_used:
  assumes "fresh_region A A' l p"
  shows "l_align l dvd p \<and> area (p, l_size l) \<inter> heap_used A = {} \<and>
    area (p, l_size l) \<subseteq> heap_used A' \<and> heap_used A \<subseteq> heap_used A'"
proof -
  from assms obtain c where c: "l_align l dvd p" "l_size l \<le> c" "live A' = insert (p, c) (live A)"
    "\<forall>r \<in> live A. area r \<inter> area (p, c) = {}"
    by (auto simp: fresh_region_def)
  have "area (p, l_size l) \<subseteq> area (p, c)" using c(2) by (auto simp: area_def)
  with c show ?thesis unfolding heap_used_def by auto
qed

lemma live_bound:
  assumes "heap_inv A" "(p, n) \<in> live A"
  shows "p + n < USIZE"
proof -
  from assms(1) obtain bs where bs: "heap_blocks A bs" by (auto simp: heap_inv_def)
  with assms(2) have p: "32 \<le> p" "(p - 32, n + 32, True) \<in> set bs" by (auto simp: live_eq)
  with bs have "block_ok (p - 32, n + 32, True)"
    unfolding heap_blocks_def blocks_ok_def list_all_iff by blast
  with p(1) show ?thesis by (simp add: block_ok_def)
qed

lemma fresh_region_bound:
  assumes "heap_inv A'" "fresh_region A A' l p"
  shows "p + l_size l < USIZE"
proof -
  from assms(2) obtain c where "l_size l \<le> c" "(p, c) \<in> live A'" by (auto simp: fresh_region_def)
  with live_bound [OF assms(1)] show ?thesis by fastforce
qed

interpretation first_fit: global_alloc heap_inv heap_used valid_layout alloc_with_options
proof
  fix A l
  assume "heap_inv A" "valid_layout l"
  from alloc_with_options_correct [OF this] obtain A' p where
    A': "alloc_with_options A l = Inr (A', p)" "heap_inv A'"
      "if p = 0 then live A' = live A else fresh_region A A' l p"
    by blast
  then show "\<exists>A' p. alloc_with_options A l = Inr (A', p) \<and> heap_inv A' \<and> heap_used A \<subseteq> heap_used A' \<and>
      (p \<noteq> 0 \<longrightarrow> l_align l dvd p \<and> p + l_size l < USIZE \<and> area (p, l_size l) \<inter> heap_used A = {} \<and>
        area (p, l_size l) \<subseteq> heap_used A')"
    using fresh_region_used [of A A' l p] fresh_region_bound [of A' A l p]
    by (cases "p = 0") (auto simp: heap_used_def)
qed

text \<open>The heap never hands out an address beyond the memory it was given.\<close>

definition heap_below :: "nat \<Rightarrow> allocator \<Rightarrow> bool" where
  "heap_below N A \<longleftrightarrow> (\<exists>bs. heap_blocks A bs \<and> \<Union> (span ` set bs) \<subseteq> {..<N})"

lemma alloc_below:
  assumes "heap_below N A" "valid_layout l" "alloc_with_options A l = Inr (A', p)"
  shows "heap_below N A' \<and> (p \<noteq> 0 \<longrightarrow> p + l_size l \<le> N)"
proof -
  from assms(1) obtain bs where bs: "chain (amem A) (first_header A) bs" "blocks_ok bs" "\<Union> (span ` set bs) \<subseteq> {..<N}"
    by (auto simp: heap_below_def heap_blocks_def)
  obtain bs' q where ff: "first_fit bs l = (bs', q)" by (cases "first_fit bs l")
  from alloc_loop_refines_first_fit [OF bs(1,2) assms(2)] ff assms(3) have
    A': "q = p" "chain (amem A') (first_header A') bs'" by (auto simp: alloc_with_options_def)
  note f = first_fit_blocks [OF bs(2) assms(2) ff]
  have sub: "\<Union> (span ` set bs') \<subseteq> {..<N}" using f bs(3) by blast
  have "p + l_size l \<le> N" if "p \<noteq> 0"
  proof -
    from f that A'(1) obtain c where c: "l_size l \<le> c" "(p - 32, c + 32, True) \<in> set bs'" "96 \<le> p" by auto
    have "p + c - 1 \<in> span (p - 32, c + 32, True)" using c(3) by (simp add: in_span)
    with c(2) sub have "p + c - 1 < N" by blast
    with c(1) show ?thesis by simp
  qed
  with A' f sub show ?thesis by (auto simp: heap_below_def heap_blocks_def)
qed

lemma heap_below_inv: "heap_below N A \<Longrightarrow> heap_inv A"
  by (auto simp: heap_below_def heap_inv_def)

interpretation bounded_fit: global_alloc "heap_below N" heap_used valid_layout alloc_with_options for N
proof
  fix A l
  assume A: "heap_below N A" "valid_layout l"
  then have "heap_inv A" by (blast intro: heap_below_inv)
  from first_fit.alloc_law [OF this A(2)] obtain A' p where
    "alloc_with_options A l = Inr (A', p)" "heap_used A \<subseteq> heap_used A'"
    "p \<noteq> 0 \<longrightarrow> l_align l dvd p \<and> p + l_size l < USIZE \<and> area (p, l_size l) \<inter> heap_used A = {} \<and>
      area (p, l_size l) \<subseteq> heap_used A'"
    by blast
  with alloc_below [OF A] show "\<exists>A' p. alloc_with_options A l = Inr (A', p) \<and> heap_below N A' \<and> heap_used A \<subseteq> heap_used A' \<and>
      (p \<noteq> 0 \<longrightarrow> l_align l dvd p \<and> p + l_size l < USIZE \<and> area (p, l_size l) \<inter> heap_used A = {} \<and>
        area (p, l_size l) \<subseteq> heap_used A')"
    by blast
qed

end
