(* ===== verification/Memory.thy ===== *)
theory Memory
  imports Allocator
begin

text \<open>
  \<open>os/src/memory.rs\<close> (address ranges and physically contiguous pages), the descriptor iterator of
  \<open>os/src/memory_map_holder.rs\<close> with \<open>FirstFitAllocator::init_with_mmap\<close>, and the
  bump allocator of the applications, \<open>WaterMarkAllocator\<close> in \<open>noli/src/sys/wasabi.rs\<close>.
\<close>

subsection \<open>Address ranges\<close>

record address_range =
  ar_start :: nat
  ar_end :: nat

definition ar_new :: "nat \<Rightarrow> nat \<Rightarrow> address_range" where
  "ar_new s e = \<lparr>ar_start = s, ar_end = e\<rparr>"

definition from_start_and_size :: "nat \<Rightarrow> nat \<Rightarrow> address_range res" where
  "from_start_and_size start sz = and_then (usize_add start sz) (\<lambda>e. Inr (ar_new start e))"

definition ar_size :: "address_range \<Rightarrow> nat res" where
  "ar_size r = usize_sub (ar_end r) (ar_start r)"

definition ar_contains :: "address_range \<Rightarrow> nat \<Rightarrow> bool" where
  "ar_contains r addr \<longleftrightarrow> ar_start r \<le> addr \<and> addr < ar_end r"

definition offset_of :: "address_range \<Rightarrow> nat \<Rightarrow> nat res" where
  "offset_of r addr =
     (if ar_contains r addr then Inr (addr - ar_start r)
      else Inl (Err (Failed ''addr is outside of this region'')))"

definition to_range_in :: "address_range \<Rightarrow> address_range \<Rightarrow> (nat \<times> nat) res" where
  "to_range_in self region =
     and_then (offset_of region (ar_start self)) (\<lambda>start.
     and_then (ar_size self) (\<lambda>n.
     and_then (if n = 0 then Inr True
               else and_then (usize_sub (ar_end self) 1) (\<lambda>e. Inr (ar_contains region e))) (\<lambda>inside.
     if inside then and_then (usize_add start n) (\<lambda>e. Inr (start, e))
     else Inl (Err (Failed ''end of this range is outside of the region'')))))"

lemma to_range_in_Inr:
  assumes "to_range_in self region = Inr (a, b)"
  shows "ar_start self \<le> ar_end self \<and> ar_start region \<le> ar_start self \<and>
    a = ar_start self - ar_start region \<and> b = a + (ar_end self - ar_start self) \<and>
    b \<le> ar_end region - ar_start region"
  using assms
  by (auto simp: to_range_in_def offset_of_def ar_contains_def ar_size_def res_simps split: if_splits)

lemma to_range_in_ok:
  assumes "ar_start region \<le> ar_start self" "ar_start self < ar_end self" "ar_end self \<le> ar_end region"
    "ar_end region < USIZE"
  shows "to_range_in self region =
    Inr (ar_start self - ar_start region, ar_end self - ar_start region)"
proof -
  have "ar_contains region (ar_end self - 1)" using assms by (auto simp: ar_contains_def)
  with assms show ?thesis by (simp add: to_range_in_def offset_of_def ar_contains_def ar_size_def)
qed

subsection \<open>Physically contiguous pages\<close>

record pages =
  pg_layout :: layout
  pg_addr :: nat
  pg_data :: bytes

definition from_size_align :: "nat \<Rightarrow> nat \<Rightarrow> layout option" where
  "from_size_align sz al =
     (if al \<in> (\<lambda>k. 2 ^ k) ` {..<64} \<and> sz \<le> 2 ^ 63 - 1 - (al - 1)
      then Some \<lparr>l_size = sz, l_align = al\<rparr> else None)"

text \<open>\<open>ram\<close> is what the memory holds before the pages are written: the region is uninitialised.\<close>

definition pages_alloc_pages :: "(nat \<Rightarrow> u8) \<Rightarrow> allocator \<Rightarrow> nat \<Rightarrow> (allocator \<times> pages) res" where
  "pages_alloc_pages ram A num_pages =
     and_then (usize_mul PAGE_SIZE num_pages) (\<lambda>sz.
     and_then (ok_or (from_size_align sz PAGE_SIZE) (Failed ''Invalid layout'')) (\<lambda>l.
     and_then (alloc_with_options A l) (\<lambda>(A', p).
     Inr (A', \<lparr>pg_layout = l, pg_addr = p, pg_data = map ram [p..<p + l_size l]\<rparr>))))"

definition pages_alloc_bytes :: "(nat \<Rightarrow> u8) \<Rightarrow> allocator \<Rightarrow> nat \<Rightarrow> (allocator \<times> pages) res" where
  "pages_alloc_bytes ram A num_bytes =
     and_then (size_in_pages_from_bytes num_bytes) (\<lambda>n. pages_alloc_pages ram A n)"

definition pages_range :: "pages \<Rightarrow> address_range res" where
  "pages_range pg = from_start_and_size (pg_addr pg) (l_size (pg_layout pg))"

definition fill_with_bytes :: "pages \<Rightarrow> u8 \<Rightarrow> pages res" where
  "fill_with_bytes pg v =
     and_then (pages_range pg) (\<lambda>r. and_then (ar_size r) (\<lambda>n.
     if pg_addr pg = 0 then Inl (UB ''write to the null pointer'')
     else Inr (pg\<lparr>pg_data := replicate n v @ drop n (pg_data pg)\<rparr>)))"

definition pages_ok :: "pages \<Rightarrow> bool" where
  "pages_ok pg \<longleftrightarrow> length (pg_data pg) = l_size (pg_layout pg)"

lemma page_size_pow2: "(4096 :: nat) \<in> (\<lambda>k. 2 ^ k) ` {..<64}"
  by (rule image_eqI [of _ _ 12]) simp_all

lemma page_layout_valid:
  "from_size_align sz PAGE_SIZE = Some l \<Longrightarrow> valid_layout l \<and> l_size l = sz \<and> l_align l = PAGE_SIZE"
  by (auto simp: from_size_align_def valid_layout_def PAGE_SIZE_def PAGE_OFFSET_BITS_def
      split: if_splits)

text \<open>Pages come aligned, in one piece and apart from everything else in use, or as the null pointer.\<close>

lemma pages_alloc_pages_correct:
  assumes "heap_inv A" "PAGE_SIZE * n \<le> 2 ^ 63 - PAGE_SIZE"
  shows "\<exists>A' pg. pages_alloc_pages ram A n = Inr (A', pg) \<and> heap_inv A' \<and> pages_ok pg \<and>
    l_size (pg_layout pg) = PAGE_SIZE * n \<and> heap_used A \<subseteq> heap_used A' \<and>
    (pg_addr pg \<noteq> 0 \<longrightarrow> PAGE_SIZE dvd pg_addr pg \<and>
       area (pg_addr pg, PAGE_SIZE * n) \<inter> heap_used A = {} \<and>
       area (pg_addr pg, PAGE_SIZE * n) \<subseteq> heap_used A')"
proof -
  have mul: "usize_mul PAGE_SIZE n = Inr (PAGE_SIZE * n)"
    using assms(2) by (intro usize_mul_ok) (simp add: PAGE_SIZE_def PAGE_OFFSET_BITS_def)
  obtain l where l: "from_size_align (PAGE_SIZE * n) PAGE_SIZE = Some l"
    using assms(2) page_size_pow2 by (auto simp: from_size_align_def PAGE_SIZE_def PAGE_OFFSET_BITS_def)
  note lv = page_layout_valid [OF l]
  from first_fit.alloc_law [OF assms(1), of l] lv obtain A' p where
    A': "alloc_with_options A l = Inr (A', p)" "heap_inv A'" "heap_used A \<subseteq> heap_used A'"
      "p \<noteq> 0 \<longrightarrow> PAGE_SIZE dvd p \<and> area (p, PAGE_SIZE * n) \<inter> heap_used A = {} \<and>
        area (p, PAGE_SIZE * n) \<subseteq> heap_used A'"
    by auto
  then show ?thesis using mul l lv by (auto simp: pages_alloc_pages_def pages_ok_def)
qed

subsection \<open>The memory map\<close>

datatype efi_memory_type =
    RESERVED | LOADER_CODE | LOADER_DATA | BOOT_SERVICES_CODE | BOOT_SERVICES_DATA
  | RUNTIME_SERVICES_CODE | RUNTIME_SERVICES_DATA | CONVENTIONAL_MEMORY | UNUSABLE_MEMORY
  | ACPI_RECLAIM_MEMORY | ACPI_MEMORY_NVS | MEMORY_MAPPED_IO | MEMORY_MAPPED_IO_PORT_SPACE
  | PAL_CODE | PERSISTENT_MEMORY

definition efi_memory_types :: "efi_memory_type list" where
  "efi_memory_types =
     [RESERVED, LOADER_CODE, LOADER_DATA, BOOT_SERVICES_CODE, BOOT_SERVICES_DATA,
      RUNTIME_SERVICES_CODE, RUNTIME_SERVICES_DATA, CONVENTIONAL_MEMORY, UNUSABLE_MEMORY,
      ACPI_RECLAIM_MEMORY, ACPI_MEMORY_NVS, MEMORY_MAPPED_IO, MEMORY_MAPPED_IO_PORT_SPACE,
      PAL_CODE, PERSISTENT_MEMORY]"

record efi_memory_descriptor =
  memory_type :: efi_memory_type
  physical_start :: nat
  virtual_start :: nat
  number_of_pages :: nat
  attribute :: nat

record memory_map_holder =
  memory_map_buffer :: bytes
  memory_map_size :: nat
  map_key :: nat
  descriptor_size :: nat
  descriptor_version :: u32

definition MEMORY_MAP_BUFFER_SIZE :: nat where "MEMORY_MAP_BUFFER_SIZE = 0x8000"

definition memory_map_holder_new :: memory_map_holder where
  "memory_map_holder_new =
     \<lparr>memory_map_buffer = replicate MEMORY_MAP_BUFFER_SIZE 0, memory_map_size = MEMORY_MAP_BUFFER_SIZE,
      map_key = 0, descriptor_size = 0, descriptor_version = 0\<rparr>"

text \<open>The 40 bytes of a descriptor, read in place.\<close>

definition read_descriptor :: "bytes \<Rightarrow> nat \<Rightarrow> efi_memory_descriptor res" where
  "read_descriptor buf ofs =
     (if length buf < ofs + 40 then Inl (UB ''descriptor outside of the buffer'')
      else let field = (\<lambda>k. of_le_bytes (take 8 (drop (ofs + k) buf))) in
        (case nth_opt efi_memory_types (field 0) of
           None \<Rightarrow> Inl (UB ''invalid memory type'')
         | Some t \<Rightarrow> Inr \<lparr>memory_type = t, physical_start = field 8, virtual_start = field 16,
                          number_of_pages = field 24, attribute = field 32\<rparr>))"

definition mmap_next ::
  "memory_map_holder \<Rightarrow> nat \<Rightarrow> ((efi_memory_descriptor \<times> nat) option) res" where
  "mmap_next mm ofs =
     (if memory_map_size mm \<le> ofs then Inr None
      else and_then (read_descriptor (memory_map_buffer mm) ofs) (\<lambda>e.
           and_then (usize_add ofs (descriptor_size mm)) (\<lambda>ofs'. Inr (Some (e, ofs')))))"

text \<open>
  \<open>init_with_mmap\<close> hands every conventional region to the allocator.  With a descriptor size of 0
  the iterator would not advance: the loop is partial.
\<close>

partial_function (option) init_with_mmap_loop ::
  "allocator \<Rightarrow> memory_map_holder \<Rightarrow> nat \<Rightarrow> nat \<Rightarrow> ((allocator \<times> nat) res) option" where
  "init_with_mmap_loop A mm ofs total_pages =
     (case mmap_next mm ofs of
        Inl e \<Rightarrow> Some (Inl e)
      | Inr None \<Rightarrow> Some (Inr (A, total_pages))
      | Inr (Some (e, ofs')) \<Rightarrow>
          (if memory_type e \<noteq> CONVENTIONAL_MEMORY then init_with_mmap_loop A mm ofs' total_pages
           else (case add_free_from_descriptor A (physical_start e) (number_of_pages e) of
                   Inl e \<Rightarrow> Some (Inl e)
                 | Inr A' \<Rightarrow>
                     (case usize_add total_pages (number_of_pages e) of
                        Inl e \<Rightarrow> Some (Inl e)
                      | Inr t \<Rightarrow> init_with_mmap_loop A' mm ofs' t))))"

declare init_with_mmap_loop.simps [code]

definition init_with_mmap :: "allocator \<Rightarrow> memory_map_holder \<Rightarrow> allocator res" where
  "init_with_mmap A mm =
     and_then (returned (init_with_mmap_loop A mm 0 0)) (\<lambda>(A', total_pages).
     and_then (usize_mul total_pages 4096) (\<lambda>_. Inr A'))"

lemma init_with_mmap_loop_returns:
  assumes "0 < descriptor_size mm"
  shows "\<exists>r. init_with_mmap_loop A mm ofs t = Some r"
proof (induction "memory_map_size mm - ofs" arbitrary: A ofs t rule: less_induct)
  case less
  have step: "memory_map_size mm - ofs' < memory_map_size mm - ofs"
    if "mmap_next mm ofs = Inr (Some (e, ofs'))" for e ofs'
    using that assms by (auto simp: mmap_next_def res_simps split: if_splits)
  show ?case
    by (subst init_with_mmap_loop.simps)
      (auto split: sum.splits option.splits dest!: step intro: less)
qed

text \<open>The descriptors that the iterator yields from an offset on, and the blocks they become.\<close>

fun mmap_lists :: "memory_map_holder \<Rightarrow> nat \<Rightarrow> efi_memory_descriptor list \<Rightarrow> bool" where
  "mmap_lists mm ofs [] \<longleftrightarrow> mmap_next mm ofs = Inr None"
| "mmap_lists mm ofs (d # ds) \<longleftrightarrow> (\<exists>ofs'. mmap_next mm ofs = Inr (Some (d, ofs')) \<and> mmap_lists mm ofs' ds)"

definition descriptor_block :: "efi_memory_descriptor \<Rightarrow> block" where
  "descriptor_block d = (physical_start d, number_of_pages d * 4096, False)"

definition usable :: "efi_memory_descriptor list \<Rightarrow> efi_memory_descriptor list" where
  "usable ds = filter (\<lambda>d. memory_type d = CONVENTIONAL_MEMORY) ds"

definition memory_map_ok :: "efi_memory_descriptor list \<Rightarrow> bool" where
  "memory_map_ok ds \<longleftrightarrow>
     (\<forall>d\<in>set (usable ds). 4096 dvd physical_start d \<and> 0 < number_of_pages d \<and>
        physical_start d + number_of_pages d * 4096 < USIZE) \<and>
     sorted_wrt (\<lambda>d e. span (descriptor_block d) \<inter> span (descriptor_block e) = {}) (usable ds) \<and>
     sum_list (map number_of_pages (usable ds)) * 4096 < USIZE"

lemma init_loop_blocks:
  assumes "mmap_lists mm ofs ds" "heap_blocks A bs" "memory_map_ok ds"
    and "\<forall>d\<in>set (usable ds). \<forall>b\<in>set bs. span b \<inter> span (descriptor_block d) = {}"
    and "(t + sum_list (map number_of_pages (usable ds))) * 4096 < USIZE"
  shows "\<exists>A'. init_with_mmap_loop A mm ofs t = Some (Inr (A', t + sum_list (map number_of_pages (usable ds)))) \<and>
    heap_blocks A' (rev (map descriptor_block (usable ds)) @ bs)"
  using assms
proof (induction ds arbitrary: ofs A bs t)
  case Nil
  then show ?case by (subst init_with_mmap_loop.simps) (simp add: usable_def)
next
  case (Cons d ds)
  from Cons.prems(1) obtain ofs' where nx: "mmap_next mm ofs = Inr (Some (d, ofs'))" "mmap_lists mm ofs' ds" by auto
  show ?case
  proof (cases "memory_type d = CONVENTIONAL_MEMORY")
    case False
    then have u: "usable (d # ds) = usable ds" by (simp add: usable_def)
    with Cons.prems have "memory_map_ok ds" by (simp add: memory_map_ok_def)
    with Cons.IH [OF nx(2) Cons.prems(2)] Cons.prems(4,5) show ?thesis
      unfolding u by (subst init_with_mmap_loop.simps) (simp add: nx(1) False)
  next
    case True
    then have u: "usable (d # ds) = d # usable ds" by (simp add: usable_def)
    let ?n = "number_of_pages d"
    have d: "4096 dvd physical_start d" "0 < ?n" "physical_start d + ?n * 4096 < USIZE"
      using Cons.prems(3) by (simp_all add: memory_map_ok_def u)
    have "span b \<inter> {physical_start d..<physical_start d + ?n * 4096} = {}" if "b \<in> set bs" for b
      using Cons.prems(4) that by (simp add: u descriptor_block_def span_def)
    from add_free_blocks [OF Cons.prems(2) d this] obtain A1 where
      A1: "add_free_from_descriptor A (physical_start d) ?n = Inr A1" "heap_blocks A1 (descriptor_block d # bs)"
      by (auto simp: descriptor_block_def)
    have "memory_map_ok ds" using Cons.prems(3) by (simp add: memory_map_ok_def u)
    moreover have "\<forall>e\<in>set (usable ds). \<forall>b\<in>set (descriptor_block d # bs). span b \<inter> span (descriptor_block e) = {}"
      using Cons.prems(3,4) by (simp add: memory_map_ok_def u)
    moreover have "(t + ?n + sum_list (map number_of_pages (usable ds))) * 4096 < USIZE"
      using Cons.prems(5) by (simp add: u add.assoc)
    ultimately obtain A' where
      "init_with_mmap_loop A1 mm ofs' (t + ?n) = Some (Inr (A', t + ?n + sum_list (map number_of_pages (usable ds))))"
      "heap_blocks A' (rev (map descriptor_block (usable ds)) @ descriptor_block d # bs)"
      using Cons.IH [OF nx(2) A1(2)] by blast
    moreover have "t + ?n < USIZE" using Cons.prems(5) by (simp add: u)
    ultimately show ?thesis
      by (subst init_with_mmap_loop.simps) (simp add: nx(1) True A1(1) u add.assoc)
  qed
qed

lemma init_with_mmap_blocks:
  assumes "mmap_lists mm 0 ds" "memory_map_ok ds"
  shows "\<exists>A. init_with_mmap allocator_new mm = Inr A \<and> heap_blocks A (rev (map descriptor_block (usable ds)))"
proof -
  have "heap_blocks allocator_new []" by (simp add: heap_blocks_def allocator_new_def blocks_ok_def)
  from init_loop_blocks [OF assms(1) this assms(2), of 0] assms(2) show ?thesis
    by (auto simp: init_with_mmap_def memory_map_ok_def returned_def)
qed

subsection \<open>The allocator of the applications\<close>

definition ALLOCATOR_BUF_SIZE :: nat where "ALLOCATOR_BUF_SIZE = 0x240000"

record watermark =
  wm_buf :: nat
  used_bytes :: nat

definition wm_alloc :: "watermark \<Rightarrow> layout \<Rightarrow> (watermark \<times> nat) res" where
  "wm_alloc W l =
     (if ALLOCATOR_BUF_SIZE < used_bytes W then Inr (W, 0)
      else
        and_then (usize_add (used_bytes W) (l_align l)) (\<lambda>u.
        and_then (usize_sub u 1) (\<lambda>u.
        and_then (usize_mul (u div l_align l) (l_align l)) (\<lambda>u.
        and_then (usize_add u (l_size l)) (\<lambda>u.
        let W = W\<lparr>used_bytes := u\<rparr> in
        if ALLOCATOR_BUF_SIZE < u then Inr (W, 0)
        else and_then (usize_sub u (l_size l)) (\<lambda>ofs. Inr (W, wm_buf W + ofs)))))))"

definition wm_dealloc :: "watermark \<Rightarrow> nat \<Rightarrow> layout \<Rightarrow> watermark" where
  "wm_dealloc W ptr lay = W"

text \<open>
  The bump pointer meets the contract for the layouts whose alignment divides the address of the
  buffer: the code aligns the offset in the buffer and not the address.
\<close>

definition wm_inv :: "nat \<Rightarrow> watermark \<Rightarrow> bool" where
  "wm_inv base W \<longleftrightarrow> wm_buf W = base \<and> 0 < base \<and> base + ALLOCATOR_BUF_SIZE < USIZE"

definition wm_used :: "watermark \<Rightarrow> nat set" where
  "wm_used W = {wm_buf W ..< wm_buf W + used_bytes W}"

definition wm_supported :: "nat \<Rightarrow> layout \<Rightarrow> bool" where
  "wm_supported base l \<longleftrightarrow> valid_layout l \<and> l_align l dvd base"

lemma wm_round_up:
  fixes u a :: nat
  assumes "0 < a"
  shows "u \<le> (u + a - 1) div a * a" "(u + a - 1) div a * a < u + a" "a dvd (u + a - 1) div a * a"
proof -
  have "(u + a - 1) div a * a + (u + a - 1) mod a = u + a - 1" "(u + a - 1) mod a < a"
    using assms by (simp_all add: div_mult_mod_eq)
  then show "u \<le> (u + a - 1) div a * a" "(u + a - 1) div a * a < u + a"
    using assms by linarith+
qed simp

lemma wm_alloc_correct:
  assumes "valid_layout l"
  shows "\<exists>W' p. wm_alloc W l = Inr (W', p) \<and> wm_buf W' = wm_buf W \<and> wm_used W \<subseteq> wm_used W' \<and>
    (p \<noteq> 0 \<longrightarrow> l_align l dvd p - wm_buf W \<and> area (p, l_size l) \<inter> wm_used W = {} \<and>
       area (p, l_size l) \<subseteq> wm_used W' \<and> p + l_size l \<le> wm_buf W + ALLOCATOR_BUF_SIZE \<and> wm_buf W \<le> p)"
proof (cases "ALLOCATOR_BUF_SIZE < used_bytes W")
  case True
  then show ?thesis by (simp add: wm_alloc_def)
next
  case False
  from assms obtain k where k: "l_align l = 2 ^ k" "k < 64" "l_size l + (2 ^ k - 1) < 2 ^ 63"
    by (auto simp: valid_layout_def)
  have a: "0 < l_align l" "l_align l \<le> 2 ^ 63" using k by auto
  let ?u = "used_bytes W" and ?a = "l_align l"
  let ?v = "(?u + ?a - 1) div ?a * ?a"
  note r = wm_round_up [OF a(1), of ?u]
  have small: "?u \<le> 0x240000" using False by (simp add: ALLOCATOR_BUF_SIZE_def)
  have sz: "l_size l + ?a < 2 ^ 63 + 1" using k by simp
  have "?v + l_size l < USIZE" using r(2) small sz by simp
  then have eval: "wm_alloc W l = (let W' = W\<lparr>used_bytes := ?v + l_size l\<rparr> in
      if ALLOCATOR_BUF_SIZE < ?v + l_size l then Inr (W', 0) else Inr (W', wm_buf W + ?v))"
    using False small a by (simp add: wm_alloc_def Let_def)
  show ?thesis
    using r small unfolding eval by (auto simp: Let_def wm_used_def area_def)
qed

interpretation watermark: global_alloc "wm_inv base" wm_used "wm_supported base" wm_alloc for base
proof
  fix W l
  assume W: "wm_inv base W" and l: "wm_supported base l"
  then obtain W' p where W': "wm_alloc W l = Inr (W', p)" "wm_buf W' = wm_buf W" "wm_used W \<subseteq> wm_used W'"
    "p \<noteq> 0 \<longrightarrow> l_align l dvd p - base \<and> area (p, l_size l) \<inter> wm_used W = {} \<and>
       area (p, l_size l) \<subseteq> wm_used W' \<and> base \<le> p \<and> p + l_size l \<le> base + ALLOCATOR_BUF_SIZE"
    using wm_alloc_correct [of l W] by (auto simp: wm_supported_def wm_inv_def)
  have "p \<noteq> 0 \<Longrightarrow> l_align l dvd p"
    using W' l by (metis dvd_diffD wm_supported_def)
  with W' W show "\<exists>W' p. wm_alloc W l = Inr (W', p) \<and> wm_inv base W' \<and> wm_used W \<subseteq> wm_used W' \<and>
      (p \<noteq> 0 \<longrightarrow> l_align l dvd p \<and> p + l_size l < USIZE \<and> area (p, l_size l) \<inter> wm_used W = {} \<and>
        area (p, l_size l) \<subseteq> wm_used W')"
    by (auto simp: wm_inv_def)
qed

end
