(* ===== verification/Paging.thy ===== *)
theory Paging
  imports Memory
begin

text \<open>
  Four-level page tables, \<open>os/src/x86_64/paging.rs\<close>.  Tables live in memory and refer to each
  other by the address bits of their entries, so the model keeps a store from addresses to tables
  of 512 words, together with the state of the allocator that \<open>populate\<close> takes new tables from.
  The allocator is an argument; the lemmas hold for every allocator that meets \<open>global_alloc\<close>, and
  the kernel heap is one.

  \<open>pt_wf\<close> says that the tables form a tree of fixed depth whose nodes lie in memory handed out by the
  allocator.  \<open>create_mapping\<close> keeps it, and afterwards \<open>translate\<close> returns the new frame
  for every page of the range and what it returned before for every other page.
\<close>

definition ATTR_MASK :: u64 where "ATTR_MASK = 0xFFF"
definition ATTR_PRESENT :: u64 where "ATTR_PRESENT = push_bit 0 1"
definition ATTR_WRITABLE :: u64 where "ATTR_WRITABLE = push_bit 1 1"
definition ATTR_USER :: u64 where "ATTR_USER = push_bit 2 1"
definition ATTR_WRITE_THROUGH :: u64 where "ATTR_WRITE_THROUGH = push_bit 3 1"
definition ATTR_CACHE_DISABLE :: u64 where "ATTR_CACHE_DISABLE = push_bit 4 1"

datatype page_attr = NotPresent | ReadWriteKernel | ReadWriteUser | ReadWriteIo

fun attr_bits :: "page_attr \<Rightarrow> u64" where
  "attr_bits NotPresent = 0"
| "attr_bits ReadWriteKernel = ATTR_PRESENT OR ATTR_WRITABLE"
| "attr_bits ReadWriteUser = ATTR_PRESENT OR ATTR_WRITABLE OR ATTR_USER"
| "attr_bits ReadWriteIo =
     ATTR_PRESENT OR ATTR_WRITABLE OR ATTR_WRITE_THROUGH OR ATTR_CACHE_DISABLE"

datatype translation_result = PageMapped4K u64 | PageMapped2M u64 | PageMapped1G u64

subsection \<open>Entries\<close>

definition is_present :: "u64 \<Rightarrow> bool" where
  "is_present v \<longleftrightarrow> v AND push_bit 0 1 \<noteq> 0"

definition is_writable :: "u64 \<Rightarrow> bool" where
  "is_writable v \<longleftrightarrow> v AND push_bit 1 1 \<noteq> 0"

definition is_user :: "u64 \<Rightarrow> bool" where
  "is_user v \<longleftrightarrow> v AND push_bit 2 1 \<noteq> 0"

definition entry_page :: "u64 \<Rightarrow> u64 res" where
  "entry_page v = (if is_present v then Inr (v AND NOT ATTR_MASK) else Inl (Err PageNotFound))"

type_synonym page_table = "u64 list"

record 's vm =
  vm_alloc :: 's
  vm_tables :: "nat \<Rightarrow> page_table option"

definition read_entry :: "'s vm \<Rightarrow> nat \<Rightarrow> nat \<Rightarrow> u64 res" where
  "read_entry vm t i =
     (case vm_tables vm t of
        None \<Rightarrow> Inl (UB ''no page table at this address'')
      | Some es \<Rightarrow> index_at es i)"

definition write_entry :: "'s vm \<Rightarrow> nat \<Rightarrow> nat \<Rightarrow> u64 \<Rightarrow> 's vm res" where
  "write_entry vm t i v =
     (case vm_tables vm t of
        None \<Rightarrow> Inl (UB ''no page table at this address'')
      | Some es \<Rightarrow>
          if i < length es then Inr (vm\<lparr>vm_tables := (vm_tables vm)(t \<mapsto> es[i := v])\<rparr>)
          else Inl (Panic ''index out of bounds''))"

definition entry_table :: "'s vm \<Rightarrow> u64 \<Rightarrow> nat res" where
  "entry_table vm v =
     (if is_present v then
        let t = unat (v AND NOT ATTR_MASK)
        in if vm_tables vm t = None then Inl (UB ''no page table at this address'') else Inr t
      else Inl (Err PageNotFound))"

definition table_layout :: layout where
  "table_layout = \<lparr>l_size = 4096, l_align = 4096\<rparr>"

definition populate :: "('s \<Rightarrow> layout \<Rightarrow> ('s \<times> nat) res) \<Rightarrow> 's vm \<Rightarrow> nat \<Rightarrow> nat \<Rightarrow> 's vm res" where
  "populate al vm t i =
     and_then (read_entry vm t i) (\<lambda>v.
     if is_present v then Inl (Err (Failed ''Page is already populated''))
     else
       and_then (al (vm_alloc vm) table_layout) (\<lambda>(s, p).
       if p = 0 then Inl (Panic ''allocation error'')
       else
         write_entry (vm\<lparr>vm_alloc := s, vm_tables := (vm_tables vm)(p \<mapsto> replicate 512 0)\<rparr>) t i
           (word_of_nat p OR attr_bits ReadWriteUser)))"

definition ensure_populated :: "('s \<Rightarrow> layout \<Rightarrow> ('s \<times> nat) res) \<Rightarrow> 's vm \<Rightarrow> nat \<Rightarrow> nat \<Rightarrow> 's vm res" where
  "ensure_populated al vm t i =
     and_then (read_entry vm t i) (\<lambda>v. if is_present v then Inr vm else populate al vm t i)"

definition set_page :: "'s vm \<Rightarrow> nat \<Rightarrow> nat \<Rightarrow> nat \<Rightarrow> page_attr \<Rightarrow> 's vm res" where
  "set_page vm t i phys attr =
     (if (word_of_nat phys :: u64) AND ATTR_MASK \<noteq> 0 then Inl (Err (Failed ''phys is not aligned''))
      else write_entry vm t i (word_of_nat phys OR attr_bits attr))"

subsection \<open>Tables\<close>

definition PT_SHIFT :: nat where "PT_SHIFT = 12"
definition PD_SHIFT :: nat where "PD_SHIFT = 21"
definition PDPT_SHIFT :: nat where "PDPT_SHIFT = 30"
definition PML4_SHIFT :: nat where "PML4_SHIFT = 39"

definition calc_index :: "nat \<Rightarrow> nat \<Rightarrow> nat" where
  "calc_index shift addr = unat (drop_bit shift (word_of_nat addr :: u64) AND 0x1FF)"

definition pml4_new :: "('s \<Rightarrow> layout \<Rightarrow> ('s \<times> nat) res) \<Rightarrow> 's vm \<Rightarrow> ('s vm \<times> nat) res" where
  "pml4_new al vm =
     and_then (al (vm_alloc vm) table_layout) (\<lambda>(s, p).
     if p = 0 then Inl (Panic ''allocation error'')
     else Inr (vm\<lparr>vm_alloc := s, vm_tables := (vm_tables vm)(p \<mapsto> replicate 512 0)\<rparr>, p))"

text \<open>\<open>entry[index].ensure_populated()?.table_mut()?\<close>, one level down.\<close>

definition descend ::
  "('s \<Rightarrow> layout \<Rightarrow> ('s \<times> nat) res) \<Rightarrow> 's vm \<Rightarrow> nat \<Rightarrow> nat \<Rightarrow> ('s vm \<times> nat) res" where
  "descend al vm t i =
     and_then (ensure_populated al vm t i) (\<lambda>vm.
     and_then (read_entry vm t i) (\<lambda>v.
     and_then (entry_table vm v) (\<lambda>t'. Inr (vm, t'))))"

definition map_page ::
  "('s \<Rightarrow> layout \<Rightarrow> ('s \<times> nat) res) \<Rightarrow> 's vm \<Rightarrow> nat \<Rightarrow> nat \<Rightarrow> nat \<Rightarrow> nat \<Rightarrow> page_attr \<Rightarrow> 's vm res" where
  "map_page al vm pml4 virt_start phys addr attr =
     and_then (descend al vm pml4 (calc_index PML4_SHIFT addr)) (\<lambda>(vm, pdpt).
     and_then (descend al vm pdpt (calc_index PDPT_SHIFT addr)) (\<lambda>(vm, pd).
     and_then (descend al vm pd (calc_index PD_SHIFT addr)) (\<lambda>(vm, pt).
     and_then (usize_add phys addr) (\<lambda>a.
     and_then (usize_sub a virt_start) (\<lambda>p.
     set_page vm pt (calc_index PT_SHIFT addr) p attr)))))"

function map_pages ::
  "('s \<Rightarrow> layout \<Rightarrow> ('s \<times> nat) res) \<Rightarrow> 's vm \<Rightarrow> nat \<Rightarrow> nat \<Rightarrow> nat \<Rightarrow> page_attr \<Rightarrow> nat \<Rightarrow> nat \<Rightarrow> 's vm res" where
  "map_pages al vm pml4 virt_start phys attr addr virt_end =
     (if addr < virt_end then
        (case map_page al vm pml4 virt_start phys addr attr of
           Inl e \<Rightarrow> Inl e
         | Inr vm' \<Rightarrow> map_pages al vm' pml4 virt_start phys attr (addr + PAGE_SIZE) virt_end)
      else Inr vm)"
  by pat_completeness auto
termination
  by (relation "measure (\<lambda>(_, _, _, _, _, _, addr, virt_end). virt_end - addr)")
    (auto simp: PAGE_SIZE_def PAGE_OFFSET_BITS_def)

declare map_pages.simps [simp del]

definition create_mapping ::
  "('s \<Rightarrow> layout \<Rightarrow> ('s \<times> nat) res) \<Rightarrow> 's vm \<Rightarrow> nat \<Rightarrow> nat \<Rightarrow> nat \<Rightarrow> nat \<Rightarrow> page_attr \<Rightarrow> 's vm res" where
  "create_mapping al vm pml4 virt_start virt_end phys attr =
     (if (word_of_nat virt_start :: u64) AND ATTR_MASK \<noteq> 0 then Inl (Err (Failed ''Invalid virt_start''))
      else if (word_of_nat virt_end :: u64) AND ATTR_MASK \<noteq> 0 then Inl (Err (Failed ''Invalid virt_end''))
      else if (word_of_nat phys :: u64) AND ATTR_MASK \<noteq> 0 then Inl (Err (Failed ''Invalid phys''))
      else map_pages al vm pml4 virt_start phys attr virt_start virt_end)"

definition translate :: "'s vm \<Rightarrow> nat \<Rightarrow> nat \<Rightarrow> translation_result res" where
  "translate vm pml4 virt =
     and_then (read_entry vm pml4 (calc_index PML4_SHIFT virt)) (\<lambda>v.
     and_then (entry_table vm v) (\<lambda>pdpt.
     and_then (read_entry vm pdpt (calc_index PDPT_SHIFT virt)) (\<lambda>v.
     and_then (entry_table vm v) (\<lambda>pd.
     and_then (read_entry vm pd (calc_index PD_SHIFT virt)) (\<lambda>v.
     and_then (entry_table vm v) (\<lambda>pt.
     and_then (read_entry vm pt (calc_index PT_SHIFT virt)) (\<lambda>v.
     and_then (entry_page v) (\<lambda>page. Inr (PageMapped4K page)))))))))"

subsection \<open>Words and indexes\<close>

lemma calc_index_arith:
  assumes "addr < USIZE"
  shows "calc_index shift addr = addr div 2 ^ shift mod 512"
proof -
  have m: "(0x1FF :: u64) = mask 9" by (simp add: mask_eq_exp_minus_1)
  have "unat (word_of_nat addr :: u64) = addr" using assms by (simp add: unat_of_nat)
  then show ?thesis
    unfolding calc_index_def m take_bit_eq_mask [symmetric] unat_take_bit unat_drop_bit by simp
qed

lemma calc_index_less: "calc_index shift addr < 512"
proof -
  have m: "(0x1FF :: u64) = mask 9" by (simp add: mask_eq_exp_minus_1)
  show ?thesis unfolding calc_index_def m take_bit_eq_mask [symmetric] unat_take_bit by simp
qed

lemma ATTR_MASK_eq: "ATTR_MASK = mask 12"
  by (simp add: ATTR_MASK_def mask_eq_exp_minus_1)

lemma page_aligned_iff:
  assumes "a < USIZE"
  shows "(word_of_nat a :: u64) AND ATTR_MASK = 0 \<longleftrightarrow> PAGE_SIZE dvd a"
proof -
  have "unat ((word_of_nat a :: u64) AND mask 12) = a mod 4096"
    using assms by (simp add: unat_take_bit unat_of_nat flip: take_bit_eq_mask)
  moreover have "w = 0 \<longleftrightarrow> unat w = 0" for w :: u64 by (simp add: unat_eq_0)
  ultimately show ?thesis
    unfolding ATTR_MASK_eq by (simp add: PAGE_SIZE_def PAGE_OFFSET_BITS_def dvd_eq_mod_eq_0)
qed

lemma bits_above_attr:
  fixes v w :: u64
  assumes "v AND mask 12 = 0" "w AND NOT (mask 12) = 0"
  shows "(v OR w) AND NOT (mask 12) = v"
proof (rule bit_word_eqI)
  fix n
  have "\<not> bit v n" if "n < 12"
    using assms(1) that by (metis bit_0_eq bit_and_iff bit_mask_iff bot_apply bot_bool_def
        len_of_numeral_defs numeral_less_iff possible_bit_word bit_imp_le_length)
  moreover have "\<not> bit w n" if "12 \<le> n"
    using assms(2) that by (metis bit_0_eq bit_and_iff bit_mask_iff bit_not_iff bot_apply bot_bool_def
        bit_imp_le_length leD possible_bit_word)
  ultimately show "bit ((v OR w) AND NOT (mask 12)) n = bit v n"
    by (auto simp: bit_simps dest: bit_imp_le_length)
qed

lemma attr_bits_low: "attr_bits a AND NOT (mask 12) = 0"
  by (cases a) (simp_all add: ATTR_PRESENT_def ATTR_WRITABLE_def ATTR_USER_def ATTR_WRITE_THROUGH_def
      ATTR_CACHE_DISABLE_def mask_eq_exp_minus_1)

lemma is_present_bit: "is_present v = bit v 0"
  unfolding is_present_def by (simp add: and_one_eq bit_0 odd_iff_mod_2_eq_one)

lemma page_entry:
  assumes "a < USIZE" "PAGE_SIZE dvd a"
  shows "((word_of_nat a :: u64) OR attr_bits attr) AND NOT ATTR_MASK = word_of_nat a"
    "unat ((word_of_nat a :: u64)) = a"
    "is_present ((word_of_nat a :: u64) OR attr_bits attr) \<longleftrightarrow> attr \<noteq> NotPresent"
proof -
  have z: "(word_of_nat a :: u64) AND mask 12 = 0"
    using assms page_aligned_iff by (simp add: ATTR_MASK_eq)
  then show "((word_of_nat a :: u64) OR attr_bits attr) AND NOT ATTR_MASK = word_of_nat a"
    unfolding ATTR_MASK_eq by (rule bits_above_attr) (rule attr_bits_low)
  show "unat ((word_of_nat a :: u64)) = a" using assms by (simp add: unat_of_nat)
  have "even a" using assms(2) by (auto simp: PAGE_SIZE_def PAGE_OFFSET_BITS_def)
  then have "\<not> bit (word_of_nat a :: u64) 0" by (simp add: bit_0)
  moreover have "bit (attr_bits attr) 0 \<longleftrightarrow> attr \<noteq> NotPresent"
    by (cases attr) (simp_all add: ATTR_PRESENT_def ATTR_WRITABLE_def ATTR_USER_def
        ATTR_WRITE_THROUGH_def ATTR_CACHE_DISABLE_def bit_0)
  ultimately show "is_present ((word_of_nat a :: u64) OR attr_bits attr) \<longleftrightarrow> attr \<noteq> NotPresent"
    by (simp add: is_present_bit bit_or_iff)
qed

text \<open>The four indexes of an address and the page number they stand for.\<close>

definition path :: "nat \<Rightarrow> nat list" where
  "path addr = [calc_index PML4_SHIFT addr, calc_index PDPT_SHIFT addr,
                calc_index PD_SHIFT addr, calc_index PT_SHIFT addr]"

lemma path_page_number:
  assumes "a < 2 ^ 48"
  shows "a div 4096 = calc_index PML4_SHIFT a * 2 ^ 27 + calc_index PDPT_SHIFT a * 2 ^ 18 +
    calc_index PD_SHIFT a * 2 ^ 9 + calc_index PT_SHIFT a"
proof -
  have less: "a < USIZE" using assms by simp
  let ?n = "a div 4096"
  have d: "a div 2 ^ 12 = ?n" "a div 2 ^ 21 = ?n div 512" "a div 2 ^ 30 = ?n div 512 div 512"
    "a div 2 ^ 39 = ?n div 512 div 512 div 512"
    by (simp_all add: div_mult2_eq [symmetric])
  have "?n div 512 div 512 div 512 < 512"
    using assms by (simp add: div_mult2_eq [symmetric] less_mult_imp_div_less)
  then have top: "?n div 512 div 512 div 512 mod 512 = ?n div 512 div 512 div 512" by simp
  have "?n = ?n div 512 div 512 div 512 * 134217728 + ?n div 512 div 512 mod 512 * 262144 +
      ?n div 512 mod 512 * 512 + ?n mod 512"
    using div_mult_mod_eq [of ?n 512] div_mult_mod_eq [of "?n div 512" 512]
      div_mult_mod_eq [of "?n div 512 div 512" 512] by linarith
  then show ?thesis
    unfolding calc_index_arith [OF less] PML4_SHIFT_def PDPT_SHIFT_def PD_SHIFT_def PT_SHIFT_def d top
    by simp
qed

lemma path_inj:
  assumes "a < 2 ^ 48" "b < 2 ^ 48"
  shows "path a = path b \<longleftrightarrow> a div 4096 = b div 4096"
proof
  assume "path a = path b"
  then show "a div 4096 = b div 4096"
    unfolding path_page_number [OF assms(1)] path_page_number [OF assms(2)] by (simp add: path_def)
next
  assume eq: "a div 4096 = b div 4096"
  have "a div 2 ^ k = b div 2 ^ k" if "12 \<le> k" for k
  proof -
    have "(2 :: nat) ^ k = 4096 * 2 ^ (k - 12)"
      using that power_add [of "2 :: nat" 12 "k - 12"] by simp
    then have "x div 2 ^ k = x div 4096 div 2 ^ (k - 12)" for x :: nat
      by (simp only: div_mult2_eq)
    then show ?thesis using eq by simp
  qed
  then have "calc_index k a = calc_index k b" if "12 \<le> k" for k
    using assms that by (simp add: calc_index_arith)
  then show "path a = path b"
    by (simp add: path_def PML4_SHIFT_def PDPT_SHIFT_def PD_SHIFT_def PT_SHIFT_def)
qed

subsection \<open>The tree of tables\<close>

definition child :: "'s vm \<Rightarrow> nat \<Rightarrow> nat \<Rightarrow> nat option" where
  "child vm t i =
     (case vm_tables vm t of
        None \<Rightarrow> None
      | Some es \<Rightarrow> if is_present (es ! i) then Some (unat (es ! i AND NOT ATTR_MASK)) else None)"

definition entry_at :: "'s vm \<Rightarrow> nat \<Rightarrow> nat \<Rightarrow> u64" where
  "entry_at vm t i = (case vm_tables vm t of None \<Rightarrow> 0 | Some es \<Rightarrow> es ! i)"

fun locate :: "'s vm \<Rightarrow> nat \<Rightarrow> nat list \<Rightarrow> (nat \<times> nat) option" where
  "locate vm t [] = None"
| "locate vm t [i] = Some (t, i)"
| "locate vm t (i # j # p) =
     (case child vm t i of None \<Rightarrow> None | Some t' \<Rightarrow> locate vm t' (j # p))"

definition walk :: "'s vm \<Rightarrow> nat \<Rightarrow> nat list \<Rightarrow> u64" where
  "walk vm t p = (case locate vm t p of None \<Rightarrow> 0 | Some (u, i) \<Rightarrow> entry_at vm u i)"

text \<open>
  \<open>L\<close> gives the level of every table: 3 for the PML4 down to 0 for the page tables that hold frames.
\<close>

definition pt_tree :: "(nat \<Rightarrow> nat) \<Rightarrow> ('s \<Rightarrow> nat set) \<Rightarrow> 's vm \<Rightarrow> bool" where
  "pt_tree L used vm \<longleftrightarrow>
     (\<forall>t es. vm_tables vm t = Some es \<longrightarrow> length es = 512 \<and> area (t, 4096) \<subseteq> used (vm_alloc vm)) \<and>
     (\<forall>t i t'. 0 < L t \<longrightarrow> i < 512 \<longrightarrow> child vm t i = Some t' \<longrightarrow> vm_tables vm t' \<noteq> None \<and> Suc (L t') = L t) \<and>
     (\<forall>t u i j x. 0 < L t \<longrightarrow> 0 < L u \<longrightarrow> i < 512 \<longrightarrow> j < 512 \<longrightarrow>
        child vm t i = Some x \<longrightarrow> child vm u j = Some x \<longrightarrow> t = u \<and> i = j)"

definition pt_wf :: "('s \<Rightarrow> nat set) \<Rightarrow> 's vm \<Rightarrow> nat \<Rightarrow> bool" where
  "pt_wf used vm root \<longleftrightarrow> (\<exists>L. pt_tree L used vm \<and> vm_tables vm root \<noteq> None \<and> L root = 3)"

definition full_path :: "nat \<Rightarrow> nat list \<Rightarrow> bool" where
  "full_path k p \<longleftrightarrow> length p = Suc k \<and> (\<forall>i \<in> set p. i < 512)"

lemma pt_treeD:
  assumes "pt_tree L used vm"
  shows "vm_tables vm t = Some es \<Longrightarrow> length es = 512"
    "vm_tables vm t = Some es \<Longrightarrow> area (t, 4096) \<subseteq> used (vm_alloc vm)"
    "child vm t i = Some t' \<Longrightarrow> 0 < L t \<Longrightarrow> i < 512 \<Longrightarrow> vm_tables vm t' \<noteq> None \<and> Suc (L t') = L t"
    "child vm t i = Some x \<Longrightarrow> child vm u j = Some x \<Longrightarrow> 0 < L t \<Longrightarrow> 0 < L u \<Longrightarrow> i < 512 \<Longrightarrow> j < 512 \<Longrightarrow> t = u \<and> i = j"
  using assms unfolding pt_tree_def by blast+

lemma full_path_path: "full_path 3 (path a)"
  by (simp add: full_path_def path_def calc_index_less)

lemma full_path_Cons: "full_path (Suc k) (i # p) \<longleftrightarrow> i < 512 \<and> full_path k p"
  by (auto simp: full_path_def)

lemma full_path_cases:
  assumes "full_path k p"
  obtains i where "k = 0" "p = [i]" "i < 512"
  | i j q k' where "k = Suc k'" "p = i # j # q" "i < 512" "full_path k' (j # q)"
  using assms
proof (cases p)
  case (Cons i p')
  with assms that show ?thesis by (cases p') (auto simp: full_path_def)
qed (simp add: full_path_def)

lemma locate_leaf:
  assumes "pt_tree L used vm"
  shows "full_path (L t) p \<Longrightarrow> vm_tables vm t \<noteq> None \<Longrightarrow> locate vm t p = Some (u, i) \<Longrightarrow>
    vm_tables vm u \<noteq> None \<and> L u = 0 \<and> i < 512"
proof (induction p arbitrary: t)
  case (Cons i' p)
  from Cons.prems(1) show ?case
  proof (cases rule: full_path_cases)
    case (1 j)
    with Cons.prems show ?thesis by auto
  next
    case (2 a b q k')
    with Cons.prems obtain t' where t': "child vm t a = Some t'" "locate vm t' (b # q) = Some (u, i)"
      by (auto split: option.splits)
    with pt_treeD(3) [OF assms t'(1)] 2 have "vm_tables vm t' \<noteq> None" "L t' = k'" by auto
    with Cons.IH [of t'] t' 2 show ?thesis by simp
  qed
qed simp

lemma locate_inj:
  assumes "pt_tree L used vm"
  shows "full_path (L t) p \<Longrightarrow> full_path (L t') q \<Longrightarrow> L t = L t' \<Longrightarrow>
    locate vm t p = Some x \<Longrightarrow> locate vm t' q = Some x \<Longrightarrow> t = t' \<and> p = q"
proof (induction p arbitrary: t t' q)
  case (Cons i p)
  from Cons.prems(1) show ?case
  proof (cases rule: full_path_cases)
    case (1 j)
    with Cons.prems have "full_path 0 q" by simp
    then show ?thesis using Cons.prems 1 by (cases rule: full_path_cases) auto
  next
    case (2 a b r k)
    have fq: "full_path (Suc k) q" using Cons.prems 2 by simp
    obtain t1 where t1: "child vm t a = Some t1" "locate vm t1 (b # r) = Some x"
      using 2 Cons.prems by (auto split: option.splits)
    from fq show ?thesis
    proof (cases rule: full_path_cases)
      case (2 a' b' r' k')
      obtain t2 where t2: "child vm t' a' = Some t2" "locate vm t2 (b' # r') = Some x"
        using 2 Cons.prems by (auto split: option.splits)
      have lv: "0 < L t" "0 < L t'" using \<open>L t = Suc k\<close> Cons.prems(3) by simp_all
      have "L t1 = k" "L t2 = k"
        using pt_treeD(3) [OF assms t1(1) lv(1)] pt_treeD(3) [OF assms t2(1) lv(2)]
          \<open>a < 512\<close> \<open>a' < 512\<close> \<open>L t = Suc k\<close> Cons.prems(3) by simp_all
      then have "t1 = t2 \<and> b # r = b' # r'"
        using Cons.IH [of t1 t2 "b' # r'"] t1 t2 2 \<open>full_path k (b # r)\<close> \<open>i # p = a # b # r\<close> by simp
      with pt_treeD(4) [OF assms t1(1), of t' a'] t2 lv \<open>a < 512\<close> \<open>a' < 512\<close> \<open>i # p = a # b # r\<close> 2
      show ?thesis by auto
    qed simp
  qed
qed (simp add: full_path_def)

text \<open>Writing an entry of a lowest-level table.\<close>

lemma child_write_other:
  "write_entry vm t i v = Inr vm' \<Longrightarrow> u \<noteq> t \<or> j \<noteq> i \<Longrightarrow> child vm' u j = child vm u j"
  by (auto simp: write_entry_def child_def split: option.splits if_splits)

lemma entry_at_write:
  "write_entry vm t i v = Inr vm' \<Longrightarrow> entry_at vm' u j = (if u = t \<and> j = i then v else entry_at vm u j)"
  by (auto simp: write_entry_def entry_at_def split: option.splits if_splits)

lemma dom_write:
  "write_entry vm t i v = Inr vm' \<Longrightarrow> vm_tables vm' u = None \<longleftrightarrow> vm_tables vm u = None"
  by (auto simp: write_entry_def split: option.splits if_splits)

lemma write_entry_Inr:
  assumes "write_entry vm t i v = Inr vm'"
  obtains es where "vm_tables vm t = Some es" "i < length es"
    "vm' = vm\<lparr>vm_tables := (vm_tables vm)(t \<mapsto> es[i := v])\<rparr>"
  using assms by (auto simp: write_entry_def split: option.splits if_splits)

lemma write_leaf_tree:
  assumes "pt_tree L used vm" "write_entry vm t i v = Inr vm'" "L t = 0"
  shows "pt_tree L used vm'"
proof -
  have ch: "child vm' u j = child vm u j" if "0 < L u" for u j
    by (rule child_write_other [OF assms(2)]) (use that assms(3) in auto)
  from assms(2) obtain es0 where e: "vm_tables vm t = Some es0"
    "vm' = vm\<lparr>vm_tables := (vm_tables vm)(t \<mapsto> es0[i := v])\<rparr>"
    by (rule write_entry_Inr)
  have tb: "length es = 512 \<and> area (u, 4096) \<subseteq> used (vm_alloc vm')" if "vm_tables vm' u = Some es" for u es
    using that e pt_treeD(1,2) [OF assms(1)] by (cases "u = t") auto
  show ?thesis
    unfolding pt_tree_def
  proof (intro conjI allI impI)
    fix u j x assume "0 < L u" "j < 512" "child vm' u j = Some x"
    then show "vm_tables vm' x \<noteq> None" "Suc (L x) = L u"
      using ch pt_treeD(3) [OF assms(1), of u j x] dom_write [OF assms(2)] by auto
  next
    fix u w j k x
    assume "0 < L u" "0 < L w" "j < 512" "k < 512" "child vm' u j = Some x" "child vm' w k = Some x"
    then show "u = w" "j = k" using ch pt_treeD(4) [OF assms(1), of u j x w k] by auto
  qed (use tb in auto)
qed

lemma locate_write_leaf:
  assumes "pt_tree L used vm" "write_entry vm t i v = Inr vm'" "L t = 0"
  shows "full_path (L r) p \<Longrightarrow> locate vm' r p = locate vm r p"
proof (induction p arbitrary: r)
  case (Cons i' p)
  from Cons.prems show ?case
  proof (cases rule: full_path_cases)
    case (2 a b q k)
    then have ch: "child vm' r a = child vm r a"
      using child_write_other [OF assms(2), of r a] assms(3) by fastforce
    show ?thesis
    proof (cases "child vm r a")
      case (Some c)
      with pt_treeD(3) [OF assms(1) Some] 2 have "L c = k" by auto
      with Cons.IH [of c] 2 Some ch show ?thesis by simp
    qed (use 2 ch in simp)
  qed simp
qed simp

lemma walk_write_leaf:
  assumes "pt_tree L used vm" "write_entry vm t i v = Inr vm'" "L t = 0"
    "full_path (L r) p" "full_path (L r) q" "locate vm r p = Some (t, i)"
  shows "walk vm' r q = (if q = p then v else walk vm r q)"
proof (cases "locate vm r q")
  case None
  then show ?thesis using locate_write_leaf [OF assms(1-3,5)] assms(6) by (auto simp: walk_def)
next
  case (Some uj)
  then have "uj = (t, i) \<longleftrightarrow> q = p"
    using locate_inj [OF assms(1,4,5) refl assms(6)] assms(6) by auto
  then show ?thesis
    using Some locate_write_leaf [OF assms(1-3,5)] entry_at_write [OF assms(2)]
    by (cases uj) (auto simp: walk_def)
qed

lemma read_table_step:
  assumes "pt_tree L used vm" "vm_tables vm t \<noteq> None" "i < 512" "0 < L t"
  shows "and_then (read_entry vm t i) (\<lambda>v. and_then (entry_table vm v) f) =
    (case child vm t i of None \<Rightarrow> Inl (Err PageNotFound) | Some t' \<Rightarrow> f t')"
proof -
  from assms(2) obtain es where es: "vm_tables vm t = Some es" by auto
  with pt_treeD(1) [OF assms(1) es] assms(3) have "read_entry vm t i = Inr (es ! i)"
    by (simp add: read_entry_def)
  with es show ?thesis
    using pt_treeD(3) [OF assms(1), of t i] assms(3,4)
    by (cases "is_present (es ! i)") (auto simp: entry_table_def child_def Let_def)
qed

lemma read_page_step:
  assumes "pt_tree L used vm" "vm_tables vm t \<noteq> None" "i < 512"
  shows "and_then (read_entry vm t i) (\<lambda>v. and_then (entry_page v) (\<lambda>p. Inr (PageMapped4K p))) =
    (if is_present (entry_at vm t i) then Inr (PageMapped4K (entry_at vm t i AND NOT ATTR_MASK))
     else Inl (Err PageNotFound))"
proof -
  from assms(2) obtain es where es: "vm_tables vm t = Some es" by auto
  with pt_treeD(1) [OF assms(1) es] assms(3) have "read_entry vm t i = Inr (es ! i)"
    by (simp add: read_entry_def)
  with es show ?thesis by (simp add: entry_page_def entry_at_def)
qed

lemma translate_walk:
  assumes "pt_wf used vm root"
  shows "translate vm root a =
    (let v = walk vm root (path a)
     in if is_present v then Inr (PageMapped4K (v AND NOT ATTR_MASK)) else Inl (Err PageNotFound))"
proof -
  obtain L where L: "pt_tree L used vm" "vm_tables vm root \<noteq> None" "L root = 3"
    using assms by (auto simp: pt_wf_def)
  note D = pt_treeD(3) [OF L(1)] and S = read_table_step [OF L(1)] read_page_step [OF L(1)]
  have np: "\<not> is_present 0" by (simp add: is_present_bit)
  let ?i = "\<lambda>s. calc_index s a"
  show ?thesis
  proof (cases "child vm root (?i PML4_SHIFT)")
    case None
    with L np show ?thesis
      by (simp add: translate_def S calc_index_less walk_def path_def)
  next
    case t3: (Some t3)
    with D [OF t3] L have l3: "vm_tables vm t3 \<noteq> None" "L t3 = 2" by (simp_all add: calc_index_less)
    show ?thesis
    proof (cases "child vm t3 (?i PDPT_SHIFT)")
      case None
      with L l3 t3 np show ?thesis
        by (simp add: translate_def S calc_index_less walk_def path_def)
    next
      case t2: (Some t2)
      with D [OF t2] l3 have l2: "vm_tables vm t2 \<noteq> None" "L t2 = 1" by (simp_all add: calc_index_less)
      show ?thesis
      proof (cases "child vm t2 (?i PD_SHIFT)")
        case None
        with L l3 t3 l2 t2 np show ?thesis
          by (simp add: translate_def S calc_index_less walk_def path_def)
      next
        case t1: (Some t1)
        with D [OF t1] l2 have "vm_tables vm t1 \<noteq> None" by (simp add: calc_index_less)
        with L l3 t3 l2 t2 t1 show ?thesis
          by (simp add: translate_def S calc_index_less walk_def path_def)
      qed
    qed
  qed
qed

subsection \<open>Adding an empty table\<close>

lemma walk_empty_table:
  assumes "vm_tables vm t = Some (replicate 512 0)" "full_path k p"
  shows "walk vm t p = 0"
  using assms(2)
proof (cases rule: full_path_cases)
  case (1 i)
  with assms(1) show ?thesis by (simp add: walk_def entry_at_def)
next
  case (2 i j q k')
  with assms(1) show ?thesis by (simp add: walk_def child_def is_present_bit)
qed

text \<open>\<open>vm'\<close> is \<open>vm\<close> with a new, empty table \<open>p\<close> below entry \<open>i\<close> of the table \<open>t\<close> of level \<open>Suc k\<close>.\<close>

definition adds_table ::
  "(nat \<Rightarrow> nat) \<Rightarrow> ('s \<Rightarrow> nat set) \<Rightarrow> 's vm \<Rightarrow> 's vm \<Rightarrow> nat \<Rightarrow> nat \<Rightarrow> nat \<Rightarrow> nat \<Rightarrow> bool" where
  "adds_table L used vm vm' t i p k \<longleftrightarrow>
     pt_tree L used vm \<and> L t = Suc k \<and> i < 512 \<and> child vm t i = None \<and>
     vm_tables vm p = None \<and> 4096 dvd p \<and> p < USIZE \<and>
     used (vm_alloc vm) \<subseteq> used (vm_alloc vm') \<and> area (p, 4096) \<subseteq> used (vm_alloc vm') \<and>
     (\<exists>es. vm_tables vm t = Some es \<and> vm_tables vm' =
        (vm_tables vm)(p \<mapsto> replicate 512 0, t \<mapsto> es[i := word_of_nat p OR attr_bits ReadWriteUser]))"

lemma adds_tableE:
  assumes "adds_table L used vm vm' t i p k"
  obtains es where "pt_tree L used vm" "L t = Suc k" "i < 512" "child vm t i = None" "vm_tables vm p = None"
    "p \<noteq> t" "vm_tables vm t = Some es" "length es = 512" "vm_tables vm' t =
      Some (es[i := word_of_nat p OR attr_bits ReadWriteUser])"
    "vm_tables vm' p = Some (replicate 512 0)" "\<forall>u. u \<noteq> t \<longrightarrow> u \<noteq> p \<longrightarrow> vm_tables vm' u = vm_tables vm u"
    "used (vm_alloc vm) \<subseteq> used (vm_alloc vm')" "area (p, 4096) \<subseteq> used (vm_alloc vm')"
proof -
  from assms obtain es where es: "vm_tables vm t = Some es" "vm_tables vm' =
      (vm_tables vm)(p \<mapsto> replicate 512 0, t \<mapsto> es[i := word_of_nat p OR attr_bits ReadWriteUser])"
    by (auto simp: adds_table_def)
  with assms have "p \<noteq> t" by (auto simp: adds_table_def)
  moreover have "length es = 512" using es assms by (auto simp: adds_table_def dest: pt_treeD(1))
  ultimately show ?thesis using that es assms by (simp add: adds_table_def)
qed

lemma adds_table_child:
  assumes "adds_table L used vm vm' t i p k"
  shows "child vm' t i = Some p" "j < 512 \<Longrightarrow> child vm' p j = None"
    "u \<noteq> p \<Longrightarrow> (u, j) \<noteq> (t, i) \<Longrightarrow> child vm' u j = child vm u j"
    "u \<noteq> p \<Longrightarrow> u \<noteq> t \<Longrightarrow> entry_at vm' u j = entry_at vm u j"
    "vm_tables vm' u = None \<longleftrightarrow> vm_tables vm u = None \<and> u \<noteq> p"
    "0 < L u \<Longrightarrow> j < 512 \<Longrightarrow> child vm u j \<noteq> Some p"
proof -
  from assms obtain es where e: "pt_tree L used vm" "L t = Suc k" "i < 512" "child vm t i = None" "vm_tables vm p = None"
    "p \<noteq> t" "vm_tables vm t = Some es" "length es = 512" "vm_tables vm' t =
      Some (es[i := word_of_nat p OR attr_bits ReadWriteUser])"
    "vm_tables vm' p = Some (replicate 512 0)" "\<forall>u. u \<noteq> t \<longrightarrow> u \<noteq> p \<longrightarrow> vm_tables vm' u = vm_tables vm u"
    "used (vm_alloc vm) \<subseteq> used (vm_alloc vm')" "area (p, 4096) \<subseteq> used (vm_alloc vm')"
    by (rule adds_tableE)
  have "PAGE_SIZE dvd p" "p < USIZE" using assms by (simp_all add: adds_table_def PAGE_SIZE_def PAGE_OFFSET_BITS_def)
  from page_entry(1,3) [OF this(2,1), of ReadWriteUser] page_entry(2) [OF this(2,1)] e show "child vm' t i = Some p"
    by (simp add: child_def)
  show "j < 512 \<Longrightarrow> child vm' p j = None" using e by (simp add: child_def is_present_bit)
  show "u \<noteq> p \<Longrightarrow> (u, j) \<noteq> (t, i) \<Longrightarrow> child vm' u j = child vm u j"
    using e by (cases "u = t") (auto simp: child_def)
  show "u \<noteq> p \<Longrightarrow> u \<noteq> t \<Longrightarrow> entry_at vm' u j = entry_at vm u j" using e by (simp add: entry_at_def)
  show "vm_tables vm' u = None \<longleftrightarrow> vm_tables vm u = None \<and> u \<noteq> p"
    using e by (cases "u = t"; cases "u = p") auto
  show "0 < L u \<Longrightarrow> j < 512 \<Longrightarrow> child vm u j \<noteq> Some p"
    using pt_treeD(3) [OF e(1), of u j p] e(5) by auto
qed

lemma adds_table_child_cases:
  assumes a: "adds_table L used vm vm' t i p k"
    and c: "child vm' u j = Some x" "j < 512" "0 < (L(p := k)) u"
  shows "u \<noteq> p \<and> 0 < L u \<and>
    (u = t \<and> j = i \<and> x = p \<or> (u, j) \<noteq> (t, i) \<and> x \<noteq> p \<and> child vm u j = Some x)"
proof -
  have up: "u \<noteq> p" using c adds_table_child(2) [OF a, of j] by auto
  then have l: "0 < L u" using c(3) by simp
  show ?thesis
  proof (cases "(u, j) = (t, i)")
    case True
    then show ?thesis using up l c(1) adds_table_child(1) [OF a] by simp
  next
    case False
    then have "child vm u j = Some x" using c(1) adds_table_child(3) [OF a up False] by simp
    then show ?thesis using up l False adds_table_child(6) [OF a l c(2)] by auto
  qed
qed

lemma adds_table_tree:
  assumes a: "adds_table L used vm vm' t i p k"
  shows "pt_tree (L(p := k)) used vm'"
proof -
  from a obtain es where e: "pt_tree L used vm" "L t = Suc k" "i < 512" "child vm t i = None" "vm_tables vm p = None"
    "p \<noteq> t" "vm_tables vm t = Some es" "length es = 512" "vm_tables vm' t =
      Some (es[i := word_of_nat p OR attr_bits ReadWriteUser])"
    "vm_tables vm' p = Some (replicate 512 0)" "\<forall>u. u \<noteq> t \<longrightarrow> u \<noteq> p \<longrightarrow> vm_tables vm' u = vm_tables vm u"
    "used (vm_alloc vm) \<subseteq> used (vm_alloc vm')" "area (p, 4096) \<subseteq> used (vm_alloc vm')"
    by (rule adds_tableE)
  show ?thesis
    unfolding pt_tree_def
  proof (intro conjI allI impI)
    fix u fs assume u: "vm_tables vm' u = Some fs"
    consider "u = p" | "u = t" | "u \<noteq> p" "u \<noteq> t" by blast
    then have "length fs = 512 \<and> area (u, 4096) \<subseteq> used (vm_alloc vm')"
    proof cases
      case 2
      with u e pt_treeD(2) [OF e(1,7)] show ?thesis by auto
    next
      case 3
      with u e(11) pt_treeD(1,2) [OF e(1), of u fs] e(12) show ?thesis by auto
    qed (use u e in auto)
    then show "length fs = 512" "area (u, 4096) \<subseteq> used (vm_alloc vm')" by simp_all
  next
    fix u j x assume b: "0 < (L(p := k)) u" "j < 512" "child vm' u j = Some x"
    note c = adds_table_child_cases [OF a b(3,2,1)]
    then have "vm_tables vm' x \<noteq> None \<and> Suc ((L(p := k)) x) = (L(p := k)) u"
    proof (elim conjE disjE)
      assume "u = t" "x = p"
      with e show ?thesis by simp
    next
      assume "child vm u j = Some x" "0 < L u" "u \<noteq> p" "x \<noteq> p"
      with pt_treeD(3) [OF e(1) this(1,2) b(2)] adds_table_child(5) [OF a, of x] show ?thesis by simp
    qed
    then show "vm_tables vm' x \<noteq> None" "Suc ((L(p := k)) x) = (L(p := k)) u" by simp_all
  next
    fix u w j m x
    assume b: "0 < (L(p := k)) u" "0 < (L(p := k)) w" "j < 512" "m < 512"
      "child vm' u j = Some x" "child vm' w m = Some x"
    note c = adds_table_child_cases [OF a b(5,3,1)] and d = adds_table_child_cases [OF a b(6,4,2)]
    have "u = w \<and> j = m"
    proof (cases "x = p")
      case True
      with c d show ?thesis by simp
    next
      case False
      with c d have "child vm u j = Some x" "child vm w m = Some x" "0 < L u" "0 < L w" by simp_all
      from pt_treeD(4) [OF e(1) this b(3,4)] show ?thesis .
    qed
    then show "u = w" "j = m" by simp_all
  qed
qed

lemma adds_table_walk:
  assumes a: "adds_table L used vm vm' t i p k"
  shows "full_path (L r) q \<Longrightarrow> vm_tables vm r \<noteq> None \<Longrightarrow> walk vm' r q = walk vm r q"
proof (induction q arbitrary: r)
  case (Cons i' q)
  from a obtain es where e: "pt_tree L used vm" "L t = Suc k" "child vm t i = None"
    "vm_tables vm p = None" "vm_tables vm' p = Some (replicate 512 0)"
    by (rule adds_tableE)
  have rp: "r \<noteq> p" using Cons.prems e(4) by auto
  from Cons.prems(1) show ?case
  proof (cases rule: full_path_cases)
    case (1 j)
    then have "r \<noteq> t" using e(2) by auto
    with 1 rp show ?thesis by (simp add: walk_def adds_table_child(4) [OF a])
  next
    case (2 b c q' k')
    show ?thesis
    proof (cases "(r, b) = (t, i)")
      case True
      then have "walk vm r (i' # q) = 0" using 2 e(3) by (simp add: walk_def)
      moreover have "walk vm' r (i' # q) = walk vm' p (c # q')"
        using True 2 adds_table_child(1) [OF a] by (simp add: walk_def)
      ultimately show ?thesis using walk_empty_table [OF e(5) 2(4)] by simp
    next
      case False
      note ch = adds_table_child(3) [OF a rp False]
      show ?thesis
      proof (cases "child vm r b")
        case None
        then show ?thesis using 2 ch by (simp add: walk_def)
      next
        case (Some d)
        with pt_treeD(3) [OF e(1) Some] 2 have "vm_tables vm d \<noteq> None" "L d = k'" by auto
        with Cons.IH [of d] 2 Some ch show ?thesis by (simp add: walk_def)
      qed
    qed
  qed
qed (simp add: full_path_def)

subsection \<open>Mapping, for every allocator that meets the contract\<close>

context global_alloc
begin

definition vm_ok :: "(nat \<Rightarrow> nat) \<Rightarrow> 's vm \<Rightarrow> bool" where
  "vm_ok L vm \<longleftrightarrow> inv (vm_alloc vm) \<and> pt_tree L used vm"

definition extends :: "(nat \<Rightarrow> nat) \<Rightarrow> 's vm \<Rightarrow> (nat \<Rightarrow> nat) \<Rightarrow> 's vm \<Rightarrow> bool" where
  "extends L vm L' vm' \<longleftrightarrow> vm_ok L' vm' \<and>
     (\<forall>u. vm_tables vm u \<noteq> None \<longrightarrow> vm_tables vm' u \<noteq> None \<and> L' u = L u \<and>
        (\<forall>q. full_path (L u) q \<longrightarrow> walk vm' u q = walk vm u q) \<and>
        (\<forall>j c. child vm u j = Some c \<longrightarrow> child vm' u j = Some c))"

lemma extends_refl: "vm_ok L vm \<Longrightarrow> extends L vm L vm"
  by (simp add: extends_def)

lemma extends_trans: "extends L vm L1 vm1 \<Longrightarrow> extends L1 vm1 L2 vm2 \<Longrightarrow> extends L vm L2 vm2"
  unfolding extends_def by metis

lemma adds_table_extends:
  assumes a: "adds_table L used vm vm' t i p k" and i: "inv (vm_alloc vm')"
  shows "extends L vm (L(p := k)) vm'"
proof -
  have p: "vm_tables vm p = None" and ti: "child vm t i = None"
    using a by (auto simp: adds_table_def)
  have "child vm' u j = Some c" if "child vm u j = Some c" "vm_tables vm u \<noteq> None" for u j c
  proof -
    have "u \<noteq> p" "(u, j) \<noteq> (t, i)" using that p ti by auto
    from adds_table_child(3) [OF a this] that(1) show ?thesis by simp
  qed
  then show ?thesis
    using adds_table_tree [OF a] adds_table_walk [OF a] adds_table_child(5) [OF a] i p
    by (auto simp: extends_def vm_ok_def)
qed

lemma populate_adds:
  assumes ok: "vm_ok L vm" and t: "vm_tables vm t \<noteq> None" "L t = Suc k" "i < 512" "child vm t i = None"
    and sup: "supported table_layout"
  shows "populate alloc vm t i = Inl (Panic ''allocation error'') \<or>
    (\<exists>vm' p. populate alloc vm t i = Inr vm' \<and> adds_table L used vm vm' t i p k \<and> inv (vm_alloc vm'))"
proof -
  from t(1) obtain es where es: "vm_tables vm t = Some es" by auto
  have tree: "pt_tree L used vm" and iv: "inv (vm_alloc vm)" using ok by (simp_all add: vm_ok_def)
  have len: "length es = 512" using pt_treeD(1) [OF tree es] .
  have np: "\<not> is_present (es ! i)" using t(4) es by (auto simp: child_def split: if_splits)
  from alloc_law [OF iv sup] obtain s p where s: "alloc (vm_alloc vm) table_layout = Inr (s, p)" "inv s"
    "used (vm_alloc vm) \<subseteq> used s"
    "p \<noteq> 0 \<longrightarrow> 4096 dvd p \<and> p + 4096 < USIZE \<and> area (p, 4096) \<inter> used (vm_alloc vm) = {} \<and> area (p, 4096) \<subseteq> used s"
    by (auto simp: table_layout_def)
  show ?thesis
  proof (cases "p = 0")
    case True
    then show ?thesis using es len np s(1) t(3) by (simp add: populate_def read_entry_def)
  next
    case False
    with s(4) have f: "4096 dvd p" "p + 4096 < USIZE" "area (p, 4096) \<inter> used (vm_alloc vm) = {}"
      "area (p, 4096) \<subseteq> used s" by auto
    have "p \<in> area (p, 4096)" by (simp add: area_def)
    with f(3) pt_treeD(2) [OF tree, of p] have fresh: "vm_tables vm p = None"
      by (cases "vm_tables vm p") auto
    then have pt: "p \<noteq> t" using es by auto
    let ?vm' = "vm\<lparr>vm_alloc := s, vm_tables := (vm_tables vm)(p \<mapsto> replicate 512 0,
        t \<mapsto> es[i := word_of_nat p OR attr_bits ReadWriteUser])\<rparr>"
    have "populate alloc vm t i = Inr ?vm'"
      using es len np s(1) t(3) False pt by (simp add: populate_def read_entry_def write_entry_def)
    moreover have "adds_table L used vm ?vm' t i p k"
      unfolding adds_table_def using tree t es fresh f s(3) by auto
    ultimately show ?thesis using s(2) by auto
  qed
qed

lemma descend_ok:
  assumes ok: "vm_ok L vm" and t: "vm_tables vm t \<noteq> None" "L t = Suc k" "i < 512"
    and sup: "supported table_layout"
  shows "descend alloc vm t i = Inl (Panic ''allocation error'') \<or>
    (\<exists>vm' t' L'. descend alloc vm t i = Inr (vm', t') \<and> extends L vm L' vm' \<and>
       child vm' t i = Some t' \<and> vm_tables vm' t' \<noteq> None \<and> L' t' = k)"
proof -
  have tree: "pt_tree L used vm" using ok by (simp add: vm_ok_def)
  have tail: "and_then (read_entry vm' t i) (\<lambda>v. and_then (entry_table vm' v) (\<lambda>t'. Inr (vm', t'))) = Inr (vm', c)"
    if "vm_ok L' vm'" "child vm' t i = Some c" "vm_tables vm' t \<noteq> None" "0 < L' t" for L' vm' c
    using read_table_step [of L' used vm' t i "\<lambda>t'. Inr (vm', t')"] that t(3) by (simp add: vm_ok_def)
  from t(1) obtain es where es: "vm_tables vm t = Some es" by auto
  have rd: "read_entry vm t i = Inr (es ! i)" using es t(3) pt_treeD(1) [OF tree es] by (simp add: read_entry_def)
  show ?thesis
  proof (cases "child vm t i")
    case (Some c)
    then have "is_present (es ! i)" using es by (auto simp: child_def split: if_splits)
    then have "descend alloc vm t i = Inr (vm, c)"
      using rd tail [OF ok Some t(1)] t(2) by (simp add: descend_def ensure_populated_def)
    with Some pt_treeD(3) [OF tree Some] t extends_refl [OF ok] show ?thesis by auto
  next
    case None
    then have np: "\<not> is_present (es ! i)" using es by (auto simp: child_def split: if_splits)
    from populate_adds [OF ok t None sup] show ?thesis
    proof (elim disjE exE conjE)
      assume "populate alloc vm t i = Inl (Panic ''allocation error'')"
      then show ?thesis using rd np by (simp add: descend_def ensure_populated_def)
    next
      fix vm' p assume p: "populate alloc vm t i = Inr vm'" "adds_table L used vm vm' t i p k" "inv (vm_alloc vm')"
      note ex = adds_table_extends [OF p(2,3)]
      have tp: "t \<noteq> p" using p(2) t(1) by (auto simp: adds_table_def)
      have c: "child vm' t i = Some p" using adds_table_child(1) [OF p(2)] .
      have "vm_ok (L(p := k)) vm'" "vm_tables vm' t \<noteq> None" "vm_tables vm' p \<noteq> None"
        using ex t(1) adds_table_child(5) [OF p(2)] by (auto simp: extends_def)
      with tail [of "L(p := k)" vm' p] c t(2) tp have "descend alloc vm t i = Inr (vm', p)"
        using rd np p(1) by (simp add: descend_def ensure_populated_def)
      then show ?thesis using ex c \<open>vm_tables vm' p \<noteq> None\<close> by (auto intro!: exI [of _ "L(p := k)"])
    qed
  qed
qed

lemma extendsD:
  assumes "extends L vm L' vm'" "vm_tables vm u \<noteq> None"
  shows "vm_ok L' vm'" "vm_tables vm' u \<noteq> None" "L' u = L u"
    "full_path (L u) q \<Longrightarrow> walk vm' u q = walk vm u q"
    "child vm u j = Some c \<Longrightarrow> child vm' u j = Some c"
  using assms by (auto simp: extends_def)

definition rooted :: "(nat \<Rightarrow> nat) \<Rightarrow> 's vm \<Rightarrow> nat \<Rightarrow> bool" where
  "rooted L vm root \<longleftrightarrow> vm_ok L vm \<and> vm_tables vm root \<noteq> None \<and> L root = 3"

text \<open>Three steps down lead to the page table that \<open>path addr\<close> names.\<close>

lemma three_levels:
  assumes r: "rooted L vm root" and sup: "supported table_layout"
  shows "and_then (descend alloc vm root (calc_index PML4_SHIFT addr)) (\<lambda>(vm, pdpt).
      and_then (descend alloc vm pdpt (calc_index PDPT_SHIFT addr)) (\<lambda>(vm, pd).
      and_then (descend alloc vm pd (calc_index PD_SHIFT addr)) (\<lambda>(vm, pt). f vm pt)))
      = Inl (Panic ''allocation error'') \<or>
    (\<exists>L' vm' pt. and_then (descend alloc vm root (calc_index PML4_SHIFT addr)) (\<lambda>(vm, pdpt).
      and_then (descend alloc vm pdpt (calc_index PDPT_SHIFT addr)) (\<lambda>(vm, pd).
      and_then (descend alloc vm pd (calc_index PD_SHIFT addr)) (\<lambda>(vm, pt). f vm pt))) = f vm' pt \<and>
      extends L vm L' vm' \<and> L' pt = 0 \<and> vm_tables vm' pt \<noteq> None \<and>
      locate vm' root (path addr) = Some (pt, calc_index PT_SHIFT addr))"
proof -
  let ?i = "\<lambda>s. calc_index s addr"
  have root: "vm_ok L vm" "vm_tables vm root \<noteq> None" "L root = Suc 2" using r by (simp_all add: rooted_def)
  from descend_ok [OF root calc_index_less sup, of PML4_SHIFT addr] show ?thesis
  proof (elim disjE exE conjE)
    fix v1 t1 L1
    assume 1: "descend alloc vm root (?i PML4_SHIFT) = Inr (v1, t1)" "extends L vm L1 v1"
      "child v1 root (?i PML4_SHIFT) = Some t1" "vm_tables v1 t1 \<noteq> None" "L1 t1 = 2"
    have ok1: "vm_ok L1 v1" "vm_tables v1 root \<noteq> None" using extendsD [OF 1(2) root(2)] by auto
    have l1: "L1 t1 = Suc 1" using 1(5) by simp
    from descend_ok [OF ok1(1) 1(4) l1 calc_index_less sup, of PDPT_SHIFT addr] show ?thesis
    proof (elim disjE exE conjE)
      fix v2 t2 L2
      assume 2: "descend alloc v1 t1 (?i PDPT_SHIFT) = Inr (v2, t2)" "extends L1 v1 L2 v2"
        "child v2 t1 (?i PDPT_SHIFT) = Some t2" "vm_tables v2 t2 \<noteq> None" "L2 t2 = 1"
      have ok2: "vm_ok L2 v2" "vm_tables v2 t1 \<noteq> None" "vm_tables v2 root \<noteq> None"
        "child v2 root (?i PML4_SHIFT) = Some t1"
        using extendsD [OF 2(2) 1(4)] extendsD [OF 2(2) ok1(2)] 1(3) by auto
      have l2: "L2 t2 = Suc 0" using 2(5) by simp
      from descend_ok [OF ok2(1) 2(4) l2 calc_index_less sup, of PD_SHIFT addr] show ?thesis
      proof (elim disjE exE conjE)
        fix v3 t3 L3
        assume 3: "descend alloc v2 t2 (?i PD_SHIFT) = Inr (v3, t3)" "extends L2 v2 L3 v3"
          "child v3 t2 (?i PD_SHIFT) = Some t3" "vm_tables v3 t3 \<noteq> None" "L3 t3 = 0"
        have "locate v3 root (path addr) = Some (t3, ?i PT_SHIFT)"
          using extendsD(5) [OF 3(2) ok2(3)] extendsD(5) [OF 3(2) ok2(2)] ok2(4) 2(3) 3(3)
          by (simp add: path_def)
        moreover have "extends L vm L3 v3" using extends_trans 1(2) 2(2) 3(2) by blast
        ultimately show ?thesis using 1(1) 2(1) 3 by auto
      qed (use 1(1) 2(1) in auto)
    qed (use 1(1) in auto)
  qed auto
qed

lemma map_page_ok:
  assumes r: "rooted L vm root" and sup: "supported table_layout"
    and b: "phys + addr < USIZE" "vs \<le> phys + addr" "PAGE_SIZE dvd phys + addr - vs"
  shows "map_page alloc vm root vs phys addr attr = Inl (Panic ''allocation error'') \<or>
    (\<exists>L' vm'. map_page alloc vm root vs phys addr attr = Inr vm' \<and> rooted L' vm' root \<and>
      (\<forall>q. full_path 3 q \<longrightarrow> walk vm' root q =
         (if q = path addr then word_of_nat (phys + addr - vs) OR attr_bits attr else walk vm root q)))"
proof -
  define P where "P = phys + addr - vs"
  let ?v = "word_of_nat P OR attr_bits attr :: u64"
  have al: "(word_of_nat P :: u64) AND ATTR_MASK = 0"
    by (rule page_aligned_iff [THEN iffD2]) (use b in \<open>simp_all add: P_def\<close>)
  have root: "vm_tables vm root \<noteq> None" "L root = 3" using r by (simp_all add: rooted_def)
  note three_levels [OF r sup, of addr "\<lambda>vm pt. and_then (usize_add phys addr) (\<lambda>a.
     and_then (usize_sub a vs) (\<lambda>p. set_page vm pt (calc_index PT_SHIFT addr) p attr))"]
  then show ?thesis
  proof (elim disjE exE conjE)
    fix L1 v1 pt
    assume eq: "and_then (descend alloc vm root (calc_index PML4_SHIFT addr)) (\<lambda>(vm, pdpt).
      and_then (descend alloc vm pdpt (calc_index PDPT_SHIFT addr)) (\<lambda>(vm, pd).
      and_then (descend alloc vm pd (calc_index PD_SHIFT addr)) (\<lambda>(vm, pt).
        and_then (usize_add phys addr) (\<lambda>a. and_then (usize_sub a vs) (\<lambda>p.
          set_page vm pt (calc_index PT_SHIFT addr) p attr))))) =
      and_then (usize_add phys addr) (\<lambda>a. and_then (usize_sub a vs) (\<lambda>p.
          set_page v1 pt (calc_index PT_SHIFT addr) p attr))"
    assume x: "extends L vm L1 v1" "L1 pt = 0" "vm_tables v1 pt \<noteq> None"
      "locate v1 root (path addr) = Some (pt, calc_index PT_SHIFT addr)"
    have ok: "vm_ok L1 v1" "vm_tables v1 root \<noteq> None" "L1 root = 3"
      "\<And>q. full_path 3 q \<Longrightarrow> walk v1 root q = walk vm root q"
      using extendsD [OF x(1) root(1)] root(2) by auto
    then have tree: "pt_tree L1 used v1" "inv (vm_alloc v1)" by (simp_all add: vm_ok_def)
    from x(3) obtain es where es: "vm_tables v1 pt = Some es" by auto
    then obtain v2 where w: "write_entry v1 pt (calc_index PT_SHIFT addr) ?v = Inr v2"
      using pt_treeD(1) [OF tree(1) es] calc_index_less by (simp add: write_entry_def)
    have "vm_alloc v2 = vm_alloc v1" using w by (rule write_entry_Inr) simp
    then have "rooted L1 v2 root"
      using write_leaf_tree [OF tree(1) w x(2)] tree(2) ok dom_write [OF w] by (simp add: rooted_def vm_ok_def)
    moreover have "walk v2 root q = (if q = path addr then ?v else walk vm root q)" if "full_path 3 q" for q
      using walk_write_leaf [OF tree(1) w x(2) _ _ x(4), of q] ok that full_path_path by auto
    moreover have "map_page alloc vm root vs phys addr attr = Inr v2"
      unfolding map_page_def eq using b al w by (simp add: set_page_def P_def [symmetric])
    ultimately show ?thesis unfolding P_def by blast
  qed (simp add: map_page_def)
qed

lemma map_pages_ok:
  assumes sup: "supported table_layout" and al: "PAGE_SIZE dvd vs" "PAGE_SIZE dvd ve" "PAGE_SIZE dvd phys"
    and le: "ve \<le> 2 ^ 48" "phys + ve < USIZE"
  shows "rooted L vm root \<Longrightarrow> PAGE_SIZE dvd addr \<Longrightarrow> vs \<le> addr \<Longrightarrow> addr \<le> ve \<Longrightarrow>
    map_pages alloc vm root vs phys attr addr ve = Inl (Panic ''allocation error'') \<or>
    (\<exists>L' vm'. map_pages alloc vm root vs phys attr addr ve = Inr vm' \<and> rooted L' vm' root \<and>
      (\<forall>a < 2 ^ 48. walk vm' root (path a) =
         (if addr \<le> a \<and> a < ve then word_of_nat (phys + a div 4096 * 4096 - vs) OR attr_bits attr
          else walk vm root (path a))))"
proof (induction "ve - addr" arbitrary: vm L addr rule: less_induct)
  case less
  show ?case
  proof (cases "addr < ve")
    case False
    then have "map_pages alloc vm root vs phys attr addr ve = Inr vm"
      by (subst map_pages.simps) simp
    with False less.prems show ?thesis by (intro disjI2 exI [of _ L] exI [of _ vm]) auto
  next
    case True
    have P: "PAGE_SIZE = 4096" by (simp add: PAGE_SIZE_def PAGE_OFFSET_BITS_def)
    have nxt: "PAGE_SIZE dvd addr + PAGE_SIZE" "addr + PAGE_SIZE \<le> ve"
      using True less.prems(2) al(2) by (simp_all add: P, metis dvd_add_triv_right_iff dvd_diffD1
          dvd_diff_nat dvd_imp_le le_add_diff_inverse less_imp_le_nat nat_add_left_cancel_le zero_less_diff)
    have "phys + addr < USIZE" "vs \<le> phys + addr" "PAGE_SIZE dvd phys + addr - vs"
      using True le less.prems al by (auto intro: dvd_diff_nat)
    from map_page_ok [OF less.prems(1) sup this, of attr] show ?thesis
    proof (elim disjE exE conjE)
      assume "map_page alloc vm root vs phys addr attr = Inl (Panic ''allocation error'')"
      then show ?thesis using True by (simp add: map_pages.simps [of _ vm])
    next
      fix L1 v1
      assume v1: "map_page alloc vm root vs phys addr attr = Inr v1" "rooted L1 v1 root"
        "\<forall>q. full_path 3 q \<longrightarrow> walk v1 root q =
           (if q = path addr then word_of_nat (phys + addr - vs) OR attr_bits attr else walk vm root q)"
      have w: "walk v1 root (path a) = (if addr \<le> a \<and> a < addr + PAGE_SIZE
          then word_of_nat (phys + a div 4096 * 4096 - vs) OR attr_bits attr else walk vm root (path a))"
        if "a < 2 ^ 48" for a
      proof -
        have "addr < 2 ^ 48" using True le(1) by simp
        from path_inj [OF that this] have "path a = path addr \<longleftrightarrow> a div 4096 = addr div 4096" .
        also have "\<dots> \<longleftrightarrow> addr \<le> a \<and> a < addr + PAGE_SIZE"
          using less.prems(2) unfolding P by (auto elim!: dvdE)
        finally have eq: "path a = path addr \<longleftrightarrow> addr \<le> a \<and> a < addr + PAGE_SIZE" .
        moreover have "a div 4096 * 4096 = addr" if "a div 4096 = addr div 4096"
          using that less.prems(2) P by simp
        ultimately show ?thesis
          using v1(3) full_path_path \<open>path a = path addr \<longleftrightarrow> a div 4096 = addr div 4096\<close> by simp
      qed
      have ms: "map_pages alloc vm root vs phys attr addr ve =
          map_pages alloc v1 root vs phys attr (addr + PAGE_SIZE) ve"
        using True v1(1) by (simp add: map_pages.simps [of _ vm])
      have "ve - (addr + PAGE_SIZE) < ve - addr" "vs \<le> addr + PAGE_SIZE" using True P less.prems by simp_all
      from less.hyps [OF this(1) v1(2) nxt(1) this(2) nxt(2)] show ?thesis
        unfolding ms using w nxt(2) by (elim disjE exE conjE) (auto split: if_splits)
    qed
  qed
qed

lemma create_mapping_ok:
  assumes "inv (vm_alloc vm)" "pt_wf used vm root" "supported table_layout"
    "PAGE_SIZE dvd vs" "PAGE_SIZE dvd ve" "PAGE_SIZE dvd phys" "vs \<le> ve" "ve \<le> 2 ^ 48" "phys + ve < USIZE"
  shows "create_mapping alloc vm root vs ve phys attr = Inl (Panic ''allocation error'') \<or>
    (\<exists>vm'. create_mapping alloc vm root vs ve phys attr = Inr vm' \<and> inv (vm_alloc vm') \<and> pt_wf used vm' root \<and>
      (\<forall>a < 2 ^ 48. translate vm' root a =
         (if vs \<le> a \<and> a < ve then
            (if attr = NotPresent then Inl (Err PageNotFound)
             else Inr (PageMapped4K (word_of_nat (phys + a div 4096 * 4096 - vs))))
          else translate vm root a)))"
proof -
  from assms(1,2) obtain L where L: "rooted L vm root"
    by (auto simp: rooted_def vm_ok_def pt_wf_def)
  have eq: "create_mapping alloc vm root vs ve phys attr = map_pages alloc vm root vs phys attr vs ve"
    using assms(4-9) page_aligned_iff [of vs] page_aligned_iff [of ve] page_aligned_iff [of phys]
    by (simp add: create_mapping_def)
  have wf: "rooted L' vm' root \<Longrightarrow> pt_wf used vm' root \<and> inv (vm_alloc vm')" for L' vm'
    by (auto simp: rooted_def vm_ok_def pt_wf_def)
  have fr: "phys + a div 4096 * 4096 - vs < USIZE" "PAGE_SIZE dvd phys + a div 4096 * 4096 - vs" if "a < ve" for a
  proof -
    have "a div 4096 * 4096 \<le> a" by simp
    then show "phys + a div 4096 * 4096 - vs < USIZE" using that assms(9) by linarith
    have "PAGE_SIZE dvd a div 4096 * 4096" by (simp add: PAGE_SIZE_def PAGE_OFFSET_BITS_def)
    then show "PAGE_SIZE dvd phys + a div 4096 * 4096 - vs" using assms(4,6) by (intro dvd_diff_nat dvd_add)
  qed
  from map_pages_ok [OF assms(3-6,8,9) L assms(4) order_refl assms(7), of attr] show ?thesis
  proof (elim disjE exE conjE)
    fix L' vm'
    assume v: "map_pages alloc vm root vs phys attr vs ve = Inr vm'" "rooted L' vm' root"
      "\<forall>a < 2 ^ 48. walk vm' root (path a) =
         (if vs \<le> a \<and> a < ve then word_of_nat (phys + a div 4096 * 4096 - vs) OR attr_bits attr
          else walk vm root (path a))"
    have "translate vm' root a = (if vs \<le> a \<and> a < ve then
            (if attr = NotPresent then Inl (Err PageNotFound)
             else Inr (PageMapped4K (word_of_nat (phys + a div 4096 * 4096 - vs))))
          else translate vm root a)" if "a < 2 ^ 48" for a
      using v(3) that page_entry(1,3) [OF fr, of a attr] wf [OF v(2)] assms(2)
      by (auto simp: translate_walk [of used] Let_def simp del: of_nat_add of_nat_mult of_nat_diff)
    with v wf [OF v(2)] eq show ?thesis by (intro disjI2 exI [of _ vm']) simp
  qed (simp add: eq)
qed

end


subsection \<open>The kernel heap as the source of tables\<close>

lemma table_layout_valid: "valid_layout table_layout"
  using page_size_pow2 by (simp add: valid_layout_def table_layout_def)

lemmas heap_create_mapping_ok = first_fit.create_mapping_ok [OF _ _ table_layout_valid]
lemmas bounded_create_mapping_ok = bounded_fit.create_mapping_ok [OF _ _ table_layout_valid]

lemma pt_wf_new:
  assumes "heap_inv (vm_alloc vm)" "vm_tables vm = Map.empty" "pml4_new alloc_with_options vm = Inr (vm', root)"
  shows "heap_inv (vm_alloc vm') \<and> pt_wf heap_used vm' root"
proof -
  from first_fit.alloc_law [OF assms(1) table_layout_valid] obtain A p where
    A: "alloc_with_options (vm_alloc vm) table_layout = Inr (A, p)" "heap_inv A"
      "p \<noteq> 0 \<longrightarrow> area (p, 4096) \<subseteq> heap_used A"
    by (auto simp: table_layout_def)
  with assms have vm': "root = p" "p \<noteq> 0" "vm_alloc vm' = A" "vm_tables vm' = [p \<mapsto> replicate 512 0]"
    by (auto simp: pml4_new_def split: if_splits)
  have "child vm' t i = None" if "i < 512" for t i
    using vm' that by (simp add: child_def is_present_bit)
  with vm' A have "pt_tree (\<lambda>_. 3) heap_used vm'" by (auto simp: pt_tree_def split: if_splits)
  with vm' A show ?thesis by (auto simp: pt_wf_def)
qed

end
