(* ===== verification/Elf.thy ===== *)
theory Elf
  imports Memory Paging
begin

text \<open>
  The program loader: the structures of \<open>os/src/elf.rs\<close> and the parser, the loading of segments and the relocation of
  \<open>os/src/loader.rs\<close>.  A file is its bytes.  Addresses and sizes of the file are 64-bit words, read as naturals where the
  source converts them to \<open>usize\<close>.  Loading changes the heap, which provides the region, and the page tables, in which the
  region is mapped for the application; \<open>root\<close> is the address of the current top-level table (the register CR3).
  The lemmas show that a parsed header is the one that the file spells, that loading puts every segment at its
  place with zeros behind it, and that relocation writes the loaded addresses and nothing else.
\<close>

subsection \<open>Structures\<close>

definition PHDR_TYPE_LOAD :: u32 where "PHDR_TYPE_LOAD = 1"
definition PHDR_TYPE_DYNAMIC :: u32 where "PHDR_TYPE_DYNAMIC = 2"
definition DYNAMIC_TAG_RELA_ADDRESS :: u64 where "DYNAMIC_TAG_RELA_ADDRESS = 7"
definition DYNAMIC_TAG_RELA_TOTAL_SIZE :: u64 where "DYNAMIC_TAG_RELA_TOTAL_SIZE = 8"
definition DYNAMIC_TAG_RELA_ENTRY_SIZE :: u64 where "DYNAMIC_TAG_RELA_ENTRY_SIZE = 9"
definition R_386_RELATIVE :: u64 where "R_386_RELATIVE = 8"

record segment_header =
  phdr_type :: u32
  entry_type :: u32
  seg_offset :: u64
  seg_vaddr :: u64
  seg_fsize :: u64
  seg_vsize :: u64
  seg_align :: u64

definition vaddr_range :: "segment_header \<Rightarrow> address_range res" where
  "vaddr_range s = from_start_and_size (unat (seg_vaddr s)) (unat (seg_vsize s))"

definition file_range :: "segment_header \<Rightarrow> (nat \<times> nat) res" where
  "file_range s = and_then (usize_add (unat (seg_offset s)) (unat (seg_fsize s))) (\<lambda>e. Inr (unat (seg_offset s), e))"

record section_header =
  sec_name_ofs :: u32
  section_type :: u32
  sec_flags :: u32
  sec_vaddr :: u64
  sec_offset :: u64
  sec_size :: u64
  sec_link :: u32
  sec_info :: u32
  sec_align :: u64
  sec_entry_size :: u64

text \<open>The structure has C layout: four bytes of padding follow the flags, and its size is 64.\<close>

definition section_of :: "bytes \<Rightarrow> section_header" where
  "section_of bs =
     \<lparr>sec_name_ofs = word_le (take 4 bs), section_type = word_le (take 4 (drop 4 bs)),
      sec_flags = word_le (take 4 (drop 8 bs)), sec_vaddr = word_le (take 8 (drop 16 bs)),
      sec_offset = word_le (take 8 (drop 24 bs)), sec_size = word_le (take 8 (drop 32 bs)),
      sec_link = word_le (take 4 (drop 40 bs)), sec_info = word_le (take 4 (drop 44 bs)),
      sec_align = word_le (take 8 (drop 48 bs)), sec_entry_size = word_le (take 8 (drop 56 bs))\<rparr>"

definition section_file_range :: "section_header \<Rightarrow> (nat \<times> nat) res" where
  "section_file_range s =
     (if sec_offset s \<noteq> 0 \<and> sec_size s \<noteq> 0
      then and_then (usize_add (unat (sec_offset s)) (unat (sec_size s))) (\<lambda>e. Inr (unat (sec_offset s), e))
      else Inl (Err (Failed ''This section does not have a valid file_range'')))"

record relocation_entry =
  rel_address :: u64
  rel_info :: u64
  rel_addend :: u64

definition relocation_of :: "bytes \<Rightarrow> relocation_entry" where
  "relocation_of bs = \<lparr>rel_address = word_le (take 8 bs), rel_info = word_le (take 8 (drop 8 bs)),
     rel_addend = word_le (take 8 (drop 16 bs))\<rparr>"

definition relocation_try_from :: "bytes \<Rightarrow> relocation_entry res" where
  "relocation_try_from data =
     (if 24 \<le> length data then Inr (relocation_of data)
      else Inl (Err (Failed ''data is too short for SymbolTableEntry'')))"

record dynamic_entry =
  dyn_tag :: u64
  dyn_value :: u64

definition dynamic_try_from :: "bytes \<Rightarrow> dynamic_entry res" where
  "dynamic_try_from data =
     (if 16 \<le> length data then Inr \<lparr>dyn_tag = word_le (take 8 data), dyn_value = word_le (take 8 (drop 8 data))\<rparr>
      else Inl (Err (Failed ''data is too short for DynamicEntry'')))"

text \<open>An iterator of results collected into a result: the first error ends it.\<close>

fun collect_res :: "('a \<Rightarrow> 'b res) \<Rightarrow> 'a list \<Rightarrow> 'b list res" where
  "collect_res f [] = Inr []"
| "collect_res f (x # xs) = and_then (f x) (\<lambda>y. and_then (collect_res f xs) (\<lambda>ys. Inr (y # ys)))"

function chunks_loop :: "nat \<Rightarrow> 'a list \<Rightarrow> 'a list list" where
  "chunks_loop n xs = (if n = 0 \<or> length xs < n then [] else take n xs # chunks_loop n (drop n xs))"
  by pat_completeness auto
termination by (relation "measure (\<lambda>(_, xs). length xs)") auto

declare chunks_loop.simps [simp del]

definition chunks_exact :: "nat \<Rightarrow> 'a list \<Rightarrow> 'a list list res" where
  "chunks_exact n xs = (if n = 0 then Inl (Panic ''chunk size must be non-zero'') else Inr (chunks_loop n xs))"

subsection \<open>Parsing\<close>

record elf =
  elf_data :: bytes
  entry_vaddr :: u64
  elf_segments :: "segment_header list"
  elf_sections :: "bytes \<Rightarrow> section_header option"
  string_table :: "bytes option"

definition read_string_from_table :: "bytes option \<Rightarrow> nat \<Rightarrow> bytes" where
  "read_string_from_table tab name_ofs =
     (case tab of
        None \<Rightarrow> ascii ''(no string table)''
      | Some t \<Rightarrow>
          if length t \<le> name_ofs then ascii ''(out of range)''
          else let name = takeWhile (\<lambda>c. c \<noteq> 0) (drop name_ofs t)
               in if utf8_valid name then name else ascii ''(invalid)'')"

definition read_string :: "elf \<Rightarrow> nat \<Rightarrow> bytes" where
  "read_string e name_ofs = read_string_from_table (string_table e) name_ofs"

definition parse_ident :: "bytes \<Rightarrow> unit res" where
  "parse_ident data =
     and_then (slice_of data 0 4) (\<lambda>sig.
     if sig \<noteq> [0x7f, 0x45, 0x4c, 0x46] then Inl (Err (Failed ''No ELF signature found'')) else
     and_then (index_at data 4) (\<lambda>c.
     if c \<noteq> 2 \<and> c \<noteq> 3 then Inl (Err (Failed ''Not a 64-bit ELF'')) else
     and_then (index_at data 5) (\<lambda>c.
     if c \<noteq> 1 then Inl (Err (Failed ''Not a litte endian ELF'')) else
     and_then (index_at data 7) (\<lambda>c.
     if c \<noteq> 0 then Inl (Err (Failed ''ABI is not SystemV'')) else
     and_then (read_le_u16 data 16) (\<lambda>elf_type.
     if elf_type \<noteq> 2 \<and> elf_type \<noteq> 3 then Inl (Err (Failed ''Not an executable ELF'')) else
     and_then (read_le_u16 data 18) (\<lambda>machine.
     if machine \<noteq> 0x3E then Inl (Err (Failed ''Not an x86_64 ELF'')) else Inr ()))))))"

text \<open>The slice of an entry of a table: its offset is computed with 64 bits.\<close>

definition table_entry :: "bytes \<Rightarrow> u64 \<Rightarrow> u16 \<Rightarrow> nat \<Rightarrow> bytes res" where
  "table_entry data start entry_size i =
     and_then (usize_mul i (unat entry_size)) (\<lambda>k.
     and_then (usize_add (unat start) k) (\<lambda>ofs.
     and_then (usize_add ofs (unat entry_size)) (\<lambda>e. slice_of data ofs e)))"

definition parse_segment :: "bytes \<Rightarrow> segment_header res" where
  "parse_segment phdr_entry =
     and_then (read_le_u32 phdr_entry 0) (\<lambda>ty.
     and_then (read_le_u32 phdr_entry 4) (\<lambda>et.
     and_then (read_le_u64 phdr_entry 8) (\<lambda>offset.
     and_then (read_le_u64 phdr_entry 16) (\<lambda>vaddr.
     and_then (read_le_u64 phdr_entry 32) (\<lambda>fsize.
     and_then (read_le_u64 phdr_entry 40) (\<lambda>vsize.
     and_then (read_le_u64 phdr_entry 48) (\<lambda>align.
     Inr \<lparr>phdr_type = ty, entry_type = et, seg_offset = offset, seg_vaddr = vaddr, seg_fsize = fsize,
          seg_vsize = vsize, seg_align = align\<rparr>)))))))"

definition parse_section :: "bytes \<Rightarrow> section_header res" where
  "parse_section shdr_entry =
     (if length shdr_entry < 64 then Inl (Err (Failed ''Section size is invalid'')) else Inr (section_of shdr_entry))"

text \<open>The sections by name: of two sections with the same name the later one stays.\<close>

definition name_sections :: "bytes \<Rightarrow> section_header list \<Rightarrow> bytes \<Rightarrow> section_header option" where
  "name_sections names secs =
     map_of (rev (map (\<lambda>s. (read_string_from_table (Some names) (unat (sec_name_ofs s)), s)) secs))"

definition find_string_table :: "bytes \<Rightarrow> (bytes \<Rightarrow> section_header option) \<Rightarrow> bytes option res" where
  "find_string_table data secs =
     (case secs (ascii ''.strtab'') of
        None \<Rightarrow> Inr None
      | Some s \<Rightarrow>
          (case section_file_range s of
             Inr (a, b) \<Rightarrow> and_then (slice_of data a b) (\<lambda>t. Inr (Some t))
           | Inl (Err _) \<Rightarrow> Inr None
           | Inl f \<Rightarrow> Inl f))"

definition elf_parse :: "bytes \<Rightarrow> elf res" where
  "elf_parse data =
     and_then (parse_ident data) (\<lambda>_.
     and_then (read_le_u64 data 24) (\<lambda>entry.
     and_then (read_le_u64 data 32) (\<lambda>phdr_start.
     and_then (read_le_u16 data 54) (\<lambda>phdr_entry_size.
     and_then (read_le_u16 data 56) (\<lambda>num_of_phdr_entry.
     and_then (read_le_u64 data 40) (\<lambda>shdr_start.
     and_then (read_le_u16 data 58) (\<lambda>shdr_entry_size.
     and_then (read_le_u16 data 60) (\<lambda>num_of_shdr_entry.
     and_then (read_le_u16 data 62) (\<lambda>shdr_name_table_idx.
     and_then (collect_res (\<lambda>i. and_then (table_entry data phdr_start phdr_entry_size i) parse_segment)
         [0..<unat num_of_phdr_entry]) (\<lambda>segs.
     and_then (collect_res (\<lambda>i. and_then (table_entry data shdr_start shdr_entry_size i) parse_section)
         [0..<unat num_of_shdr_entry]) (\<lambda>secs.
     and_then (index_at secs (unat shdr_name_table_idx)) (\<lambda>nt.
     and_then (usize_add (unat (sec_offset nt)) (unat (sec_size nt))) (\<lambda>e.
     and_then (slice_of data (unat (sec_offset nt)) e) (\<lambda>names.
     and_then (find_string_table data (name_sections names secs)) (\<lambda>strs.
     Inr \<lparr>elf_data = data, entry_vaddr = entry, elf_segments = segs,
          elf_sections = name_sections names secs, string_table = strs\<rparr>)))))))))))))))"

subsection \<open>Loading\<close>

record loaded_elf =
  ld_elf :: elf
  ld_region :: pages
  ld_range :: address_range
  ld_segments :: "segment_header list"

definition set_page_attr :: "nat \<Rightarrow> page_attr \<Rightarrow> pages \<Rightarrow> (allocator vm, unit) act" where
  "set_page_attr root attr pg vm =
     act_then (lift_res (pages_range pg)) (\<lambda>r vm.
       case create_mapping alloc_with_options vm root (ar_start r) (ar_end r) (ar_start r) attr of
         Inr vm' \<Rightarrow> (vm', Inr ())
       | Inl (Err _) \<Rightarrow> (vm, Inl (Panic ''Failed to set mapping''))
       | Inl f \<Rightarrow> (vm, Inl f)) vm"

definition load_segment :: "elf \<Rightarrow> address_range \<Rightarrow> segment_header \<Rightarrow> pages \<Rightarrow> pages res" where
  "load_segment e app_vaddr_range sh region =
     and_then (file_range sh) (\<lambda>(fs, fe).
     and_then (vaddr_range sh) (\<lambda>vr.
     and_then (to_range_in vr app_vaddr_range) (\<lambda>(a, b).
     and_then (slice_of (pg_data region) a b) (\<lambda>dst.
     and_then (slice_of (elf_data e) fs fe) (\<lambda>src.
     and_then (slice_of dst 0 (length src)) (\<lambda>_.
     Inr (region\<lparr>pg_data := take a (pg_data region) @ src @ drop (a + length src) (pg_data region)\<rparr>)))))))"

fun load_segments :: "elf \<Rightarrow> address_range \<Rightarrow> segment_header list \<Rightarrow> pages \<Rightarrow> pages res" where
  "load_segments e r [] region = Inr region"
| "load_segments e r (s # ss) region = and_then (load_segment e r s region) (load_segments e r ss)"

text \<open>The start and the end of a segment, rounded to its alignment.\<close>

definition aligned_bounds :: "segment_header \<Rightarrow> (u64 \<times> u64) res" where
  "aligned_bounds s =
     and_then (usize_sub (unat (seg_align s)) 1) (\<lambda>m.
     and_then (usize_add (unat (seg_vaddr s)) (unat (seg_vsize s))) (\<lambda>e.
     Inr (seg_vaddr s AND NOT (word_of_nat m), (word_of_nat e + word_of_nat m) AND NOT (word_of_nat m))))"

fun app_bounds :: "segment_header list \<Rightarrow> u64 \<times> u64 \<Rightarrow> (u64 \<times> u64) res" where
  "app_bounds [] l = Inr l"
| "app_bounds (s # ss) l =
     and_then (aligned_bounds s) (\<lambda>r. app_bounds ss (min (fst l) (fst r), max (snd l) (snd r)))"

fun resolve_loop :: "loaded_elf \<Rightarrow> nat \<Rightarrow> segment_header list \<Rightarrow> nat res" where
  "resolve_loop ld vaddr [] = Inl (Err (Failed ''vaddr not found''))"
| "resolve_loop ld vaddr (s # ss) =
     and_then (vaddr_range s) (\<lambda>r.
     if ar_contains r vaddr
     then and_then (pages_range (ld_region ld)) (\<lambda>p.
          and_then (offset_of (ld_range ld) vaddr) (\<lambda>ofs. usize_add (ar_start p) ofs))
     else resolve_loop ld vaddr ss)"

definition resolve_vaddr :: "loaded_elf \<Rightarrow> nat \<Rightarrow> nat res" where
  "resolve_vaddr ld vaddr = resolve_loop ld vaddr (ld_segments ld)"

definition slice_of_vaddr_range :: "loaded_elf \<Rightarrow> address_range \<Rightarrow> bytes res" where
  "slice_of_vaddr_range ld r =
     and_then (to_range_in r (ld_range ld)) (\<lambda>(a, b). slice_of (pg_data (ld_region ld)) a b)"

definition write_le_u64_at_vaddr :: "nat \<Rightarrow> u64 \<Rightarrow> loaded_elf \<Rightarrow> loaded_elf res" where
  "write_le_u64_at_vaddr vaddr v ld =
     and_then (from_start_and_size vaddr 8) (\<lambda>r.
     and_then (to_range_in r (ld_range ld)) (\<lambda>(a, b).
     let data = pg_data (ld_region ld)
     in and_then (slice_of data a b) (\<lambda>bs.
        and_then (write_le_u64 bs 0 v) (\<lambda>bs'.
        Inr (ld\<lparr>ld_region := (ld_region ld)\<lparr>pg_data := take a data @ bs' @ drop b data\<rparr>\<rparr>)))))"

text \<open>The number of an unsupported relocation type is left out of the message.\<close>

definition relocate_one :: "relocation_entry \<Rightarrow> loaded_elf \<Rightarrow> loaded_elf res" where
  "relocate_one e ld =
     (if rel_info e AND 0xffffffff = R_386_RELATIVE
      then and_then (resolve_vaddr ld (unat (rel_addend e))) (\<lambda>resolved.
           write_le_u64_at_vaddr (unat (rel_address e)) (word_of_nat resolved) ld)
      else Inl (Err (FailedString ''Relocation type is not supported yet'')))"

fun relocate_loop :: "relocation_entry list \<Rightarrow> loaded_elf \<Rightarrow> loaded_elf res" where
  "relocate_loop [] ld = Inr ld"
| "relocate_loop (e # es) ld = and_then (relocate_one e ld) (relocate_loop es)"

definition dynamic_value :: "u64 \<Rightarrow> dynamic_entry list \<Rightarrow> nat option" where
  "dynamic_value tag es = map_option (\<lambda>e. unat (dyn_value e)) (find (\<lambda>e. dyn_tag e = tag) es)"

definition relocate :: "loaded_elf \<Rightarrow> loaded_elf res" where
  "relocate ld =
     (case find (\<lambda>s. phdr_type s = PHDR_TYPE_DYNAMIC) (elf_segments (ld_elf ld)) of
        None \<Rightarrow> Inr ld
      | Some dyn \<Rightarrow>
          and_then (file_range dyn) (\<lambda>(a, b).
          and_then (slice_of (elf_data (ld_elf ld)) a b) (\<lambda>data.
          and_then (chunks_exact 16 data) (\<lambda>cs.
          and_then (collect_res dynamic_try_from cs) (\<lambda>entries.
          case (dynamic_value DYNAMIC_TAG_RELA_ADDRESS entries,
                dynamic_value DYNAMIC_TAG_RELA_TOTAL_SIZE entries,
                dynamic_value DYNAMIC_TAG_RELA_ENTRY_SIZE entries) of
            (Some rela_addr, Some rela_total_size, Some rela_entry_size) \<Rightarrow>
              and_then (from_start_and_size rela_addr rela_total_size) (\<lambda>r.
              and_then (slice_of_vaddr_range ld r) (\<lambda>rela_data.
              and_then (chunks_exact rela_entry_size rela_data) (\<lambda>cs.
              and_then (collect_res relocation_try_from cs) (\<lambda>rela_entries.
              relocate_loop rela_entries ld))))
          | _ \<Rightarrow> Inr ld)))))"

definition elf_load :: "(nat \<Rightarrow> u8) \<Rightarrow> nat \<Rightarrow> elf \<Rightarrow> (allocator vm, loaded_elf) act" where
  "elf_load ram root e =
     (let segs = filter (\<lambda>s. phdr_type s = PHDR_TYPE_LOAD) (elf_segments e)
      in if segs = [] then lift_res (Inl (Err (Failed ''LOAD segment not found'')))
         else act_then (lift_res (and_then (app_bounds segs (0xFFFFFFFFFFFFFFFF, 0)) (\<lambda>(l, h).
                and_then (ar_size (ar_new (unat l) (unat h))) (\<lambda>n. Inr (ar_new (unat l) (unat h), n))))) (\<lambda>(r, n).
              act_then (\<lambda>vm. case pages_alloc_bytes ram (vm_alloc vm) n of
                  Inl f \<Rightarrow> (vm, Inl f)
                | Inr (A, pg) \<Rightarrow> (vm\<lparr>vm_alloc := A\<rparr>, Inr pg)) (\<lambda>pg.
              act_then (lift_res (fill_with_bytes pg 0)) (\<lambda>region.
              act_then (set_page_attr root ReadWriteUser region) (\<lambda>_.
              act_then (lift_res (load_segments e r segs region)) (\<lambda>region.
              lift_res (relocate \<lparr>ld_elf = e, ld_region = region, ld_range = r, ld_segments = segs\<rparr>)))))))"

subsection \<open>What the parser reads\<close>

text \<open>The image of a program header: the physical address, which the loader does not use, is \<open>paddr\<close>.\<close>

definition segment_image :: "u64 \<Rightarrow> segment_header \<Rightarrow> bytes" where
  "segment_image paddr s = le_word (phdr_type s) @ le_word (entry_type s) @ le_word (seg_offset s) @ le_word (seg_vaddr s) @
     le_word paddr @ le_word (seg_fsize s) @ le_word (seg_vsize s) @ le_word (seg_align s)"

lemma parse_segment_image: "parse_segment (segment_image paddr s) = Inr s"
  by (simp add: parse_segment_def segment_image_def read_le_u32_def read_le_u64_def word_le_le_word
      flip: word_le_def)

lemma collect_res_ok: "(\<And>x. x \<in> set xs \<Longrightarrow> f x = Inr (g x)) \<Longrightarrow> collect_res f xs = Inr (map g xs)"
  by (induction xs) simp_all

lemma chunks_loop_concat:
  "0 < n \<Longrightarrow> (\<And>x. x \<in> set xs \<Longrightarrow> length x = n) \<Longrightarrow> chunks_loop n (concat xs) = xs"
  by (induction xs) (simp_all add: chunks_loop.simps)

subsection \<open>Where the segments go\<close>

definition seg_fits :: "bytes \<Rightarrow> segment_header \<Rightarrow> bool" where
  "seg_fits data s \<longleftrightarrow> (\<exists>k < 64. unat (seg_align s) = 2 ^ k) \<and> 0 < unat (seg_vsize s) \<and> seg_fsize s \<le> seg_vsize s \<and>
     unat (seg_offset s) + unat (seg_fsize s) \<le> length data \<and>
     unat (seg_vaddr s) + unat (seg_vsize s) + unat (seg_align s) \<le> 2 ^ 47"

definition seg_apart :: "segment_header \<Rightarrow> segment_header \<Rightarrow> bool" where
  "seg_apart s t \<longleftrightarrow> unat (seg_vaddr s) + unat (seg_vsize s) \<le> unat (seg_vaddr t) \<or>
     unat (seg_vaddr t) + unat (seg_vsize t) \<le> unat (seg_vaddr s)"

definition covers :: "address_range \<Rightarrow> segment_header \<Rightarrow> bool" where
  "covers r s \<longleftrightarrow> ar_start r \<le> unat (seg_vaddr s) \<and> unat (seg_vaddr s) + unat (seg_vsize s) \<le> ar_end r"

lemma aligned_bounds_ok:
  assumes "seg_fits data s"
  shows "\<exists>l h. aligned_bounds s = Inr (l, h) \<and> unat l \<le> unat (seg_vaddr s) \<and>
    unat (seg_vaddr s) + unat (seg_vsize s) \<le> unat h \<and> unat h \<le> 2 ^ 47"
proof -
  obtain k where k: "k < 64" "unat (seg_align s) = 2 ^ k" using assms by (auto simp: seg_fits_def)
  have al: "(2 :: u64) ^ k = seg_align s"
    using arg_cong [OF k(2), of "word_of_nat :: nat \<Rightarrow> u64"] by simp
  have m: "word_of_nat (2 ^ k - 1) = seg_align s - 1" by (simp add: al of_nat_diff)
  define n where "n = unat (seg_vaddr s) + unat (seg_vsize s)"
  have e: "n + 2 ^ k \<le> 2 ^ 47" using assms k(2) by (simp add: seg_fits_def n_def)
  have l: "unat (seg_vaddr s AND NOT (seg_align s - 1)) = align_down (unat (seg_vaddr s)) (2 ^ k)"
    by (simp add: align_down_def al)
  have h: "unat ((word_of_nat n + (seg_align s - 1)) AND NOT (seg_align s - 1)) = align_down (n + (2 ^ k - 1)) (2 ^ k)"
    unfolding align_down_def m [symmetric] of_nat_add [symmetric] by (simp add: al of_nat_diff)
  have "align_down (unat (seg_vaddr s)) (2 ^ k) \<le> unat (seg_vaddr s)"
    using e by (intro align_down_bounds k(1)) (simp add: n_def)
  moreover have "n \<le> align_down (n + (2 ^ k - 1)) (2 ^ k)" "align_down (n + (2 ^ k - 1)) (2 ^ k) \<le> 2 ^ 47"
  proof -
    have "n + (2 ^ k - 1) < USIZE" using e by simp
    note b = align_down_bounds(2,3) [OF k(1) this]
    from b(2) show "n \<le> align_down (n + (2 ^ k - 1)) (2 ^ k)" by linarith
    from b(1) e show "align_down (n + (2 ^ k - 1)) (2 ^ k) \<le> 2 ^ 47" by linarith
  qed
  moreover have "aligned_bounds s = Inr (seg_vaddr s AND NOT (seg_align s - 1),
      (word_of_nat n + (seg_align s - 1)) AND NOT (seg_align s - 1))"
    using e k(2) by (simp add: aligned_bounds_def m [symmetric] n_def [symmetric])
  ultimately show ?thesis by (simp add: l h n_def [symmetric])
qed

lemma app_bounds_ok:
  "list_all (seg_fits data) ss \<Longrightarrow> unat h \<le> 2 ^ 47 \<Longrightarrow>
     \<exists>l' h'. app_bounds ss (l, h) = Inr (l', h') \<and> l' \<le> l \<and> h \<le> h' \<and> unat h' \<le> 2 ^ 47 \<and>
     (\<forall>s \<in> set ss. covers (ar_new (unat l') (unat h')) s)"
proof (induction ss arbitrary: l h)
  case (Cons s ss)
  obtain ls hs where b: "aligned_bounds s = Inr (ls, hs)" "unat ls \<le> unat (seg_vaddr s)"
      "unat (seg_vaddr s) + unat (seg_vsize s) \<le> unat hs" "unat hs \<le> 2 ^ 47"
    using aligned_bounds_ok [of data s] Cons.prems by auto
  have "unat (max h hs) \<le> 2 ^ 47" using b(4) Cons.prems(2) by (simp add: max_def)
  then obtain l' h' where r: "app_bounds ss (min l ls, max h hs) = Inr (l', h')" "l' \<le> min l ls" "max h hs \<le> h'" "unat h' \<le> 2 ^ 47"
      "\<forall>s \<in> set ss. covers (ar_new (unat l') (unat h')) s"
    using Cons.IH [where l = "min l ls" and h = "max h hs"] Cons.prems by auto
  have "unat l' \<le> unat ls" "unat hs \<le> unat h'" using r(2,3) by (simp_all add: word_le_nat_alt [symmetric])
  with b r show ?case by (auto simp: covers_def ar_new_def)
qed (simp add: covers_def)

lemma load_segment_ok:
  assumes "seg_fits (elf_data e) s" "covers r s" "ar_end r < USIZE" "ar_end r - ar_start r \<le> length (pg_data region)"
    "length (elf_data e) < USIZE"
  shows "\<exists>d. load_segment e r s region = Inr (region\<lparr>pg_data := d\<rparr>) \<and> length d = length (pg_data region) \<and>
    (\<forall>i < length d. d ! i =
       (let a = unat (seg_vaddr s) - ar_start r
        in if a \<le> i \<and> i < a + unat (seg_fsize s) then elf_data e ! (unat (seg_offset s) + (i - a)) else pg_data region ! i))"
proof -
  let ?v = "unat (seg_vaddr s)" and ?n = "unat (seg_vsize s)" and ?o = "unat (seg_offset s)" and ?f = "unat (seg_fsize s)"
  have f: "?f \<le> ?n" "0 < ?n" "?o + ?f \<le> length (elf_data e)" "?v + ?n < USIZE"
    using assms(1) by (auto simp: seg_fits_def word_le_nat_alt)
  let ?a = "?v - ar_start r" and ?src = "take ?f (drop ?o (elf_data e))"
  have v: "vaddr_range s = Inr (ar_new ?v (?v + ?n))" using f by (simp add: vaddr_range_def from_start_and_size_def)
  have t: "to_range_in (ar_new ?v (?v + ?n)) r = Inr (?a, ?a + ?n)"
    using to_range_in_ok [of r "ar_new ?v (?v + ?n)"] assms(2,3) f by (simp add: covers_def ar_new_def)
  have len: "length ?src = ?f" "?a + ?n \<le> length (pg_data region)" using f assms(2,4) by (auto simp: covers_def)
  let ?d = "take ?a (pg_data region) @ ?src @ drop (?a + ?f) (pg_data region)"
  have "load_segment e r s region = Inr (region\<lparr>pg_data := ?d\<rparr>)"
    using f v t len assms(5) by (simp add: load_segment_def file_range_def)
  moreover have "length ?d = length (pg_data region)" using len f by simp
  moreover have "?d ! i = (if ?a \<le> i \<and> i < ?a + ?f then elf_data e ! (?o + (i - ?a)) else pg_data region ! i)"
    if "i < length ?d" for i
    using that len f by (auto simp: nth_append min_def)
  ultimately show ?thesis by (intro exI [of _ ?d]) (simp add: Let_def)
qed

text \<open>The image of the program: the byte at a virtual address, from the file or zero.\<close>

definition segment_byte :: "elf \<Rightarrow> segment_header list \<Rightarrow> nat \<Rightarrow> u8 option" where
  "segment_byte e ss a =
     map_option (\<lambda>s. elf_data e ! (unat (seg_offset s) + (a - unat (seg_vaddr s))))
       (find (\<lambda>s. unat (seg_vaddr s) \<le> a \<and> a < unat (seg_vaddr s) + unat (seg_fsize s)) ss)"

definition image_byte :: "elf \<Rightarrow> segment_header list \<Rightarrow> nat \<Rightarrow> u8" where
  "image_byte e ss a = (case segment_byte e ss a of None \<Rightarrow> 0 | Some b \<Rightarrow> b)"

lemma segment_byte_apart:
  assumes "list_all (seg_fits d) (s # ss)" "sorted_wrt seg_apart (s # ss)"
    "unat (seg_vaddr s) \<le> a" "a < unat (seg_vaddr s) + unat (seg_fsize s)"
  shows "segment_byte e ss a = None"
  using assms
  by (fastforce simp: segment_byte_def find_None_iff list_all_iff seg_fits_def seg_apart_def word_le_nat_alt)

lemma load_segments_ok:
  assumes "ar_end r < USIZE" "length (elf_data e) < USIZE"
  shows "list_all (seg_fits (elf_data e)) ss \<Longrightarrow> sorted_wrt seg_apart ss \<Longrightarrow> (\<forall>s \<in> set ss. covers r s) \<Longrightarrow>
    ar_end r - ar_start r \<le> length (pg_data region) \<Longrightarrow>
    \<exists>d. load_segments e r ss region = Inr (region\<lparr>pg_data := d\<rparr>) \<and> length d = length (pg_data region) \<and>
      (\<forall>i < length d. d ! i = (case segment_byte e ss (ar_start r + i) of None \<Rightarrow> pg_data region ! i | Some b \<Rightarrow> b))"
proof (induction ss arbitrary: region)
  case Nil
  then show ?case by (intro exI [of _ "pg_data region"]) (simp add: segment_byte_def)
next
  case (Cons s ss)
  let ?a = "unat (seg_vaddr s) - ar_start r"
  from load_segment_ok [of e s r region] Cons.prems assms obtain d1 where
    d1: "load_segment e r s region = Inr (region\<lparr>pg_data := d1\<rparr>)" "length d1 = length (pg_data region)"
      "\<And>i. i < length d1 \<Longrightarrow> d1 ! i = (if ?a \<le> i \<and> i < ?a + unat (seg_fsize s)
         then elf_data e ! (unat (seg_offset s) + (i - ?a)) else pg_data region ! i)"
    by (auto simp: Let_def)
  from Cons.IH [of "region\<lparr>pg_data := d1\<rparr>"] Cons.prems d1(2) obtain d2 where
    d2: "load_segments e r ss (region\<lparr>pg_data := d1\<rparr>) = Inr (region\<lparr>pg_data := d2\<rparr>)" "length d2 = length d1"
      "\<And>i. i < length d2 \<Longrightarrow> d2 ! i = (case segment_byte e ss (ar_start r + i) of None \<Rightarrow> d1 ! i | Some b \<Rightarrow> b)"
    by (auto cong: option.case_cong)
  have v: "ar_start r \<le> unat (seg_vaddr s)" using Cons.prems(3) by (simp add: covers_def)
  have "d2 ! i = (case segment_byte e (s # ss) (ar_start r + i) of None \<Rightarrow> pg_data region ! i | Some b \<Rightarrow> b)"
    if "i < length d2" for i
  proof (cases "?a \<le> i \<and> i < ?a + unat (seg_fsize s)")
    case True
    with v have "unat (seg_vaddr s) \<le> ar_start r + i" "ar_start r + i < unat (seg_vaddr s) + unat (seg_fsize s)" by auto
    with segment_byte_apart [OF Cons.prems(1,2) this, of e] True v that d1(3) [of i] d2 show ?thesis
      by (simp add: segment_byte_def add.commute)
  next
    case False
    with v have "\<not> (unat (seg_vaddr s) \<le> ar_start r + i \<and> ar_start r + i < unat (seg_vaddr s) + unat (seg_fsize s))"
      by auto
    then have "segment_byte e (s # ss) (ar_start r + i) = segment_byte e ss (ar_start r + i)"
      by (auto simp: segment_byte_def)
    with False that d1(3) [of i] d2 show ?thesis by (simp only: if_False)
  qed
  with d1 d2 show ?case by (intro exI [of _ d2]) simp
qed

subsection \<open>The region in the page tables\<close>

lemma pt_wf_mono:
  "pt_wf heap_used vm root \<Longrightarrow> heap_used (vm_alloc vm) \<subseteq> heap_used A \<Longrightarrow> pt_wf heap_used (vm\<lparr>vm_alloc := A\<rparr>) root"
  unfolding pt_wf_def pt_tree_def child_def by (auto 4 4)

definition region_mapped :: "allocator vm \<Rightarrow> nat \<Rightarrow> pages \<Rightarrow> bool" where
  "region_mapped vm root pg \<longleftrightarrow> (\<forall>a \<in> area (pg_addr pg, l_size (pg_layout pg)).
     translate vm root a = Inr (PageMapped4K (word_of_nat (a div 4096 * 4096))))"

lemma set_page_attr_ok:
  assumes "heap_below N (vm_alloc vm)" "pt_wf heap_used vm root" "PAGE_SIZE dvd pg_addr pg"
    "PAGE_SIZE dvd l_size (pg_layout pg)" "pg_addr pg + l_size (pg_layout pg) \<le> 2 ^ 48"
  shows "set_page_attr root ReadWriteUser pg vm = (vm, Inl (Panic ''allocation error'')) \<or>
    (\<exists>vm'. set_page_attr root ReadWriteUser pg vm = (vm', Inr ()) \<and> heap_below N (vm_alloc vm') \<and>
      pt_wf heap_used vm' root \<and> region_mapped vm' root pg \<and>
      (\<forall>a < 2 ^ 48. a \<notin> area (pg_addr pg, l_size (pg_layout pg)) \<longrightarrow> translate vm' root a = translate vm root a))"
proof -
  let ?s = "pg_addr pg" and ?e = "pg_addr pg + l_size (pg_layout pg)"
  have r: "pages_range pg = Inr (ar_new ?s ?e)" using assms(5) by (simp add: pages_range_def from_start_and_size_def)
  have "?s + ?e < USIZE" using assms(5) by simp
  from bounded_create_mapping_ok [OF assms(1,2,3) dvd_add [OF assms(3,4)] assms(3) le_add1 assms(5) this, of ReadWriteUser]
  show ?thesis
    using assms(5) by (elim disjE exE conjE) (simp_all add: set_page_attr_def r ar_new_def region_mapped_def area_def)
qed

subsection \<open>Loading as a whole\<close>

lemma pages_alloc_bytes_ok:
  assumes "heap_below (2 ^ 48) A" "n \<le> 2 ^ 47"
  shows "\<exists>A' pg. pages_alloc_bytes ram A n = Inr (A', pg) \<and> heap_below (2 ^ 48) A' \<and> heap_used A \<subseteq> heap_used A' \<and> pages_ok pg \<and>
    n \<le> l_size (pg_layout pg) \<and> PAGE_SIZE dvd l_size (pg_layout pg) \<and> l_size (pg_layout pg) \<le> 2 ^ 48 \<and>
    (pg_addr pg \<noteq> 0 \<longrightarrow> PAGE_SIZE dvd pg_addr pg \<and> pg_addr pg + l_size (pg_layout pg) \<le> 2 ^ 48 \<and>
       area (pg_addr pg, l_size (pg_layout pg)) \<inter> heap_used A = {})"
proof -
  have P: "PAGE_SIZE = 4096" by (simp add: PAGE_SIZE_def PAGE_OFFSET_BITS_def)
  obtain k where k: "size_in_pages_from_bytes n = Inr k" "n \<le> k * PAGE_SIZE" "k * PAGE_SIZE < n + PAGE_SIZE"
    using size_in_pages_exact [of n] assms(2) P by auto
  have "PAGE_SIZE * k \<le> 2 ^ 63 - PAGE_SIZE" using k(3) assms(2) unfolding P by simp
  from pages_alloc_pages_correct [OF heap_below_inv [OF assms(1)] this, of ram] obtain A' pg where
    A': "pages_alloc_pages ram A k = Inr (A', pg)" "heap_inv A'" "pages_ok pg" "l_size (pg_layout pg) = PAGE_SIZE * k"
      "heap_used A \<subseteq> heap_used A'"
      "pg_addr pg \<noteq> 0 \<longrightarrow> PAGE_SIZE dvd pg_addr pg \<and> area (pg_addr pg, PAGE_SIZE * k) \<inter> heap_used A = {}"
    by auto
  then obtain l where l: "from_size_align (PAGE_SIZE * k) PAGE_SIZE = Some l" "alloc_with_options A l = Inr (A', pg_addr pg)"
    by (auto simp: pages_alloc_pages_def ok_or_def res_simps split: option.splits if_splits)
  with alloc_below [OF assms(1) _ l(2)] page_layout_valid [OF l(1)]
  have "heap_below (2 ^ 48) A'" "pg_addr pg \<noteq> 0 \<longrightarrow> pg_addr pg + PAGE_SIZE * k \<le> 2 ^ 48" by auto
  moreover have "PAGE_SIZE * k \<le> 2 ^ 48" using k(3) assms(2) unfolding P by simp
  ultimately show ?thesis using A' k by (auto simp: pages_alloc_bytes_def mult.commute)
qed

definition load_segs :: "elf \<Rightarrow> segment_header list" where
  "load_segs e = filter (\<lambda>s. phdr_type s = PHDR_TYPE_LOAD) (elf_segments e)"

definition loadable :: "elf \<Rightarrow> bool" where
  "loadable e \<longleftrightarrow> load_segs e \<noteq> [] \<and> list_all (seg_fits (elf_data e)) (load_segs e) \<and>
     sorted_wrt seg_apart (load_segs e) \<and> length (elf_data e) < USIZE"

definition loaded_in :: "elf \<Rightarrow> loaded_elf \<Rightarrow> bool" where
  "loaded_in e ld \<longleftrightarrow> ld_elf ld = e \<and> ld_segments ld = load_segs e \<and> (\<forall>s \<in> set (load_segs e). covers (ld_range ld) s) \<and>
     ar_end (ld_range ld) \<le> 2 ^ 47 \<and> ar_end (ld_range ld) - ar_start (ld_range ld) \<le> length (pg_data (ld_region ld)) \<and>
     pages_ok (ld_region ld) \<and> pg_addr (ld_region ld) + l_size (pg_layout (ld_region ld)) \<le> 2 ^ 48"

definition holds_image :: "elf \<Rightarrow> loaded_elf \<Rightarrow> bool" where
  "holds_image e ld \<longleftrightarrow> (\<forall>i < length (pg_data (ld_region ld)).
     pg_data (ld_region ld) ! i = image_byte e (load_segs e) (ar_start (ld_range ld) + i))"

lemma load_zeroed_ok:
  assumes "loadable e" "\<forall>s \<in> set (load_segs e). covers r s" "ar_end r \<le> 2 ^ 47" "pages_ok pg" "pg_addr pg \<noteq> 0"
    "ar_end r - ar_start r \<le> l_size (pg_layout pg)" "pg_addr pg + l_size (pg_layout pg) \<le> 2 ^ 48"
  shows "\<exists>z rg. fill_with_bytes pg 0 = Inr z \<and> pg_addr z = pg_addr pg \<and> pg_layout z = pg_layout pg \<and>
    load_segments e r (load_segs e) z = Inr rg \<and> pg_addr rg = pg_addr pg \<and> pg_layout rg = pg_layout pg \<and>
    (let ld = \<lparr>ld_elf = e, ld_region = rg, ld_range = r, ld_segments = load_segs e\<rparr> in loaded_in e ld \<and> holds_image e ld)"
proof -
  let ?z = "pg\<lparr>pg_data := replicate (l_size (pg_layout pg)) 0\<rparr>"
  have z: "fill_with_bytes pg 0 = Inr ?z"
    using assms(4,5,7) by (simp add: fill_with_bytes_def pages_range_def from_start_and_size_def ar_new_def ar_size_def pages_ok_def)
  from load_segments_ok [of r e "load_segs e" ?z] assms obtain d where
    d: "load_segments e r (load_segs e) ?z = Inr (?z\<lparr>pg_data := d\<rparr>)" "length d = l_size (pg_layout pg)"
      "\<And>i. i < length d \<Longrightarrow> d ! i = (case segment_byte e (load_segs e) (ar_start r + i) of
          None \<Rightarrow> replicate (l_size (pg_layout pg)) 0 ! i | Some b \<Rightarrow> b)"
    by (auto simp: loadable_def cong: option.case_cong)
  have "d ! i = image_byte e (load_segs e) (ar_start r + i)" if "i < length d" for i
    using d(2) d(3) [OF that] that by (simp add: image_byte_def cong: option.case_cong)
  with z d assms show ?thesis
    by (intro exI [of _ ?z] exI [of _ "?z\<lparr>pg_data := d\<rparr>"])
      (simp add: Let_def loaded_in_def holds_image_def pages_ok_def)
qed

lemma elf_load_places:
  assumes "heap_below (2 ^ 48) (vm_alloc vm)" "pt_wf heap_used vm root" "loadable e"
  shows "snd (elf_load ram root e vm) = Inl (UB ''write to the null pointer'') \<or>
    snd (elf_load ram root e vm) = Inl (Panic ''allocation error'') \<or>
    (\<exists>vm' ld. elf_load ram root e vm = (vm', relocate ld) \<and> heap_below (2 ^ 48) (vm_alloc vm') \<and> pt_wf heap_used vm' root \<and>
      loaded_in e ld \<and> holds_image e ld \<and> region_mapped vm' root (ld_region ld) \<and>
      area (pg_addr (ld_region ld), l_size (pg_layout (ld_region ld))) \<inter> heap_used (vm_alloc vm) = {})"
proof -
  note L = assms(3) [unfolded loadable_def]
  from app_bounds_ok [of "elf_data e" "load_segs e" 0 "0xFFFFFFFFFFFFFFFF"] L obtain l h where
    b: "app_bounds (load_segs e) (0xFFFFFFFFFFFFFFFF, 0) = Inr (l, h)" "unat h \<le> 2 ^ 47"
      "\<forall>s \<in> set (load_segs e). covers (ar_new (unat l) (unat h)) s"
    by auto
  define r where "r = ar_new (unat l) (unat h)"
  have r: "ar_end r = unat h" "ar_start r = unat l" by (simp_all add: r_def ar_new_def)
  have "unat l \<le> unat h" using b(3) L by (cases "load_segs e") (auto simp: covers_def ar_new_def)
  then have n: "ar_size r = Inr (unat h - unat l)" by (simp add: ar_size_def r)
  have "unat h - unat l \<le> 2 ^ 47" using b(2) by linarith
  from pages_alloc_bytes_ok [OF assms(1) this, of ram] obtain A pg where
    p: "pages_alloc_bytes ram (vm_alloc vm) (unat h - unat l) = Inr (A, pg)" "heap_below (2 ^ 48) A"
      "heap_used (vm_alloc vm) \<subseteq> heap_used A" "pages_ok pg" "unat h - unat l \<le> l_size (pg_layout pg)"
      "PAGE_SIZE dvd l_size (pg_layout pg)" "l_size (pg_layout pg) \<le> 2 ^ 48"
      "pg_addr pg \<noteq> 0 \<longrightarrow> PAGE_SIZE dvd pg_addr pg \<and> pg_addr pg + l_size (pg_layout pg) \<le> 2 ^ 48 \<and>
         area (pg_addr pg, l_size (pg_layout pg)) \<inter> heap_used (vm_alloc vm) = {}"
    by auto
  let ?v = "vm\<lparr>vm_alloc := A\<rparr>"
  have ld: "elf_load ram root e vm =
      act_then (lift_res (fill_with_bytes pg 0)) (\<lambda>region.
      act_then (set_page_attr root ReadWriteUser region) (\<lambda>_.
      act_then (lift_res (load_segments e r (load_segs e) region)) (\<lambda>region.
      lift_res (relocate \<lparr>ld_elf = e, ld_region = region, ld_range = r, ld_segments = load_segs e\<rparr>)))) ?v"
    using L b(1) n p(1) by (simp add: elf_load_def load_segs_def [symmetric] r_def [symmetric] Let_def)
  show ?thesis
  proof (cases "pg_addr pg = 0")
    case True
    with p(7) have "fill_with_bytes pg 0 = Inl (UB ''write to the null pointer'')"
      by (simp add: fill_with_bytes_def pages_range_def from_start_and_size_def ar_new_def ar_size_def)
    then show ?thesis by (simp add: ld)
  next
    case False
    from load_zeroed_ok [OF assms(3) b(3) [folded r_def] _ p(4) False] b(2) r p(5,8) False obtain z rg where
      z: "fill_with_bytes pg 0 = Inr z" "pg_addr z = pg_addr pg" "pg_layout z = pg_layout pg"
        "load_segments e r (load_segs e) z = Inr rg" "pg_addr rg = pg_addr pg" "pg_layout rg = pg_layout pg"
        "loaded_in e \<lparr>ld_elf = e, ld_region = rg, ld_range = r, ld_segments = load_segs e\<rparr>"
        "holds_image e \<lparr>ld_elf = e, ld_region = rg, ld_range = r, ld_segments = load_segs e\<rparr>"
      by (auto simp: Let_def)
    have "pt_wf heap_used ?v root" using assms(2) p(3) by (rule pt_wf_mono)
    from set_page_attr_ok [of "2 ^ 48" ?v root z, OF _ this] p z(2,3) False consider
        "set_page_attr root ReadWriteUser z ?v = (?v, Inl (Panic ''allocation error''))"
      | vm' where "set_page_attr root ReadWriteUser z ?v = (vm', Inr ())" "heap_below (2 ^ 48) (vm_alloc vm')"
          "pt_wf heap_used vm' root" "region_mapped vm' root z"
      by auto
    then show ?thesis
    proof cases
      case 1
      with z show ?thesis by (simp add: ld)
    next
      case 2
      with z p(8) False show ?thesis
        by (intro disjI2 exI [of _ vm'] exI [of _ "\<lparr>ld_elf = e, ld_region = rg, ld_range = r, ld_segments = load_segs e\<rparr>"])
          (simp add: ld lift_res_def region_mapped_def)
    qed
  qed
qed

subsection \<open>Relocation\<close>

lemma resolve_loop_ok:
  assumes "\<forall>s \<in> set ss. unat (seg_vaddr s) + unat (seg_vsize s) < USIZE"
    "\<exists>s \<in> set ss. unat (seg_vaddr s) \<le> v \<and> v < unat (seg_vaddr s) + unat (seg_vsize s)"
    "ar_contains (ld_range ld) v" "pages_range (ld_region ld) = Inr p" "ar_start p + (v - ar_start (ld_range ld)) < USIZE"
  shows "resolve_loop ld v ss = Inr (ar_start p + (v - ar_start (ld_range ld)))"
  using assms
  by (induction ss)
    (auto simp: vaddr_range_def from_start_and_size_def ar_new_def ar_contains_def offset_of_def)

text \<open>An entry that the loader can process: its addend lies in a loaded segment and its word in the region.\<close>

definition reloc_ok :: "loaded_elf \<Rightarrow> relocation_entry \<Rightarrow> bool" where
  "reloc_ok ld e \<longleftrightarrow> rel_info e AND 0xffffffff = R_386_RELATIVE \<and>
     (\<exists>s \<in> set (ld_segments ld). unat (seg_vaddr s) \<le> unat (rel_addend e) \<and>
        unat (rel_addend e) < unat (seg_vaddr s) + unat (seg_vsize s)) \<and>
     ar_start (ld_range ld) \<le> unat (rel_address e) \<and> unat (rel_address e) + 8 \<le> ar_end (ld_range ld)"

definition load_address :: "loaded_elf \<Rightarrow> u64 \<Rightarrow> nat" where
  "load_address ld v = pg_addr (ld_region ld) + (unat v - ar_start (ld_range ld))"

definition reloc_ofs :: "loaded_elf \<Rightarrow> relocation_entry \<Rightarrow> nat" where
  "reloc_ofs ld e = unat (rel_address e) - ar_start (ld_range ld)"

text \<open>The bytes after relocation: the words at the addresses of the entries, in order.\<close>

definition put_word :: "nat \<Rightarrow> u64 \<Rightarrow> bytes \<Rightarrow> bytes" where
  "put_word a v d = take a d @ le_word v @ drop (a + 8) d"

definition relocated :: "loaded_elf \<Rightarrow> relocation_entry list \<Rightarrow> bytes \<Rightarrow> bytes" where
  "relocated ld es d = fold (\<lambda>e. put_word (reloc_ofs ld e) (word_of_nat (load_address ld (rel_addend e)))) es d"

lemma relocate_one_ok:
  assumes "loaded_in e ld" "list_all (seg_fits (elf_data e)) (load_segs e)" "reloc_ok ld x"
  shows "relocate_one x ld = Inr (ld\<lparr>ld_region := (ld_region ld)\<lparr>pg_data :=
     put_word (reloc_ofs ld x) (word_of_nat (load_address ld (rel_addend x))) (pg_data (ld_region ld))\<rparr>\<rparr>)"
proof -
  let ?r = "ld_region ld"
  note l = assms(1) [unfolded loaded_in_def pages_ok_def] and x = assms(3) [unfolded reloc_ok_def]
  have s: "\<exists>s \<in> set (load_segs e). unat (seg_vaddr s) \<le> unat (rel_addend x) \<and>
      unat (rel_addend x) < unat (seg_vaddr s) + unat (seg_vsize s)" using x l by auto
  with l have c: "ar_contains (ld_range ld) (unat (rel_addend x))" by (auto simp: covers_def ar_contains_def)
  have p: "pages_range ?r = Inr (ar_new (pg_addr ?r) (pg_addr ?r + l_size (pg_layout ?r)))"
    using l by (simp add: pages_range_def from_start_and_size_def)
  have "\<forall>s \<in> set (load_segs e). unat (seg_vaddr s) + unat (seg_vsize s) < USIZE"
    using assms(2) by (auto simp: list_all_iff seg_fits_def)
  note res = resolve_loop_ok [OF this s c p]
  have "pg_addr ?r + (unat (rel_addend x) - ar_start (ld_range ld)) < USIZE"
    using c l by (auto simp: ar_contains_def)
  with res l have "resolve_vaddr ld (unat (rel_addend x)) = Inr (load_address ld (rel_addend x))"
    by (simp add: resolve_vaddr_def load_address_def ar_new_def)
  moreover have "to_range_in (ar_new (unat (rel_address x)) (unat (rel_address x) + 8)) (ld_range ld) =
      Inr (reloc_ofs ld x, reloc_ofs ld x + 8)"
    using to_range_in_ok [of "ld_range ld" "ar_new (unat (rel_address x)) (unat (rel_address x) + 8)"] x l
    by (simp add: ar_new_def reloc_ofs_def)
  moreover have "reloc_ofs ld x + 8 \<le> length (pg_data ?r)" using x l by (auto simp: reloc_ofs_def)
  ultimately show ?thesis
    using x l by (simp add: relocate_one_def write_le_u64_at_vaddr_def from_start_and_size_def put_word_def Let_def
        write_le_u64_def le_word_def)
qed

lemma length_put_word [simp]: "a + 8 \<le> length d \<Longrightarrow> length (put_word a v d) = length d"
  by (simp add: put_word_def)

lemma put_word_nth:
  "a + 8 \<le> length d \<Longrightarrow> i < length d \<Longrightarrow>
   put_word a v d ! i = (if a \<le> i \<and> i < a + 8 then le_word v ! (i - a) else d ! i)"
  by (auto simp: put_word_def nth_append)

lemma relocate_loop_ok:
  assumes "list_all (seg_fits (elf_data e)) (load_segs e)"
  shows "loaded_in e ld \<Longrightarrow> list_all (reloc_ok ld) es \<Longrightarrow>
    relocate_loop es ld = Inr (ld\<lparr>ld_region := (ld_region ld)\<lparr>pg_data := relocated ld es (pg_data (ld_region ld))\<rparr>\<rparr>)"
proof (induction es arbitrary: ld)
  case (Cons x es)
  let ?d = "put_word (reloc_ofs ld x) (word_of_nat (load_address ld (rel_addend x))) (pg_data (ld_region ld))"
  let ?ld = "ld\<lparr>ld_region := (ld_region ld)\<lparr>pg_data := ?d\<rparr>\<rparr>"
  have "reloc_ofs ld x + 8 \<le> length (pg_data (ld_region ld))"
    using Cons.prems by (auto simp: reloc_ofs_def reloc_ok_def loaded_in_def)
  then have "loaded_in e ?ld" using Cons.prems(1) by (simp add: loaded_in_def pages_ok_def)
  moreover have "reloc_ok ?ld = reloc_ok ld" "relocated ?ld = relocated ld"
    by (auto simp: fun_eq_iff reloc_ok_def relocated_def reloc_ofs_def load_address_def)
  ultimately show ?case
    using Cons.IH [of ?ld] Cons.prems relocate_one_ok [OF Cons.prems(1) assms, of x] by (simp add: relocated_def)
qed (simp add: relocated_def)

definition reloc_apart :: "relocation_entry \<Rightarrow> relocation_entry \<Rightarrow> bool" where
  "reloc_apart x y \<longleftrightarrow> unat (rel_address x) + 8 \<le> unat (rel_address y) \<or> unat (rel_address y) + 8 \<le> unat (rel_address x)"

text \<open>Relocation writes the load address of each addend and nothing else.\<close>

lemma relocated_nth:
  "list_all (reloc_ok ld) es \<Longrightarrow> sorted_wrt reloc_apart es \<Longrightarrow> ar_end (ld_range ld) - ar_start (ld_range ld) \<le> length d \<Longrightarrow>
   length (relocated ld es d) = length d \<and>
   (\<forall>x \<in> set es. \<forall>j < 8. relocated ld es d ! (reloc_ofs ld x + j) =
      le_word (word_of_nat (load_address ld (rel_addend x)) :: u64) ! j) \<and>
   (\<forall>i < length d. (\<forall>x \<in> set es. i < reloc_ofs ld x \<or> reloc_ofs ld x + 8 \<le> i) \<longrightarrow> relocated ld es d ! i = d ! i)"
proof (induction es arbitrary: d)
  case (Cons x es)
  let ?a = "reloc_ofs ld x" and ?w = "word_of_nat (load_address ld (rel_addend x)) :: u64"
  have a: "?a + 8 \<le> length d" using Cons.prems by (auto simp: reloc_ofs_def reloc_ok_def)
  note n = put_word_nth [OF a, of _ ?w]
  have ap: "?a + 8 \<le> reloc_ofs ld y \<or> reloc_ofs ld y + 8 \<le> ?a" if "y \<in> set es" for y
    using Cons.prems that by (fastforce simp: reloc_apart_def reloc_ofs_def reloc_ok_def list_all_iff)
  have IH: "length (relocated ld es (put_word ?a ?w d)) = length d"
    "\<And>y j. y \<in> set es \<Longrightarrow> j < 8 \<Longrightarrow> relocated ld es (put_word ?a ?w d) ! (reloc_ofs ld y + j) =
      le_word (word_of_nat (load_address ld (rel_addend y)) :: u64) ! j"
    "\<And>i. i < length d \<Longrightarrow> \<forall>x \<in> set es. i < reloc_ofs ld x \<or> reloc_ofs ld x + 8 \<le> i \<Longrightarrow>
      relocated ld es (put_word ?a ?w d) ! i = put_word ?a ?w d ! i"
    using Cons.IH [of "put_word ?a ?w d"] Cons.prems a by simp_all
  have eq: "relocated ld (x # es) d = relocated ld es (put_word ?a ?w d)" by (simp add: relocated_def)
  have "relocated ld es (put_word ?a ?w d) ! (?a + j) = le_word ?w ! j" if "j < 8" for j
  proof -
    have "\<forall>y \<in> set es. ?a + j < reloc_ofs ld y \<or> reloc_ofs ld y + 8 \<le> ?a + j" using ap that by fastforce
    with that a IH(3) [of "?a + j"] n [of "?a + j"] show ?thesis by simp
  qed
  moreover have "relocated ld es (put_word ?a ?w d) ! i = d ! i"
    if "i < length d" "\<forall>y \<in> set (x # es). i < reloc_ofs ld y \<or> reloc_ofs ld y + 8 \<le> i" for i
    using that IH(3) [of i] n [of i] by auto
  ultimately show ?case unfolding eq using IH(1,2) by auto
qed (simp add: relocated_def)

subsection \<open>The relocation table\<close>

definition dynamic_image :: "dynamic_entry \<Rightarrow> bytes" where
  "dynamic_image e = le_word (dyn_tag e) @ le_word (dyn_value e)"

definition relocation_image :: "relocation_entry \<Rightarrow> bytes" where
  "relocation_image e = le_word (rel_address e) @ le_word (rel_info e) @ le_word (rel_addend e)"

lemma image_lengths [simp]: "length (dynamic_image d) = 16" "length (relocation_image x) = 24"
  by (simp_all add: dynamic_image_def relocation_image_def)

lemma dynamic_image_read: "dynamic_try_from (dynamic_image d) = Inr d"
  by (simp add: dynamic_try_from_def) (simp add: dynamic_image_def codec_simps)

lemma relocation_image_read: "relocation_try_from (relocation_image x) = Inr x"
  by (simp add: relocation_try_from_def) (simp add: relocation_of_def relocation_image_def codec_simps)

lemma table_read:
  assumes "\<And>x. length (f x) = n" "0 < n" "\<And>x. g (f x) = Inr x"
  shows "chunks_exact n (concat (map f xs)) = Inr (map f xs)" "collect_res g (map f xs) = Inr xs"
proof -
  show "chunks_exact n (concat (map f xs)) = Inr (map f xs)"
    using assms(1,2) chunks_loop_concat [of n "map f xs"] by (auto simp: chunks_exact_def)
  show "collect_res g (map f xs) = Inr xs" by (induction xs) (simp_all add: assms(3))
qed

lemma relocate_ok:
  assumes "loaded_in e ld" "list_all (seg_fits (elf_data e)) (load_segs e)"
    and dyn: "find (\<lambda>s. phdr_type s = PHDR_TYPE_DYNAMIC) (elf_segments e) = Some dyn" "file_range dyn = Inr (a, b)"
      "slice_of (elf_data e) a b = Inr (concat (map dynamic_image ds))"
    and ds: "dynamic_value DYNAMIC_TAG_RELA_ADDRESS ds = Some v"
      "dynamic_value DYNAMIC_TAG_RELA_TOTAL_SIZE ds = Some (24 * length es)"
      "dynamic_value DYNAMIC_TAG_RELA_ENTRY_SIZE ds = Some 24"
    and es: "from_start_and_size v (24 * length es) = Inr r"
      "slice_of_vaddr_range ld r = Inr (concat (map relocation_image es))" "list_all (reloc_ok ld) es"
  shows "relocate ld = Inr (ld\<lparr>ld_region := (ld_region ld)\<lparr>pg_data := relocated ld es (pg_data (ld_region ld))\<rparr>\<rparr>)"
proof -
  have "ld_elf ld = e" using assms(1) by (simp add: loaded_in_def)
  with dyn ds es table_read [of dynamic_image 16 dynamic_try_from ds, OF _ _ dynamic_image_read]
    table_read [of relocation_image 24 relocation_try_from es, OF _ _ relocation_image_read]
    relocate_loop_ok [OF assms(2,1) es(3)]
  show ?thesis by (simp add: relocate_def)
qed

end
