(* ===== verification/Args.thy ===== *)
theory Args
  imports Prelude
begin

text \<open>
  \<open>noli/src/args.rs\<close>: the argument block that the kernel builds for an application and the
  application parses.  Strings are byte lists that \<open>utf8_valid\<close> accepts.  The round trip
  is proved for every argument list whose block fits the 64-bit offsets.
\<close>

definition args_layout :: "bytes list \<Rightarrow> (nat \<times> nat) list \<times> bytes" where
  "args_layout args =
     (let data_base_ofs = (length args + 1) * 16 in
      foldl (\<lambda>(ofs_and_len, data) e.
               (ofs_and_len @ [(data_base_ofs + length data, length e)], data @ e @ [0]))
            ([], []) args)"

definition serialize_args :: "bytes list \<Rightarrow> bytes" where
  "serialize_args args =
     (let data_base_ofs = (length args + 1) * 16;
          (ofs_and_len, data) = args_layout args;
          total_size = data_base_ofs + length data;
          num_args = length args
      in le_bytes 8 total_size @ le_bytes 8 num_args @
         concat (map (\<lambda>e. le_bytes 8 (fst e) @ le_bytes 8 (snd e)) ofs_and_len) @ data)"

fun deserialize_loop :: "bytes \<Rightarrow> nat list \<Rightarrow> bytes list \<Rightarrow> bytes list res" where
  "deserialize_loop data [] args = Inr args"
| "deserialize_loop data (i # is) args =
     and_then (slice_of data (16 + i * 16) (16 + i * 16 + 8)) (\<lambda>tmp.
     let ofs = of_le_bytes tmp in
     and_then (slice_of data (16 + i * 16 + 8) (16 + i * 16 + 16)) (\<lambda>tmp.
     let len = of_le_bytes tmp in
     and_then (usize_add ofs len) (\<lambda>e.
     and_then (slice_of data ofs e) (\<lambda>s.
     if utf8_valid s then deserialize_loop data is (args @ [s])
     else Inl (Err (Failed ''Invalid args data''))))))"

definition deserialize_args :: "bytes \<Rightarrow> bytes list res" where
  "deserialize_args data =
     (if length data < 16 then Inl (Err (Failed ''Invalid args data''))
      else
        and_then (slice_of data 8 16) (\<lambda>tmp.
        let num_args = of_le_bytes tmp in
        and_then (usize_add num_args 1) (\<lambda>n.
        and_then (usize_mul n 16) (\<lambda>n.
        if length data < n then Inl (Err (Failed ''Invalid args data''))
        else deserialize_loop data [0..<num_args] []))))"

definition args_from_env :: "bytes option \<Rightarrow> bytes list res" where
  "args_from_env env =
     (case env of
        None \<Rightarrow> Inr []
      | Some r \<Rightarrow> (case deserialize_args r of Inl (Err _) \<Rightarrow> Inr [] | x \<Rightarrow> x))"

subsection \<open>The layout of the block\<close>

abbreviation zterm :: "bytes list \<Rightarrow> bytes" where
  "zterm args \<equiv> concat (map (\<lambda>e. e @ [0]) args)"

lemma layout_fold:
  "foldl (\<lambda>(ol, data) e. (ol @ [(base + length data, length e)], data @ e @ [0])) ([], []) args =
   (map (\<lambda>i. (base + length (zterm (take i args)), length (args ! i))) [0..<length args], zterm args)"
proof (induction args rule: rev_induct)
  case (snoc e es)
  have "map (\<lambda>i. (base + length (zterm (take i es)), length (es ! i))) [0..<length es] =
        map (\<lambda>i. (base + length (zterm (take i (es @ [e]))), length ((es @ [e]) ! i))) [0..<length es]"
    by (intro map_cong) (simp_all add: nth_append)
  with snoc show ?case by simp
qed simp

lemma args_layout_eq:
  "args_layout args =
   (map (\<lambda>i. ((length args + 1) * 16 + length (zterm (take i args)), length (args ! i))) [0..<length args],
    zterm args)"
  unfolding args_layout_def Let_def layout_fold ..

lemma zterm_slice:
  "i < length args \<Longrightarrow>
   take (length (args ! i)) (drop (length (zterm (take i args))) (zterm args)) = args ! i"
proof (induction args arbitrary: i)
  case (Cons a as)
  then show ?case by (cases i) (simp_all add: drop_append)
qed simp

lemma zterm_prefix_le:
  "i < length args \<Longrightarrow> length (zterm (take i args)) + length (args ! i) < length (zterm args)"
proof (induction args arbitrary: i)
  case (Cons a as)
  then show ?case by (cases i) simp_all
qed simp

text \<open>One turn of the parsing loop on a block that \<open>serialize_args\<close> wrote.\<close>

lemma serialize_args_entry:
  fixes args :: "bytes list"
  defines "D \<equiv> serialize_args args" and "base \<equiv> (length args + 1) * 16"
  assumes i: "i < length args" and fits: "length D < USIZE"
  shows "slice_of D (16 + i * 16) (16 + i * 16 + 8) = Inr (le_bytes 8 (base + length (zterm (take i args))))"
    "slice_of D (16 + i * 16 + 8) (16 + i * 16 + 16) = Inr (le_bytes 8 (length (args ! i)))"
    "slice_of D (base + length (zterm (take i args)))
       (base + length (zterm (take i args)) + length (args ! i)) = Inr (args ! i)"
    "length D = base + length (zterm args)"
proof -
  define ol where "ol = map (\<lambda>i. (base + length (zterm (take i args)), length (args ! i))) [0..<length args]"
  define tab where "tab = concat (map (\<lambda>e. le_bytes 8 (fst e) @ le_bytes 8 (snd e)) ol)"
  define hd where "hd = le_bytes 8 (base + length (zterm args)) @ le_bytes 8 (length args)"
  have D: "D = hd @ tab @ zterm args"
    unfolding D_def serialize_args_def args_layout_eq Let_def hd_def tab_def ol_def base_def by simp
  have lt: "length tab = 16 * length args" unfolding tab_def
    by (subst length_concat_chunks [where k = 16]) (simp_all add: ol_def)
  have lh: "length hd = 16" by (simp add: hd_def)
  show lD: "length D = base + length (zterm args)" by (simp add: D lt lh base_def)
  have entry: "take 16 (drop (16 * i) tab) =
      le_bytes 8 (base + length (zterm (take i args))) @ le_bytes 8 (length (args ! i))"
    unfolding tab_def using i by (subst concat_chunk) (simp_all add: ol_def)
  have "take 16 (drop (16 + i * 16) D) = take 16 (drop (16 * i) tab)"
    using i lt lh by (simp add: D mult.commute)
  with entry have e16: "take 16 (drop (16 + i * 16) D) =
      le_bytes 8 (base + length (zterm (take i args))) @ le_bytes 8 (length (args ! i))" by simp
  have "take 8 (drop (16 + i * 16) D) = take 8 (take 16 (drop (16 + i * 16) D))" by (simp add: min_def)
  moreover have "take 8 (drop (16 + i * 16 + 8) D) = drop 8 (take 16 (drop (16 + i * 16) D))"
    by (simp add: drop_take add.commute)
  moreover have le: "16 + i * 16 + 16 \<le> length D" using i by (simp add: lD base_def)
  ultimately show "slice_of D (16 + i * 16) (16 + i * 16 + 8) =
      Inr (le_bytes 8 (base + length (zterm (take i args))))"
    "slice_of D (16 + i * 16 + 8) (16 + i * 16 + 16) = Inr (le_bytes 8 (length (args ! i)))"
    using e16 by (simp_all add: slice_of_def)
  have "drop (base + length (zterm (take i args))) D = drop (length (zterm (take i args))) (zterm args)"
    by (simp add: D lt lh base_def)
  with zterm_slice [OF i] zterm_prefix_le [OF i]
  show "slice_of D (base + length (zterm (take i args)))
       (base + length (zterm (take i args)) + length (args ! i)) = Inr (args ! i)"
    by (simp add: slice_of_def lD)
qed

lemma deserialize_loop_serialized:
  assumes fits: "length (serialize_args args) < USIZE" and utf8: "list_all utf8_valid args"
  shows "k \<le> length args \<Longrightarrow>
    deserialize_loop (serialize_args args) [k..<length args] acc = Inr (acc @ drop k args)"
proof (induction "length args - k" arbitrary: k acc)
  case (Suc n)
  then have k: "k < length args" by simp
  note e = serialize_args_entry [OF k fits]
  have lt: "(length args + 1) * 16 + length (zterm (take k args)) + length (args ! k) < USIZE"
    using zterm_prefix_le [OF k] fits e(4) by linarith
  have "deserialize_loop (serialize_args args) [Suc k..<length args] (acc @ [args ! k]) =
      Inr ((acc @ [args ! k]) @ drop (Suc k) args)"
    using Suc.hyps k by (intro Suc.hyps) simp_all
  moreover have "utf8_valid (args ! k)" using utf8 k by (simp add: list_all_length)
  ultimately show ?case
    using k lt e(1-3) by (simp add: upt_conv_Cons of_le_bytes_le_bytes Cons_nth_drop_Suc)
qed simp

lemma deserialize_serialize:
  assumes "length (serialize_args args) < USIZE" "list_all utf8_valid args"
  shows "deserialize_args (serialize_args args) = Inr args"
proof -
  let ?D = "serialize_args args" and ?n = "length args"
  have len: "length ?D = (?n + 1) * 16 + length (zterm args)"
    unfolding serialize_args_def args_layout_eq Let_def
    by (simp add: length_concat_chunks [where k = 16])
  have num: "take 8 (drop 8 ?D) = le_bytes 8 ?n"
    unfolding serialize_args_def args_layout_eq Let_def by simp
  have "?n < USIZE" "(?n + 1) * 16 < USIZE" using assms(1) len by simp_all
  with num len have "deserialize_args ?D = deserialize_loop ?D [0..<?n] []"
    by (simp add: deserialize_args_def of_le_bytes_le_bytes Let_def)
  with deserialize_loop_serialized [OF assms, of 0 "[]"] show ?thesis by simp
qed

end
