(* ===== verification/Context.thy ===== *)
theory Context
  imports Util
begin

text \<open>
  The context switch of \<open>os/src/x86_64/context.rs\<close> at the level of its assembly: \<open>asm_switch_context\<close> and
  \<open>asm_restore_context\<close>, the entry and the exit of a system call with \<open>arch_syscall_handler\<close> of
  \<open>os/src/x86_64/syscall.rs\<close>, and the stub \<open>syscall_5\<close> of \<open>noli/src/sys/wasabi.rs\<close>.
  Each routine is its list of instructions, run on a machine with the general registers, the flags, the image of the
  floating-point state and a memory of bytes.  What the processor does to the flags in \<open>pushfq\<close>, \<open>popfq\<close> and in
  arithmetic is the parameter \<open>hw\<close>.
  The lemmas show that a switch stores the running context and loads the other one, that a thread that is switched
  away and later restored goes on where it was, and which registers a system call keeps.
\<close>

subsection \<open>The machine\<close>

datatype reg = RAX | RCX | RDX | RBX | RSP | RBP | RSI | RDI | R8 | R9 | R10 | R11 | R12 | R13 | R14 | R15

record machine =
  regs :: "reg \<Rightarrow> u64"
  rip :: u64
  rflags :: u64
  fpu :: bytes
  segs :: u16
  mem :: "u64 \<Rightarrow> u8"

record hardware =
  hw_ss :: u16
  hw_alu :: "u64 \<Rightarrow> u64"
  hw_pushf :: "u64 \<Rightarrow> u64"
  hw_popf :: "u64 \<Rightarrow> u64"

definition load_bytes :: "(u64 \<Rightarrow> u8) \<Rightarrow> u64 \<Rightarrow> nat \<Rightarrow> bytes" where
  "load_bytes m a n = map (\<lambda>i. m (a + word_of_nat i)) [0..<n]"

definition store_bytes :: "(u64 \<Rightarrow> u8) \<Rightarrow> u64 \<Rightarrow> bytes \<Rightarrow> u64 \<Rightarrow> u8" where
  "store_bytes m a bs x = (if unat (x - a) < length bs then bs ! unat (x - a) else m x)"

definition load64 :: "(u64 \<Rightarrow> u8) \<Rightarrow> u64 \<Rightarrow> u64" where
  "load64 m a = word_le (load_bytes m a 8)"

datatype instr =
    Xchg reg reg | Push reg | Push_imm u64 | Pop reg | Pushfq | Popfq | Lea reg u64 | Mov reg reg | Mov_imm reg u64
  | Add reg u64 | Sub reg u64 | And reg u64 | Fxsave | Fxrstor | Ret | Sysret | Mov_ss reg | Mov_segs reg

definition do_push :: "u64 \<Rightarrow> machine \<Rightarrow> machine" where
  "do_push v c = (let a = regs c RSP - 8 in c\<lparr>regs := (regs c)(RSP := a), mem := store_bytes (mem c) a (le_word v)\<rparr>)"

definition set_reg :: "reg \<Rightarrow> u64 \<Rightarrow> machine \<Rightarrow> machine" where
  "set_reg r v c = c\<lparr>regs := (regs c)(r := v)\<rparr>"

text \<open>\<open>fxsave64\<close> and \<open>fxrstor64\<close> raise a general-protection fault unless the address is a multiple of 16.\<close>

fun exec :: "hardware \<Rightarrow> instr \<Rightarrow> machine \<Rightarrow> machine res" where
  "exec hw (Xchg r s) c = Inr (c\<lparr>regs := (regs c)(r := regs c s, s := regs c r)\<rparr>)"
| "exec hw (Push r) c = Inr (do_push (regs c r) c)"
| "exec hw (Push_imm v) c = Inr (do_push v c)"
| "exec hw (Pop r) c = Inr (set_reg r (load64 (mem c) (regs c RSP)) (set_reg RSP (regs c RSP + 8) c))"
| "exec hw Pushfq c = Inr (do_push (hw_pushf hw (rflags c)) c)"
| "exec hw Popfq c = Inr (set_reg RSP (regs c RSP + 8) c\<lparr>rflags := hw_popf hw (load64 (mem c) (regs c RSP))\<rparr>)"
| "exec hw (Lea r a) c = Inr (set_reg r a c)"
| "exec hw (Mov r s) c = Inr (set_reg r (regs c s) c)"
| "exec hw (Mov_imm r v) c = Inr (set_reg r v c)"
| "exec hw (Add r k) c = Inr (set_reg r (regs c r + k) c\<lparr>rflags := hw_alu hw (rflags c)\<rparr>)"
| "exec hw (Sub r k) c = Inr (set_reg r (regs c r - k) c\<lparr>rflags := hw_alu hw (rflags c)\<rparr>)"
| "exec hw (And r k) c = Inr (set_reg r (regs c r AND k) c\<lparr>rflags := hw_alu hw (rflags c)\<rparr>)"
| "exec hw Fxsave c =
     (if regs c RSP mod 16 \<noteq> 0 then Inl (Panic ''#GP'')
      else Inr (c\<lparr>mem := store_bytes (mem c) (regs c RSP) (fpu c)\<rparr>))"
| "exec hw Fxrstor c =
     (if regs c RSP mod 16 \<noteq> 0 then Inl (Panic ''#GP'')
      else Inr (c\<lparr>fpu := load_bytes (mem c) (regs c RSP) 512\<rparr>))"
| "exec hw Ret c = Inr (set_reg RSP (regs c RSP + 8) c\<lparr>rip := load64 (mem c) (regs c RSP)\<rparr>)"
| "exec hw Sysret c = Inr (c\<lparr>rip := regs c RCX, rflags := (regs c R11 AND 0x3C7FD7) OR 2\<rparr>)"
| "exec hw (Mov_ss r) c = Inr (set_reg r ((regs c r AND NOT 0xFFFF) OR ucast (hw_ss hw)) c)"
| "exec hw (Mov_segs r) c = Inr (c\<lparr>segs := ucast (regs c r)\<rparr>)"

fun run :: "hardware \<Rightarrow> instr list \<Rightarrow> machine \<Rightarrow> machine res" where
  "run hw [] c = Inr c"
| "run hw (i # is) c = and_then (exec hw i c) (run hw is)"

subsection \<open>Contexts in memory\<close>

record cpu_context =
  c_rip :: u64
  c_rflags :: u64
  c_rax :: u64
  c_rcx :: u64
  c_rdx :: u64
  c_rbx :: u64
  c_rbp :: u64
  c_rsi :: u64
  c_rdi :: u64
  c_r8 :: u64
  c_r9 :: u64
  c_r10 :: u64
  c_r11 :: u64
  c_r12 :: u64
  c_r13 :: u64
  c_r14 :: u64
  c_r15 :: u64
  c_rsp :: u64

record execution_context =
  ctx_fpu :: bytes
  ctx_cpu :: cpu_context

definition CONTEXT_SIZE :: nat where "CONTEXT_SIZE = 656"

definition cpu_default :: cpu_context where
  "cpu_default = \<lparr>c_rip = 0, c_rflags = 0, c_rax = 0, c_rcx = 0, c_rdx = 0, c_rbx = 0, c_rbp = 0, c_rsi = 0, c_rdi = 0,
     c_r8 = 0, c_r9 = 0, c_r10 = 0, c_r11 = 0, c_r12 = 0, c_r13 = 0, c_r14 = 0, c_r15 = 0, c_rsp = 0\<rparr>"

definition context_default :: execution_context where
  "context_default = \<lparr>ctx_fpu = replicate 512 0, ctx_cpu = cpu_default\<rparr>"

definition cpu_words :: "cpu_context \<Rightarrow> u64 list" where
  "cpu_words c = [c_rip c, c_rflags c, c_rax c, c_rcx c, c_rdx c, c_rbx c, c_rbp c, c_rsi c, c_rdi c, c_r8 c, c_r9 c,
     c_r10 c, c_r11 c, c_r12 c, c_r13 c, c_r14 c, c_r15 c, c_rsp c]"

definition context_image :: "execution_context \<Rightarrow> bytes" where
  "context_image x = ctx_fpu x @ concat (map le_word (cpu_words (ctx_cpu x)))"

definition context_at :: "(u64 \<Rightarrow> u8) \<Rightarrow> u64 \<Rightarrow> execution_context \<Rightarrow> bool" where
  "context_at m a x \<longleftrightarrow> length (ctx_fpu x) = 512 \<and> load_bytes m a CONTEXT_SIZE = context_image x"

subsection \<open>The routines\<close>

definition asm_restore_context :: "instr list" where
  "asm_restore_context =
     [Xchg RSP RDI, Fxrstor, Add RSP 512, Pop RAX, Popfq,
      Pop RAX, Pop RCX, Pop RDX, Pop RBX, Pop RBP, Pop RSI, Pop RDI, Pop R8, Pop R9, Pop R10, Pop R11,
      Pop R12, Pop R13, Pop R14, Pop R15, Pop RSP, Ret]"

text \<open>The part that saves the running context, below the address in \<open>rsi\<close>; \<open>l\<close> is the address of the label at which the
  context is resumed.\<close>

definition save_context :: "u64 \<Rightarrow> instr list" where
  "save_context l =
     [Xchg RSP RSI, Push RSI, Push R15, Push R14, Push R13, Push R12, Push R11, Push R10, Push R9, Push R8,
      Push RDI, Push RSI, Push RBP, Push RBX, Push RDX, Push RCX, Push RAX, Pushfq, Lea R8 l, Push R8,
      Sub RSP 512, Fxsave, Xchg RSP RSI]"

text \<open>\<open>asm_restore_context\<close> follows in the text.\<close>

definition asm_switch_context :: "u64 \<Rightarrow> instr list" where
  "asm_switch_context l = save_context l @ asm_restore_context"

text \<open>A call of the routine: the return address is on the stack and the arguments are in their registers.\<close>

definition unchecked_switch_context :: "hardware \<Rightarrow> u64 \<Rightarrow> u64 \<Rightarrow> u64 \<Rightarrow> machine \<Rightarrow> machine res" where
  "unchecked_switch_context hw l from to c =
     run hw (asm_switch_context l) (set_reg RSI (from + word_of_nat CONTEXT_SIZE) (set_reg RDI to c))"

definition unchecked_load_context :: "hardware \<Rightarrow> u64 \<Rightarrow> machine \<Rightarrow> machine res" where
  "unchecked_load_context hw to c = run hw asm_restore_context (set_reg RDI to c)"

definition return_to_app :: "instr list" where
  "return_to_app =
     [Fxrstor, Add RSP 512, Pop RCX, Pop R11, Pop RAX, Add RSP 8, Pop RDX, Pop RBX, Pop RBP, Pop RSI, Pop RDI,
      Pop R8, Pop R9, Pop R10, Add RSP 8, Pop R12, Pop R13, Pop R14, Pop R15, Pop RSP, Sysret]"

text \<open>The assembly of \<open>exec_app_context\<close>: the entry of the application, whose context \<open>rax\<close> points to, and what runs at
  the label \<open>l\<close> when it returns.  The four data segments are loaded with the same selector, one \<open>Mov_segs\<close>.\<close>

definition enter_app_asm :: "u64 \<Rightarrow> instr list" where
  "enter_app_asm l = save_context l @ [Mov RSP RAX, Mov_segs RDX] @ return_to_app"

definition leave_app_asm :: "instr list" where
  "leave_app_asm =
     [Push RDI, Mov_ss RDI, Mov_segs RDI, Pop RDI, Xchg RSP RDI, Fxrstor, Add RSP 512, Pop RAX, Popfq,
      Pop RAX, Pop RCX, Pop RDX, Pop RBX, Pop RBP, Pop RSI, Pop RDI, Pop R8, Pop R9, Pop R10, Pop R11,
      Pop R12, Pop R13, Pop R14, Pop R15, Pop RSP]"

definition write_return_value :: "u64 \<Rightarrow> execution_context \<Rightarrow> execution_context" where
  "write_return_value retv x = x\<lparr>ctx_cpu := (ctx_cpu x)\<lparr>c_rax := retv\<rparr>\<rparr>"

definition write_exit_reason :: "u64 \<Rightarrow> execution_context \<Rightarrow> execution_context" where
  "write_exit_reason retv x = x\<lparr>ctx_cpu := (ctx_cpu x)\<lparr>c_r8 := retv\<rparr>\<rparr>"

text \<open>\<open>return_to_os\<close> jumps to the label that the context of the kernel holds, with the addresses of both contexts.\<close>

definition return_to_os :: "hardware \<Rightarrow> u64 \<Rightarrow> u64 \<Rightarrow> machine \<Rightarrow> machine res" where
  "return_to_os hw os_ctx app_ctx c = run hw leave_app_asm (set_reg RDI os_ctx (set_reg RSI app_ctx c))"

text \<open>The part of \<open>asm_syscall_handler\<close> before the call of \<open>arch_syscall_handler\<close>.\<close>

definition syscall_entry :: "instr list" where
  "syscall_entry =
     [Push RSP, Push R15, Push R14, Push R13, Push R12, Push_imm 0, Push R10, Push R9, Push R8, Push RDI, Push RSI,
      Push RBP, Push RBX, Push RDX, Push_imm 0, Push RAX, Push R11, Push RCX, Sub RSP 512, Fxsave,
      Mov RBP RSP, Mov RDI RSP, And RSP (- 16)]"

text \<open>The instruction \<open>syscall\<close>: \<open>rip\<close> is the address of the next instruction, and \<open>init_syscall\<close> masks the
  interrupt flag.\<close>

definition SYSCALL_FMASK :: u64 where "SYSCALL_FMASK = push_bit 9 1"

definition syscall_insn :: "machine \<Rightarrow> machine" where
  "syscall_insn c = c\<lparr>regs := (regs c)(RCX := rip c, R11 := rflags c), rflags := rflags c AND NOT SYSCALL_FMASK\<rparr>"

text \<open>The handler: the context of the application is copied to \<open>CONTEXT_APP\<close>, and the result is written to its \<open>rax\<close>.\<close>

definition arch_syscall_handler ::
  "(u64 \<Rightarrow> u64 list \<Rightarrow> 's \<Rightarrow> 's \<times> u64 res) \<Rightarrow> execution_context \<Rightarrow> execution_context \<times> 's \<Rightarrow>
   (execution_context \<times> 's) \<times> execution_context res" where
  "arch_syscall_handler handler ctx st =
     (let cpu = ctx_cpu ctx;
          args = [c_rsi cpu, c_rdi cpu, c_r8 cpu, c_r9 cpu, c_r10 cpu];
          (s', r) = handler (c_rdx cpu) args (snd st)
      in ((ctx, s'), and_then r (\<lambda>ret. Inr (ctx\<lparr>ctx_cpu := cpu\<lparr>c_rax := ret\<rparr>\<rparr>))))"

text \<open>\<open>asm_syscall_handler\<close>: \<open>call\<close> is the machine code of \<open>arch_syscall_handler\<close>, from the call to the return.\<close>

definition asm_syscall_handler :: "hardware \<Rightarrow> (machine \<Rightarrow> machine res) \<Rightarrow> machine \<Rightarrow> machine res" where
  "asm_syscall_handler hw call c =
     and_then (run hw syscall_entry c) (\<lambda>c. and_then (call c) (run hw (Mov RSP RBP # return_to_app)))"

definition syscall_5 :: "hardware \<Rightarrow> (machine \<Rightarrow> machine res) \<Rightarrow> machine \<Rightarrow> machine res" where
  "syscall_5 hw call c =
     and_then (run hw [Push RSP, And RSP (- 16)] c) (\<lambda>c.
     and_then (asm_syscall_handler hw call (syscall_insn c)) (run hw [Pop RSP]))"

subsection \<open>Memory\<close>

definition apart :: "u64 \<Rightarrow> nat \<Rightarrow> u64 \<Rightarrow> nat \<Rightarrow> bool" where
  "apart a n b k \<longleftrightarrow> n \<le> unat (b - a) \<and> unat (b - a) + k \<le> 2 ^ 64"

lemma length_load_bytes [simp]: "length (load_bytes m a n) = n"
  by (simp add: load_bytes_def)

lemma load_bytes_add: "load_bytes m a (n + k) = load_bytes m a n @ load_bytes m (a + word_of_nat n) k"
  by (rule nth_equalityI) (auto simp: load_bytes_def nth_append add.assoc simp flip: of_nat_add)

lemma load_store_same: "length bs \<le> 2 ^ 64 \<Longrightarrow> load_bytes (store_bytes m a bs) a (length bs) = bs"
  by (rule nth_equalityI) (auto simp: load_bytes_def store_bytes_def unat_of_nat)

lemma load_store_apart:
  assumes "apart a (length bs) b k"
  shows "load_bytes (store_bytes m a bs) b k = load_bytes m b k"
proof -
  have "\<not> unat (b + word_of_nat i - a) < length bs" if "i < k" for i
  proof -
    have "unat (b - a) + i < 2 ^ 64" using assms that by (simp add: apart_def)
    then have "unat (b - a + word_of_nat i) = unat (b - a) + i"
      by (simp add: unat_word_ariths unat_of_nat mod_simps)
    then show ?thesis using assms by (simp add: apart_def algebra_simps)
  qed
  then show ?thesis by (simp add: load_bytes_def store_bytes_def)
qed

definition words_at :: "(u64 \<Rightarrow> u8) \<Rightarrow> u64 \<Rightarrow> u64 list \<Rightarrow> bool" where
  "words_at m a ws \<longleftrightarrow> load_bytes m a (8 * length ws) = concat (map le_word ws)"

lemma words_at_Nil [simp]: "words_at m a []"
  by (simp add: words_at_def load_bytes_def)

lemma words_at_Cons [simp]: "words_at m a (w # ws) \<longleftrightarrow> load64 m a = w \<and> words_at m (a + 8) ws"
proof -
  have "load_bytes m a (8 * length (w # ws)) = load_bytes m a 8 @ load_bytes m (a + 8) (8 * length ws)"
    using load_bytes_add [of m a 8 "8 * length ws"] by (simp add: add.commute)
  moreover have "load_bytes m a 8 = le_word w \<longleftrightarrow> load64 m a = w"
    by (auto simp: load64_def codec_simps)
  ultimately show ?thesis by (simp add: words_at_def)
qed

lemma context_at_words:
  "context_at m a x \<longleftrightarrow> length (ctx_fpu x) = 512 \<and> load_bytes m a 512 = ctx_fpu x \<and> words_at m (a + 512) (cpu_words (ctx_cpu x))"
proof -
  have "load_bytes m a 656 = load_bytes m a 512 @ load_bytes m (a + 512) 144" using load_bytes_add [of m a 512 144] by simp
  moreover have "length (cpu_words (ctx_cpu x)) = 18" by (simp add: cpu_words_def)
  ultimately show ?thesis by (auto simp: context_at_def context_image_def CONTEXT_SIZE_def words_at_def)
qed

subsection \<open>Restoring a context\<close>

definition ctx_regs :: "cpu_context \<Rightarrow> reg \<Rightarrow> u64" where
  "ctx_regs x r = (case r of RAX \<Rightarrow> c_rax x | RCX \<Rightarrow> c_rcx x | RDX \<Rightarrow> c_rdx x | RBX \<Rightarrow> c_rbx x | RSP \<Rightarrow> c_rsp x
     | RBP \<Rightarrow> c_rbp x | RSI \<Rightarrow> c_rsi x | RDI \<Rightarrow> c_rdi x | R8 \<Rightarrow> c_r8 x | R9 \<Rightarrow> c_r9 x | R10 \<Rightarrow> c_r10 x | R11 \<Rightarrow> c_r11 x
     | R12 \<Rightarrow> c_r12 x | R13 \<Rightarrow> c_r13 x | R14 \<Rightarrow> c_r14 x | R15 \<Rightarrow> c_r15 x)"

definition resumed :: "hardware \<Rightarrow> execution_context \<Rightarrow> machine \<Rightarrow> machine" where
  "resumed hw x c = c\<lparr>regs := (ctx_regs (ctx_cpu x))(RSP := c_rsp (ctx_cpu x) + 8),
     rip := load64 (mem c) (c_rsp (ctx_cpu x)), rflags := hw_popf hw (c_rflags (ctx_cpu x)), fpu := ctx_fpu x\<rparr>"

lemma set_reg_simps [simp]:
  "regs (set_reg r v c) = (regs c)(r := v)" "mem (set_reg r v c) = mem c" "rflags (set_reg r v c) = rflags c"
  "fpu (set_reg r v c) = fpu c" "rip (set_reg r v c) = rip c" "segs (set_reg r v c) = segs c"
  by (simp_all add: set_reg_def)

lemma run_append: "run hw (xs @ ys) c = and_then (run hw xs c) (run hw ys)"
  by (induction xs arbitrary: c) (simp, simp add: and_then_def split: sum.split)

definition set_regs :: "(reg \<times> u64) list \<Rightarrow> machine \<Rightarrow> machine" where
  "set_regs ps c = c\<lparr>regs := (\<lambda>r. case map_of ps r of None \<Rightarrow> regs c r | Some w \<Rightarrow> w)\<rparr>"

lemma set_regs_simps [simp]:
  "regs (set_regs ps c) = (\<lambda>r. case map_of ps r of None \<Rightarrow> regs c r | Some w \<Rightarrow> w)"
  "mem (set_regs ps c) = mem c" "rflags (set_regs ps c) = rflags c" "fpu (set_regs ps c) = fpu c" "rip (set_regs ps c) = rip c"
  "segs (set_regs ps c) = segs c"
  by (simp_all add: set_regs_def)

lemma machine_eqI:
  "(\<And>r. regs c r = regs d r) \<Longrightarrow> rip c = rip d \<Longrightarrow> rflags c = rflags d \<Longrightarrow> fpu c = fpu d \<Longrightarrow> segs c = segs d \<Longrightarrow>
   mem c = mem d \<Longrightarrow> c = (d :: machine)"
  by (cases c, cases d) auto

lemma run_pops:
  "distinct (RSP # rs) \<Longrightarrow> length ws = length rs \<Longrightarrow> words_at (mem c) (regs c RSP) ws \<Longrightarrow>
   run hw (map Pop rs) c = Inr (set_regs ((RSP, regs c RSP + 8 * word_of_nat (length rs)) # zip rs ws) c)"
proof (induction rs arbitrary: ws c)
  case Nil
  then show ?case by (auto intro: machine_eqI)
next
  case (Cons r rs)
  then obtain w ws' where ws: "ws = w # ws'" by (cases ws) auto
  let ?c = "set_reg r w (set_reg RSP (regs c RSP + 8) c)"
  have "run hw (map Pop (r # rs)) c = run hw (map Pop rs) ?c" using Cons.prems ws by simp
  also have "\<dots> = Inr (set_regs ((RSP, regs c RSP + 8 + 8 * word_of_nat (length rs)) # zip rs ws') ?c)"
    using Cons.IH [of ws' ?c] Cons.prems ws by simp
  also have "\<dots> = Inr (set_regs ((RSP, regs c RSP + 8 * word_of_nat (length (r # rs))) # zip (r # rs) ws) c)"
  proof -
    have "map_of (zip rs ws') r = None" using Cons.prems by (auto simp: map_of_eq_None_iff dest: set_zip_leftD)
    with ws show ?thesis by (auto intro!: machine_eqI simp: algebra_simps split: option.split)
  qed
  finally show ?case .
qed

abbreviation general_regs :: "reg list" where
  "general_regs \<equiv> [RAX, RCX, RDX, RBX, RBP, RSI, RDI, R8, R9, R10, R11, R12, R13, R14, R15]"

definition general_words :: "cpu_context \<Rightarrow> u64 list" where
  "general_words x = [c_rax x, c_rcx x, c_rdx x, c_rbx x, c_rbp x, c_rsi x, c_rdi x, c_r8 x, c_r9 x, c_r10 x, c_r11 x,
     c_r12 x, c_r13 x, c_r14 x, c_r15 x]"

lemma words_at_append: "words_at m a (us @ ws) \<longleftrightarrow> words_at m a us \<and> words_at m (a + 8 * word_of_nat (length us)) ws"
  by (induction us arbitrary: a) (simp_all add: algebra_simps)

lemma cpu_words_split: "cpu_words x = [c_rip x, c_rflags x] @ general_words x @ [c_rsp x]"
  by (simp add: cpu_words_def general_words_def)

definition load_context :: "instr list" where
  "load_context = [Xchg RSP RDI, Fxrstor, Add RSP 512, Pop RAX, Popfq] @ map Pop general_regs @ [Pop RSP]"

definition loaded_context :: "hardware \<Rightarrow> execution_context \<Rightarrow> machine \<Rightarrow> machine" where
  "loaded_context hw x c = c\<lparr>regs := ctx_regs (ctx_cpu x), rflags := hw_popf hw (c_rflags (ctx_cpu x)), fpu := ctx_fpu x\<rparr>"

lemma load_context_ok:
  assumes "context_at (mem c) (regs c RDI) x" "regs c RDI mod 16 = 0"
  shows "run hw load_context c = Inr (loaded_context hw x c)"
proof -
  let ?x = "ctx_cpu x" and ?a = "regs c RDI + 512"
  have w: "load64 (mem c) (?a + 8) = c_rflags ?x" "words_at (mem c) (?a + 16) (general_words ?x)"
      "load64 (mem c) (?a + 16 + 120) = c_rsp ?x"
    and f: "load_bytes (mem c) (regs c RDI) 512 = ctx_fpu x"
    using assms(1) unfolding context_at_words cpu_words_split words_at_append
    by (simp_all add: general_words_def add.assoc)
  define d where "d = c\<lparr>regs := (regs c)(RSP := ?a + 16, RDI := regs c RSP, RAX := load64 (mem c) ?a),
    rflags := hw_popf hw (c_rflags ?x), fpu := ctx_fpu x\<rparr>"
  have d: "run hw [Xchg RSP RDI, Fxrstor, Add RSP 512, Pop RAX, Popfq] c = Inr d"
    using assms(2) w(1) f by (simp add: d_def set_reg_def fun_upd_twist add.assoc)
  have p: "run hw (map Pop general_regs) d = Inr (set_regs ((RSP, ?a + 136) # zip general_regs (general_words ?x)) d)"
    using run_pops [of general_regs "general_words ?x" d hw] w(2) by (simp add: d_def general_words_def add.assoc)
  have e: "run hw [Pop RSP] (set_regs ((RSP, ?a + 136) # zip general_regs (general_words ?x)) d) = Inr (loaded_context hw x c)"
    using w(3) by (auto intro!: machine_eqI simp: loaded_context_def ctx_regs_def d_def general_words_def add.assoc split: reg.split)
  show ?thesis unfolding load_context_def by (simp only: run_append d p e and_then_simps)
qed

lemma restore_context_ok:
  assumes "context_at (mem c) (regs c RDI) x" "regs c RDI mod 16 = 0"
  shows "run hw asm_restore_context c = Inr (resumed hw x c)"
proof -
  have eq: "asm_restore_context = load_context @ [Ret]" by (simp add: asm_restore_context_def load_context_def)
  have r: "run hw [Ret] (loaded_context hw x c) = Inr (resumed hw x c)"
    by (auto intro!: machine_eqI simp: loaded_context_def resumed_def ctx_regs_def)
  show ?thesis unfolding eq by (simp only: run_append load_context_ok [OF assms] r and_then_simps)
qed

subsection \<open>Saving a context\<close>

lemma store_below:
  assumes "length cs + length bs \<le> 2 ^ 64"
  shows "store_bytes (store_bytes m a bs) (a - word_of_nat (length cs)) cs =
    store_bytes m (a - word_of_nat (length cs)) (cs @ bs)"
proof
  fix x :: u64
  let ?b = "a - word_of_nat (length cs) :: u64"
  show "store_bytes (store_bytes m a bs) ?b cs x = store_bytes m ?b (cs @ bs) x"
  proof (cases "unat (x - ?b) < length cs")
    case True
    then show ?thesis by (simp add: store_bytes_def nth_append)
  next
    case False
    have "unat (x - a) = unat (x - ?b) - length cs"
    proof -
      have "word_of_nat (length cs) \<le> x - ?b"
        using False by (simp add: word_le_nat_alt unat_of_nat)
      then have "unat (x - ?b - word_of_nat (length cs)) = unat (x - ?b) - unat (word_of_nat (length cs) :: u64)"
        by (rule unat_sub)
      moreover have "length cs < 2 ^ 64" using False unsigned_less [of "x - ?b", where ?'a = nat] by simp
      ultimately show ?thesis by (simp add: unat_of_nat)
    qed
    with False show ?thesis by (auto simp: store_bytes_def nth_append)
  qed
qed

lemma pushes:
  "8 * length vs \<le> 2 ^ 64 \<Longrightarrow> fold do_push vs c =
     c\<lparr>regs := (regs c)(RSP := regs c RSP - 8 * word_of_nat (length vs)),
       mem := store_bytes (mem c) (regs c RSP - 8 * word_of_nat (length vs)) (concat (map le_word (rev vs)))\<rparr>"
proof (induction vs rule: rev_induct)
  case Nil
  then show ?case by (auto intro!: machine_eqI simp: store_bytes_def fun_eq_iff)
next
  case (snoc v vs)
  let ?a = "regs c RSP - 8 * word_of_nat (length vs)"
  have "length (concat (map le_word (rev vs))) = 8 * length vs" by (induction vs) auto
  then have "store_bytes (store_bytes (mem c) ?a (concat (map le_word (rev vs)))) (?a - 8) (le_word v) =
      store_bytes (mem c) (?a - 8) (le_word v @ concat (map le_word (rev vs)))"
    using store_below [of "le_word v" "concat (map le_word (rev vs))" "mem c" ?a] snoc.prems by simp
  with snoc show ?case by (auto intro!: machine_eqI simp: do_push_def Let_def algebra_simps)
qed

lemma run_pushes: "RSP \<notin> set rs \<Longrightarrow> run hw (map Push rs) c = Inr (fold do_push (map (regs c) rs) c)"
proof (induction rs arbitrary: c)
  case (Cons r rs)
  have "map (regs (do_push (regs c r) c)) rs = map (regs c) rs" using Cons.prems by (auto simp: do_push_def Let_def)
  with Cons.prems Cons.IH [of "do_push (regs c r) c"] show ?case by (simp del: map_eq_conv)
qed simp

definition saved :: "hardware \<Rightarrow> u64 \<Rightarrow> machine \<Rightarrow> execution_context" where
  "saved hw l c = \<lparr>ctx_fpu = fpu c, ctx_cpu = \<lparr>c_rip = l, c_rflags = hw_pushf hw (rflags c), c_rax = regs c RAX, c_rcx = regs c RCX,
     c_rdx = regs c RDX, c_rbx = regs c RBX, c_rbp = regs c RBP, c_rsi = regs c RSP, c_rdi = regs c RDI, c_r8 = regs c R8,
     c_r9 = regs c R9, c_r10 = regs c R10, c_r11 = regs c R11, c_r12 = regs c R12, c_r13 = regs c R13, c_r14 = regs c R14,
     c_r15 = regs c R15, c_rsp = regs c RSP\<rparr>\<rparr>"

abbreviation save_regs :: "reg list" where
  "save_regs \<equiv> [RSI, R15, R14, R13, R12, R11, R10, R9, R8, RDI, RSI, RBP, RBX, RDX, RCX, RAX]"

lemma save_context_ok:
  assumes "regs c RSI = from + word_of_nat CONTEXT_SIZE" "from mod 16 = 0" "length (fpu c) = 512"
  shows "run hw (save_context l) c = Inr (c\<lparr>regs := (regs c)(RSI := from, R8 := l), rflags := hw_alu hw (rflags c),
       mem := store_bytes (mem c) from (context_image (saved hw l c))\<rparr>)"
proof -
  define c0 where "c0 = c\<lparr>regs := (regs c)(RSP := regs c RSI, RSI := regs c RSP)\<rparr>"
  define vs where "vs = map (regs c0) save_regs"
  define fl where "fl = hw_pushf hw (rflags c)"
  let ?w = "concat (map le_word (cpu_words (ctx_cpu (saved hw l c))))"
  define c2 where "c2 = c0\<lparr>regs := (regs c0)(RSP := from + 512, R8 := l), mem := store_bytes (mem c) (from + 512) ?w\<rparr>"
  have len: "length vs = 16" "RSP \<notin> set save_regs" by (simp_all add: vs_def)
  have rv: "rev (vs @ [fl, l]) = cpu_words (ctx_cpu (saved hw l c))"
    by (simp add: vs_def c0_def fl_def cpu_words_def saved_def)
  have e: "regs c0 RSP - 8 * word_of_nat (length (vs @ [fl, l])) = from + 512"
    using assms(1) by (simp add: len c0_def CONTEXT_SIZE_def)
  have "fold do_push (vs @ [fl, l]) c0 = c0\<lparr>regs := (regs c0)(RSP := from + 512), mem := store_bytes (mem c0) (from + 512) ?w\<rparr>"
    using pushes [of "vs @ [fl, l]" c0, unfolded e rv] by (simp only: length_append len list.size) simp
  then have c2: "set_reg R8 l (do_push l (do_push fl (fold do_push vs c0))) = c2"
    by (simp add: c2_def c0_def set_reg_def)
  have "rflags (fold do_push vs c0) = rflags c" using pushes [of vs c0] by (simp add: len c0_def)
  then have "run hw [Pushfq, Lea R8 l, Push R8] (fold do_push vs c0) = Inr c2"
    by (simp add: c2 [symmetric] fl_def do_push_def set_reg_def Let_def fun_upd_twist)
  moreover have "run hw (map Push save_regs) c0 = Inr (fold do_push vs c0)" unfolding vs_def by (rule run_pushes [OF len(2)])
  ultimately have "run hw (Xchg RSP RSI # map Push save_regs @ [Pushfq, Lea R8 l, Push R8]) c = Inr c2"
    using run_append [of hw "map Push save_regs" "[Pushfq, Lea R8 l, Push R8]" c0] by (simp only: run.simps exec.simps c0_def [symmetric] and_then_simps)
  moreover have "length ?w = 144" by (simp add: cpu_words_def)
  then have "store_bytes (store_bytes (mem c) (from + 512) ?w) from (fpu c) = store_bytes (mem c) from (context_image (saved hw l c))"
    using store_below [of "fpu c" ?w "mem c" "from + 512"] assms(3) by (simp add: context_image_def saved_def)
  then have "run hw [Sub RSP 512, Fxsave, Xchg RSP RSI] c2 = Inr (c\<lparr>regs := (regs c)(RSI := from, R8 := l), rflags := hw_alu hw (rflags c),
       mem := store_bytes (mem c) from (context_image (saved hw l c))\<rparr>)"
    using assms(2) by (auto intro!: machine_eqI simp: c2_def c0_def set_reg_def)
  moreover have "save_context l = (Xchg RSP RSI # map Push save_regs @ [Pushfq, Lea R8 l, Push R8]) @
      [Sub RSP 512, Fxsave, Xchg RSP RSI]"
    by (simp add: save_context_def)
  ultimately show ?thesis by (simp only: run_append and_then_simps)
qed

subsection \<open>Switching\<close>

text \<open>The machine as the callee sees it.\<close>

definition called :: "u64 \<Rightarrow> u64 \<Rightarrow> machine \<Rightarrow> machine" where
  "called from to c = set_reg RSI (from + word_of_nat CONTEXT_SIZE) (set_reg RDI to c)"

lemma length_context_image: "length (ctx_fpu x) = 512 \<Longrightarrow> length (context_image x) = CONTEXT_SIZE"
  by (simp add: context_image_def cpu_words_def CONTEXT_SIZE_def)

lemma switch_context_ok:
  assumes "context_at (mem c) to x" "to mod 16 = 0" "from mod 16 = 0" "length (fpu c) = 512"
    "apart from CONTEXT_SIZE to CONTEXT_SIZE"
  shows "\<exists>c'. unchecked_switch_context hw l from to c = Inr c' \<and> context_at (mem c') from (saved hw l (called from to c)) \<and>
    mem c' = store_bytes (mem c) from (context_image (saved hw l (called from to c))) \<and>
    c' = resumed hw x (c\<lparr>mem := mem c'\<rparr>)"
proof -
  let ?c = "called from to c" and ?x = "saved hw l (called from to c)"
  let ?m = "store_bytes (mem c) from (context_image ?x)"
  have len: "length (ctx_fpu ?x) = 512" using assms(4) by (simp add: saved_def called_def)
  have "context_at ?m from ?x"
    using load_store_same [of "context_image ?x" "mem c" "from"] len
    by (simp add: context_at_def length_context_image CONTEXT_SIZE_def)
  moreover have "context_at ?m to x"
    using assms(1,5) load_store_apart [of "from" "context_image ?x" to CONTEXT_SIZE "mem c"] len
    by (simp add: context_at_def length_context_image)
  moreover have "unchecked_switch_context hw l from to c =
      run hw asm_restore_context (?c\<lparr>regs := (regs ?c)(RSI := from, R8 := l), rflags := hw_alu hw (rflags c), mem := ?m\<rparr>)"
    unfolding unchecked_switch_context_def called_def [symmetric]
    using save_context_ok [of ?c "from" hw l] assms(3,4) by (simp add: called_def asm_switch_context_def run_append)
  moreover have "resumed hw x (?c\<lparr>regs := (regs ?c)(RSI := from, R8 := l), rflags := hw_alu hw (rflags c), mem := ?m\<rparr>) =
      resumed hw x (c\<lparr>mem := ?m\<rparr>)"
    by (simp add: resumed_def called_def set_reg_def)
  ultimately show ?thesis
    using restore_context_ok [of "?c\<lparr>regs := (regs ?c)(RSI := from, R8 := l), rflags := hw_alu hw (rflags c), mem := ?m\<rparr>" x hw]
      assms(2)
    by (simp add: called_def) (simp add: resumed_def)
qed

text \<open>The state in which the caller goes on: the routine has returned, \<open>rsi\<close> and \<open>rdi\<close> are the caller's to lose.\<close>

definition returned_to :: "hardware \<Rightarrow> machine \<Rightarrow> machine \<Rightarrow> bool" where
  "returned_to hw c d \<longleftrightarrow> (\<forall>r. r \<notin> {RSP, RSI, RDI} \<longrightarrow> regs d r = regs c r) \<and> regs d RSP = regs c RSP + 8 \<and>
     rip d = load64 (mem c) (regs c RSP) \<and> rflags d = hw_popf hw (hw_pushf hw (rflags c)) \<and> fpu d = fpu c"

lemma resumed_returns:
  assumes "load64 (mem d) (regs c RSP) = load64 (mem c) (regs c RSP)"
  shows "returned_to hw c (resumed hw (saved hw l (called from to c)) d)"
  using assms by (auto simp: returned_to_def resumed_def saved_def called_def ctx_regs_def split: reg.split)

lemma switch_there_and_back:
  assumes "context_at (mem c) to x" "to mod 16 = 0" "from mod 16 = 0" "length (fpu c) = 512" "length (fpu d) = 512"
    "apart from CONTEXT_SIZE to CONTEXT_SIZE" "apart to CONTEXT_SIZE from CONTEXT_SIZE" "apart to CONTEXT_SIZE (regs c RSP) 8"
    "unchecked_switch_context hw l from to c = Inr c'"
    "load_bytes (mem d) from CONTEXT_SIZE = load_bytes (mem c') from CONTEXT_SIZE"
    "load64 (mem d) (regs c RSP) = load64 (mem c) (regs c RSP)"
  shows "\<exists>d'. unchecked_switch_context hw l to from d = Inr d' \<and> returned_to hw c d' \<and>
    context_at (mem d') to (saved hw l (called to from d))"
proof -
  have "context_at (mem c') from (saved hw l (called from to c))"
    using switch_context_ok [OF assms(1-4,6), of hw l] assms(9) by auto
  with assms(10) have "context_at (mem d) from (saved hw l (called from to c))" by (simp add: context_at_def)
  from switch_context_ok [OF this assms(3,2,5,7), of hw l] obtain d' where
    d': "unchecked_switch_context hw l to from d = Inr d'" "context_at (mem d') to (saved hw l (called to from d))"
      "mem d' = store_bytes (mem d) to (context_image (saved hw l (called to from d)))"
      "d' = resumed hw (saved hw l (called from to c)) (d\<lparr>mem := mem d'\<rparr>)" by blast
  have "length (context_image (saved hw l (called to from d))) = CONTEXT_SIZE"
    using assms(5) by (intro length_context_image) (simp add: saved_def called_def)
  then have "load64 (mem d') (regs c RSP) = load64 (mem d) (regs c RSP)"
    using load_store_apart [of to _ "regs c RSP" 8] assms(8) d'(3) by (simp add: load64_def)
  with assms(11) resumed_returns [of "d\<lparr>mem := mem d'\<rparr>" c hw l "from" to] d' show ?thesis by simp
qed

subsection \<open>System calls\<close>

lemma return_to_app_ok:
  assumes "context_at (mem c) (regs c RSP) x" "regs c RSP mod 16 = 0"
  shows "run hw return_to_app c = Inr (c\<lparr>regs := (ctx_regs (ctx_cpu x))(RCX := c_rip (ctx_cpu x), R11 := c_rflags (ctx_cpu x)),
    rip := c_rip (ctx_cpu x), rflags := (c_rflags (ctx_cpu x) AND 0x3C7FD7) OR 2, fpu := ctx_fpu x\<rparr>)"
proof -
  let ?x = "ctx_cpu x" and ?a = "regs c RSP + 512"
  have w: "words_at (mem c) ?a [c_rip ?x, c_rflags ?x, c_rax ?x]"
      "words_at (mem c) (?a + 32) [c_rdx ?x, c_rbx ?x, c_rbp ?x, c_rsi ?x, c_rdi ?x, c_r8 ?x, c_r9 ?x, c_r10 ?x]"
      "words_at (mem c) (?a + 104) [c_r12 ?x, c_r13 ?x, c_r14 ?x, c_r15 ?x]" "load64 (mem c) (?a + 136) = c_rsp ?x"
    and f: "load_bytes (mem c) (regs c RSP) 512 = ctx_fpu x"
    using assms(1) unfolding context_at_words by (simp_all add: cpu_words_def add.assoc)
  define d where "d = c\<lparr>regs := (regs c)(RSP := ?a), rflags := hw_alu hw (rflags c), fpu := ctx_fpu x\<rparr>"
  have d: "run hw [Fxrstor, Add RSP 512] c = Inr d" using assms(2) f by (simp add: d_def set_reg_def)
  define d1 where "d1 = set_regs [(RSP, ?a + 24), (RCX, c_rip ?x), (R11, c_rflags ?x), (RAX, c_rax ?x)] d"
  have p1: "run hw (map Pop [RCX, R11, RAX]) d = Inr d1"
    using run_pops [of "[RCX, R11, RAX]" "[c_rip ?x, c_rflags ?x, c_rax ?x]" d hw] w(1) by (simp add: d_def d1_def)
  define d2 where "d2 = set_reg RSP (?a + 32) d1\<lparr>rflags := hw_alu hw (rflags d1)\<rparr>"
  define d3 where "d3 = set_regs [(RSP, ?a + 96), (RDX, c_rdx ?x), (RBX, c_rbx ?x), (RBP, c_rbp ?x), (RSI, c_rsi ?x),
    (RDI, c_rdi ?x), (R8, c_r8 ?x), (R9, c_r9 ?x), (R10, c_r10 ?x)] d2"
  have p2: "run hw (map Pop [RDX, RBX, RBP, RSI, RDI, R8, R9, R10]) d2 = Inr d3"
    using run_pops [of "[RDX, RBX, RBP, RSI, RDI, R8, R9, R10]" "[c_rdx ?x, c_rbx ?x, c_rbp ?x, c_rsi ?x, c_rdi ?x, c_r8 ?x, c_r9 ?x, c_r10 ?x]" d2 hw]
      w(2) by (simp add: d_def d1_def d2_def d3_def add.assoc)
  define d4 where "d4 = set_reg RSP (?a + 104) d3\<lparr>rflags := hw_alu hw (rflags d3)\<rparr>"
  define d5 where "d5 = set_regs [(RSP, ?a + 136), (R12, c_r12 ?x), (R13, c_r13 ?x), (R14, c_r14 ?x), (R15, c_r15 ?x)] d4"
  have p3: "run hw (map Pop [R12, R13, R14, R15]) d4 = Inr d5"
    using run_pops [of "[R12, R13, R14, R15]" "[c_r12 ?x, c_r13 ?x, c_r14 ?x, c_r15 ?x]" d4 hw] w(3)
    by (simp add: d_def d1_def d2_def d3_def d4_def d5_def add.assoc)
  have a: "run hw [Add RSP 8] d1 = Inr d2" "run hw [Add RSP 8] d3 = Inr d4"
    by (simp_all add: d1_def d2_def d3_def d4_def add.assoc)
  have p4: "run hw [Pop RSP, Sysret] d5 = Inr (c\<lparr>regs := (ctx_regs ?x)(RCX := c_rip ?x, R11 := c_rflags ?x), rip := c_rip ?x,
      rflags := (c_rflags ?x AND 0x3C7FD7) OR 2, fpu := ctx_fpu x\<rparr>)"
    using w(4) by (auto intro!: machine_eqI simp: d_def d1_def d2_def d3_def d4_def d5_def ctx_regs_def add.assoc split: reg.split)
  have eq: "return_to_app = [Fxrstor, Add RSP 512] @ map Pop [RCX, R11, RAX] @ [Add RSP 8] @
      map Pop [RDX, RBX, RBP, RSI, RDI, R8, R9, R10] @ [Add RSP 8] @ map Pop [R12, R13, R14, R15] @ [Pop RSP, Sysret]"
    by (simp add: return_to_app_def)
  show ?thesis unfolding eq by (simp only: run_append d p1 p2 p3 p4 a and_then_simps)
qed

text \<open>The context that the entry leaves on the stack of the application.\<close>

definition frame_of :: "machine \<Rightarrow> execution_context" where
  "frame_of c = \<lparr>ctx_fpu = fpu c, ctx_cpu = \<lparr>c_rip = regs c RCX, c_rflags = regs c R11, c_rax = regs c RAX, c_rcx = 0,
     c_rdx = regs c RDX, c_rbx = regs c RBX, c_rbp = regs c RBP, c_rsi = regs c RSI, c_rdi = regs c RDI, c_r8 = regs c R8,
     c_r9 = regs c R9, c_r10 = regs c R10, c_r11 = 0, c_r12 = regs c R12, c_r13 = regs c R13, c_r14 = regs c R14,
     c_r15 = regs c R15, c_rsp = regs c RSP\<rparr>\<rparr>"

lemma run_push_values:
  "run hw (Push r # is) c = run hw is (do_push (regs c r) c)" "run hw (Push_imm v # is) c = run hw is (do_push v c)"
  by simp_all

lemma regs_do_push [simp]: "r \<noteq> RSP \<Longrightarrow> regs (do_push v c) r = regs c r"
  by (simp add: do_push_def Let_def)

lemma mod16: "a mod 16 = (k :: u64) \<longleftrightarrow> unat a mod 16 = unat k"
  by (simp add: word_unat_eq_iff unat_mod)

lemma mod16_diff: "a mod 16 = (0 :: u64) \<Longrightarrow> k mod 16 = 0 \<Longrightarrow> (a - k) mod 16 = 0"
  unfolding mod16 by (simp add: unat_sub_if') presburger

lemma syscall_entry_ok:
  assumes "regs c RSP mod 16 = 0" "length (fpu c) = 512"
  shows "\<exists>c'. run hw syscall_entry c = Inr c' \<and> regs c' RBP = regs c RSP - word_of_nat CONTEXT_SIZE \<and> regs c' RDI = regs c' RBP \<and>
    fpu c' = fpu c \<and> mem c' = store_bytes (mem c) (regs c RSP - word_of_nat CONTEXT_SIZE) (context_image (frame_of c))"
proof -
  define vs where "vs = rev (cpu_words (ctx_cpu (frame_of c)))"
  have vs: "vs = map (regs c) [RSP, R15, R14, R13, R12] @ [0] @ map (regs c) [R10, R9, R8, RDI, RSI, RBP, RBX, RDX] @ [0] @
      map (regs c) [RAX, R11, RCX]"
    by (simp add: vs_def cpu_words_def frame_of_def)
  let ?rest = "[Sub RSP 512, Fxsave, Mov RBP RSP, Mov RDI RSP, And RSP (- 16)]"
  let ?w = "concat (map le_word (rev vs))"
  have r: "run hw syscall_entry c = run hw ?rest (fold do_push vs c)"
    unfolding vs by (simp only: syscall_entry_def run_push_values) (simp only: regs_do_push reg.distinct simp_thms list.map fold_simps append.simps)
  have len: "length vs = 18" by (simp add: vs)
  have "length ?w = 144" by (simp add: vs)
  then have st: "store_bytes (store_bytes (mem c) (regs c RSP - 144) ?w) (regs c RSP - 656) (fpu c) =
      store_bytes (mem c) (regs c RSP - 656) (context_image (frame_of c))"
    using store_below [of "fpu c" ?w "mem c" "regs c RSP - 144"] assms(2)
    by (simp add: context_image_def vs_def) (simp add: frame_of_def)
  have "fold do_push vs c = c\<lparr>regs := (regs c)(RSP := regs c RSP - 144), mem := store_bytes (mem c) (regs c RSP - 144) ?w\<rparr>"
    using pushes [of vs c] by (simp add: len)
  moreover have "(regs c RSP - 656) mod 16 = 0" using mod16_diff [OF assms(1), of 656] by simp
  ultimately show ?thesis using st by (simp add: r CONTEXT_SIZE_def)
qed

text \<open>What the compiled handler owes its caller: it keeps \<open>rbp\<close>, does the work of \<open>arch_syscall_handler\<close> on the
  context that \<open>rdi\<close> points to, and writes nothing above it.\<close>

definition runs_handler ::
  "(u64 \<Rightarrow> u64 list \<Rightarrow> 's \<Rightarrow> 's \<times> u64 res) \<Rightarrow> execution_context \<times> 's \<Rightarrow> (machine \<Rightarrow> machine res) \<Rightarrow> machine \<Rightarrow> u64 \<Rightarrow> bool" where
  "runs_handler handler st call c ret \<longleftrightarrow>
     (\<forall>x. context_at (mem c) (regs c RDI) x \<longrightarrow>
        snd (arch_syscall_handler handler x st) = Inr (x\<lparr>ctx_cpu := (ctx_cpu x)\<lparr>c_rax := ret\<rparr>\<rparr>) \<longrightarrow>
        (\<exists>c'. call c = Inr c' \<and> regs c' RBP = regs c RBP \<and>
           context_at (mem c') (regs c RDI) (x\<lparr>ctx_cpu := (ctx_cpu x)\<lparr>c_rax := ret\<rparr>\<rparr>) \<and>
           load64 (mem c') (regs c RDI + word_of_nat CONTEXT_SIZE) = load64 (mem c) (regs c RDI + word_of_nat CONTEXT_SIZE)))"

lemma asm_syscall_handler_ok:
  assumes "regs c RSP mod 16 = 0" "length (fpu c) = 512"
    "snd (handler (regs c RDX) [regs c RSI, regs c RDI, regs c R8, regs c R9, regs c R10] (snd st)) = Inr ret"
    "\<And>d. runs_handler handler st call d ret"
  shows "\<exists>c'. asm_syscall_handler hw call c = Inr c' \<and> regs c' = (regs c)(RAX := ret) \<and> rip c' = regs c RCX \<and>
    rflags c' = (regs c R11 AND 0x3C7FD7) OR 2 \<and> fpu c' = fpu c \<and> load64 (mem c') (regs c RSP) = load64 (mem c) (regs c RSP)"
proof -
  let ?a = "regs c RSP - word_of_nat CONTEXT_SIZE" and ?x = "frame_of c"
  let ?y = "?x\<lparr>ctx_cpu := (ctx_cpu ?x)\<lparr>c_rax := ret\<rparr>\<rparr>"
  obtain d where d: "run hw syscall_entry c = Inr d" "regs d RBP = ?a" "regs d RDI = ?a" "fpu d = fpu c"
      "mem d = store_bytes (mem c) ?a (context_image ?x)"
    using syscall_entry_ok [OF assms(1,2), of hw] by auto
  have len: "length (context_image ?x) = CONTEXT_SIZE" using assms(2) by (intro length_context_image) (simp add: frame_of_def)
  have "context_at (mem d) (regs d RDI) ?x"
    using load_store_same [of "context_image ?x" "mem c" ?a] len assms(2) d(3,5)
    by (simp add: context_at_def CONTEXT_SIZE_def frame_of_def)
  moreover have "snd (arch_syscall_handler handler ?x st) = Inr ?y"
    using assms(3) by (auto simp: arch_syscall_handler_def frame_of_def Let_def split: prod.split)
  ultimately obtain e where e: "call d = Inr e" "regs e RBP = ?a" "context_at (mem e) ?a ?y"
      "load64 (mem e) (regs c RSP) = load64 (mem d) (regs c RSP)"
    using assms(4) [of d] d(2,3) by (auto simp: runs_handler_def)
  have m: "load64 (mem e) (regs c RSP) = load64 (mem c) (regs c RSP)"
    using load_store_apart [of ?a "context_image ?x" "regs c RSP" 8 "mem c"] len d(5) e(4)
    by (simp add: load64_def apart_def CONTEXT_SIZE_def)
  have y: "(ctx_regs (ctx_cpu ?y))(RCX := regs c RCX, R11 := regs c R11) = (regs c)(RAX := ret)"
      "c_rip (ctx_cpu ?y) = regs c RCX" "c_rflags (ctx_cpu ?y) = regs c R11" "ctx_fpu ?y = fpu c"
    by (auto simp: fun_eq_iff ctx_regs_def frame_of_def split: reg.split)
  have "asm_syscall_handler hw call c = run hw return_to_app (set_reg RSP ?a e)"
    using d(1) e(1,2) by (simp add: asm_syscall_handler_def)
  also have "\<dots> = Inr (set_reg RSP ?a e\<lparr>regs := (regs c)(RAX := ret), rip := regs c RCX,
      rflags := (regs c R11 AND 0x3C7FD7) OR 2, fpu := fpu c\<rparr>)"
    using return_to_app_ok [of "set_reg RSP ?a e" ?y hw, unfolded y] e(3) mod16_diff [OF assms(1), of "word_of_nat CONTEXT_SIZE"]
    by (simp add: CONTEXT_SIZE_def)
  finally show ?thesis using m by simp
qed

text \<open>The stub of the applications brings the stack pointer back only when it is eight bytes off a multiple of 16.\<close>

lemma mod16_quotient: "a mod 16 = (k :: u64) \<Longrightarrow> \<exists>q. unat a = 16 * q + unat k"
  unfolding mod16 by (metis mult_div_mod_eq)

lemma mod16_of_nat: "unat a = 16 * q + k \<Longrightarrow> k < 16 \<Longrightarrow> a mod 16 = (word_of_nat k :: u64)"
  unfolding mod16 by (simp only: unat_of_nat) simp

lemma mod16_shift: "a mod 16 = (8 :: u64) \<Longrightarrow> (a - 8) mod 16 = 0" "a mod 16 = (0 :: u64) \<Longrightarrow> (a - 8) mod 16 = 8"
proof -
  assume "a mod 16 = 8"
  then obtain q where "unat a = 16 * q + 8" using mod16_quotient [of a 8] by auto
  then have "unat (a - 8) = 16 * q + 0" by (simp add: unat_sub word_le_nat_alt)
  from mod16_of_nat [OF this] show "(a - 8) mod 16 = 0" by simp
next
  assume a: "a mod 16 = 0"
  show "(a - 8) mod 16 = 8"
  proof (cases "a = 0")
    case False
    obtain q where "unat a = 16 * q" using mod16_quotient [OF a] by auto
    with False obtain p where "unat a = 16 * Suc p" by (cases q) (simp_all add: unat_eq_0)
    then have "unat (a - 8) = 16 * p + 8" by (simp add: unat_sub word_le_nat_alt)
    from mod16_of_nat [OF this] show ?thesis by simp
  qed simp
qed

lemma and_minus16: "(a :: u64) mod 16 = 0 \<Longrightarrow> a AND - 16 = a" "(a :: u64) mod 16 = 8 \<Longrightarrow> a AND - 16 = a - 8"
proof -
  have m: "unat (a AND - 16) = unat a div 16 * 16"
    using align_down_pow2 [of 4 "unat a"] unsigned_less [of a, where ?'a = nat] by (simp add: align_down_def)
  show "a AND - 16 = a" if a: "a mod 16 = 0"
    using mod16_quotient [OF a] m by (auto simp: word_unat_eq_iff)
  show "a AND - 16 = a - 8" if a: "a mod 16 = 8"
  proof -
    obtain q where q: "unat a = 16 * q + 8" using mod16_quotient [OF a] by auto
    then have "unat (a - 8) = 16 * q" by (simp add: unat_sub word_le_nat_alt)
    moreover have "(16 * q + 8) div 16 = q" by simp
    ultimately show ?thesis using m q by (simp add: word_unat_eq_iff)
  qed
qed

lemma syscall_5_ok:
  assumes "regs c RSP mod 16 = 8" "length (fpu c) = 512"
    "snd (handler (regs c RDX) [regs c RSI, regs c RDI, regs c R8, regs c R9, regs c R10] (snd st)) = Inr ret"
    "\<And>d. runs_handler handler st call d ret"
  shows "\<exists>c'. syscall_5 hw call c = Inr c' \<and> regs c' RAX = ret \<and> (\<forall>r. r \<notin> {RAX, RCX, R11} \<longrightarrow> regs c' r = regs c r) \<and>
    rip c' = rip c \<and> fpu c' = fpu c"
proof -
  let ?d = "do_push (regs c RSP) c"
  have al: "(regs c RSP - 8) mod 16 = 0" using assms(1) by (rule mod16_shift)
  define d where "d = syscall_insn (?d\<lparr>rflags := hw_alu hw (rflags c)\<rparr>)"
  have d: "regs d = (regs c)(RSP := regs c RSP - 8, RCX := rip c, R11 := hw_alu hw (rflags c))" "fpu d = fpu c"
      "mem d = store_bytes (mem c) (regs c RSP - 8) (le_word (regs c RSP))"
    by (simp_all add: d_def syscall_insn_def do_push_def Let_def)
  have "load64 (mem d) (regs c RSP - 8) = regs c RSP"
    using load_store_same [of "le_word (regs c RSP)" "mem c" "regs c RSP - 8"] by (simp add: d(3) load64_def codec_simps)
  moreover have "run hw [Push RSP, And RSP (- 16)] c = Inr (?d\<lparr>rflags := hw_alu hw (rflags c)\<rparr>)"
    using al by (auto intro!: machine_eqI simp: do_push_def Let_def and_minus16)
  moreover from asm_syscall_handler_ok [of d handler st ret call hw] al assms(2-4) obtain e where
    "asm_syscall_handler hw call d = Inr e" "regs e = (regs d)(RAX := ret)" "rip e = rip c" "fpu e = fpu c"
    "load64 (mem e) (regs c RSP - 8) = load64 (mem d) (regs c RSP - 8)"
    by (auto simp: d)
  ultimately show ?thesis by (auto simp: syscall_5_def d_def [symmetric] d(1))
qed

lemma syscall_5_loses_stack:
  assumes "regs c RSP mod 16 = 0" "length (fpu c) = 512"
    "snd (handler (regs c RDX) [regs c RSI, regs c RDI, regs c R8, regs c R9, regs c R10] (snd st)) = Inr ret"
    "\<And>d. runs_handler handler st call d ret"
  shows "\<exists>c'. syscall_5 hw call c = Inr c' \<and> regs c' RSP = load64 (mem c) (regs c RSP - 16)"
proof -
  let ?d = "do_push (regs c RSP) c"
  have al: "(regs c RSP - 8) mod 16 = 8" "(regs c RSP - 16) mod 16 = 0"
    using mod16_shift(2) [OF assms(1)] mod16_diff [OF assms(1), of 16] by simp_all
  define d where "d = syscall_insn (?d\<lparr>regs := (regs c)(RSP := regs c RSP - 16), rflags := hw_alu hw (rflags c)\<rparr>)"
  have d: "regs d = (regs c)(RSP := regs c RSP - 16, RCX := rip c, R11 := hw_alu hw (rflags c))" "fpu d = fpu c"
      "mem d = store_bytes (mem c) (regs c RSP - 8) (le_word (regs c RSP))"
    by (simp_all add: d_def syscall_insn_def do_push_def Let_def)
  have "load64 (mem d) (regs c RSP - 16) = load64 (mem c) (regs c RSP - 16)"
    using load_store_apart [of "regs c RSP - 8" "le_word (regs c RSP)" "regs c RSP - 16" 8 "mem c"]
    by (simp add: d(3) load64_def apart_def)
  moreover have "run hw [Push RSP, And RSP (- 16)] c = Inr (?d\<lparr>regs := (regs c)(RSP := regs c RSP - 16), rflags := hw_alu hw (rflags c)\<rparr>)"
    using al by (auto intro!: machine_eqI simp: do_push_def Let_def and_minus16)
  moreover from asm_syscall_handler_ok [of d handler st ret call hw] al assms(2-4) obtain e where
    "asm_syscall_handler hw call d = Inr e" "regs e = (regs d)(RAX := ret)"
    "load64 (mem e) (regs c RSP - 16) = load64 (mem d) (regs c RSP - 16)"
    by (auto simp: d)
  ultimately show ?thesis by (auto simp: syscall_5_def d_def [symmetric] d(1))
qed

subsection \<open>Entering and leaving an application\<close>

lemma enter_app_ok:
  assumes "regs c RSI = os_ctx + word_of_nat CONTEXT_SIZE" "os_ctx mod 16 = 0" "length (fpu c) = 512"
    "context_at (mem c) (regs c RAX) x" "regs c RAX mod 16 = 0" "apart os_ctx CONTEXT_SIZE (regs c RAX) CONTEXT_SIZE"
  shows "\<exists>c'. run hw (enter_app_asm l) c = Inr c' \<and> context_at (mem c') os_ctx (saved hw l c) \<and>
    regs c' = (ctx_regs (ctx_cpu x))(RCX := c_rip (ctx_cpu x), R11 := c_rflags (ctx_cpu x)) \<and> rip c' = c_rip (ctx_cpu x) \<and>
    rflags c' = (c_rflags (ctx_cpu x) AND 0x3C7FD7) OR 2 \<and> fpu c' = ctx_fpu x \<and> segs c' = ucast (regs c RDX)"
proof -
  let ?m = "store_bytes (mem c) os_ctx (context_image (saved hw l c))"
  define d where "d = c\<lparr>regs := (regs c)(RSI := os_ctx, R8 := l), rflags := hw_alu hw (rflags c), mem := ?m\<rparr>"
  have s: "run hw (save_context l) c = Inr d" using save_context_ok [OF assms(1-3)] by (simp add: d_def)
  have len: "length (context_image (saved hw l c)) = CONTEXT_SIZE" "length (ctx_fpu (saved hw l c)) = 512"
    using assms(3) by (auto intro: length_context_image simp: saved_def)
  have c1: "context_at ?m os_ctx (saved hw l c)"
    using load_store_same [of "context_image (saved hw l c)" "mem c" os_ctx] len by (simp add: context_at_def CONTEXT_SIZE_def)
  have c2: "context_at ?m (regs c RAX) x"
    using assms(4,6) load_store_apart [of os_ctx "context_image (saved hw l c)" "regs c RAX" CONTEXT_SIZE "mem c"] len(1)
    by (simp add: context_at_def)
  define e where "e = set_reg RSP (regs c RAX) d\<lparr>segs := ucast (regs c RDX)\<rparr>"
  have e: "run hw [Mov RSP RAX, Mov_segs RDX] d = Inr e" by (simp add: e_def d_def)
  have "run hw (enter_app_asm l) c = run hw return_to_app e"
    unfolding enter_app_asm_def by (simp only: run_append s e and_then_simps)
  with return_to_app_ok [of e x hw] c1 c2 assms(5) show ?thesis by (simp add: e_def d_def)
qed

lemma low_half_ss: "ucast (((v :: u64) AND - 65536) OR ucast (s :: u16)) = s"
proof -
  have m: "(- 65536 :: u64) = NOT (mask 16)" by (simp add: mask_eq_exp_minus_1)
  show ?thesis unfolding m by (rule bit_word_eqI) (auto simp: bit_simps)
qed

lemma return_to_os_ok:
  assumes "context_at (mem c) os_ctx x" "os_ctx mod 16 = 0" "apart (regs c RSP - 8) 8 os_ctx CONTEXT_SIZE"
  shows "\<exists>c'. return_to_os hw os_ctx app_ctx c = Inr c' \<and> regs c' = ctx_regs (ctx_cpu x) \<and>
    rflags c' = hw_popf hw (c_rflags (ctx_cpu x)) \<and> fpu c' = ctx_fpu x \<and> segs c' = hw_ss hw"
proof -
  let ?c = "set_reg RDI os_ctx (set_reg RSI app_ctx c)"
  let ?m = "store_bytes (mem c) (regs c RSP - 8) (le_word os_ctx)"
  define d where "d = ?c\<lparr>segs := hw_ss hw, mem := ?m\<rparr>"
  have "load64 ?m (regs c RSP - 8) = os_ctx"
    using load_store_same [of "le_word os_ctx" "mem c" "regs c RSP - 8"] by (simp add: load64_def codec_simps)
  then have d: "run hw [Push RDI, Mov_ss RDI, Mov_segs RDI, Pop RDI] ?c = Inr d"
    by (auto intro!: machine_eqI simp: d_def do_push_def Let_def low_half_ss)
  have "context_at (mem d) (regs d RDI) x"
    using assms(1,3) load_store_apart [of "regs c RSP - 8" "le_word os_ctx" os_ctx CONTEXT_SIZE "mem c"]
    by (simp add: d_def context_at_def)
  with load_context_ok [of d x hw] assms(2) have l: "run hw load_context d = Inr (loaded_context hw x d)" by (simp add: d_def)
  have eq: "leave_app_asm = [Push RDI, Mov_ss RDI, Mov_segs RDI, Pop RDI] @ load_context"
    by (simp add: leave_app_asm_def load_context_def)
  have "return_to_os hw os_ctx app_ctx c = Inr (loaded_context hw x d)"
    unfolding return_to_os_def eq by (simp only: run_append d l and_then_simps)
  then show ?thesis by (simp add: loaded_context_def d_def)
qed

text \<open>The kernel goes on after its application with the return value in \<open>rax\<close> and the reason in \<open>r8\<close>.  The register
  \<open>rsi\<close> does not come back: the slot that is restored into it was filled after the exchange with \<open>rsp\<close>.\<close>

lemma app_returns:
  assumes "context_at (mem d) os_ctx (write_return_value v (write_exit_reason reason (saved hw l c)))"
    "os_ctx mod 16 = 0" "apart (regs d RSP - 8) 8 os_ctx CONTEXT_SIZE"
  shows "\<exists>d'. return_to_os hw os_ctx app_ctx d = Inr d' \<and> regs d' RAX = v \<and> regs d' R8 = reason \<and> regs d' RSI = regs c RSP \<and>
    (\<forall>r. r \<notin> {RAX, R8, RSI} \<longrightarrow> regs d' r = regs c r) \<and> fpu d' = fpu c \<and> rflags d' = hw_popf hw (hw_pushf hw (rflags c))"
  using return_to_os_ok [OF assms, of hw app_ctx]
  by (auto simp: write_return_value_def write_exit_reason_def saved_def ctx_regs_def split: reg.split)

end
