(* ===== verification/Process.thy ===== *)
theory Process
  imports Elf Args Context
begin

text \<open>
  Processes: \<open>os/src/process.rs\<close> (the context of a process, the scheduler and the future that waits for the end of a
  process), the start of a loaded program in \<open>os/src/loader.rs\<close> (\<open>LoadedElf::exec\<close>) and the loop of
  \<open>exec_app_context\<close> in \<open>os/src/x86_64/context.rs\<close>.  The flag and the exit code that a process shares with the
  futures that wait for it are a cell of the kernel.  Switching the processor from one context to the other is
  \<open>unchecked_switch_context\<close> of the theory of contexts; here \<open>cpu\<close> is the context that it saves or loads.
  The lemmas show that arguments reach the program, that a new process starts in its function, that the scheduler gives
  every process its turn and keeps the contexts apart, and that waiting for a process returns its exit code.
\<close>

subsection \<open>State\<close>

record process_context =
  args_region :: "pages option"
  stack_region :: "pages option"
  p_context :: execution_context
  p_cell :: nat
  tcp_sockets :: "int \<Rightarrow> u16 option"
  next_tcp_socket_handle :: int

record exit_cell =
  exited :: bool
  exit_code :: int

record kernel =
  k_vm :: "allocator vm"
  k_cells :: "exit_cell list"
  k_queue :: "process_context list"
  k_current :: "process_context option"
  k_app :: execution_context
  k_boxes :: "u64 \<Rightarrow> process_context option"

definition I64_MAX :: int where "I64_MAX = 2 ^ 63 - 1"

text \<open>\<open>ProcessContext::default\<close>: a new cell, no memory and no socket.\<close>

definition process_default :: "kernel \<Rightarrow> kernel \<times> process_context" where
  "process_default k =
     (k\<lparr>k_cells := k_cells k @ [\<lparr>exited = False, exit_code = 0\<rparr>]\<rparr>,
      \<lparr>args_region = None, stack_region = None, p_context = context_default, p_cell = length (k_cells k),
       tcp_sockets = Map.empty, next_tcp_socket_handle = 0\<rparr>)"

text \<open>An action on the heap and the page tables, as an action of the kernel.\<close>

definition on_vm :: "(allocator vm, 'a) act \<Rightarrow> (kernel, 'a) act" where
  "on_vm m k = (case m (k_vm k) of (v, r) \<Rightarrow> (k\<lparr>k_vm := v\<rparr>, r))"

definition alloc_bytes :: "(nat \<Rightarrow> u8) \<Rightarrow> nat \<Rightarrow> (allocator vm, pages) act" where
  "alloc_bytes ram n v =
     (case pages_alloc_bytes ram (vm_alloc v) n of
        Inl f \<Rightarrow> (v, Inl f)
      | Inr (A, pg) \<Rightarrow> (v\<lparr>vm_alloc := A\<rparr>, Inr pg))"

definition new_args_region :: "(nat \<Rightarrow> u8) \<Rightarrow> nat \<Rightarrow> bytes list \<Rightarrow> (allocator vm, pages) act" where
  "new_args_region ram root args =
     (let a = serialize_args args in
      act_then (alloc_bytes ram (length a)) (\<lambda>pg.
      act_then (lift_res (fill_with_bytes pg 0)) (\<lambda>pg.
      act_then (lift_res (slice_of (pg_data pg) 0 (length a))) (\<lambda>_.
      let pg = pg\<lparr>pg_data := a @ drop (length a) (pg_data pg)\<rparr> in
      act_then (set_page_attr root ReadWriteUser pg) (\<lambda>_. lift_res (Inr pg))))))"

definition process_new :: "(nat \<Rightarrow> u8) \<Rightarrow> nat \<Rightarrow> pages option \<Rightarrow> bytes list option \<Rightarrow> (kernel, process_context) act" where
  "process_new ram root stack args =
     act_then (case args of
         Some a \<Rightarrow> act_then (on_vm (new_args_region ram root a)) (\<lambda>pg. lift_res (Inr (Some pg)))
       | None \<Rightarrow> lift_res (Inr None)) (\<lambda>region k.
     case process_default k of (k, p) \<Rightarrow> (k, Inr (p\<lparr>args_region := region, stack_region := stack\<rparr>)))"

definition STACK_SIZE :: nat where "STACK_SIZE = 1024 * 1024"

text \<open>The null pointer of a failed allocation is not checked before it becomes a slice.\<close>

definition new_with_fn :: "(nat \<Rightarrow> u8) \<Rightarrow> nat \<Rightarrow> u64 \<Rightarrow> u64 \<Rightarrow> (kernel, process_context) act" where
  "new_with_fn ram root f arg1 =
     act_then (on_vm (alloc_bytes ram STACK_SIZE)) (\<lambda>stack.
     if pg_addr stack = 0 then lift_res (Inl (UB ''slice from the null pointer'')) else
     act_then (lift_res (usize_sub (length (pg_data stack)) 8)) (\<lambda>n.
     let stack = stack\<lparr>pg_data := take n (pg_data stack) @ le_word f\<rparr> in
     act_then (lift_res (and_then (pages_range stack) (\<lambda>r. usize_sub (ar_end r) 8))) (\<lambda>rsp.
     act_then (process_new ram root (Some stack) None) (\<lambda>proc.
     lift_res (Inr (proc\<lparr>p_context := (p_context proc)\<lparr>ctx_cpu := (ctx_cpu (p_context proc))
       \<lparr>c_rsp := word_of_nat rsp, c_rdi := arg1, c_rflags := 2\<rparr>\<rparr>\<rparr>))))))"

definition args_region_start_addr :: "process_context \<Rightarrow> nat option res" where
  "args_region_start_addr p =
     (case args_region p of None \<Rightarrow> Inr None | Some ar \<Rightarrow> and_then (pages_range ar) (\<lambda>r. Inr (Some (ar_start r))))"

text \<open>The loop over the handles from the next one up to the largest: the first that is free.\<close>

function free_handle :: "(int \<Rightarrow> u16 option) \<Rightarrow> int \<Rightarrow> int option" where
  "free_handle socks h = (if I64_MAX < h then None else if socks h = None then Some h else free_handle socks (h + 1))"
  by pat_completeness auto
termination by (relation "measure (\<lambda>(_, h). nat (I64_MAX + 1 - h))") auto

declare free_handle.simps [simp del]

definition i64_wrapping_inc :: "int \<Rightarrow> int" where
  "i64_wrapping_inc x = (if x = I64_MAX then - (2 ^ 63) else x + 1)"

text \<open>\<open>opened\<close> is the result of \<open>Network::open_tcp_socket\<close>: the socket, named by its port.\<close>

definition create_tcp_socket :: "u16 res \<Rightarrow> process_context \<Rightarrow> process_context \<times> int res" where
  "create_tcp_socket opened p =
     (case opened of
        Inl e \<Rightarrow> (p, Inl e)
      | Inr sock \<Rightarrow>
          (case free_handle (tcp_sockets p) (max 0 (next_tcp_socket_handle p)) of
             None \<Rightarrow> (p, Inl (Err (Failed ''No more tcp_socket handle available'')))
           | Some h \<Rightarrow> (p\<lparr>tcp_sockets := (tcp_sockets p)(h \<mapsto> sock),
                          next_tcp_socket_handle := i64_wrapping_inc (next_tcp_socket_handle p)\<rparr>, Inr h)))"

definition process_tcp_socket :: "process_context \<Rightarrow> int \<Rightarrow> u16 option" where
  "process_tcp_socket p h = tcp_sockets p h"

subsection \<open>The scheduler\<close>

definition schedule :: "process_context \<Rightarrow> kernel \<Rightarrow> kernel" where
  "schedule p k = k\<lparr>k_queue := k_queue k @ [p]\<rparr>"

definition clear_queue :: "kernel \<Rightarrow> kernel" where
  "clear_queue k = k\<lparr>k_queue := []\<rparr>"

definition process_init :: "kernel \<Rightarrow> kernel" where
  "process_init k = (case process_default (clear_queue k) of (k, p) \<Rightarrow> schedule p k)"

definition has_exited :: "kernel \<Rightarrow> nat \<Rightarrow> bool res" where
  "has_exited k c = (case nth_opt (k_cells k) c of None \<Rightarrow> Inl (UB ''dangling cell'') | Some e \<Rightarrow> Inr (exited e))"

definition switch_process :: "kernel \<Rightarrow> execution_context \<Rightarrow> (kernel \<times> execution_context) res" where
  "switch_process k cpu =
     (if length (k_queue k) \<le> 1 then Inr (k, cpu)
      else let queue = rotate1 (k_queue k); to = hd queue in
        and_then (has_exited k (p_cell to)) (\<lambda>e.
        if e then Inl (Panic ''trying to switch to exited process...!!!'')
        else Inr (k\<lparr>k_queue := butlast queue @ [(last queue)\<lparr>p_context := cpu\<rparr>]\<rparr>, p_context to)))"

definition exit_current_process :: "int \<Rightarrow> kernel \<Rightarrow> (kernel \<times> execution_context) res" where
  "exit_current_process code k =
     (case k_queue k of
        p # to # rest \<Rightarrow>
          if p_cell p < length (k_cells k)
          then Inr (k\<lparr>k_queue := to # rest, k_cells := (k_cells k)[p_cell p := \<lparr>exited = True, exit_code = code\<rparr>]\<rparr>,
                    p_context to)
          else Inl (UB ''dangling cell'')
      | _ \<Rightarrow> Inl (Panic ''No more process to schedule!''))"

text \<open>One poll of \<open>ProcessCompletionFuture\<close>: the exit code, or another turn for the other processes.\<close>

definition completion_poll :: "nat \<Rightarrow> kernel \<Rightarrow> execution_context \<Rightarrow> (kernel \<times> execution_context \<times> int option) res" where
  "completion_poll c k cpu =
     and_then (has_exited k c) (\<lambda>e.
     if e then Inr (k, cpu, Some (exit_code (k_cells k ! c)))
     else and_then (switch_process k cpu) (\<lambda>(k, cpu). Inr (k, cpu, None)))"

subsection \<open>Starting a program\<close>

text \<open>\<open>ptr\<close> is the address of the box of the process of the application, and \<open>entry\<close> the one of
  \<open>exec_app_context_proc_func\<close>.  The result is the cell to wait for.\<close>

definition elf_exec :: "(nat \<Rightarrow> u8) \<Rightarrow> nat \<Rightarrow> u64 \<Rightarrow> u64 \<Rightarrow> bytes list \<Rightarrow> loaded_elf \<Rightarrow> (kernel, nat) act" where
  "elf_exec ram root entry ptr args ld =
     act_then (on_vm (alloc_bytes ram STACK_SIZE)) (\<lambda>stack.
     act_then (lift_res (pages_range stack)) (\<lambda>stack_range.
     act_then (lift_res (fill_with_bytes stack 0)) (\<lambda>stack.
     act_then (on_vm (set_page_attr root ReadWriteUser stack)) (\<lambda>_.
     act_then (lift_res (resolve_vaddr ld (unat (entry_vaddr (ld_elf ld))))) (\<lambda>entry_point.
     act_then (\<lambda>k. (k\<lparr>k_app := (k_app k)\<lparr>ctx_cpu := (ctx_cpu (k_app k))
         \<lparr>c_rip := word_of_nat entry_point, c_rflags := 2, c_rsp := word_of_nat (ar_end stack_range)\<rparr>\<rparr>\<rparr>, Inr ())) (\<lambda>_.
     act_then (process_new ram root (Some stack) (Some args)) (\<lambda>app_proc.
     act_then (\<lambda>k. (k\<lparr>k_boxes := (k_boxes k)(ptr \<mapsto> app_proc)\<rparr>, Inr ())) (\<lambda>_.
     act_then (new_with_fn ram root entry ptr) (\<lambda>proc k.
     (schedule proc k, Inr (p_cell proc)))))))))))"

text \<open>Where \<open>exec_app_context\<close> puts the context of the application before it enters it.\<close>

definition app_frame :: "kernel \<Rightarrow> u64 res" where
  "app_frame k = and_then (usize_add (unat (c_rsp (ctx_cpu (k_app k)))) CONTEXT_SIZE) (\<lambda>a. Inr (word_of_nat a))"

text \<open>The loop of \<open>exec_app_context\<close>.  \<open>enter\<close> is the application, from the jump to \<open>return_to_app\<close> at the given
  stack to the next return to the kernel; it gives the return code and the reason.  The loop runs at most \<open>fuel\<close> times.\<close>

fun exec_app_context ::
  "nat \<Rightarrow> (u64 \<Rightarrow> kernel \<Rightarrow> kernel \<times> int \<times> int) \<Rightarrow> process_context option \<Rightarrow> (kernel, process_context option \<times> int) act" where
  "exec_app_context 0 enter proc k = (k, Inl NoReturn)"
| "exec_app_context (Suc fuel) enter proc k =
     (let k1 = k\<lparr>k_current := proc\<rparr>; outer = k_current k in
      case app_frame k1 of
        Inl f \<Rightarrow> (k1, Inl f)
      | Inr app_rsp \<Rightarrow>
          (case enter app_rsp k1 of (k2, retcode, exit_reason) \<Rightarrow>
             let k3 = k2\<lparr>k_current := outer\<rparr>; proc = k_current k2 in
             if exit_reason = 0 then (k3, Inr (proc, retcode)) else exec_app_context fuel enter proc k3))"

definition sys_get_args_region :: "kernel \<Rightarrow> u64 res" where
  "sys_get_args_region k =
     (case k_current k of
        None \<Rightarrow> Inr 0
      | Some p \<Rightarrow> and_then (args_region_start_addr p) (\<lambda>a. Inr (case a of None \<Rightarrow> 0 | Some x \<Rightarrow> word_of_nat x)))"

text \<open>\<open>Api::get_args_region\<close> of the applications, in the memory \<open>m\<close>.\<close>

definition get_args_region :: "kernel \<Rightarrow> (u64 \<Rightarrow> u8) \<Rightarrow> bytes option res" where
  "get_args_region k m =
     and_then (sys_get_args_region k) (\<lambda>addr.
     if addr = 0 then Inr None
     else let n = of_le_bytes (load_bytes m addr 8) in Inr (Some (load_bytes m addr n)))"

subsection \<open>Memory for a process\<close>

lemma alloc_bytes_ok:
  assumes "heap_below (2 ^ 48) (vm_alloc v)" "pt_wf heap_used v root" "n \<le> 2 ^ 47"
  shows "\<exists>v' pg. alloc_bytes ram n v = (v', Inr pg) \<and> heap_below (2 ^ 48) (vm_alloc v') \<and> pt_wf heap_used v' root \<and>
    pages_ok pg \<and> n \<le> l_size (pg_layout pg) \<and> PAGE_SIZE dvd l_size (pg_layout pg) \<and> l_size (pg_layout pg) \<le> 2 ^ 48 \<and>
    (pg_addr pg \<noteq> 0 \<longrightarrow> PAGE_SIZE dvd pg_addr pg \<and> pg_addr pg + l_size (pg_layout pg) \<le> 2 ^ 48 \<and>
       area (pg_addr pg, l_size (pg_layout pg)) \<inter> heap_used (vm_alloc v) = {})"
proof -
  from pages_alloc_bytes_ok [OF assms(1,3), of ram] obtain A pg where
    "pages_alloc_bytes ram (vm_alloc v) n = Inr (A, pg)" "heap_below (2 ^ 48) A" "heap_used (vm_alloc v) \<subseteq> heap_used A"
    "pages_ok pg" "n \<le> l_size (pg_layout pg)" "PAGE_SIZE dvd l_size (pg_layout pg)" "l_size (pg_layout pg) \<le> 2 ^ 48"
    "pg_addr pg \<noteq> 0 \<longrightarrow> PAGE_SIZE dvd pg_addr pg \<and> pg_addr pg + l_size (pg_layout pg) \<le> 2 ^ 48 \<and>
       area (pg_addr pg, l_size (pg_layout pg)) \<inter> heap_used (vm_alloc v) = {}"
    by auto
  with pt_wf_mono [OF assms(2), of A] show ?thesis by (auto simp: alloc_bytes_def)
qed

lemma fill_with_bytes_cases:
  assumes "pages_ok pg" "pg_addr pg + l_size (pg_layout pg) < USIZE"
  shows "fill_with_bytes pg b = (if pg_addr pg = 0 then Inl (UB ''write to the null pointer'')
     else Inr (pg\<lparr>pg_data := replicate (l_size (pg_layout pg)) b\<rparr>))"
  using assms by (simp add: fill_with_bytes_def pages_range_def from_start_and_size_def ar_new_def ar_size_def pages_ok_def)

lemma new_args_region_ok:
  assumes "heap_below (2 ^ 48) (vm_alloc v)" "pt_wf heap_used v root" "length (serialize_args args) \<le> 2 ^ 47"
  shows "snd (new_args_region ram root args v) = Inl (UB ''write to the null pointer'') \<or>
    snd (new_args_region ram root args v) = Inl (Panic ''allocation error'') \<or>
    (\<exists>v' pg. new_args_region ram root args v = (v', Inr pg) \<and> heap_below (2 ^ 48) (vm_alloc v') \<and> pt_wf heap_used v' root \<and>
      pages_ok pg \<and> pg_addr pg \<noteq> 0 \<and> pg_addr pg + l_size (pg_layout pg) \<le> 2 ^ 48 \<and> region_mapped v' root pg \<and>
      take (length (serialize_args args)) (pg_data pg) = serialize_args args)"
proof -
  let ?a = "serialize_args args"
  from alloc_bytes_ok [OF assms, of ram] obtain v1 pg where
    p: "alloc_bytes ram (length ?a) v = (v1, Inr pg)" "heap_below (2 ^ 48) (vm_alloc v1)" "pt_wf heap_used v1 root"
      "pages_ok pg" "length ?a \<le> l_size (pg_layout pg)" "PAGE_SIZE dvd l_size (pg_layout pg)" "l_size (pg_layout pg) \<le> 2 ^ 48"
      "pg_addr pg \<noteq> 0 \<longrightarrow> PAGE_SIZE dvd pg_addr pg \<and> pg_addr pg + l_size (pg_layout pg) \<le> 2 ^ 48" by auto
  show ?thesis
  proof (cases "pg_addr pg = 0")
    case True
    then show ?thesis using p by (simp add: new_args_region_def Let_def fill_with_bytes_cases)
  next
    case False
    let ?pg = "pg\<lparr>pg_data := ?a @ replicate (l_size (pg_layout pg) - length ?a) 0\<rparr>"
    have eq: "new_args_region ram root args v = act_then (set_page_attr root ReadWriteUser ?pg) (\<lambda>_. lift_res (Inr ?pg)) v1"
      using p False by (simp add: new_args_region_def Let_def fill_with_bytes_cases)
    from set_page_attr_ok [OF p(2,3), of ?pg] p False consider
        "set_page_attr root ReadWriteUser ?pg v1 = (v1, Inl (Panic ''allocation error''))"
      | v2 where "set_page_attr root ReadWriteUser ?pg v1 = (v2, Inr ())" "heap_below (2 ^ 48) (vm_alloc v2)"
          "pt_wf heap_used v2 root" "region_mapped v2 root ?pg"
      by auto
    then show ?thesis
    proof cases
      case 1
      then show ?thesis by (simp add: eq)
    next
      case 2
      then have "new_args_region ram root args v = (v2, Inr ?pg)" by (simp add: eq lift_res_def)
      moreover have "pages_ok ?pg" using p(5) by (simp add: pages_ok_def)
      ultimately show ?thesis using 2 p(8) False by (intro disjI2 exI [of _ v2] exI [of _ ?pg]) simp
    qed
  qed
qed

text \<open>The arguments of a process are what its application reads.\<close>

lemma serialize_args_size:
  assumes "length (serialize_args args) < USIZE"
  shows "of_le_bytes (take 8 (serialize_args args)) = length (serialize_args args)" "8 \<le> length (serialize_args args)"
proof -
  let ?D = "serialize_args args" and ?n = "length args"
  have len: "length ?D = (?n + 1) * 16 + length (zterm args)"
    unfolding serialize_args_def args_layout_eq Let_def
    by (simp add: length_concat_chunks [where k = 16])
  have "take 8 ?D = le_bytes 8 (length ?D)"
    unfolding len by (simp add: serialize_args_def args_layout_eq Let_def)
  with assms show "of_le_bytes (take 8 ?D) = length ?D" by (simp add: of_le_bytes_le_bytes)
  show "8 \<le> length ?D" unfolding len by simp
qed

lemma args_reach:
  assumes "k_current k = Some p" "args_region p = Some pg" "pg_addr pg \<noteq> 0" "pages_ok pg"
    "pg_addr pg + l_size (pg_layout pg) < USIZE" "list_all utf8_valid args"
    "take (length (serialize_args args)) (pg_data pg) = serialize_args args"
    "load_bytes m (word_of_nat (pg_addr pg)) (l_size (pg_layout pg)) = pg_data pg"
  shows "and_then (get_args_region k m) args_from_env = Inr args"
proof -
  let ?D = "serialize_args args" and ?a = "word_of_nat (pg_addr pg) :: u64"
  have "length ?D \<le> l_size (pg_layout pg)" using assms(4,7) by (metis length_take min.bounded_iff order_refl pages_ok_def)
  then have "pg_data pg = load_bytes m ?a (length ?D) @ load_bytes m (?a + word_of_nat (length ?D)) (l_size (pg_layout pg) - length ?D)"
    using load_bytes_add [of m ?a "length ?D" "l_size (pg_layout pg) - length ?D"] assms(8) by simp
  then have D: "length ?D < USIZE" "load_bytes m ?a (length ?D) = ?D"
    using assms(5,7) \<open>length ?D \<le> l_size (pg_layout pg)\<close> by simp_all
  note s = serialize_args_size [OF D(1)]
  have "load_bytes m ?a 8 = take 8 ?D"
    using D(2) s(2) load_bytes_add [of m ?a 8 "length ?D - 8"] by (metis append_eq_conv_conj le_add_diff_inverse length_load_bytes)
  moreover have "?a \<noteq> 0" using assms(3,5) by (simp add: word_unat_eq_iff unat_of_nat)
  moreover have "sys_get_args_region k = Inr ?a"
    using assms(1-3,5) by (simp add: sys_get_args_region_def args_region_start_addr_def pages_range_def
        from_start_and_size_def ar_new_def)
  ultimately have "get_args_region k m = Inr (Some ?D)" using s(1) D(2) by (simp add: get_args_region_def)
  then show ?thesis using deserialize_serialize [OF D(1) assms(6)] by (simp add: args_from_env_def)
qed

subsection \<open>A new process\<close>

definition starts_at :: "u64 \<Rightarrow> u64 \<Rightarrow> pages \<Rightarrow> process_context \<Rightarrow> bool" where
  "starts_at f arg1 stack p \<longleftrightarrow> stack_region p = Some stack \<and> pages_ok stack \<and> STACK_SIZE \<le> length (pg_data stack) \<and>
     pg_addr stack + length (pg_data stack) \<le> 2 ^ 48 \<and> drop (length (pg_data stack) - 8) (pg_data stack) = le_word f \<and>
     p_context p = context_default\<lparr>ctx_cpu := cpu_default\<lparr>c_rsp := word_of_nat (pg_addr stack + length (pg_data stack) - 8),
       c_rdi := arg1, c_rflags := 2\<rparr>\<rparr>"

lemma new_with_fn_ok:
  assumes "heap_below (2 ^ 48) (vm_alloc (k_vm k))" "pt_wf heap_used (k_vm k) root"
  shows "snd (new_with_fn ram root f arg1 k) = Inl (UB ''slice from the null pointer'') \<or>
    (\<exists>k' p stack. new_with_fn ram root f arg1 k = (k', Inr p) \<and> starts_at f arg1 stack p \<and>
       p_cell p = length (k_cells k) \<and> k_cells k' = k_cells k @ [\<lparr>exited = False, exit_code = 0\<rparr>] \<and> k_queue k' = k_queue k \<and>
       heap_below (2 ^ 48) (vm_alloc (k_vm k')) \<and> pt_wf heap_used (k_vm k') root)"
proof -
  have "STACK_SIZE \<le> 2 ^ 47" by (simp add: STACK_SIZE_def)
  from alloc_bytes_ok [OF assms this, of ram] obtain v pg where
    p: "alloc_bytes ram STACK_SIZE (k_vm k) = (v, Inr pg)" "heap_below (2 ^ 48) (vm_alloc v)" "pt_wf heap_used v root"
      "pages_ok pg" "STACK_SIZE \<le> l_size (pg_layout pg)"
      "pg_addr pg \<noteq> 0 \<longrightarrow> pg_addr pg + l_size (pg_layout pg) \<le> 2 ^ 48" by auto
  show ?thesis
  proof (cases "pg_addr pg = 0")
    case True
    with p show ?thesis by (simp add: new_with_fn_def on_vm_def lift_res_def)
  next
    case False
    have len: "length (pg_data pg) = l_size (pg_layout pg)" "8 \<le> l_size (pg_layout pg)"
      using p(4,5) by (simp_all add: pages_ok_def STACK_SIZE_def)
    let ?st = "pg\<lparr>pg_data := take (l_size (pg_layout pg) - 8) (pg_data pg) @ le_word f\<rparr>"
    from p False len have "new_with_fn ram root f arg1 k = (k\<lparr>k_vm := v, k_cells := k_cells k @ [\<lparr>exited = False, exit_code = 0\<rparr>]\<rparr>,
        Inr \<lparr>args_region = None, stack_region = Some ?st, p_context = context_default\<lparr>ctx_cpu := cpu_default
          \<lparr>c_rsp := word_of_nat (pg_addr pg + l_size (pg_layout pg) - 8), c_rdi := arg1, c_rflags := 2\<rparr>\<rparr>,
          p_cell = length (k_cells k), tcp_sockets = Map.empty, next_tcp_socket_handle = 0\<rparr>)"
      by (simp add: new_with_fn_def on_vm_def lift_res_def Let_def pages_range_def from_start_and_size_def ar_new_def
          process_new_def process_default_def context_default_def)
    moreover from p False len have "starts_at f arg1 ?st \<lparr>args_region = None, stack_region = Some ?st, p_context = context_default\<lparr>ctx_cpu :=
          cpu_default\<lparr>c_rsp := word_of_nat (pg_addr pg + l_size (pg_layout pg) - 8), c_rdi := arg1, c_rflags := 2\<rparr>\<rparr>,
          p_cell = length (k_cells k), tcp_sockets = Map.empty, next_tcp_socket_handle = 0\<rparr>"
      by (simp add: starts_at_def pages_ok_def)
    ultimately show ?thesis using p(2,3) by auto
  qed
qed

lemma process_starts:
  assumes "starts_at f arg1 stack p" "context_at (mem c) to (p_context p)" "to mod 16 = 0" "from mod 16 = 0" "length (fpu c) = 512"
    "apart from CONTEXT_SIZE to CONTEXT_SIZE"
    "apart from CONTEXT_SIZE (word_of_nat (pg_addr stack + length (pg_data stack) - 8)) 8"
    "load_bytes (mem c) (word_of_nat (pg_addr stack)) (length (pg_data stack)) = pg_data stack"
  shows "\<exists>c'. unchecked_switch_context hw l from to c = Inr c' \<and> rip c' = f \<and> regs c' RDI = arg1 \<and>
    regs c' RSP = word_of_nat (pg_addr stack + length (pg_data stack)) \<and> rflags c' = hw_popf hw 2"
proof -
  let ?a = "word_of_nat (pg_addr stack) :: u64" and ?n = "length (pg_data stack)"
  let ?t = "word_of_nat (pg_addr stack + ?n - 8) :: u64"
  note st = assms(1) [unfolded starts_at_def]
  have n: "8 \<le> ?n" using st by (simp add: STACK_SIZE_def)
  have dr: "drop j d = ys" if "d = xs @ ys" "length xs = j" for d xs ys :: bytes and j using that by simp
  have e: "?a + word_of_nat (?n - 8) = ?t" "?n - 8 + 8 = ?n" using n by (simp_all flip: of_nat_add)
  have "pg_data stack = load_bytes (mem c) ?a (?n - 8) @ load_bytes (mem c) ?t 8"
    by (rule load_bytes_add [of "mem c" ?a "?n - 8" 8, unfolded e, unfolded assms(8)])
  from dr [OF this length_load_bytes] have "drop (?n - 8) (pg_data stack) = load_bytes (mem c) ?t 8" .
  then have f: "load_bytes (mem c) ?t 8 = le_word f" using st by simp
  obtain c' where c': "unchecked_switch_context hw l from to c = Inr c'"
      "mem c' = store_bytes (mem c) from (context_image (saved hw l (called from to c)))"
      "c' = resumed hw (p_context p) (c\<lparr>mem := mem c'\<rparr>)"
    using switch_context_ok [OF assms(2-6), of hw l] by blast
  have "load_bytes (mem c') ?t 8 = load_bytes (mem c) ?t 8"
    using load_store_apart [of "from" "context_image (saved hw l (called from to c))" ?t 8 "mem c"] assms(5,7) c'(2)
      length_context_image [of "saved hw l (called from to c)"] by (simp add: saved_def called_def)
  with f have "load64 (mem c') ?t = f" by (simp add: load64_def codec_simps)
  moreover have "?t + 8 = word_of_nat (pg_addr stack + ?n - 8 + 8)" by simp
  then have "?t + 8 = word_of_nat (pg_addr stack + ?n)" using n by simp
  ultimately show ?thesis
    using c'(1) arg_cong [OF c'(3), of rip] arg_cong [OF c'(3), of regs] arg_cong [OF c'(3), of rflags] st
    by (simp add: resumed_def ctx_regs_def)
qed

subsection \<open>Turns\<close>

text \<open>A program is what a process, named by its cell, does with its context until it next enters the scheduler: it goes
  on later with another context, or it ends.\<close>

datatype turn = Goes_on execution_context | Exits int

definition run_turn :: "(nat \<Rightarrow> execution_context \<Rightarrow> turn) \<Rightarrow> kernel \<times> execution_context \<Rightarrow> (kernel \<times> execution_context) res" where
  "run_turn prog = (\<lambda>(k, cpu).
     case prog (p_cell (hd (k_queue k))) cpu of Goes_on c \<Rightarrow> switch_process k c | Exits v \<Rightarrow> exit_current_process v k)"

fun run_turns :: "(nat \<Rightarrow> execution_context \<Rightarrow> turn) \<Rightarrow> nat \<Rightarrow> kernel \<times> execution_context \<Rightarrow> (kernel \<times> execution_context) res" where
  "run_turns prog 0 s = Inr s"
| "run_turns prog (Suc n) s = and_then (run_turn prog s) (run_turns prog n)"

text \<open>What the scheduler promises: a list of threads, the running one first.\<close>

definition threads :: "kernel \<times> execution_context \<Rightarrow> (nat \<times> execution_context) list" where
  "threads s = (case k_queue (fst s) of [] \<Rightarrow> [] | p # ps \<Rightarrow> (p_cell p, snd s) # map (\<lambda>p. (p_cell p, p_context p)) ps)"

definition sched_ok :: "kernel \<Rightarrow> bool" where
  "sched_ok k \<longleftrightarrow> distinct (map p_cell (k_queue k)) \<and>
     (\<forall>p \<in> set (k_queue k). p_cell p < length (k_cells k) \<and> \<not> exited (k_cells k ! p_cell p))"

definition after_turn :: "(nat \<Rightarrow> execution_context \<Rightarrow> turn) \<Rightarrow> nat \<times> execution_context \<Rightarrow> (nat \<times> execution_context) list" where
  "after_turn prog x = (case prog (fst x) (snd x) of Goes_on c \<Rightarrow> [(fst x, c)] | Exits v \<Rightarrow> [])"

definition cell_after :: "(nat \<Rightarrow> execution_context \<Rightarrow> turn) \<Rightarrow> nat \<times> execution_context \<Rightarrow> exit_cell list \<Rightarrow> exit_cell list" where
  "cell_after prog x cells = (case prog (fst x) (snd x) of Goes_on c \<Rightarrow> cells
     | Exits v \<Rightarrow> cells[fst x := \<lparr>exited = True, exit_code = v\<rparr>])"

lemma threads_cells: "map fst (threads s) = map p_cell (k_queue (fst s))"
  by (simp add: threads_def split: list.split)

lemma run_turn_ok:
  assumes "sched_ok k" "threads (k, cpu) = x # ts" "ts \<noteq> [] \<or> after_turn prog x \<noteq> []"
  shows "\<exists>s'. run_turn prog (k, cpu) = Inr s' \<and> sched_ok (fst s') \<and> threads s' = ts @ after_turn prog x \<and>
    k_cells (fst s') = cell_after prog x (k_cells k)"
proof -
  from assms(2) obtain p ps where q: "k_queue k = p # ps" and x: "x = (p_cell p, cpu)"
    and ts: "ts = map (\<lambda>p. (p_cell p, p_context p)) ps"
    by (auto simp: threads_def split: list.splits)
  show ?thesis
  proof (cases "prog (p_cell p) cpu")
    case (Goes_on c)
    show ?thesis
    proof (cases ps)
      case Nil
      with Goes_on q x ts assms(1) show ?thesis
        by (simp add: run_turn_def switch_process_def threads_def after_turn_def cell_after_def)
    next
      case (Cons p' ps')
      with q assms(1) have "has_exited k (p_cell p') = Inr False"
        by (simp add: has_exited_def sched_ok_def nth_opt_def)
      with Cons Goes_on q have "run_turn prog (k, cpu) = Inr (k\<lparr>k_queue := ps @ [p\<lparr>p_context := c\<rparr>]\<rparr>, p_context p')"
        by (simp add: run_turn_def switch_process_def Let_def)
      with Cons Goes_on q x ts assms(1) show ?thesis
        by (auto simp: threads_def after_turn_def cell_after_def sched_ok_def)
    qed
  next
    case (Exits v)
    with assms(3) x ts obtain p' ps' where ps: "ps = p' # ps'" by (cases ps) (auto simp: after_turn_def)
    with Exits q assms(1) have "run_turn prog (k, cpu) =
        Inr (k\<lparr>k_queue := ps, k_cells := (k_cells k)[p_cell p := \<lparr>exited = True, exit_code = v\<rparr>]\<rparr>, p_context p')"
      by (simp add: run_turn_def exit_current_process_def sched_ok_def)
    with Exits q x ts ps assms(1) show ?thesis
      by (auto simp: threads_def after_turn_def cell_after_def sched_ok_def nth_list_update)
  qed
qed

text \<open>A round: every thread has its turn once, in order.\<close>

lemma run_round:
  "sched_ok k \<Longrightarrow> threads (k, cpu) = xs @ ys \<Longrightarrow> ys \<noteq> [] \<or> (\<exists>x \<in> set xs. after_turn prog x \<noteq> []) \<Longrightarrow>
   \<exists>s'. run_turns prog (length xs) (k, cpu) = Inr s' \<and> sched_ok (fst s') \<and>
     threads s' = ys @ concat (map (after_turn prog) xs) \<and> k_cells (fst s') = fold (cell_after prog) xs (k_cells k)"
proof (induction xs arbitrary: k cpu ys)
  case (Cons x xs)
  have "xs @ ys \<noteq> [] \<or> after_turn prog x \<noteq> []" using Cons.prems(3) by auto
  from run_turn_ok [OF Cons.prems(1) Cons.prems(2) [unfolded append_Cons] this] obtain k1 cpu1 where
    s1: "run_turn prog (k, cpu) = Inr (k1, cpu1)" "sched_ok k1" "threads (k1, cpu1) = xs @ ys @ after_turn prog x"
      "k_cells k1 = cell_after prog x (k_cells k)" by auto
  have "ys @ after_turn prog x \<noteq> [] \<or> (\<exists>x \<in> set xs. after_turn prog x \<noteq> [])" using Cons.prems(3) by auto
  from Cons.IH [OF s1(2,3) this] s1 show ?case by auto
qed simp

lemma cell_after_nth:
  "length (cell_after prog x cells) = length cells"
  "fst x < length cells \<Longrightarrow> cell_after prog x cells ! i = (if i = fst x
     then (case prog (fst x) (snd x) of Goes_on _ \<Rightarrow> cells ! i | Exits v \<Rightarrow> \<lparr>exited = True, exit_code = v\<rparr>) else cells ! i)"
  by (simp_all add: cell_after_def split: turn.split)

lemma cells_after:
  assumes "distinct (map fst xs)" "fst ` set xs \<subseteq> {..<length cells}"
  shows "length (fold (cell_after prog) xs cells) = length cells"
    "i \<notin> fst ` set xs \<Longrightarrow> fold (cell_after prog) xs cells ! i = cells ! i"
    "(i, c) \<in> set xs \<Longrightarrow> fold (cell_after prog) xs cells ! i =
       (case prog i c of Goes_on _ \<Rightarrow> cells ! i | Exits v \<Rightarrow> \<lparr>exited = True, exit_code = v\<rparr>)"
proof -
  show "length (fold (cell_after prog) xs cells) = length cells"
    by (induction xs arbitrary: cells) (simp_all add: cell_after_nth)
  have out: "i \<notin> fst ` set xs \<Longrightarrow> fold (cell_after prog) xs cells ! i = cells ! i" for xs cells
    by (induction xs arbitrary: cells) (auto simp: cell_after_def split: turn.split)
  then show "i \<notin> fst ` set xs \<Longrightarrow> fold (cell_after prog) xs cells ! i = cells ! i" .
  show "fold (cell_after prog) xs cells ! i = (case prog i c of Goes_on _ \<Rightarrow> cells ! i | Exits v \<Rightarrow> \<lparr>exited = True, exit_code = v\<rparr>)"
    if "(i, c) \<in> set xs"
    using that assms
  proof (induction xs arbitrary: cells)
    case (Cons x xs)
    then have x: "fst x < length cells" "fst x \<notin> fst ` set xs" by auto
    show ?case
    proof (cases "x = (i, c)")
      case True
      with x out [of xs "cell_after prog x cells"] show ?thesis by (simp add: cell_after_nth)
    next
      case False
      with Cons.prems have "(i, c) \<in> set xs" by auto
      moreover from this x(2) have "fst x \<noteq> i" using image_eqI [of i fst "(i, c)" "set xs"] by auto
      ultimately show ?thesis using Cons.IH [of "cell_after prog x cells"] Cons.prems x
        by (simp add: cell_after_nth split: turn.split)
    qed
  qed simp
qed

lemma run_turns_add: "run_turns prog (m + n) s = and_then (run_turns prog m s) (run_turns prog n)"
  by (induction m arbitrary: s) (simp_all add: and_then_def split: sum.split)

text \<open>When no process ends, rounds run every process on its own: the context of one never becomes the context of another.\<close>

lemma rounds_isolated:
  assumes "\<And>i c. prog i c = Goes_on (step i c)"
  shows "sched_ok k \<Longrightarrow> k_queue k \<noteq> [] \<Longrightarrow> \<exists>s'. run_turns prog (r * length (k_queue k)) (k, cpu) = Inr s' \<and> sched_ok (fst s') \<and>
    threads s' = map (\<lambda>(i, c). (i, (step i ^^ r) c)) (threads (k, cpu))"
proof (induction r arbitrary: k cpu)
  case (Suc r)
  have len: "length (threads (k, cpu)) = length (k_queue k)" by (metis length_map threads_cells fst_conv)
  have t: "after_turn prog = (\<lambda>(i, c). [(i, step i c)])" by (auto simp: after_turn_def assms)
  have "\<exists>x \<in> set (threads (k, cpu)). after_turn prog x \<noteq> []" using Suc.prems len by (cases "threads (k, cpu)") (auto simp: t)
  then obtain k1 cpu1 where s1: "run_turns prog (length (k_queue k)) (k, cpu) = Inr (k1, cpu1)" "sched_ok k1"
      "threads (k1, cpu1) = map (\<lambda>(i, c). (i, step i c)) (threads (k, cpu))"
    using run_round [OF Suc.prems(1), of cpu "threads (k, cpu)" "[]" prog] len by (auto simp: t case_prod_unfold)
  have len1: "length (k_queue k1) = length (k_queue k)"
    using s1(3) len threads_cells [of "(k1, cpu1)"] by (metis fst_conv length_map)
  then have "k_queue k1 \<noteq> []" using Suc.prems by auto
  from Suc.IH [OF s1(2) this, of cpu1] obtain s' where
    s': "run_turns prog (r * length (k_queue k)) (k1, cpu1) = Inr s'" "sched_ok (fst s')"
      "threads s' = map (\<lambda>(i, c). (i, (step i ^^ r) c)) (threads (k1, cpu1))" by (auto simp: len1)
  show ?case using s1(1) s' by (intro exI [of _ s']) (simp add: run_turns_add s1(3) case_prod_unfold funpow_swap1)
qed (simp add: case_prod_unfold)

text \<open>A process that ends after some turns of its own; a process that waits only gives its turns away.\<close>

fun exits_after :: "(nat \<Rightarrow> execution_context \<Rightarrow> turn) \<Rightarrow> nat \<Rightarrow> nat \<Rightarrow> execution_context \<Rightarrow> int \<Rightarrow> bool" where
  "exits_after prog 0 t c v \<longleftrightarrow> prog t c = Exits v"
| "exits_after prog (Suc n) t c v \<longleftrightarrow> (case prog t c of Goes_on c' \<Rightarrow> exits_after prog n t c' v | Exits _ \<Rightarrow> False)"

lemma waiting_ends:
  assumes "\<And>c. prog m c = Goes_on c"
  shows "sched_ok k \<Longrightarrow> threads (k, cpu) = (m, cpu) # ts \<Longrightarrow> (t, c) \<in> set ts \<Longrightarrow> exits_after prog n t c v \<Longrightarrow>
    \<exists>N k'. run_turns prog N (k, cpu) = Inr (k', cpu) \<and> sched_ok k' \<and> (\<exists>ts'. threads (k', cpu) = (m, cpu) # ts') \<and>
      completion_poll t k' cpu = Inr (k', cpu, Some v)"
proof (induction n arbitrary: k ts c)
  case (0 k ts c)
  let ?xs = "(m, cpu) # ts"
  have "\<exists>x \<in> set ?xs. after_turn prog x \<noteq> []" by (auto simp: after_turn_def assms)
  with run_round [OF 0(1), of cpu ?xs "[]" prog] 0(2) obtain k' cpu' where
    s: "run_turns prog (length ?xs) (k, cpu) = Inr (k', cpu')" "sched_ok k'"
      "threads (k', cpu') = (m, cpu) # concat (map (after_turn prog) ts)" "k_cells k' = fold (cell_after prog) ?xs (k_cells k)"
    by (auto simp: after_turn_def [of prog "(m, cpu)"] assms)
  have d: "distinct (map fst ?xs)" "fst ` set ?xs \<subseteq> {..<length (k_cells k)}"
    using threads_cells [of "(k, cpu)"] 0(1,2) unfolding set_map [symmetric] by (simp_all add: sched_ok_def subset_eq)
  from s(3) have "cpu' = cpu" by (auto simp: threads_def split: list.splits)
  moreover have "t < length (k_cells k')" "k_cells k' ! t = \<lparr>exited = True, exit_code = v\<rparr>"
    using cells_after(1) [OF d, of prog] cells_after(3) [OF d, of t c prog] 0(3,4) s(4) d(2) by (auto simp: subset_eq)
  ultimately show ?case
    using s by (intro exI [of _ "length ?xs"] exI [of _ k']) (simp add: completion_poll_def has_exited_def nth_opt_def)
next
  case (Suc n k ts c)
  let ?xs = "(m, cpu) # ts"
  obtain c' where c': "prog t c = Goes_on c'" "exits_after prog n t c' v" using Suc.prems(4) by (auto split: turn.splits)
  have "\<exists>x \<in> set ?xs. after_turn prog x \<noteq> []" by (auto simp: after_turn_def assms)
  with run_round [OF Suc.prems(1), of cpu ?xs "[]" prog] Suc.prems(2) obtain k' cpu' where
    s: "run_turns prog (length ?xs) (k, cpu) = Inr (k', cpu')" "sched_ok k'"
      "threads (k', cpu') = (m, cpu) # concat (map (after_turn prog) ts)"
    by (auto simp: after_turn_def [of prog "(m, cpu)"] assms)
  from s(3) have e: "cpu' = cpu" by (auto simp: threads_def split: list.splits)
  have "(t, c') \<in> set (concat (map (after_turn prog) ts))"
    using Suc.prems(3) c'(1) by (force simp: after_turn_def)
  from Suc.IH [OF s(2) s(3) [unfolded e] this c'(2)] obtain N k'' where
    "run_turns prog N (k', cpu) = Inr (k'', cpu)" "sched_ok k''" "\<exists>ts'. threads (k'', cpu) = (m, cpu) # ts'"
    "completion_poll t k'' cpu = Inr (k'', cpu, Some v)" by blast
  moreover from this s(1) e have "run_turns prog (length ?xs + N) (k, cpu) = Inr (k'', cpu)"
    unfolding run_turns_add by (metis and_then_simps(2))
  ultimately show ?case by blast
qed

text \<open>The turn of a process that waits is a poll of its future that is pending.\<close>

lemma pending_poll_is_turn:
  assumes "has_exited k t = Inr False" "prog (p_cell (hd (k_queue k))) cpu = Goes_on cpu"
  shows "completion_poll t k cpu = and_then (run_turn prog (k, cpu)) (\<lambda>(k, cpu). Inr (k, cpu, None))"
  using assms by (simp add: completion_poll_def run_turn_def)

subsection \<open>Handles\<close>

lemma free_handle_Some:
  "free_handle socks h = Some x \<Longrightarrow> h \<le> x \<and> x \<le> I64_MAX \<and> socks x = None \<and> (\<forall>y. h \<le> y \<longrightarrow> y < x \<longrightarrow> socks y \<noteq> None)"
proof (induction socks h rule: free_handle.induct)
  case (1 socks h)
  show ?case
  proof (cases "socks h = None")
    case True
    with 1(2) show ?thesis by (auto simp: free_handle.simps [of socks h] split: if_splits)
  next
    case False
    with 1(2) have h: "\<not> I64_MAX < h" "free_handle socks (h + 1) = Some x"
      by (auto simp: free_handle.simps [of socks h] split: if_splits)
    from 1(1) [OF h(1) False h(2)] False show ?thesis
      by (metis add1_zle_eq dual_order.order_iff_strict dual_order.trans zless_add1_eq)
  qed
qed

lemma create_tcp_socket_ok:
  assumes "create_tcp_socket (Inr sock) p = (p', Inr h)"
  shows "0 \<le> h \<and> h \<le> I64_MAX \<and> process_tcp_socket p h = None \<and> process_tcp_socket p' h = Some sock \<and>
    (\<forall>h'. h' \<noteq> h \<longrightarrow> process_tcp_socket p' h' = process_tcp_socket p h')"
  using assms free_handle_Some [of "tcp_sockets p" "max 0 (next_tcp_socket_handle p)" h]
  by (auto simp: create_tcp_socket_def process_tcp_socket_def split: option.splits)

text \<open>The context of an application is written above its stack: none of its bytes lies in the stack.\<close>

lemma app_frame_outside:
  assumes "c_rsp (ctx_cpu (k_app k)) = word_of_nat (pg_addr stack + l_size (pg_layout stack))"
    "pg_addr stack + l_size (pg_layout stack) \<le> 2 ^ 48"
  shows "\<exists>a. app_frame k = Inr a \<and> area (unat a, CONTEXT_SIZE) \<inter> area (pg_addr stack, l_size (pg_layout stack)) = {}"
proof -
  let ?e = "pg_addr stack + l_size (pg_layout stack)"
  have "unat (word_of_nat ?e :: u64) = ?e" "unat (word_of_nat (?e + 656) :: u64) = ?e + 656"
    using assms(2) by (simp_all only: unat_of_nat) simp_all
  with assms have "app_frame k = Inr (word_of_nat (?e + 656))" by (simp only: app_frame_def CONTEXT_SIZE_def) simp
  with \<open>unat (word_of_nat (?e + 656) :: u64) = ?e + 656\<close> show ?thesis
    by (intro exI [of _ "word_of_nat (?e + 656)"]) (auto simp only: area_def CONTEXT_SIZE_def fst_conv snd_conv, auto)
qed

text \<open>The loop ends with the first return whose reason is 0, and a fuel above the number of returns before it is
  enough.  \<open>ks\<close> and \<open>ps\<close> are the kernel and the process at the start of each turn.\<close>

lemma exec_app_context_ends:
  assumes turn: "\<And>i. i \<le> n \<Longrightarrow> app_frame (ks i\<lparr>k_current := ps i\<rparr>) = Inr (a i) \<and>
      enter (a i) (ks i\<lparr>k_current := ps i\<rparr>) = (k' i, code i, reason i) \<and>
      ks (Suc i) = (k' i)\<lparr>k_current := k_current (ks i)\<rparr> \<and> ps (Suc i) = k_current (k' i)"
    and reasons: "\<And>i. i < n \<Longrightarrow> reason i \<noteq> 0" "reason n = 0"
  shows "n < fuel \<Longrightarrow> exec_app_context fuel enter (ps 0) (ks 0) = (ks (Suc n), Inr (ps (Suc n), code n))"
proof -
  have "n < i + fuel \<Longrightarrow> i \<le> n \<Longrightarrow>
    exec_app_context fuel enter (ps i) (ks i) = (ks (Suc n), Inr (ps (Suc n), code n))" for i
  proof (induction fuel arbitrary: i)
    case (Suc fuel)
    show ?case
    proof (cases "i = n")
      case True
      with turn [of n] reasons(2) show ?thesis by simp
    next
      case False
      with Suc.prems turn [of i] reasons(1) [of i] Suc.IH [of "Suc i"] show ?thesis by simp
    qed
  qed simp
  from this [of 0] show "n < fuel \<Longrightarrow> exec_app_context fuel enter (ps 0) (ks 0) = (ks (Suc n), Inr (ps (Suc n), code n))" by simp
qed

end
