(* ===== verification/Checksum.thy ===== *)
theory Checksum
  imports Util
begin

text \<open>
  The Internet checksum of \<open>os/src/net/checksum.rs\<close>: a 32-bit accumulator, the folding loop with
  its termination, and the reading of the result as a one's complement sum.  \<open>wsum\<close> is the reference:
  the sum of the big-endian 16-bit words of the data, the last odd byte padded with zero.
\<close>

record csum_gen = csum_sum :: u32

definition csum_gen_new :: csum_gen where
  "csum_gen_new = \<lparr>csum_sum = 0\<rparr>"

definition u32_add :: "u32 \<Rightarrow> u32 \<Rightarrow> u32 res" where
  "u32_add a b = (if unat a + unat b < 2 ^ 32 then Inr (a + b) else Inl (Panic ''add overflow''))"

fun chunks2 :: "bytes \<Rightarrow> bytes list" where
  "chunks2 [] = []"
| "chunks2 [a] = [[a]]"
| "chunks2 (a # b # bs) = [a, b] # chunks2 bs"

definition chunk_word :: "bytes \<Rightarrow> u32" where
  "chunk_word w =
     push_bit 8 (ucast (hd w)) OR (case nth_opt w 1 of None \<Rightarrow> 0 | Some b \<Rightarrow> ucast b)"

fun feed_chunks :: "csum_gen \<Rightarrow> bytes list \<Rightarrow> csum_gen res" where
  "feed_chunks g [] = Inr g"
| "feed_chunks g (w # ws) =
     and_then (u32_add (csum_sum g) (chunk_word w)) (\<lambda>s. feed_chunks (g\<lparr>csum_sum := s\<rparr>) ws)"

definition feed :: "csum_gen \<Rightarrow> bytes \<Rightarrow> csum_gen res" where
  "feed g data = feed_chunks g (chunks2 data)"

lemma fold_carry_less:
  fixes s :: u32
  assumes "drop_bit 16 s \<noteq> 0"
  shows "unat ((s AND 0xFFFF) + drop_bit 16 s) = unat s mod 65536 + unat s div 65536"
    "unat s mod 65536 + unat s div 65536 < unat s"
proof -
  have "(0xFFFF :: u32) = mask 16" by (simp add: mask_eq_exp_minus_1)
  then have a: "unat (s AND 0xFFFF) = unat s mod 65536"
    by (simp only: take_bit_eq_mask [symmetric] unat_take_bit) simp
  have d: "unat (drop_bit 16 s) = unat s div 65536" by (subst unat_drop_bit) simp
  have "unat s < 2 ^ 32" using unsigned_less [of s] by simp
  then have "unat s div 65536 < 65536" by (simp add: less_mult_imp_div_less)
  moreover have "unat s mod 65536 < 65536" by simp
  ultimately have "unat (s AND 0xFFFF) + unat (drop_bit 16 s) < 2 ^ LENGTH(32)"
    unfolding a d by simp
  then show "unat ((s AND 0xFFFF) + drop_bit 16 s) = unat s mod 65536 + unat s div 65536"
    using a d by (simp add: unat_word_ariths)
  have "0 < unat s div 65536" using assms d by (metis bot_nat_0.not_eq_extremum unat_eq_0)
  then show "unat s mod 65536 + unat s div 65536 < unat s"
    using div_mult_mod_eq [of "unat s" 65536] by linarith
qed

lemma fold_carry_decreases:
  "drop_bit 16 s \<noteq> 0 \<Longrightarrow> unat ((s AND 0xFFFF) + drop_bit 16 s :: u32) < unat s"
  using fold_carry_less by simp

function fold_carry :: "u32 \<Rightarrow> u32" where
  "fold_carry s = (if drop_bit 16 s \<noteq> 0 then fold_carry ((s AND 0xFFFF) + drop_bit 16 s) else s)"
  by pat_completeness auto
termination
  by (relation "measure unat") (simp_all add: fold_carry_decreases)

declare fold_carry.simps [simp del]

definition checksum :: "csum_gen \<Rightarrow> csum_gen \<times> u16" where
  "checksum g = (let g = g\<lparr>csum_sum := fold_carry (csum_sum g)\<rparr> in (g, ucast (NOT (csum_sum g))))"

definition calc :: "bytes \<Rightarrow> u16 res" where
  "calc data = and_then (feed csum_gen_new data) (\<lambda>g. Inr (snd (checksum g)))"

subsection \<open>One's complement arithmetic\<close>

fun wsum :: "bytes \<Rightarrow> nat" where
  "wsum [] = 0"
| "wsum [a] = 256 * unat a"
| "wsum (a # b # bs) = 256 * unat a + unat b + wsum bs"

definition ones_fold :: "nat \<Rightarrow> nat" where
  "ones_fold n = (if n = 0 then 0 else if n mod 65535 = 0 then 65535 else n mod 65535)"

lemma unat_ucast_u32: "unat (ucast (b :: u8) :: u32) = unat b"
  by (simp add: unsigned_ucast_eq take_bit_nat_eq_self_iff less_trans [OF unat_byte_less])

lemma unat_push_byte: "unat (push_bit 8 (ucast (a :: u8) :: u32)) = 256 * unat a"
proof -
  have "256 * unat a < 256 * 256" by simp
  then have "256 * unat a < 2 ^ 32" by (rule less_trans) simp
  then show ?thesis
    unfolding unsigned_push_bit_eq unat_ucast_u32
    by (simp add: push_bit_eq_mult take_bit_nat_eq_self)
qed

lemma chunk_word_unat:
  "unat (chunk_word [a, b]) = 256 * unat a + unat b" "unat (chunk_word [a]) = 256 * unat a"
proof -
  have "push_bit 8 (ucast a :: u32) AND ucast b = 0"
    by (rule bit_word_eqI) (auto simp: bit_simps dest: bit_imp_le_length)
  then have "push_bit 8 (ucast a :: u32) OR ucast b = push_bit 8 (ucast a) + ucast b"
    by (rule disjunctive_add_eq_or [symmetric])
  moreover have "unat b + 256 * unat a < 256 * 256" by (intro digit_less) simp_all
  then have "unat (push_bit 8 (ucast a :: u32)) + unat (ucast b :: u32) < 2 ^ LENGTH(32)"
    unfolding unat_push_byte unat_ucast_u32 by simp
  ultimately have "unat (push_bit 8 (ucast a :: u32) OR ucast b) = 256 * unat a + unat b"
    by (simp only: unat_word_ariths unat_push_byte unat_ucast_u32 mod_less)
  then show "unat (chunk_word [a, b]) = 256 * unat a + unat b"
    by (simp add: chunk_word_def nth_opt_def)
  show "unat (chunk_word [a]) = 256 * unat a"
    by (simp add: chunk_word_def nth_opt_def unat_push_byte)
qed

lemma feed_chunks_sum:
  assumes "unat (csum_sum g) + wsum data < 2 ^ 32"
  shows "\<exists>s. feed_chunks g (chunks2 data) = Inr (g\<lparr>csum_sum := s\<rparr>) \<and> unat s = unat (csum_sum g) + wsum data"
  using assms
proof (induction data arbitrary: g rule: chunks2.induct)
  case 1
  then show ?case by (intro exI [of _ "csum_sum g"]) simp
next
  case (2 a)
  then have "unat (csum_sum g + chunk_word [a]) = unat (csum_sum g) + 256 * unat a"
    by (simp add: unat_word_ariths chunk_word_unat)
  with 2 show ?case
    by (intro exI [of _ "csum_sum g + chunk_word [a]"]) (simp add: u32_add_def chunk_word_unat)
next
  case (3 a b bs)
  have s: "unat (csum_sum g + chunk_word [a, b]) = unat (csum_sum g) + 256 * unat a + unat b"
    using 3 by (simp add: unat_word_ariths chunk_word_unat)
  then show ?case
    using 3 "3.IH" [of "g\<lparr>csum_sum := csum_sum g + chunk_word [a, b]\<rparr>"]
    by (simp add: u32_add_def chunk_word_unat add.assoc)
qed

lemma feed_sum:
  assumes "unat (csum_sum g) + wsum data < 2 ^ 32"
  obtains s where "feed g data = Inr (g\<lparr>csum_sum := s\<rparr>)" "unat s = unat (csum_sum g) + wsum data"
  using feed_chunks_sum [OF assms] that by (auto simp: feed_def)

lemma ones_fold_less: "ones_fold n \<le> 65535"
  using mod_less_divisor [of 65535 n] by (auto simp: ones_fold_def less_imp_le)

lemma ones_fold_mod: "ones_fold n mod 65535 = n mod 65535"
  by (simp add: ones_fold_def)

lemma ones_fold_small: "n < 65536 \<Longrightarrow> ones_fold n = n"
  by (cases "n = 65535") (auto simp: ones_fold_def)

lemma ones_fold_step: "ones_fold (n mod 65536 + n div 65536) = ones_fold n"
proof -
  have "n = n div 65536 * 65535 + (n mod 65536 + n div 65536)"
    using div_mult_mod_eq [of n 65536] by linarith
  then have "n mod 65535 = (n mod 65536 + n div 65536) mod 65535"
    by (metis mod_mult_self3)
  moreover have "n mod 65536 + n div 65536 = 0 \<longleftrightarrow> n = 0"
    using div_mult_mod_eq [of n 65536] by (metis add_is_0 mult_0 div_0 mod_0)
  ultimately show ?thesis by (simp add: ones_fold_def)
qed

lemma fold_carry_ones_fold: "unat (fold_carry s) = ones_fold (unat s)"
proof (induction s rule: fold_carry.induct)
  case (1 s)
  show ?case
  proof (cases "drop_bit 16 s = 0")
    case True
    then have "unat s div 65536 = 0" using unat_drop_bit [of 16 s] by simp
    then have "unat s < 65536" by (simp add: div_eq_0_iff)
    with True show ?thesis by (simp add: fold_carry.simps [of s] ones_fold_small)
  next
    case False
    then have "fold_carry s = fold_carry ((s AND 0xFFFF) + drop_bit 16 s)"
      by (subst fold_carry.simps) simp
    then show ?thesis
      using 1 [OF False] fold_carry_less(1) [OF False] by (simp only: ones_fold_step)
  qed
qed

lemma checksum_complement: "unat (snd (checksum g)) = 65535 - ones_fold (unat (csum_sum g))"
proof -
  let ?f = "fold_carry (csum_sum g)"
  have le: "unat ?f \<le> 65535" using ones_fold_less fold_carry_ones_fold by simp
  then have lt: "unat ?f < 2 ^ 16" by simp
  have "ucast (NOT ?f) = NOT (ucast ?f :: u16)"
    by (rule bit_word_eqI) (auto simp: bit_simps dest: bit_imp_le_length)
  moreover have u: "unat (ucast ?f :: u16) = unat ?f"
    using lt by (simp add: unsigned_ucast_eq take_bit_nat_eq_self_iff)
  moreover have "unat (NOT w) = 65535 - unat w" for w :: u16
  proof -
    have "NOT w = - 1 - w" by (simp add: not_eq_complement)
    then show ?thesis by (simp add: unat_sub unsigned_minus_1_eq_mask mask_eq_exp_minus_1)
  qed
  ultimately show ?thesis by (simp add: checksum_def fold_carry_ones_fold)
qed

lemma calc_ones:
  assumes "wsum data < 2 ^ 32"
  shows "\<exists>c. calc data = Inr c \<and> unat c = 65535 - ones_fold (wsum data)"
proof -
  from assms obtain s where "feed csum_gen_new data = Inr (csum_gen_new\<lparr>csum_sum := s\<rparr>)"
    "unat s = wsum data"
    by (metis feed_sum [of csum_gen_new data] csum_gen_new_def csum_gen.select_convs(1) unsigned_0 add_0)
  then show ?thesis by (simp add: calc_def checksum_complement)
qed

lemma wsum_append: "even (length a) \<Longrightarrow> wsum (a @ b) = wsum a + wsum b"
  by (induction a rule: wsum.induct) auto

lemma wsum_be_bytes: "n < 65536 \<Longrightarrow> wsum (be_bytes 2 n) = n"
  by (simp add: be_bytes_def numeral_2_eq_2 unat_byte_of_nat)

lemma ones_fold_complement:
  "ones_fold (S + (65535 - ones_fold S)) = 65535"
proof -
  let ?f = "ones_fold S"
  have "(S + (65535 - ?f)) mod 65535 = (?f + (65535 - ?f)) mod 65535"
    by (metis mod_add_left_eq ones_fold_mod)
  also have "\<dots> = 0" using ones_fold_less [of S] by simp
  finally have z: "(S + (65535 - ?f)) mod 65535 = 0" .
  moreover have "S + (65535 - ?f) \<noteq> 0" by (auto simp: ones_fold_def)
  ultimately show ?thesis by (simp only: ones_fold_def if_False if_True simp_thms)
qed

text \<open>A block that carries its own checksum at an even offset sums to all ones.\<close>

lemma calc_verifies:
  assumes "even (length a)" "calc (a @ [0, 0] @ b) = Inr c" "wsum (a @ [0, 0] @ b) + 65535 < 2 ^ 32"
  shows "calc (a @ be_bytes 2 (unat c) @ b) = Inr 0"
proof -
  let ?S = "wsum (a @ [0, 0] @ b)"
  have S: "?S = wsum a + wsum b" using assms(1) by (simp add: wsum_append)
  from calc_ones [of "a @ [0, 0] @ b"] assms(2,3) have c: "unat c = 65535 - ones_fold ?S" by auto
  then have c16: "unat c < 65536" by linarith
  have "wsum (a @ be_bytes 2 (unat c) @ b) = ?S + unat c"
    using assms(1) S c16 by (simp add: wsum_append wsum_be_bytes)
  moreover have "?S + unat c < 2 ^ 32" using assms(3) c16 by linarith
  moreover have "ones_fold (?S + unat c) = 65535" unfolding c by (rule ones_fold_complement)
  ultimately obtain d where "calc (a @ be_bytes 2 (unat c) @ b) = Inr d" "unat d = 0"
    using calc_ones [of "a @ be_bytes 2 (unat c) @ b"] by auto
  then show ?thesis by (simp add: unat_eq_0)
qed

end
