(* ===== verification/Packets.thy ===== *)
theory Packets
  imports Checksum
begin

text \<open>
  The packed structures of \<open>os/src/net/{eth,arp,ip,icmp,udp,dhcp}.rs\<close> and \<open>noli/src/net.rs\<close>, each
  with the byte image that \<open>Sliceable\<close> (\<open>noli/src/mem.rs\<close>) gives it.  A byte array \<open>[u8; n]\<close> is the
  \<open>8 n\<close>-bit word it spells in network order; the fields declared \<open>u16\<close> or \<open>u32\<close> are stored in the
  little-endian order of the machine.  The locale \<open>sliceable\<close> states what the trait promises, and every
  structure is an interpretation of it.
\<close>

subsection \<open>Sliceable\<close>

definition from_slice :: "nat \<Rightarrow> (bytes \<Rightarrow> 'a) \<Rightarrow> bytes \<Rightarrow> 'a res" where
  "from_slice n of_bytes bs =
     (if n \<le> length bs then Inr (of_bytes bs)
      else Inl (Err (from_noli_error (Noli_Failed ''Sliceable::from_slice: Too small''))))"

text \<open>\<open>from_slice_mut\<close> followed by writes through the reference: the bytes of the structure change in place.\<close>

definition update_slice ::
  "nat \<Rightarrow> ('a \<Rightarrow> bytes) \<Rightarrow> (bytes \<Rightarrow> 'a) \<Rightarrow> ('a \<Rightarrow> 'a) \<Rightarrow> bytes \<Rightarrow> bytes res" where
  "update_slice n as_slice of_bytes f bs =
     (if n \<le> length bs then Inr (as_slice (f (of_bytes bs)) @ drop n bs)
      else Inl (Err (from_noli_error (Noli_Failed ''Sliceable::from_slice_mut: Too small''))))"

definition copy_from_slice :: "nat \<Rightarrow> (bytes \<Rightarrow> 'a) \<Rightarrow> bytes \<Rightarrow> 'a res" where
  "copy_from_slice n of_bytes data =
     (if length data < n then Inl (Err (from_noli_error (Noli_Failed ''data is too short'')))
      else Inr (of_bytes data))"

locale sliceable =
  fixes sz :: nat
    and as_slice :: "'a \<Rightarrow> bytes"
    and of_bytes :: "bytes \<Rightarrow> 'a"
  assumes length_as_slice: "length (as_slice x) = sz"
    and of_bytes_as_slice: "of_bytes (as_slice x @ r) = x"
    and as_slice_of_bytes: "sz \<le> length bs \<Longrightarrow> as_slice (of_bytes bs) = take sz bs"
begin

lemma from_as_slice: "from_slice sz of_bytes (as_slice x @ r) = Inr x"
  by (simp add: from_slice_def length_as_slice of_bytes_as_slice)

lemma copy_as_slice: "copy_from_slice sz of_bytes (as_slice x @ r) = Inr x"
  by (simp add: copy_from_slice_def length_as_slice of_bytes_as_slice)

lemma as_slice_inj: "as_slice x = as_slice y \<Longrightarrow> x = y"
  by (metis append_Nil2 of_bytes_as_slice)

lemma update_slice_frame:
  assumes "update_slice sz as_slice of_bytes f bs = Inr bs'"
  shows "length bs' = length bs \<and> drop sz bs' = drop sz bs \<and> from_slice sz of_bytes bs' = Inr (f (of_bytes bs))"
  using assms
  by (auto simp: update_slice_def from_slice_def length_as_slice of_bytes_as_slice split: if_splits)

lemma update_slice_id:
  "sz \<le> length bs \<Longrightarrow> update_slice sz as_slice of_bytes (\<lambda>x. x) bs = Inr bs"
  by (simp add: update_slice_def as_slice_of_bytes)

end

subsection \<open>Addresses\<close>

type_synonym eth_addr = "48 word"
type_synonym ip_addr = "32 word"

definition eth_broardcast :: eth_addr where "eth_broardcast = 0xFFFFFFFFFFFF"
definition eth_zero :: eth_addr where "eth_zero = 0"
definition ip_broardcast :: ip_addr where "ip_broardcast = 0xFFFFFFFF"

definition ip_addr_new :: "u8 \<Rightarrow> u8 \<Rightarrow> u8 \<Rightarrow> u8 \<Rightarrow> ip_addr" where
  "ip_addr_new a b c d = word_be [a, b, c, d]"

definition network_prefix :: "ip_addr \<Rightarrow> ip_addr \<Rightarrow> ip_addr" where
  "network_prefix ip msk = ip AND msk"

interpretation ip_addr: sliceable 4 "be_word :: ip_addr \<Rightarrow> bytes" "\<lambda>bs. word_be (take 4 bs)"
  by standard (simp_all add: codec_simps)

subsection \<open>Ethernet\<close>

definition ethertype_ip_v4 :: u16 where "ethertype_ip_v4 = 0x0800"
definition ethertype_arp :: u16 where "ethertype_arp = 0x0806"

record eth_header =
  eth_dst :: eth_addr
  eth_src :: eth_addr
  eth_type :: u16

definition eth_default :: eth_header where
  "eth_default = \<lparr>eth_dst = 0, eth_src = 0, eth_type = 0\<rparr>"

definition eth_new :: "eth_addr \<Rightarrow> eth_addr \<Rightarrow> u16 \<Rightarrow> eth_header" where
  "eth_new dst src ty = \<lparr>eth_dst = dst, eth_src = src, eth_type = ty\<rparr>"

definition eth_bytes :: "eth_header \<Rightarrow> bytes" where
  "eth_bytes h = be_word (eth_dst h) @ be_word (eth_src h) @ be_word (eth_type h)"

definition eth_of :: "bytes \<Rightarrow> eth_header" where
  "eth_of bs = \<lparr>eth_dst = word_be (take 6 bs), eth_src = word_be (take 6 (drop 6 bs)),
                eth_type = word_be (take 2 (drop 12 bs))\<rparr>"

lemma take_split: "n = k + l \<Longrightarrow> take n xs = take k xs @ take l (drop k xs)"
  by (simp add: take_add)

interpretation eth: sliceable 14 eth_bytes eth_of
proof
  fix bs :: bytes
  assume "14 \<le> length bs"
  then show "eth_bytes (eth_of bs) = take 14 bs"
    by (simp add: eth_bytes_def eth_of_def codec_simps take_split [of 14 6 8] take_split [of 8 6 2])
qed (simp_all add: eth_bytes_def eth_of_def codec_simps)

subsection \<open>ARP\<close>

record arp_packet =
  arp_eth :: eth_header
  arp_hw_type :: u16
  arp_proto_type :: u16
  arp_hw_addr_size :: u8
  arp_proto_addr_size :: u8
  arp_op :: u16
  arp_sender_mac :: eth_addr
  arp_sender_ip :: ip_addr
  arp_target_mac :: eth_addr
  arp_target_ip :: ip_addr

definition arp_is_response :: "arp_packet \<Rightarrow> bool" where
  "arp_is_response p \<longleftrightarrow> arp_op p = 2"

definition arp_request :: "eth_addr \<Rightarrow> ip_addr \<Rightarrow> ip_addr \<Rightarrow> arp_packet" where
  "arp_request src_eth src_ip dst_ip =
     \<lparr>arp_eth = eth_new eth_broardcast src_eth ethertype_arp,
      arp_hw_type = 1, arp_proto_type = 0x0800, arp_hw_addr_size = 6, arp_proto_addr_size = 4, arp_op = 1,
      arp_sender_mac = src_eth, arp_sender_ip = src_ip,
      arp_target_mac = eth_zero, arp_target_ip = dst_ip\<rparr>"

definition arp_bytes :: "arp_packet \<Rightarrow> bytes" where
  "arp_bytes p =
     eth_bytes (arp_eth p) @ be_word (arp_hw_type p) @ be_word (arp_proto_type p) @
     be_word (arp_hw_addr_size p) @ be_word (arp_proto_addr_size p) @ be_word (arp_op p) @
     be_word (arp_sender_mac p) @ be_word (arp_sender_ip p) @
     be_word (arp_target_mac p) @ be_word (arp_target_ip p)"

definition arp_of :: "bytes \<Rightarrow> arp_packet" where
  "arp_of bs =
     \<lparr>arp_eth = eth_of bs, arp_hw_type = word_be (take 2 (drop 14 bs)),
      arp_proto_type = word_be (take 2 (drop 16 bs)), arp_hw_addr_size = word_be (take 1 (drop 18 bs)),
      arp_proto_addr_size = word_be (take 1 (drop 19 bs)), arp_op = word_be (take 2 (drop 20 bs)),
      arp_sender_mac = word_be (take 6 (drop 22 bs)), arp_sender_ip = word_be (take 4 (drop 28 bs)),
      arp_target_mac = word_be (take 6 (drop 32 bs)), arp_target_ip = word_be (take 4 (drop 38 bs))\<rparr>"

interpretation arp: sliceable 42 arp_bytes arp_of
proof
  fix bs :: bytes
  assume "42 \<le> length bs"
  then show "arp_bytes (arp_of bs) = take 42 bs"
    by (simp add: arp_bytes_def arp_of_def codec_simps eth.as_slice_of_bytes take_split [of 42 14 28]
        take_split [of 28 2 26] take_split [of 26 2 24] take_split [of 24 1 23] take_split [of 23 1 22]
        take_split [of 22 2 20] take_split [of 20 6 14] take_split [of 14 4 10 "drop 28 bs"] take_split [of 10 6 4])
qed (simp_all add: arp_bytes_def arp_of_def codec_simps eth.length_as_slice eth.of_bytes_as_slice)

subsection \<open>IPv4\<close>

definition proto_icmp :: u8 where "proto_icmp = 1"
definition proto_tcp :: u8 where "proto_tcp = 6"
definition proto_udp :: u8 where "proto_udp = 17"

record ip_packet =
  ip_eth :: eth_header
  ip_version_and_ihl :: u8
  ip_dscp_and_ecn :: u8
  ip_length :: u16
  ip_ident :: u16
  ip_flags :: u16
  ip_ttl :: u8
  ip_protocol :: u8
  ip_csum :: u16
  ip_src :: ip_addr
  ip_dst :: ip_addr

definition ip_default :: ip_packet where
  "ip_default =
     \<lparr>ip_eth = eth_default, ip_version_and_ihl = 0, ip_dscp_and_ecn = 0, ip_length = 0, ip_ident = 0,
      ip_flags = 0, ip_ttl = 0, ip_protocol = 0, ip_csum = 0, ip_src = 0, ip_dst = 0\<rparr>"

definition ip_bytes :: "ip_packet \<Rightarrow> bytes" where
  "ip_bytes p =
     eth_bytes (ip_eth p) @ be_word (ip_version_and_ihl p) @ be_word (ip_dscp_and_ecn p) @
     be_word (ip_length p) @ le_word (ip_ident p) @ le_word (ip_flags p) @ be_word (ip_ttl p) @
     be_word (ip_protocol p) @ be_word (ip_csum p) @ be_word (ip_src p) @ be_word (ip_dst p)"

definition ip_of :: "bytes \<Rightarrow> ip_packet" where
  "ip_of bs =
     \<lparr>ip_eth = eth_of bs, ip_version_and_ihl = word_be (take 1 (drop 14 bs)),
      ip_dscp_and_ecn = word_be (take 1 (drop 15 bs)), ip_length = word_be (take 2 (drop 16 bs)),
      ip_ident = word_le (take 2 (drop 18 bs)), ip_flags = word_le (take 2 (drop 20 bs)),
      ip_ttl = word_be (take 1 (drop 22 bs)), ip_protocol = word_be (take 1 (drop 23 bs)),
      ip_csum = word_be (take 2 (drop 24 bs)), ip_src = word_be (take 4 (drop 26 bs)),
      ip_dst = word_be (take 4 (drop 30 bs))\<rparr>"

definition total_size :: "ip_packet \<Rightarrow> nat" where
  "total_size p = unat (ip_length p)"

definition data_length :: "ip_packet \<Rightarrow> nat res" where
  "data_length p = usize_sub (total_size p) 20"

definition set_data_length :: "ip_packet \<Rightarrow> nat \<Rightarrow> ip_packet" where
  "set_data_length p n = p\<lparr>ip_length := word_of_nat (n + 20)\<rparr>"

definition ip_new :: "eth_header \<Rightarrow> ip_addr \<Rightarrow> ip_addr \<Rightarrow> u8 \<Rightarrow> nat \<Rightarrow> ip_packet" where
  "ip_new eth dst src protocol n =
     set_data_length
       (ip_default\<lparr>ip_eth := eth, ip_version_and_ihl := 0x45, ip_ttl := 0xFF, ip_protocol := protocol,
                   ip_src := src, ip_dst := dst\<rparr>) n"

definition set_dst :: "ip_packet \<Rightarrow> ip_addr \<Rightarrow> ip_packet" where
  "set_dst p dst = p\<lparr>ip_dst := dst\<rparr>"

definition set_src :: "ip_packet \<Rightarrow> ip_addr \<Rightarrow> ip_packet" where
  "set_src p src = p\<lparr>ip_src := src\<rparr>"

definition clear_checksum :: "ip_packet \<Rightarrow> ip_packet" where
  "clear_checksum p = p\<lparr>ip_csum := 0\<rparr>"

definition set_checksum :: "ip_packet \<Rightarrow> u16 \<Rightarrow> ip_packet" where
  "set_checksum p c = p\<lparr>ip_csum := c\<rparr>"

interpretation ip: sliceable 34 ip_bytes ip_of
proof
  fix bs :: bytes
  assume "34 \<le> length bs"
  then show "ip_bytes (ip_of bs) = take 34 bs"
    by (simp add: ip_bytes_def ip_of_def codec_simps eth.as_slice_of_bytes take_split [of 34 14 20]
        take_split [of 20 1 19] take_split [of 19 1 18] take_split [of 18 2 16] take_split [of 16 2 14]
        take_split [of 14 2 12 "drop 20 bs"] take_split [of 12 1 11] take_split [of 11 1 10]
        take_split [of 10 2 8] take_split [of 8 4 4])
qed (simp_all add: ip_bytes_def ip_of_def codec_simps eth.length_as_slice eth.of_bytes_as_slice)

text \<open>The checksum that the senders put in the header makes the header sum to all ones.\<close>

definition ip_header_bytes :: "ip_packet \<Rightarrow> bytes" where
  "ip_header_bytes p = drop 14 (ip_bytes p)"

lemma wsum_bound: "wsum bs \<le> 65535 * length bs"
proof (induction bs rule: wsum.induct)
  case (2 a)
  have "unat a \<le> 255" using unat_byte_less [of a] by linarith
  then show ?case by simp
next
  case (3 a b bs)
  have "unat a \<le> 255" "unat b \<le> 255" using unat_byte_less [of a] unat_byte_less [of b] by linarith+
  then show ?case using 3 by simp
qed simp

lemma ip_header_checksum:
  assumes "calc (ip_header_bytes (clear_checksum p)) = Inr c"
  shows "calc (ip_header_bytes (set_checksum p c)) = Inr 0"
proof -
  let ?a = "be_word (ip_version_and_ihl p) @ be_word (ip_dscp_and_ecn p) @
     be_word (ip_length p) @ le_word (ip_ident p) @ le_word (ip_flags p) @ be_word (ip_ttl p) @
     be_word (ip_protocol p)"
  let ?b = "be_word (ip_src p) @ be_word (ip_dst p)"
  have z: "be_word (0 :: u16) = [0, 0]" by (simp add: be_word_def be_bytes_def numeral_2_eq_2)
  have a: "ip_header_bytes (clear_checksum p) = ?a @ [0, 0] @ ?b"
    by (simp add: ip_header_bytes_def ip_bytes_def clear_checksum_def eth.length_as_slice z)
  have b: "ip_header_bytes (set_checksum p c) = ?a @ be_bytes 2 (unat c) @ ?b"
    by (simp add: ip_header_bytes_def ip_bytes_def set_checksum_def eth.length_as_slice be_word_def)
  have "wsum (?a @ [0, 0] @ ?b) + 65535 < 2 ^ 32"
    using wsum_bound [of "?a @ [0, 0] @ ?b"] by simp
  with calc_verifies [of ?a ?b c] assms show ?thesis unfolding a b by simp
qed

subsection \<open>ICMP\<close>

definition icmp_type_reply :: u8 where "icmp_type_reply = 0"
definition icmp_type_request :: u8 where "icmp_type_request = 8"

record icmp_packet =
  icmp_ip :: ip_packet
  icmp_type :: u8
  icmp_code :: u8
  icmp_csum :: u16
  icmp_identifier :: u16
  icmp_sequence :: u16

definition icmp_bytes :: "icmp_packet \<Rightarrow> bytes" where
  "icmp_bytes p =
     ip_bytes (icmp_ip p) @ be_word (icmp_type p) @ be_word (icmp_code p) @ be_word (icmp_csum p) @
     be_word (icmp_identifier p) @ be_word (icmp_sequence p)"

definition icmp_of :: "bytes \<Rightarrow> icmp_packet" where
  "icmp_of bs =
     \<lparr>icmp_ip = ip_of bs, icmp_type = word_be (take 1 (drop 34 bs)), icmp_code = word_be (take 1 (drop 35 bs)),
      icmp_csum = word_be (take 2 (drop 36 bs)), icmp_identifier = word_be (take 2 (drop 38 bs)),
      icmp_sequence = word_be (take 2 (drop 40 bs))\<rparr>"

interpretation icmp: sliceable 42 icmp_bytes icmp_of
proof
  fix bs :: bytes
  assume "42 \<le> length bs"
  then show "icmp_bytes (icmp_of bs) = take 42 bs"
    by (simp add: icmp_bytes_def icmp_of_def codec_simps ip.as_slice_of_bytes take_split [of 42 34 8]
        take_split [of 8 1 7] take_split [of 7 1 6] take_split [of 6 2 4] take_split [of 4 2 2])
qed (simp_all add: icmp_bytes_def icmp_of_def codec_simps ip.length_as_slice ip.of_bytes_as_slice)

definition icmp_new_request :: "ip_addr \<Rightarrow> icmp_packet res" where
  "icmp_new_request dst =
     (let ip = ip_new eth_default dst 0 proto_icmp 8;
          this = \<lparr>icmp_ip = ip, icmp_type = icmp_type_request, icmp_code = 0, icmp_csum = 0,
                  icmp_identifier = 0, icmp_sequence = 0\<rparr>
      in and_then (calc (drop 34 (icmp_bytes this))) (\<lambda>c. Inr (this\<lparr>icmp_csum := c\<rparr>)))"

subsection \<open>UDP\<close>

definition UDP_PORT_DHCP_SERVER :: u16 where "UDP_PORT_DHCP_SERVER = 67"
definition UDP_PORT_DHCP_CLIENT :: u16 where "UDP_PORT_DHCP_CLIENT = 68"

record udp_packet =
  udp_ip :: ip_packet
  udp_src_port :: u16
  udp_dst_port :: u16
  udp_data_size :: u16
  udp_csum :: u16

definition udp_default :: udp_packet where
  "udp_default = \<lparr>udp_ip = ip_default, udp_src_port = 0, udp_dst_port = 0, udp_data_size = 0, udp_csum = 0\<rparr>"

definition udp_bytes :: "udp_packet \<Rightarrow> bytes" where
  "udp_bytes p =
     ip_bytes (udp_ip p) @ be_word (udp_src_port p) @ be_word (udp_dst_port p) @
     be_word (udp_data_size p) @ be_word (udp_csum p)"

definition udp_of :: "bytes \<Rightarrow> udp_packet" where
  "udp_of bs =
     \<lparr>udp_ip = ip_of bs, udp_src_port = word_be (take 2 (drop 34 bs)),
      udp_dst_port = word_be (take 2 (drop 36 bs)), udp_data_size = word_be (take 2 (drop 38 bs)),
      udp_csum = word_be (take 2 (drop 40 bs))\<rparr>"

interpretation udp: sliceable 42 udp_bytes udp_of
proof
  fix bs :: bytes
  assume "42 \<le> length bs"
  then show "udp_bytes (udp_of bs) = take 42 bs"
    by (simp add: udp_bytes_def udp_of_def codec_simps ip.as_slice_of_bytes take_split [of 42 34 8]
        take_split [of 8 2 6] take_split [of 6 2 4] take_split [of 4 2 2])
qed (simp_all add: udp_bytes_def udp_of_def codec_simps ip.length_as_slice ip.of_bytes_as_slice)

definition udp_set_data_size :: "udp_packet \<Rightarrow> nat \<Rightarrow> udp_packet res" where
  "udp_set_data_size p n =
     (if n < 2 ^ 16 then Inr (p\<lparr>udp_data_size := word_of_nat n\<rparr>) else Inl (Err TryFromIntError))"

record udp_socket =
  udp_tx_queue :: "bytes list"
  udp_rx_queue :: "bytes list"

definition udp_socket_default :: udp_socket where
  "udp_socket_default = \<lparr>udp_tx_queue = [], udp_rx_queue = []\<rparr>"

definition udp_handle_rx :: "udp_socket \<Rightarrow> bytes \<Rightarrow> udp_socket res" where
  "udp_handle_rx s in_bytes =
     and_then (from_slice 42 udp_of in_bytes) (\<lambda>_.
     Inr (s\<lparr>udp_rx_queue := udp_rx_queue s @ [in_bytes]\<rparr>))"

definition udp_push_tx_packet :: "udp_socket \<Rightarrow> bytes \<Rightarrow> udp_socket" where
  "udp_push_tx_packet s packet = s\<lparr>udp_tx_queue := udp_tx_queue s @ [packet]\<rparr>"

definition udp_poll_recv :: "udp_socket \<Rightarrow> udp_socket \<times> bytes option" where
  "udp_poll_recv s =
     (case udp_rx_queue s of [] \<Rightarrow> (s, None) | p # ps \<Rightarrow> (s\<lparr>udp_rx_queue := ps\<rparr>, Some p))"

end
