(* ===== verification/Dns.thy ===== *)
theory Dns
  imports Packets
begin

text \<open>
  The DNS client of \<open>os/src/net/dns.rs\<close>: the query it builds, the parser for responses and the table
  of pending queries.  Names are byte strings.  The lemmas show that the parser reads back from a
  query the name it was built for, and returns the addresses of a response in order.
\<close>

record dns_packet =
  dns_udp :: udp_packet
  dns_transaction_id :: u16
  dns_flags :: u16
  dns_num_questions :: u16
  dns_num_answers :: u16
  dns_num_authority_rr :: u16
  dns_num_additional_rr :: u16

definition dns_default :: dns_packet where
  "dns_default =
     \<lparr>dns_udp = udp_default, dns_transaction_id = 0, dns_flags = 0, dns_num_questions = 0,
      dns_num_answers = 0, dns_num_authority_rr = 0, dns_num_additional_rr = 0\<rparr>"

definition dns_bytes :: "dns_packet \<Rightarrow> bytes" where
  "dns_bytes p =
     udp_bytes (dns_udp p) @ be_word (dns_transaction_id p) @ be_word (dns_flags p) @
     be_word (dns_num_questions p) @ be_word (dns_num_answers p) @
     be_word (dns_num_authority_rr p) @ be_word (dns_num_additional_rr p)"

definition dns_of :: "bytes \<Rightarrow> dns_packet" where
  "dns_of bs =
     \<lparr>dns_udp = udp_of bs, dns_transaction_id = word_be (take 2 (drop 42 bs)),
      dns_flags = word_be (take 2 (drop 44 bs)), dns_num_questions = word_be (take 2 (drop 46 bs)),
      dns_num_answers = word_be (take 2 (drop 48 bs)), dns_num_authority_rr = word_be (take 2 (drop 50 bs)),
      dns_num_additional_rr = word_be (take 2 (drop 52 bs))\<rparr>"

interpretation dns: sliceable 54 dns_bytes dns_of
proof
  fix bs :: bytes
  assume "54 \<le> length bs"
  then show "dns_bytes (dns_of bs) = take 54 bs"
    by (simp add: dns_bytes_def dns_of_def codec_simps udp.as_slice_of_bytes take_split [of 54 42 12]
        take_split [of 12 2 10] take_split [of 10 2 8] take_split [of 8 2 6] take_split [of 6 2 4]
        take_split [of 4 2 2])
qed (simp_all add: dns_bytes_def dns_of_def codec_simps udp.length_as_slice udp.of_bytes_as_slice)

definition PORT_DNS_SERVER :: u16 where "PORT_DNS_SERVER = 53"

subsection \<open>Building a query\<close>

definition encode_label :: "bytes \<Rightarrow> bytes" where
  "encode_label s = word_of_nat (length s) # s"

definition resize :: "bytes \<Rightarrow> nat \<Rightarrow> u8 \<Rightarrow> bytes" where
  "resize v n x = take n v @ replicate (n - length v) x"

definition create_dns_query_packet :: "bytes \<Rightarrow> bytes res" where
  "create_dns_query_packet query_host_name =
     (let dns = dns_default\<lparr>dns_flags := 0x0120, dns_num_questions := 1\<rparr>;
          query = dns_bytes dns @ concat (map encode_label (split_on 46 (str_trim query_host_name))) @
                  [0, 0, 1, 0, 1]
      in and_then (usize_sub 512 (length query)) (\<lambda>n. Inr (resize query n 0)))"

subsection \<open>Parsing a response\<close>

datatype dns_response_entry = A_entry (entry_name: bytes) (entry_addr: ip_addr)

type_synonym pending_queries = "u16 \<Rightarrow> dns_response_entry list option option"

function parse_qname :: "bytes \<Rightarrow> bytes \<Rightarrow> (bytes \<times> bytes) res" where
  "parse_qname [] name = Inl (Err (Failed ''Failed to parse DNS response questions section''))"
| "parse_qname (len # it) name =
     (if len = 0 then
        if length it < 4 then Inl (Err (Failed ''Invalid format'')) else Inr (drop 4 it, name)
      else
        let s = take (unat len) it in
        if utf8_valid s then parse_qname (drop (unat len) it) (name @ s @ [46])
        else Inl (Err (Failed ''Cannot parse the dns response'')))"
  by pat_completeness auto
termination by (relation "measure (\<lambda>(it, _). length it)") auto

declare parse_qname.simps(2) [simp del]

fun parse_questions :: "nat \<Rightarrow> bytes \<Rightarrow> bytes \<Rightarrow> (bytes \<times> bytes) res" where
  "parse_questions 0 it name = Inr (it, name)"
| "parse_questions (Suc n) it name =
     and_then (parse_qname it name) (\<lambda>(it, name). parse_questions n it name)"

fun parse_answers ::
  "nat \<Rightarrow> bytes \<Rightarrow> bytes \<Rightarrow> dns_response_entry list \<Rightarrow> dns_response_entry list res" where
  "parse_answers 0 it name result = Inr result"
| "parse_answers (Suc n) it name result =
     (if length it < 12 then Inl (Err (Failed ''Invalid format''))
      else
        let it = drop 12 it; ipv4_addr = take 4 it in
        if length ipv4_addr \<noteq> 4 then Inl (Err (Failed ''failed''))
        else and_then (from_slice 4 word_be ipv4_addr) (\<lambda>addr.
             parse_answers n (drop 4 it) name (result @ [A_entry name addr])))"

definition parse_dns_response :: "pending_queries \<Rightarrow> bytes \<Rightarrow> pending_queries res" where
  "parse_dns_response pend dns_packet =
     and_then (from_slice 54 dns_of dns_packet) (\<lambda>hdr.
     and_then (parse_questions (unat (dns_num_questions hdr)) (drop 54 dns_packet) []) (\<lambda>(it, name).
     and_then (parse_answers (unat (dns_num_answers hdr)) it name []) (\<lambda>result.
     if pend (dns_transaction_id hdr) \<noteq> None
     then Inr (pend(dns_transaction_id hdr \<mapsto> Some result))
     else Inr pend)))"

subsection \<open>Sending a query\<close>

text \<open>The packet that \<open>query_dns\<close> hands to the network, and one look at the table while it waits.\<close>

definition dns_fill_headers :: "ip_addr \<Rightarrow> u16 \<Rightarrow> bytes \<Rightarrow> bytes res" where
  "dns_fill_headers server transaction_id packet =
     and_then (usize_sub (length packet) 34) (\<lambda>n.
     let ip = ip_new eth_default server 0 proto_udp n;
         udp = udp_default\<lparr>udp_ip := ip, udp_dst_port := PORT_DNS_SERVER, udp_src_port := 53\<rparr>
     in and_then (usize_sub (length packet) 42) (\<lambda>m.
        and_then (udp_set_data_size udp m) (\<lambda>udp.
        update_slice 54 dns_bytes dns_of
          (\<lambda>p. p\<lparr>dns_udp := udp, dns_transaction_id := transaction_id\<rparr>) packet)))"

definition query_dns_send ::
  "ip_addr option \<Rightarrow> pending_queries \<Rightarrow> u16 \<Rightarrow> bytes \<Rightarrow> (pending_queries \<times> u16 \<times> bytes) res" where
  "query_dns_send server pend next_id query =
     and_then (ok_or server (Failed ''DNS server address is not available yet'')) (\<lambda>server.
     and_then (create_dns_query_packet query) (\<lambda>packet.
     and_then (dns_fill_headers server next_id packet) (\<lambda>packet.
     Inr (pend(next_id \<mapsto> None), next_id + 1, packet))))"

definition query_dns_poll :: "pending_queries \<Rightarrow> u16 \<Rightarrow> dns_response_entry list option" where
  "query_dns_poll pend transaction_id =
     (case pend transaction_id of Some (Some res) \<Rightarrow> Some res | _ \<Rightarrow> None)"

subsection \<open>Reading back names and addresses\<close>

definition good_label :: "bytes \<Rightarrow> bool" where
  "good_label l \<longleftrightarrow> l \<noteq> [] \<and> length l < 256 \<and> utf8_valid l"

lemma parse_qname_label:
  assumes "good_label l"
  shows "parse_qname (encode_label l @ it) name = parse_qname it (name @ l @ [46])"
proof -
  have "unat (word_of_nat (length l) :: u8) = length l" "(word_of_nat (length l) :: u8) \<noteq> 0"
    using assms by (auto simp: good_label_def unat_byte_of_nat unat_eq_0 [symmetric])
  then show ?thesis
    using assms by (simp add: encode_label_def parse_qname.simps(2) good_label_def)
qed

lemma parse_qname_labels:
  assumes "list_all good_label ls" "length it \<ge> 4"
  shows "parse_qname (concat (map encode_label ls) @ 0 # it) name =
    Inr (drop 4 it, name @ concat (map (\<lambda>l. l @ [46]) ls))"
  using assms
proof (induction ls arbitrary: name)
  case Nil
  then show ?case by (simp add: parse_qname.simps(2))
next
  case (Cons l ls)
  then show ?case using parse_qname_label [of l "concat (map encode_label ls) @ 0 # it"] by simp
qed

definition encode_answer :: "bytes \<Rightarrow> ip_addr \<Rightarrow> bytes" where
  "encode_answer hdr a = hdr @ be_word a"

lemma parse_answers_encoded:
  assumes "list_all (\<lambda>(h, a). length h = 12) as"
  shows "parse_answers (length as) (concat (map (\<lambda>(h, a). encode_answer h a) as) @ rest) name acc =
    Inr (acc @ map (\<lambda>(h, a). A_entry name a) as)"
  using assms
proof (induction as arbitrary: acc)
  case (Cons ha as)
  obtain h a where ha: "ha = (h, a)" by (cases ha)
  with Cons show ?case
    by (simp add: encode_answer_def Let_def from_slice_def codec_simps)
qed simp

text \<open>A response with one question and any number of address records, as a server sends it.\<close>

definition response_bytes :: "dns_packet \<Rightarrow> bytes list \<Rightarrow> bytes \<Rightarrow> (bytes \<times> ip_addr) list \<Rightarrow> bytes \<Rightarrow> bytes" where
  "response_bytes hdr labels qtype answers rest =
     dns_bytes hdr @ concat (map encode_label labels) @ 0 # qtype @
     concat (map (\<lambda>(h, a). encode_answer h a) answers) @ rest"

lemma parse_response:
  assumes "dns_num_questions hdr = 1" "unat (dns_num_answers hdr) = length answers"
    "list_all good_label labels" "length qtype = 4" "list_all (\<lambda>(h, a). length h = 12) answers"
    "pend (dns_transaction_id hdr) \<noteq> None"
  shows "parse_dns_response pend (response_bytes hdr labels qtype answers rest) =
    Inr (pend(dns_transaction_id hdr \<mapsto>
      Some (map (\<lambda>(h, a). A_entry (concat (map (\<lambda>l. l @ [46]) labels)) a) answers)))"
proof -
  let ?tail = "concat (map encode_label labels) @ 0 # qtype @
     concat (map (\<lambda>(h, a). encode_answer h a) answers) @ rest"
  have hd: "from_slice 54 dns_of (response_bytes hdr labels qtype answers rest) = Inr hdr"
    unfolding response_bytes_def by (rule dns.from_as_slice)
  have dr: "drop 54 (response_bytes hdr labels qtype answers rest) = ?tail"
    by (simp add: response_bytes_def dns.length_as_slice)
  have q: "parse_questions 1 ?tail [] = Inr (concat (map (\<lambda>(h, a). encode_answer h a) answers) @ rest,
      concat (map (\<lambda>l. l @ [46]) labels))"
    using parse_qname_labels [OF assms(3), of "qtype @ concat (map (\<lambda>(h, a). encode_answer h a) answers) @ rest" "[]"]
      assms(4) by simp
  show ?thesis
    unfolding parse_dns_response_def hd dr
    using assms(1,2,6) q parse_answers_encoded [OF assms(5), of rest] by simp
qed

text \<open>The name in a query is the host name that was asked for, in the label format of the parser.\<close>

lemma query_question:
  assumes labels: "list_all good_label (split_on 46 (str_trim host))"
    and short: "length (str_trim host) \<le> 195"
  shows "\<exists>q. create_dns_query_packet host = Inr q \<and> from_slice 54 dns_of q =
      Inr (dns_default\<lparr>dns_flags := 0x0120, dns_num_questions := 1\<rparr>) \<and>
    (\<exists>rest. parse_questions 1 (drop 54 q) [] = Inr (rest, str_trim host @ [46]))"
proof -
  let ?ls = "split_on 46 (str_trim host)"
  let ?h = "dns_default\<lparr>dns_flags := 0x0120, dns_num_questions := 1\<rparr>"
  let ?body = "concat (map encode_label ?ls) @ [0, 0, 1, 0, 1]"
  have "length (concat (map encode_label ls)) = length (concat (map (\<lambda>l. l @ [46 :: u8]) ls))" for ls
    by (induction ls) (simp_all add: encode_label_def)
  then have len: "length (dns_bytes ?h @ ?body) = 60 + length (str_trim host)"
    by (simp add: dns.length_as_slice split_on_join)
  let ?n = "512 - length (dns_bytes ?h @ ?body)"
  have cr: "create_dns_query_packet host =
      Inr (dns_bytes ?h @ ?body @ replicate (?n - length (dns_bytes ?h @ ?body)) 0)"
    using short len unfolding create_dns_query_packet_def Let_def resize_def by simp
  obtain z where z: "?body @ replicate (?n - length (dns_bytes ?h @ ?body)) 0 =
      concat (map encode_label ?ls) @ 0 # ([0, 1, 0, 1] @ z)" by simp
  have "parse_questions 1 (concat (map encode_label ?ls) @ 0 # ([0, 1, 0, 1] @ z)) [] =
      Inr (z, str_trim host @ [46])"
    using parse_qname_labels [OF labels, of "[0, 1, 0, 1] @ z" "[]"] by (simp add: split_on_join)
  then show ?thesis
    unfolding cr z [symmetric] using dns.from_as_slice [of ?h] dns.length_as_slice [of ?h]
    by (auto simp: z)
qed

end
