(* ===== verification/Dhcp.thy ===== *)
theory Dhcp
  imports Packets
begin

text \<open>
  \<open>os/src/net/dhcp.rs\<close>: the DHCP packet, its byte image and the request that the client broadcasts.
  The request carries a valid IPv4 header checksum and the sizes that the headers announce are the
  sizes of the packet.
\<close>

definition DHCP_OPT_NETMASK :: u8 where "DHCP_OPT_NETMASK = 1"
definition DHCP_OPT_ROUTER :: u8 where "DHCP_OPT_ROUTER = 3"
definition DHCP_OPT_DNS :: u8 where "DHCP_OPT_DNS = 6"
definition DHCP_OPT_MESSAGE_TYPE :: u8 where "DHCP_OPT_MESSAGE_TYPE = 53"
definition DHCP_OPT_MESSAGE_TYPE_PADDING :: u8 where "DHCP_OPT_MESSAGE_TYPE_PADDING = 0"
definition DHCP_OPT_MESSAGE_TYPE_END :: u8 where "DHCP_OPT_MESSAGE_TYPE_END = 255"
definition DHCP_OP_BOOTREQUEST :: u8 where "DHCP_OP_BOOTREQUEST = 1"
definition DHCP_OP_BOOTREPLY :: u8 where "DHCP_OP_BOOTREPLY = 2"

record dhcp_packet =
  dhcp_udp :: udp_packet
  dhcp_op :: u8
  dhcp_htype :: u8
  dhcp_hlen :: u8
  dhcp_hops :: u8
  dhcp_xid :: u32
  dhcp_secs :: u16
  dhcp_flags :: u16
  dhcp_ciaddr :: ip_addr
  dhcp_yiaddr :: ip_addr
  dhcp_siaddr :: ip_addr
  dhcp_giaddr :: ip_addr
  dhcp_chaddr :: eth_addr
  dhcp_chaddr_padding :: "80 word"
  dhcp_sname :: "512 word"
  dhcp_file :: "1024 word"
  dhcp_cookie :: "32 word"

definition dhcp_default :: dhcp_packet where
  "dhcp_default =
     \<lparr>dhcp_udp = udp_default, dhcp_op = 0, dhcp_htype = 0, dhcp_hlen = 0, dhcp_hops = 0, dhcp_xid = 0,
      dhcp_secs = 0, dhcp_flags = 0, dhcp_ciaddr = 0, dhcp_yiaddr = 0, dhcp_siaddr = 0, dhcp_giaddr = 0,
      dhcp_chaddr = 0, dhcp_chaddr_padding = 0, dhcp_sname = 0, dhcp_file = 0, dhcp_cookie = 0\<rparr>"

definition dhcp_bytes :: "dhcp_packet \<Rightarrow> bytes" where
  "dhcp_bytes p =
     udp_bytes (dhcp_udp p) @ be_word (dhcp_op p) @ be_word (dhcp_htype p) @ be_word (dhcp_hlen p) @
     be_word (dhcp_hops p) @ le_word (dhcp_xid p) @ le_word (dhcp_secs p) @ le_word (dhcp_flags p) @
     be_word (dhcp_ciaddr p) @ be_word (dhcp_yiaddr p) @ be_word (dhcp_siaddr p) @ be_word (dhcp_giaddr p) @
     be_word (dhcp_chaddr p) @ be_word (dhcp_chaddr_padding p) @ be_word (dhcp_sname p) @
     be_word (dhcp_file p) @ be_word (dhcp_cookie p)"

definition dhcp_of :: "bytes \<Rightarrow> dhcp_packet" where
  "dhcp_of bs =
     \<lparr>dhcp_udp = udp_of bs, dhcp_op = word_be (take 1 (drop 42 bs)), dhcp_htype = word_be (take 1 (drop 43 bs)),
      dhcp_hlen = word_be (take 1 (drop 44 bs)), dhcp_hops = word_be (take 1 (drop 45 bs)),
      dhcp_xid = word_le (take 4 (drop 46 bs)), dhcp_secs = word_le (take 2 (drop 50 bs)),
      dhcp_flags = word_le (take 2 (drop 52 bs)), dhcp_ciaddr = word_be (take 4 (drop 54 bs)),
      dhcp_yiaddr = word_be (take 4 (drop 58 bs)), dhcp_siaddr = word_be (take 4 (drop 62 bs)),
      dhcp_giaddr = word_be (take 4 (drop 66 bs)), dhcp_chaddr = word_be (take 6 (drop 70 bs)),
      dhcp_chaddr_padding = word_be (take 10 (drop 76 bs)), dhcp_sname = word_be (take 64 (drop 86 bs)),
      dhcp_file = word_be (take 128 (drop 150 bs)), dhcp_cookie = word_be (take 4 (drop 278 bs))\<rparr>"

lemma dhcp_bytes_of:
  assumes "282 \<le> length bs"
  shows "dhcp_bytes (dhcp_of bs) = take 282 bs"
proof -
  have s: "take 282 bs = take 42 bs @ take 8 (drop 42 bs) @ take 20 (drop 50 bs) @ take 212 (drop 70 bs)"
    by (simp add: take_split [of 282 42 240] take_split [of 240 8 232] take_split [of 232 20 212])
  have a: "take 8 (drop 42 bs) = take 1 (drop 42 bs) @ take 1 (drop 43 bs) @ take 1 (drop 44 bs) @
      take 1 (drop 45 bs) @ take 4 (drop 46 bs)"
    by (simp add: take_split [of 8 1 7] take_split [of 7 1 6] take_split [of 6 1 5] take_split [of 5 1 4])
  have b: "take 20 (drop 50 bs) = take 2 (drop 50 bs) @ take 2 (drop 52 bs) @ take 4 (drop 54 bs) @
      take 4 (drop 58 bs) @ take 4 (drop 62 bs) @ take 4 (drop 66 bs)"
    by (simp add: take_split [of 20 2 18] take_split [of 18 2 16] take_split [of 16 4 12]
        take_split [of 12 4 8] take_split [of 8 4 4])
  have c: "take 212 (drop 70 bs) = take 6 (drop 70 bs) @ take 10 (drop 76 bs) @ take 64 (drop 86 bs) @
      take 128 (drop 150 bs) @ take 4 (drop 278 bs)"
    by (simp add: take_split [of 212 6 206] take_split [of 206 10 196] take_split [of 196 64 132]
        take_split [of 132 128 4])
  show ?thesis
    unfolding s a b c dhcp_bytes_def dhcp_of_def
    using assms by (simp add: codec_simps udp.as_slice_of_bytes)
qed

interpretation dhcp: sliceable 282 dhcp_bytes dhcp_of
proof (standard, goal_cases)
  case 3
  then show ?case by (rule dhcp_bytes_of)
qed (simp_all add: dhcp_bytes_def dhcp_of_def codec_simps udp.length_as_slice udp.of_bytes_as_slice)

definition is_boot_reply :: "dhcp_packet \<Rightarrow> bool" where
  "is_boot_reply p \<longleftrightarrow> dhcp_op p = DHCP_OP_BOOTREPLY"

definition dhcp_request :: "eth_addr \<Rightarrow> dhcp_packet res" where
  "dhcp_request src_eth_addr =
     (let this = dhcp_default;
          eth = eth_new eth_broardcast src_eth_addr ethertype_ip_v4;
          ip = ip_new eth ip_broardcast 0 proto_udp (282 - 34);
          udp = (dhcp_udp this)\<lparr>udp_ip := ip, udp_src_port := UDP_PORT_DHCP_CLIENT,
                                udp_dst_port := UDP_PORT_DHCP_SERVER\<rparr>
      in and_then (udp_set_data_size udp (282 - 34)) (\<lambda>udp.
         let this = this\<lparr>dhcp_udp := udp, dhcp_op := DHCP_OP_BOOTREQUEST, dhcp_htype := 1, dhcp_hlen := 6,
                         dhcp_xid := 0x1234, dhcp_chaddr := src_eth_addr,
                         dhcp_cookie := word_be [99, 130, 83, 99]\<rparr>;
             udp = (dhcp_udp this)\<lparr>udp_ip := clear_checksum (udp_ip (dhcp_udp this))\<rparr>
         in and_then (slice_of (udp_bytes udp) 14 34) (\<lambda>hdr.
            and_then (calc hdr) (\<lambda>c.
            Inr (this\<lparr>dhcp_udp := udp\<lparr>udp_ip := set_checksum (udp_ip udp) c\<rparr>\<rparr>)))))"

lemma udp_header_slice: "slice_of (udp_bytes p) 14 34 = Inr (ip_header_bytes (udp_ip p))"
proof -
  have "length (ip_bytes (udp_ip p)) = 34" by (rule ip.length_as_slice)
  then show ?thesis
    by (simp add: slice_of_def udp.length_as_slice udp_bytes_def ip_header_bytes_def)
qed

lemma calc_returns:
  assumes "length bs \<le> 65535"
  shows "\<exists>c. calc bs = Inr c"
proof -
  have "wsum bs \<le> 65535 * 65535" using wsum_bound [of bs] assms by linarith
  then have "wsum bs < 2 ^ 32" by simp
  with calc_ones show ?thesis by blast
qed

lemma dhcp_request_ok:
  "\<exists>p. dhcp_request mac = Inr p \<and> length (dhcp_bytes p) = 282 \<and>
     calc (ip_header_bytes (udp_ip (dhcp_udp p))) = Inr 0 \<and>
     total_size (udp_ip (dhcp_udp p)) = 282 - 14 \<and> unat (udp_data_size (dhcp_udp p)) = 282 - 34 \<and>
     eth_dst (ip_eth (udp_ip (dhcp_udp p))) = eth_broardcast \<and> dhcp_chaddr p = mac"
proof -
  let ?ip = "ip_new (eth_new eth_broardcast mac ethertype_ip_v4) ip_broardcast 0 proto_udp (282 - 34)"
  have "length (ip_header_bytes (clear_checksum ?ip)) \<le> 65535"
    by (simp add: ip_header_bytes_def ip.length_as_slice)
  then obtain c where c: "calc (ip_header_bytes (clear_checksum ?ip)) = Inr c"
    using calc_returns by blast
  then have "calc (ip_header_bytes (set_checksum (clear_checksum ?ip) c)) = Inr 0"
    using ip_header_checksum [of "clear_checksum ?ip" c] by (simp add: clear_checksum_def)
  moreover have "dhcp_request mac = Inr (dhcp_default\<lparr>dhcp_udp :=
      \<lparr>udp_ip = set_checksum (clear_checksum ?ip) c, udp_src_port = UDP_PORT_DHCP_CLIENT,
       udp_dst_port = UDP_PORT_DHCP_SERVER, udp_data_size = word_of_nat 248, udp_csum = 0\<rparr>,
      dhcp_op := DHCP_OP_BOOTREQUEST, dhcp_htype := 1, dhcp_hlen := 6, dhcp_xid := 0x1234,
      dhcp_chaddr := mac, dhcp_cookie := word_be [99, 130, 83, 99]\<rparr>)"
    using c by (simp add: dhcp_request_def Let_def udp_set_data_size_def udp_header_slice
        dhcp_default_def udp_default_def)
  ultimately show ?thesis
    by (simp add: dhcp.length_as_slice total_size_def set_checksum_def clear_checksum_def ip_new_def
        set_data_length_def ip_default_def eth_new_def)
qed

end
