(* ===== verification/Tcp.thy ===== *)
theory Tcp
  imports Dhcp
begin

text \<open>
  The TCP socket of \<open>os/src/net/tcp.rs\<close>.  A socket is a record of the fields behind its mutexes; a
  handler returns the new socket and the packet it queues for sending, if any.  The packet generator
  is modelled down to the bytes, checksum over the pseudo header included.
\<close>

subsection \<open>Packets\<close>

record tcp_packet =
  tcp_ip :: ip_packet
  tcp_src_port :: u16
  tcp_dst_port :: u16
  tcp_seq_num :: u32
  tcp_ack_num :: u32
  tcp_flags0 :: u8
  tcp_flags1 :: u8
  tcp_window :: u16
  tcp_csum :: u16
  tcp_urgent_ptr :: u16

definition tcp_default :: tcp_packet where
  "tcp_default =
     \<lparr>tcp_ip = ip_default, tcp_src_port = 0, tcp_dst_port = 0, tcp_seq_num = 0, tcp_ack_num = 0,
      tcp_flags0 = 0, tcp_flags1 = 0, tcp_window = 0, tcp_csum = 0, tcp_urgent_ptr = 0\<rparr>"

definition tcp_bytes :: "tcp_packet \<Rightarrow> bytes" where
  "tcp_bytes p =
     ip_bytes (tcp_ip p) @ be_word (tcp_src_port p) @ be_word (tcp_dst_port p) @ be_word (tcp_seq_num p) @
     be_word (tcp_ack_num p) @ be_word (tcp_flags0 p) @ be_word (tcp_flags1 p) @ be_word (tcp_window p) @
     be_word (tcp_csum p) @ be_word (tcp_urgent_ptr p)"

definition tcp_of :: "bytes \<Rightarrow> tcp_packet" where
  "tcp_of bs =
     \<lparr>tcp_ip = ip_of bs, tcp_src_port = word_be (take 2 (drop 34 bs)),
      tcp_dst_port = word_be (take 2 (drop 36 bs)), tcp_seq_num = word_be (take 4 (drop 38 bs)),
      tcp_ack_num = word_be (take 4 (drop 42 bs)), tcp_flags0 = word_be (take 1 (drop 46 bs)),
      tcp_flags1 = word_be (take 1 (drop 47 bs)), tcp_window = word_be (take 2 (drop 48 bs)),
      tcp_csum = word_be (take 2 (drop 50 bs)), tcp_urgent_ptr = word_be (take 2 (drop 52 bs))\<rparr>"

interpretation tcp: sliceable 54 tcp_bytes tcp_of
proof
  fix bs :: bytes
  assume "54 \<le> length bs"
  then show "tcp_bytes (tcp_of bs) = take 54 bs"
    by (simp add: tcp_bytes_def tcp_of_def codec_simps ip.as_slice_of_bytes take_split [of 54 34 20]
        take_split [of 20 2 18] take_split [of 18 2 16] take_split [of 16 4 12] take_split [of 12 4 8]
        take_split [of 8 1 7] take_split [of 7 1 6] take_split [of 6 2 4] take_split [of 4 2 2])
qed (simp_all add: tcp_bytes_def tcp_of_def codec_simps ip.length_as_slice ip.of_bytes_as_slice)

definition header_len :: "tcp_packet \<Rightarrow> nat" where
  "header_len p = 4 * unat (drop_bit 4 (tcp_flags0 p))"

definition set_header_len_nibble :: "tcp_packet \<Rightarrow> u8 \<Rightarrow> tcp_packet" where
  "set_header_len_nibble p n = p\<lparr>tcp_flags0 := push_bit 4 n OR (tcp_flags0 p AND 0x0F)\<rparr>"

definition tcp_flags :: "tcp_packet \<Rightarrow> u16" where
  "tcp_flags p = word_be [tcp_flags0 p, tcp_flags1 p] AND 0x0777"

definition is_fin :: "tcp_packet \<Rightarrow> bool" where "is_fin p \<longleftrightarrow> tcp_flags1 p AND push_bit 0 1 \<noteq> 0"
definition is_syn :: "tcp_packet \<Rightarrow> bool" where "is_syn p \<longleftrightarrow> tcp_flags1 p AND push_bit 1 1 \<noteq> 0"
definition is_rst :: "tcp_packet \<Rightarrow> bool" where "is_rst p \<longleftrightarrow> tcp_flags1 p AND push_bit 2 1 \<noteq> 0"
definition is_ack :: "tcp_packet \<Rightarrow> bool" where "is_ack p \<longleftrightarrow> tcp_flags1 p AND push_bit 4 1 \<noteq> 0"

definition set_fin :: "tcp_packet \<Rightarrow> tcp_packet" where
  "set_fin p = p\<lparr>tcp_flags1 := tcp_flags1 p OR push_bit 0 1\<rparr>"

definition set_syn :: "tcp_packet \<Rightarrow> tcp_packet" where
  "set_syn p = p\<lparr>tcp_flags1 := tcp_flags1 p OR push_bit 1 1\<rparr>"

definition set_ack :: "tcp_packet \<Rightarrow> tcp_packet" where
  "set_ack p = p\<lparr>tcp_flags1 := tcp_flags1 p OR push_bit 4 1\<rparr>"

subsection \<open>Generating a packet\<close>

definition write_at :: "bytes \<Rightarrow> nat \<Rightarrow> bytes \<Rightarrow> bytes res" where
  "write_at bs ofs data =
     (if ofs + length data \<le> length bs then Inr (take ofs bs @ data @ drop (ofs + length data) bs)
      else Inl (Panic ''slice index out of range''))"

definition next_multiple_of_2 :: "nat \<Rightarrow> nat" where
  "next_multiple_of_2 n = (if n mod 2 = 0 then n else n + (2 - n mod 2))"

definition tcp_headers ::
  "ip_addr \<Rightarrow> u16 \<Rightarrow> ip_addr \<Rightarrow> u16 \<Rightarrow> u32 \<Rightarrow> u32 option \<Rightarrow> bool \<Rightarrow> bool \<Rightarrow> tcp_packet" where
  "tcp_headers to_ip to_port from_ip from_port seq seq_to_ack syn fin =
     (let eth = eth_new eth_zero eth_zero ethertype_ip_v4;
          ipv4_packet = ip_new eth to_ip from_ip proto_tcp (54 - 34);
          out_tcp = set_header_len_nibble tcp_default 5;
          out_tcp = out_tcp\<lparr>tcp_ip := ipv4_packet\<rparr>;
          out_tcp = out_tcp\<lparr>tcp_ip := set_src (tcp_ip out_tcp) from_ip\<rparr>;
          out_tcp = out_tcp\<lparr>tcp_ip := set_dst (tcp_ip out_tcp) to_ip\<rparr>;
          out_tcp = out_tcp\<lparr>tcp_src_port := from_port, tcp_dst_port := to_port, tcp_seq_num := seq,
                            tcp_window := 0xFFFF\<rparr>;
          out_tcp = (case seq_to_ack of
                       Some a \<Rightarrow> (set_ack out_tcp)\<lparr>tcp_ack_num := a\<rparr>
                     | None \<Rightarrow> out_tcp);
          out_tcp = (if syn then set_syn out_tcp else out_tcp)
      in if fin then set_fin out_tcp else out_tcp)"

definition gen_tcp_packet ::
  "ip_addr \<Rightarrow> u16 \<Rightarrow> ip_addr \<Rightarrow> u16 \<Rightarrow> u32 \<Rightarrow> u32 option \<Rightarrow> bool \<Rightarrow> bool \<Rightarrow> bytes \<Rightarrow> bytes res" where
  "gen_tcp_packet to_ip to_port from_ip from_port seq seq_to_ack syn fin payload =
     (let out_tcp = tcp_headers to_ip to_port from_ip from_port seq seq_to_ack syn fin;
          ip_data_size = header_len out_tcp + length payload;
          out_tcp = out_tcp\<lparr>tcp_ip := set_data_length (tcp_ip out_tcp) ip_data_size\<rparr>;
          out_bytes = replicate (next_multiple_of_2 (34 + ip_data_size)) 0
      in and_then (write_at out_bytes 0 (tcp_bytes out_tcp)) (\<lambda>out_bytes.
         and_then (write_at out_bytes 54 payload) (\<lambda>out_bytes.
         and_then (slice_of out_bytes 34 (34 + ip_data_size)) (\<lambda>seg.
         and_then (feed csum_gen_new seg) (\<lambda>csum.
         and_then (from_slice 54 tcp_of out_bytes) (\<lambda>out_tcp.
         and_then (feed csum (be_word (ip_src (tcp_ip out_tcp)))) (\<lambda>csum.
         and_then (feed csum (be_word (ip_dst (tcp_ip out_tcp)))) (\<lambda>csum.
         and_then (feed csum [0, ip_protocol (tcp_ip out_tcp)]) (\<lambda>csum.
         and_then (feed csum (be_bytes 2 (ip_data_size mod 65536))) (\<lambda>csum.
         update_slice 54 tcp_bytes tcp_of (\<lambda>p. p\<lparr>tcp_csum := snd (checksum csum)\<rparr>) out_bytes))))))))))"

definition gen_syn_packet :: "ip_addr \<Rightarrow> u16 \<Rightarrow> ip_addr \<Rightarrow> u16 \<Rightarrow> u32 \<Rightarrow> bytes res" where
  "gen_syn_packet to_ip to_port from_ip from_port seq =
     gen_tcp_packet to_ip to_port from_ip from_port seq None True False []"

subsection \<open>Sockets\<close>

datatype tcp_state =
  Listen | SynSent | SynReceived | Established | FinWait1 | FinWait2 | CloseWait | Closing | LastAck |
  TimeWait | Closed

record tcp_socket =
  sk_self_ip :: "ip_addr option"
  sk_self_port :: "u16 option"
  sk_another_ip :: "ip_addr option"
  sk_another_port :: "u16 option"
  my_next_seq :: u32
  last_seq_to_ack :: u32
  sk_state :: tcp_state
  rx_data :: bytes
  tx_data :: bytes
  keep_listening :: bool

definition new_server :: "u16 \<Rightarrow> tcp_socket" where
  "new_server src_port =
     \<lparr>sk_self_ip = None, sk_self_port = Some src_port, sk_another_ip = None, sk_another_port = None,
      my_next_seq = 0, last_seq_to_ack = 0, sk_state = Listen, rx_data = [], tx_data = [],
      keep_listening = True\<rparr>"

definition new_client :: "ip_addr \<Rightarrow> u16 \<Rightarrow> tcp_socket" where
  "new_client dst_ip dst_port =
     \<lparr>sk_self_ip = None, sk_self_port = None, sk_another_ip = Some dst_ip, sk_another_port = Some dst_port,
      my_next_seq = 0, last_seq_to_ack = 0, sk_state = SynSent, rx_data = [], tx_data = [],
      keep_listening = False\<rparr>"

definition is_established :: "tcp_socket \<Rightarrow> bool" where
  "is_established s \<longleftrightarrow> sk_state s = Established"

definition is_trying_to_connect :: "tcp_socket \<Rightarrow> bool" where
  "is_trying_to_connect s \<longleftrightarrow> sk_state s \<in> {SynSent, SynReceived}"

text \<open>
  The \<open>match\<close> of \<open>handle_rx\<close> on the previous state: \<open>Inl s\<close> is an early return with the
  socket \<open>s\<close>, \<open>Inr (s, seq_to_ack, syn, fin)\<close> goes on to send a reply.
\<close>

definition rx_match :: "tcp_socket \<Rightarrow> tcp_packet \<Rightarrow> bytes \<Rightarrow> tcp_socket + (tcp_socket \<times> u32 \<times> bool \<times> bool)" where
  "rx_match s in_tcp data =
     (let seq = my_next_seq s; seq_to_ack = tcp_seq_num in_tcp in
      case sk_state s of
        Listen \<Rightarrow>
          if \<not> is_syn in_tcp then Inl s
          else Inr (s\<lparr>my_next_seq := seq + 1, sk_state := SynReceived\<rparr>, seq_to_ack + 1, True, False)
      | SynSent \<Rightarrow>
          if \<not> is_syn in_tcp \<or> \<not> is_ack in_tcp then Inl s
          else if tcp_ack_num in_tcp \<noteq> my_next_seq s then Inl s
          else Inr (s\<lparr>sk_state := Established\<rparr>, seq_to_ack + 1, False, False)
      | SynReceived \<Rightarrow>
          if \<not> is_ack in_tcp \<or> tcp_ack_num in_tcp \<noteq> my_next_seq s then Inl s
          else Inl (s\<lparr>sk_state := Established, sk_another_ip := Some (ip_src (tcp_ip in_tcp)),
                      sk_another_port := Some (tcp_src_port in_tcp),
                      sk_self_ip := Some (ip_dst (tcp_ip in_tcp)),
                      sk_self_port := Some (tcp_dst_port in_tcp)\<rparr>)
      | Established \<Rightarrow>
          let (s, seq_to_ack, fin) =
            (if is_fin in_tcp then (s\<lparr>sk_state := LastAck\<rparr>, seq_to_ack + 1, True) else (s, seq_to_ack, False));
              seq_to_ack = seq_to_ack + word_of_nat (length data)
          in Inr (s\<lparr>rx_data := rx_data s @ data\<rparr>, seq_to_ack, False, fin)
      | LastAck \<Rightarrow>
          if is_ack in_tcp then Inl (s\<lparr>sk_state := if keep_listening s then Listen else Closed\<rparr>)
          else Inr (s, seq_to_ack, False, False)
      | _ \<Rightarrow> Inl s)"

definition tcp_payload :: "bytes \<Rightarrow> tcp_packet \<Rightarrow> bytes res" where
  "tcp_payload in_packet in_tcp =
     and_then (slice_of in_packet (34 + header_len in_tcp) (length in_packet)) (\<lambda>rest.
     and_then (data_length (tcp_ip in_tcp)) (\<lambda>n.
     and_then (usize_sub n (header_len in_tcp)) (\<lambda>n. slice_of rest 0 n)))"

definition handle_rx :: "tcp_socket \<Rightarrow> bytes \<Rightarrow> (tcp_socket \<times> bytes option) res" where
  "handle_rx s in_bytes =
     and_then (from_slice 54 tcp_of in_bytes) (\<lambda>in_tcp.
     and_then (tcp_payload in_bytes in_tcp) (\<lambda>data.
     let from_ip = ip_dst (tcp_ip in_tcp); to_ip = ip_src (tcp_ip in_tcp);
         from_port = tcp_dst_port in_tcp; to_port = tcp_src_port in_tcp; seq = my_next_seq s
     in case rx_match s in_tcp data of
          Inl s' \<Rightarrow> Inr (s', None)
        | Inr (s', seq_to_ack, syn, fin) \<Rightarrow>
            let s' = s'\<lparr>last_seq_to_ack := seq_to_ack\<rparr> in
            and_then (gen_tcp_packet to_ip to_port from_ip from_port seq (Some seq_to_ack) syn fin []) (\<lambda>out.
            Inr (s', Some out))))"

definition tcp_poll_tx :: "tcp_socket \<Rightarrow> tcp_socket \<times> (bytes option) res" where
  "tcp_poll_tx s =
     (if tx_data s = [] \<or> \<not> is_established s then (s, Inr None)
      else
        (case (sk_another_ip s, sk_another_port s, sk_self_ip s, sk_self_port s) of
           (None, _) \<Rightarrow> (s, Inl (Err (Failed ''another_ip should be populated'')))
         | (_, None, _) \<Rightarrow> (s, Inl (Err (Failed ''another_port should be populated'')))
         | (_, _, None, _) \<Rightarrow> (s, Inl (Err (Failed ''self_ip should be populated'')))
         | (_, _, _, None) \<Rightarrow> (s, Inl (Err (Failed ''self_port should be populated'')))
         | (Some to_ip, Some to_port, Some from_ip, Some from_port) \<Rightarrow>
             let seq = my_next_seq s; data = tx_data s; s = s\<lparr>tx_data := []\<rparr>
             in if sk_state s = Established then
                  let s = s\<lparr>my_next_seq := seq + word_of_nat (length data)\<rparr>
                  in (s, and_then (gen_tcp_packet to_ip to_port from_ip from_port seq
                                     (Some (last_seq_to_ack s)) False False data) (\<lambda>out. Inr (Some out)))
                else (s, Inl (Err (Failed ''The socket is not ready'')))))"

definition tcp_open :: "tcp_socket \<Rightarrow> (tcp_socket \<times> bytes) res" where
  "tcp_open s =
     and_then (ok_or (sk_another_ip s) (Failed ''another_ip should be populated'')) (\<lambda>to_ip.
     and_then (ok_or (sk_another_port s) (Failed ''another_port should be populated'')) (\<lambda>to_port.
     and_then (ok_or (sk_self_ip s) (Failed ''self_ip should be populated'')) (\<lambda>from_ip.
     and_then (ok_or (sk_self_port s) (Failed ''self_port should be populated'')) (\<lambda>from_port.
     let seq = 1234 in
     and_then (gen_syn_packet to_ip to_port from_ip from_port seq) (\<lambda>syn_packet.
     Inr (s\<lparr>my_next_seq := seq + 1\<rparr>, syn_packet))))))"

subsection \<open>What the generator produces\<close>

text \<open>The sum a receiver takes over the segment and the pseudo header; all ones means that it is intact.\<close>

definition pseudo_header :: "tcp_packet \<Rightarrow> nat \<Rightarrow> bytes" where
  "pseudo_header p n =
     be_word (ip_src (tcp_ip p)) @ be_word (ip_dst (tcp_ip p)) @ [0, ip_protocol (tcp_ip p)] @
     be_bytes 2 (n mod 65536)"

definition segment_intact :: "bytes \<Rightarrow> bool" where
  "segment_intact bs \<longleftrightarrow>
     (let p = tcp_of bs; n = total_size (tcp_ip p) - 20
      in ones_fold (wsum (take n (drop 34 bs)) + wsum (pseudo_header p n)) = 65535)"

definition sent_tcp ::
  "ip_addr \<Rightarrow> u16 \<Rightarrow> ip_addr \<Rightarrow> u16 \<Rightarrow> u32 \<Rightarrow> u32 option \<Rightarrow> bool \<Rightarrow> bool \<Rightarrow> nat \<Rightarrow> tcp_packet" where
  "sent_tcp to_ip to_port from_ip from_port seq ack syn fin len =
     (let p = tcp_headers to_ip to_port from_ip from_port seq ack syn fin
      in p\<lparr>tcp_ip := set_data_length (tcp_ip p) (20 + len)\<rparr>)"

lemma header_len_headers [simp]: "header_len (tcp_headers a b c d e f g h) = 20"
proof -
  have "tcp_flags0 (tcp_headers a b c d e f g h) = push_bit 4 5"
    by (simp add: tcp_headers_def Let_def set_header_len_nibble_def tcp_default_def set_fin_def set_syn_def
        set_ack_def split: option.splits)
  then show ?thesis by (simp add: header_len_def)
qed

lemma sent_tcp_fields:
  "tcp_src_port (sent_tcp to_ip to_port from_ip from_port seq ack syn fin len) = from_port"
  "tcp_dst_port (sent_tcp to_ip to_port from_ip from_port seq ack syn fin len) = to_port"
  "tcp_seq_num (sent_tcp to_ip to_port from_ip from_port seq ack syn fin len) = seq"
  "tcp_ack_num (sent_tcp to_ip to_port from_ip from_port seq ack syn fin len) = (case ack of Some a \<Rightarrow> a | None \<Rightarrow> 0)"
  "ip_src (tcp_ip (sent_tcp to_ip to_port from_ip from_port seq ack syn fin len)) = from_ip"
  "ip_dst (tcp_ip (sent_tcp to_ip to_port from_ip from_port seq ack syn fin len)) = to_ip"
  "ip_protocol (tcp_ip (sent_tcp to_ip to_port from_ip from_port seq ack syn fin len)) = proto_tcp"
  "header_len (sent_tcp to_ip to_port from_ip from_port seq ack syn fin len) = 20"
  "is_syn (sent_tcp to_ip to_port from_ip from_port seq ack syn fin len) = syn"
  "is_fin (sent_tcp to_ip to_port from_ip from_port seq ack syn fin len) = fin"
  "is_ack (sent_tcp to_ip to_port from_ip from_port seq ack syn fin len) = (ack \<noteq> None)"
  using header_len_headers [of to_ip to_port from_ip from_port seq ack syn fin]
  by (auto simp: sent_tcp_def tcp_headers_def Let_def set_header_len_nibble_def tcp_default_def set_fin_def
      set_syn_def set_ack_def ip_new_def set_data_length_def ip_default_def set_src_def set_dst_def
      is_syn_def is_fin_def is_ack_def total_size_def unat_of_nat header_len_def split: option.splits)

lemma sent_tcp_total_size:
  assumes "len \<le> 65495"
  shows "total_size (tcp_ip (sent_tcp to_ip to_port from_ip from_port seq ack syn fin len)) = 40 + len"
proof -
  have "unat (word_of_nat (40 + len) :: u16) = 40 + len"
    using assms by (simp only: unat_of_nat) simp
  then show ?thesis
    by (simp add: sent_tcp_def Let_def set_data_length_def total_size_def ac_simps del: of_nat_add)
qed

lemma feed_Inr:
  assumes "unat (csum_sum g) + wsum data < 2 ^ 32"
  shows "\<exists>g'. feed g data = Inr g' \<and> unat (csum_sum g') = unat (csum_sum g) + wsum data"
  using feed_sum [OF assms] by fastforce

lemma feed_list:
  assumes "unat (csum_sum g) + wsum a + wsum b + wsum c + wsum d + wsum e < 2 ^ 32"
  shows "\<exists>g'. and_then (feed g a) (\<lambda>g. and_then (feed g b) (\<lambda>g. and_then (feed g c) (\<lambda>g.
      and_then (feed g d) (\<lambda>g. feed g e)))) = Inr g' \<and>
    unat (csum_sum g') = unat (csum_sum g) + wsum a + wsum b + wsum c + wsum d + wsum e"
proof -
  obtain g1 where 1: "feed g a = Inr g1" "unat (csum_sum g1) = unat (csum_sum g) + wsum a"
    using feed_Inr [of g a] assms by auto
  obtain g2 where 2: "feed g1 b = Inr g2" "unat (csum_sum g2) = unat (csum_sum g1) + wsum b"
    using feed_Inr [of g1 b] 1 assms by auto
  obtain g3 where 3: "feed g2 c = Inr g3" "unat (csum_sum g3) = unat (csum_sum g2) + wsum c"
    using feed_Inr [of g2 c] 1 2 assms by auto
  obtain g4 where 4: "feed g3 d = Inr g4" "unat (csum_sum g4) = unat (csum_sum g3) + wsum d"
    using feed_Inr [of g3 d] 1 2 3 assms by auto
  obtain g5 where 5: "feed g4 e = Inr g5" "unat (csum_sum g5) = unat (csum_sum g4) + wsum e"
    using feed_Inr [of g4 e] 1 2 3 4 assms by auto
  from 1 2 3 4 5 show ?thesis by simp
qed

lemma tcp_segment_split:
  "drop 34 (tcp_bytes p) =
     (be_word (tcp_src_port p) @ be_word (tcp_dst_port p) @ be_word (tcp_seq_num p) @ be_word (tcp_ack_num p) @
      be_word (tcp_flags0 p) @ be_word (tcp_flags1 p) @ be_word (tcp_window p)) @
     be_word (tcp_csum p) @ be_word (tcp_urgent_ptr p)"
  by (simp add: tcp_bytes_def ip.length_as_slice)

lemma wsum_segment_csum:
  "wsum (drop 34 (tcp_bytes (p\<lparr>tcp_csum := c\<rparr>)) @ r) =
   unat c + wsum (drop 34 (tcp_bytes (p\<lparr>tcp_csum := 0\<rparr>)) @ r)"
proof -
  have w: "wsum (be_word d @ r) = unat d + wsum r" for d :: u16 and r
    using unsigned_less [of d, where ?'a = nat] by (simp add: be_word_def wsum_append wsum_be_bytes)
  have "wsum ((a @ be_word d) @ r) = unat d + wsum ((a @ be_word (0 :: u16)) @ r)" if "even (length a)"
    for a and d :: u16 and r
    using that by (simp add: wsum_append w)
  from this [of "be_word (tcp_src_port p) @ be_word (tcp_dst_port p) @ be_word (tcp_seq_num p) @
      be_word (tcp_ack_num p) @ be_word (tcp_flags0 p) @ be_word (tcp_flags1 p) @ be_word (tcp_window p)" c
      "be_word (tcp_urgent_ptr p) @ r"]
  show ?thesis unfolding tcp_segment_split append_assoc by simp
qed

lemma write_at_append:
  "length a = n \<Longrightarrow> length old = length b \<Longrightarrow> write_at (a @ old @ c) n b = Inr (a @ b @ c)"
  by (simp add: write_at_def)

lemma wsum_pseudo_header:
  "wsum (pseudo_header p n) =
     wsum (be_word (ip_src (tcp_ip p))) + wsum (be_word (ip_dst (tcp_ip p))) +
     wsum [0, ip_protocol (tcp_ip p)] + wsum (be_bytes 2 (n mod 65536))"
  unfolding pseudo_header_def by (subst wsum_append; simp)+

text \<open>Feeding the segment and the pseudo header gives a checksum that the receiver's sum confirms.\<close>

lemma tcp_csum_verifies:
  assumes n: "length payload \<le> 65495" and c0: "tcp_csum p = 0"
    and tot: "total_size (tcp_ip p) = 40 + length payload"
  shows "\<exists>g. and_then (feed csum_gen_new (drop 34 (tcp_bytes p) @ payload)) (\<lambda>g.
      and_then (feed g (be_word (ip_src (tcp_ip p)))) (\<lambda>g. and_then (feed g (be_word (ip_dst (tcp_ip p)))) (\<lambda>g.
      and_then (feed g [0, ip_protocol (tcp_ip p)]) (\<lambda>g. feed g (be_bytes 2 ((20 + length payload) mod 65536)))))) = Inr g \<and>
    segment_intact (tcp_bytes (p\<lparr>tcp_csum := snd (checksum g)\<rparr>) @ payload @ pad)"
proof -
  let ?n = "20 + length payload"
  let ?seg = "drop 34 (tcp_bytes p) @ payload"
  let ?S = "wsum ?seg + wsum (pseudo_header p ?n)"
  have "length ?seg = ?n" "length (pseudo_header p ?n) = 12"
    by (simp_all add: tcp.length_as_slice pseudo_header_def)
  then have "?S < 2 ^ 32"
    using wsum_bound [of ?seg] wsum_bound [of "pseudo_header p ?n"] n by simp
  then obtain g where g: "and_then (feed csum_gen_new ?seg) (\<lambda>g.
      and_then (feed g (be_word (ip_src (tcp_ip p)))) (\<lambda>g. and_then (feed g (be_word (ip_dst (tcp_ip p)))) (\<lambda>g.
      and_then (feed g [0, ip_protocol (tcp_ip p)]) (\<lambda>g. feed g (be_bytes 2 (?n mod 65536)))))) = Inr g"
    and sum: "unat (csum_sum g) = ?S"
    using feed_list [of csum_gen_new ?seg "be_word (ip_src (tcp_ip p))" "be_word (ip_dst (tcp_ip p))"
        "[0, ip_protocol (tcp_ip p)]" "be_bytes 2 (?n mod 65536)"]
    by (auto simp: wsum_pseudo_header csum_gen_new_def add.assoc)
  have zero: "p\<lparr>tcp_csum := 0\<rparr> = p" using c0 by (cases p) simp
  define c where "c = snd (checksum g)"
  let ?q = "p\<lparr>tcp_csum := c\<rparr>"
  have "unat c = 65535 - ones_fold ?S" unfolding c_def checksum_complement sum ..
  moreover have "wsum (drop 34 (tcp_bytes ?q) @ payload) = unat c + wsum ?seg"
    using wsum_segment_csum [where p = p and c = c and r = payload] zero by simp
  ultimately have "ones_fold (wsum (drop 34 (tcp_bytes ?q) @ payload) + wsum (pseudo_header ?q ?n)) = 65535"
    using ones_fold_complement [of ?S] by (simp add: pseudo_header_def ac_simps)
  moreover have "take ?n (drop 34 (tcp_bytes ?q @ payload @ pad)) = drop 34 (tcp_bytes ?q) @ payload"
    by (simp add: tcp.length_as_slice)
  ultimately have "segment_intact (tcp_bytes ?q @ payload @ pad)"
    using tot by (simp add: segment_intact_def tcp.of_bytes_as_slice)
  then show ?thesis using g c_def by blast
qed

text \<open>A generated packet is its headers, the payload and at most one byte of padding.\<close>

lemma gen_tcp_packet_ok:
  assumes "length payload \<le> 65495"
  shows "\<exists>c pad. gen_tcp_packet to_ip to_port from_ip from_port seq ack syn fin payload =
           Inr (tcp_bytes ((sent_tcp to_ip to_port from_ip from_port seq ack syn fin (length payload))\<lparr>tcp_csum := c\<rparr>)
                @ payload @ pad) \<and>
         segment_intact (tcp_bytes ((sent_tcp to_ip to_port from_ip from_port seq ack syn fin (length payload))
           \<lparr>tcp_csum := c\<rparr>) @ payload @ pad)"
proof -
  let ?n = "length payload"
  define H where "H = sent_tcp to_ip to_port from_ip from_port seq ack syn fin ?n"
  have hd: "(tcp_headers to_ip to_port from_ip from_port seq ack syn fin)\<lparr>tcp_ip := set_data_length
      (tcp_ip (tcp_headers to_ip to_port from_ip from_port seq ack syn fin)) (20 + ?n)\<rparr> = H"
    by (simp add: H_def sent_tcp_def Let_def)
  define pad :: bytes where "pad = replicate (next_multiple_of_2 (54 + ?n) - (54 + ?n)) 0"
  have c0: "tcp_csum H = 0"
    by (simp add: H_def sent_tcp_def tcp_headers_def Let_def set_header_len_nibble_def tcp_default_def set_fin_def
      set_syn_def set_ack_def split: option.splits)
  have fields: "ip_src (tcp_ip H) = from_ip" "ip_dst (tcp_ip H) = to_ip" "ip_protocol (tcp_ip H) = proto_tcp"
    "total_size (tcp_ip H) = 40 + ?n"
    using assms by (simp_all add: H_def sent_tcp_fields sent_tcp_total_size)
  have len: "length (tcp_bytes p) = 54" for p by (rule tcp.length_as_slice)
  have zeros: "replicate (next_multiple_of_2 (54 + ?n)) 0 = replicate 54 (0 :: u8) @ replicate ?n 0 @ pad"
    by (simp add: pad_def next_multiple_of_2_def flip: replicate_add)
  have w1: "write_at (replicate 54 0 @ replicate ?n 0 @ pad) 0 (tcp_bytes H) = Inr (tcp_bytes H @ replicate ?n 0 @ pad)"
    using write_at_append [of "[]" 0 "replicate 54 0" "tcp_bytes H" "replicate ?n 0 @ pad"] by (simp add: len)
  have w2: "write_at (tcp_bytes H @ replicate ?n 0 @ pad) 54 payload = Inr (tcp_bytes H @ payload @ pad)"
    by (rule write_at_append) (simp_all add: len)
  let ?bs = "tcp_bytes H @ payload @ pad" and ?seg = "drop 34 (tcp_bytes H) @ payload"
  have seg: "slice_of ?bs 34 (54 + ?n) = Inr ?seg"
    by (simp add: slice_of_def len)
  have fs: "from_slice 54 tcp_of ?bs = Inr H"
    by (simp add: from_slice_def len tcp.of_bytes_as_slice)
  obtain g where g: "and_then (feed csum_gen_new ?seg) (\<lambda>g.
      and_then (feed g (be_word (ip_src (tcp_ip H)))) (\<lambda>g. and_then (feed g (be_word (ip_dst (tcp_ip H)))) (\<lambda>g.
      and_then (feed g [0, ip_protocol (tcp_ip H)]) (\<lambda>g. feed g (be_bytes 2 ((20 + ?n) mod 65536)))))) = Inr g"
    and ok: "segment_intact (tcp_bytes (H\<lparr>tcp_csum := snd (checksum g)\<rparr>) @ payload @ pad)"
    using tcp_csum_verifies [of payload H pad] assms fields(4) c0 by blast
  have "gen_tcp_packet to_ip to_port from_ip from_port seq ack syn fin payload =
      and_then (and_then (feed csum_gen_new ?seg) (\<lambda>g.
      and_then (feed g (be_word (ip_src (tcp_ip H)))) (\<lambda>g. and_then (feed g (be_word (ip_dst (tcp_ip H)))) (\<lambda>g.
      and_then (feed g [0, ip_protocol (tcp_ip H)]) (\<lambda>g. feed g (be_bytes 2 ((20 + ?n) mod 65536)))))))
      (\<lambda>g. update_slice 54 tcp_bytes tcp_of (\<lambda>p. p\<lparr>tcp_csum := snd (checksum g)\<rparr>) ?bs)"
    unfolding gen_tcp_packet_def Let_def header_len_headers hd add.assoc [symmetric]
    by (simp add: zeros w1 w2 seg fs and_then_assoc)
  also have "\<dots> = Inr (tcp_bytes (H\<lparr>tcp_csum := snd (checksum g)\<rparr>) @ payload @ pad)"
    unfolding g by (simp add: update_slice_def len tcp.of_bytes_as_slice)
  finally show ?thesis using ok H_def by blast
qed

subsection \<open>Two sockets talking\<close>

text \<open>A frame that carries the packet \<open>sent_tcp ...\<close> with some checksum.\<close>

definition carries ::
  "bytes \<Rightarrow> ip_addr \<Rightarrow> u16 \<Rightarrow> ip_addr \<Rightarrow> u16 \<Rightarrow> u32 \<Rightarrow> u32 option \<Rightarrow> bool \<Rightarrow> bool \<Rightarrow> bytes \<Rightarrow> bool" where
  "carries bs to_ip to_port from_ip from_port seq ack syn fin payload \<longleftrightarrow>
     length payload \<le> 65495 \<and> segment_intact bs \<and>
     (\<exists>c pad. bs = tcp_bytes ((sent_tcp to_ip to_port from_ip from_port seq ack syn fin (length payload))
                   \<lparr>tcp_csum := c\<rparr>) @ payload @ pad)"

lemma gen_tcp_packet_carries:
  assumes "length payload \<le> 65495"
  shows "\<exists>bs. gen_tcp_packet to_ip to_port from_ip from_port seq ack syn fin payload = Inr bs \<and>
    carries bs to_ip to_port from_ip from_port seq ack syn fin payload"
  using gen_tcp_packet_ok [OF assms] assms unfolding carries_def by blast

lemma csum_irrelevant [simp]:
  "is_syn (p\<lparr>tcp_csum := c\<rparr>) = is_syn p" "is_fin (p\<lparr>tcp_csum := c\<rparr>) = is_fin p"
  "is_ack (p\<lparr>tcp_csum := c\<rparr>) = is_ack p" "header_len (p\<lparr>tcp_csum := c\<rparr>) = header_len p"
  by (simp_all add: is_syn_def is_fin_def is_ack_def header_len_def)

lemma rx_match_csum [simp]: "rx_match s (p\<lparr>tcp_csum := c\<rparr>) data = rx_match s p data"
  by (cases "sk_state s") (simp_all add: rx_match_def)

lemma tcp_payload_append:
  assumes "header_len p = 20" "total_size (tcp_ip p) = 40 + length payload"
  shows "tcp_payload (tcp_bytes p @ payload @ pad) p = Inr payload"
  using assms by (simp add: tcp_payload_def slice_of_def tcp.length_as_slice data_length_def usize_sub_def)

text \<open>What a handler does with a frame depends only on the fields it carries.\<close>

lemma handle_rx_carries:
  assumes "carries bs to_ip to_port from_ip from_port seq ack syn fin payload"
  shows "handle_rx s bs =
     (case rx_match s (sent_tcp to_ip to_port from_ip from_port seq ack syn fin (length payload)) payload of
        Inl s' \<Rightarrow> Inr (s', None)
      | Inr (s', a, syn, fin) \<Rightarrow>
          and_then (gen_tcp_packet from_ip from_port to_ip to_port (my_next_seq s) (Some a) syn fin []) (\<lambda>out.
            Inr (s'\<lparr>last_seq_to_ack := a\<rparr>, Some out)))"
proof -
  let ?p = "sent_tcp to_ip to_port from_ip from_port seq ack syn fin (length payload)"
  obtain c pad where bs: "bs = tcp_bytes (?p\<lparr>tcp_csum := c\<rparr>) @ payload @ pad" and n: "length payload \<le> 65495"
    using assms by (auto simp: carries_def)
  have "tcp_payload bs (?p\<lparr>tcp_csum := c\<rparr>) = Inr payload"
    unfolding bs by (rule tcp_payload_append) (use n in \<open>simp_all add: sent_tcp_fields sent_tcp_total_size\<close>)
  moreover have "from_slice 54 tcp_of bs = Inr (?p\<lparr>tcp_csum := c\<rparr>)"
    unfolding bs by (rule tcp.from_as_slice)
  ultimately show ?thesis
    by (simp add: handle_rx_def sent_tcp_fields Let_def split: sum.splits prod.splits)
qed

definition client_socket :: "ip_addr \<Rightarrow> u16 \<Rightarrow> ip_addr \<Rightarrow> u16 \<Rightarrow> tcp_socket" where
  "client_socket self_ip self_port dst_ip dst_port =
     (new_client dst_ip dst_port)\<lparr>sk_self_ip := Some self_ip, sk_self_port := Some self_port\<rparr>"

text \<open>\<open>a\<close> and \<open>b\<close> are the two ends of one established connection.\<close>

definition connected :: "tcp_socket \<Rightarrow> tcp_socket \<Rightarrow> bool" where
  "connected a b \<longleftrightarrow>
     is_established a \<and> is_established b \<and>
     sk_self_ip a \<noteq> None \<and> sk_self_port a \<noteq> None \<and> sk_another_ip a \<noteq> None \<and> sk_another_port a \<noteq> None \<and>
     sk_self_ip b = sk_another_ip a \<and> sk_self_port b = sk_another_port a \<and>
     sk_another_ip b = sk_self_ip a \<and> sk_another_port b = sk_self_port a"

lemma handshake:
  obtains c1 syn s1 synack c2 ack s2 where
    "tcp_open (client_socket cip cport sip sport) = Inr (c1, syn)"
    "handle_rx (new_server sport) syn = Inr (s1, Some synack)"
    "handle_rx c1 synack = Inr (c2, Some ack)"
    "handle_rx s1 ack = Inr (s2, None)"
    "connected c2 s2" "connected s2 c2"
    "last_seq_to_ack c2 = my_next_seq s2" "last_seq_to_ack s2 = my_next_seq c2"
    "segment_intact syn" "segment_intact synack" "segment_intact ack"
proof -
  let ?c = "client_socket cip cport sip sport"
  obtain syn where syn: "gen_tcp_packet sip sport cip cport 1234 None True False [] = Inr syn"
    "carries syn sip sport cip cport 1234 None True False []"
    using gen_tcp_packet_carries [of "[]"] by force
  let ?c1 = "?c\<lparr>my_next_seq := 1235\<rparr>"
  have 1: "tcp_open ?c = Inr (?c1, syn)"
    using syn(1) by (simp add: tcp_open_def client_socket_def new_client_def gen_syn_packet_def)
  obtain synack where synack: "gen_tcp_packet cip cport sip sport 0 (Some 1235) True False [] = Inr synack"
    "carries synack cip cport sip sport 0 (Some 1235) True False []"
    using gen_tcp_packet_carries [of "[]"] by force
  let ?s1 = "(new_server sport)\<lparr>my_next_seq := 1, sk_state := SynReceived, last_seq_to_ack := 1235\<rparr>"
  have 2: "handle_rx (new_server sport) syn = Inr (?s1, Some synack)"
    using synack(1) by (simp add: handle_rx_carries [OF syn(2)] rx_match_def sent_tcp_fields new_server_def)
  obtain ack where ack: "gen_tcp_packet sip sport cip cport 1235 (Some 1) False False [] = Inr ack"
    "carries ack sip sport cip cport 1235 (Some 1) False False []"
    using gen_tcp_packet_carries [of "[]"] by force
  let ?c2 = "?c1\<lparr>sk_state := Established, last_seq_to_ack := 1\<rparr>"
  have 3: "handle_rx ?c1 synack = Inr (?c2, Some ack)"
    using ack(1)
    by (simp add: handle_rx_carries [OF synack(2)] rx_match_def sent_tcp_fields client_socket_def new_client_def)
  let ?s2 = "?s1\<lparr>sk_state := Established, sk_another_ip := Some cip, sk_another_port := Some cport,
                 sk_self_ip := Some sip, sk_self_port := Some sport\<rparr>"
  have 4: "handle_rx ?s1 ack = Inr (?s2, None)"
    by (simp add: handle_rx_carries [OF ack(2)] rx_match_def sent_tcp_fields new_server_def)
  show ?thesis
    by (rule that [OF 1 2 3 4]) (use syn(2) synack(2) ack(2) in
      \<open>simp_all add: connected_def is_established_def client_socket_def new_client_def new_server_def carries_def\<close>)
qed

text \<open>What one end sends arrives at the other: the data is appended there, and both agree on the sequence number.\<close>

lemma transfer:
  assumes "connected a b" "tx_data a = data" "data \<noteq> []" "length data \<le> 65495"
  obtains a' bs b' reply where
    "tcp_poll_tx a = (a', Inr (Some bs))" "handle_rx b bs = Inr (b', Some reply)"
    "tx_data a' = []" "rx_data b' = rx_data b @ data"
    "last_seq_to_ack b' = my_next_seq a'" "my_next_seq a' = my_next_seq a + word_of_nat (length data)"
    "connected a' b'" "segment_intact bs" "segment_intact reply"
proof -
  obtain aip aport bip bport where addr: "sk_self_ip a = Some aip" "sk_self_port a = Some aport"
    "sk_another_ip a = Some bip" "sk_another_port a = Some bport"
    using assms(1) by (auto simp: connected_def)
  have est: "sk_state a = Established" "sk_state b = Established"
    using assms(1) by (simp_all add: connected_def is_established_def)
  obtain bs where bs: "gen_tcp_packet bip bport aip aport (my_next_seq a) (Some (last_seq_to_ack a)) False False data = Inr bs"
    "carries bs bip bport aip aport (my_next_seq a) (Some (last_seq_to_ack a)) False False data"
    using gen_tcp_packet_carries [OF assms(4)] by force
  let ?n = "my_next_seq a + word_of_nat (length data)"
  let ?a = "a\<lparr>tx_data := [], my_next_seq := ?n\<rparr>"
  have 1: "tcp_poll_tx a = (?a, Inr (Some bs))"
    using assms(2,3) addr est bs(1) by (simp add: tcp_poll_tx_def is_established_def Let_def)
  obtain reply where reply: "gen_tcp_packet aip aport bip bport (my_next_seq b) (Some ?n) False False [] = Inr reply"
    "carries reply aip aport bip bport (my_next_seq b) (Some ?n) False False []"
    using gen_tcp_packet_carries [of "[]"] by force
  let ?b = "b\<lparr>rx_data := rx_data b @ data, last_seq_to_ack := ?n\<rparr>"
  have 2: "handle_rx b bs = Inr (?b, Some reply)"
    using est reply(1) by (simp add: handle_rx_carries [OF bs(2)] rx_match_def sent_tcp_fields)
  show ?thesis
    by (rule that [OF 1 2]) (use assms(1) bs(2) reply(2) in \<open>simp_all add: connected_def is_established_def carries_def\<close>)
qed

subsection \<open>The states a socket goes through\<close>

inductive tcp_reachable :: "tcp_socket \<Rightarrow> bool" where
  server: "tcp_reachable (new_server port)"
| client: "tcp_reachable (client_socket self_ip self_port dst_ip dst_port)"
| opened: "tcp_reachable s \<Longrightarrow> tcp_open s = Inr (s', out) \<Longrightarrow> tcp_reachable s'"
| received: "tcp_reachable s \<Longrightarrow> handle_rx s bs = Inr (s', out) \<Longrightarrow> tcp_reachable s'"
| polled: "tcp_reachable s \<Longrightarrow> tcp_poll_tx s = (s', out) \<Longrightarrow> tcp_reachable s'"
| written: "tcp_reachable s \<Longrightarrow> tcp_reachable (s\<lparr>tx_data := tx_data s @ data\<rparr>)"
| taken: "tcp_reachable s \<Longrightarrow> tcp_reachable (s\<lparr>rx_data := drop n (rx_data s)\<rparr>)"

definition addressed :: "tcp_socket \<Rightarrow> bool" where
  "addressed s \<longleftrightarrow> sk_self_ip s \<noteq> None \<and> sk_self_port s \<noteq> None \<and> sk_another_ip s \<noteq> None \<and> sk_another_port s \<noteq> None"

text \<open>
  A listening server may lack addresses, every other socket has them once it is past the handshake, and
  only a server listens and only a client closes.
\<close>

definition tcp_inv :: "tcp_socket \<Rightarrow> bool" where
  "tcp_inv s \<longleftrightarrow>
     (if keep_listening s then sk_state s \<in> {Listen, SynReceived, Established, LastAck}
      else sk_state s \<in> {SynSent, Established, LastAck, Closed} \<and> addressed s) \<and>
     (sk_state s = Established \<longrightarrow> addressed s)"

lemma rx_match_inv:
  assumes "tcp_inv s"
  shows "case rx_match s p data of Inl s' \<Rightarrow> tcp_inv s' | Inr (s', a, syn, fin) \<Rightarrow> tcp_inv s'"
  using assms
  by (cases "sk_state s") (auto simp: rx_match_def tcp_inv_def addressed_def Let_def split: if_splits)

lemma tcp_inv_frame [simp]:
  "tcp_inv (s\<lparr>last_seq_to_ack := a\<rparr>) = tcp_inv s" "tcp_inv (s\<lparr>tx_data := d\<rparr>) = tcp_inv s"
  "tcp_inv (s\<lparr>rx_data := d\<rparr>) = tcp_inv s" "tcp_inv (s\<lparr>my_next_seq := q\<rparr>) = tcp_inv s"
  by (simp_all add: tcp_inv_def addressed_def)

lemma handle_rx_cases:
  assumes "handle_rx s bs = Inr (s', out)"
  shows "\<exists>p data. (case rx_match s p data of
    Inl t \<Rightarrow> s' = t | Inr (t, a, syn, fin) \<Rightarrow> s' = t\<lparr>last_seq_to_ack := a\<rparr>)"
proof -
  obtain p data where pd: "from_slice 54 tcp_of bs = Inr p" "tcp_payload bs p = Inr data"
    using assms by (auto simp: handle_rx_def and_then_eq_Inr)
  show ?thesis
    by (rule exI [of _ p], rule exI [of _ data])
      (use assms pd in \<open>auto simp: handle_rx_def Let_def and_then_eq_Inr split: sum.splits\<close>)
qed

lemma handle_rx_inv:
  assumes "tcp_inv s" "handle_rx s bs = Inr (s', out)"
  shows "tcp_inv s'"
proof -
  obtain p data where "case rx_match s p data of
      Inl t \<Rightarrow> s' = t | Inr (t, a, syn, fin) \<Rightarrow> s' = t\<lparr>last_seq_to_ack := a\<rparr>"
    using handle_rx_cases [OF assms(2)] by blast
  with rx_match_inv [OF assms(1), of p data] show ?thesis by (auto split: sum.splits prod.splits)
qed

lemma tcp_poll_tx_frame:
  "tcp_poll_tx s = (s', out) \<Longrightarrow> \<exists>d q. s' = s\<lparr>tx_data := d, my_next_seq := q\<rparr>"
  by (cases s) (auto simp: tcp_poll_tx_def Let_def split: if_splits option.splits)

lemma tcp_reachable_inv: "tcp_reachable s \<Longrightarrow> tcp_inv s"
proof (induction rule: tcp_reachable.induct)
  case (received s bs s' out)
  then show ?case using handle_rx_inv by blast
next
  case (polled s s' out)
  then show ?case using tcp_poll_tx_frame [OF polled(2)] by auto
qed (auto simp: tcp_inv_def addressed_def new_server_def client_socket_def new_client_def tcp_open_def
  and_then_eq_Inr Let_def)

lemma poll_tx_populated:
  assumes "tcp_inv s" "length (tx_data s) \<le> 65495"
  shows "\<exists>s' out. tcp_poll_tx s = (s', Inr out)"
proof (cases "tx_data s = [] \<or> \<not> is_established s")
  case True
  then show ?thesis by (auto simp: tcp_poll_tx_def)
next
  case False
  then obtain aip aport bip bport where addr: "sk_self_ip s = Some aip" "sk_self_port s = Some aport"
    "sk_another_ip s = Some bip" "sk_another_port s = Some bport" and "sk_state s = Established"
    using assms(1) by (auto simp: tcp_inv_def addressed_def is_established_def)
  moreover obtain bs where "gen_tcp_packet bip bport aip aport (my_next_seq s) (Some (last_seq_to_ack s)) False False
      (tx_data s) = Inr bs"
    using gen_tcp_packet_carries [OF assms(2)] by force
  ultimately show ?thesis using False by (simp add: tcp_poll_tx_def is_established_def Let_def)
qed

end
