(* ===== verification/Rtl8139.thy ===== *)
theory Rtl8139
  imports Packets
begin

text \<open>
  The network card driver of \<open>os/src/rtl8139.rs\<close>: the receive ring that the card writes, the four
  transmit slots, and the two polling loops.  Port reads are an argument (the value the card returns
  at each read), port writes are collected in a list.  A raw access outside the receive buffer is
  \<open>UB\<close>.
\<close>

definition RTL8139_RXBUF_SIZE :: nat where "RTL8139_RXBUF_SIZE = 9708"

record rx_context =
  rx_buf :: bytes
  rx_pending :: "bytes list"
  rx_next_index :: nat
  rx_packet_count :: nat

definition rx_context_new :: rx_context where
  "rx_context_new =
     \<lparr>rx_buf = replicate RTL8139_RXBUF_SIZE 0, rx_pending = [], rx_next_index = 0, rx_packet_count = 0\<rparr>"

record tx_context =
  tx_pending :: "bytes list"
  tx_queued :: "bytes option list"
  tx_next_index :: nat
  tx_packet_count :: nat

definition tx_context_new :: tx_context where
  "tx_context_new =
     \<lparr>tx_pending = [], tx_queued = replicate 4 None, tx_next_index = 0, tx_packet_count = 0\<rparr>"

record rtl8139 =
  rtl_io_base :: nat
  rtl_eth_addr :: eth_addr
  rtl_rx :: rx_context
  rtl_tx :: tx_context

datatype port_write = Out16 nat u16 | Out32 nat u32

definition rtl_push_packet :: "rtl8139 \<Rightarrow> bytes \<Rightarrow> rtl8139 \<times> unit res" where
  "rtl_push_packet d packet =
     (d\<lparr>rtl_tx := (rtl_tx d)\<lparr>tx_pending := tx_pending (rtl_tx d) @ [packet]\<rparr>\<rparr>, Inr ())"

definition rtl_pop_packet :: "rtl8139 \<Rightarrow> rtl8139 \<times> bytes res" where
  "rtl_pop_packet d =
     (case rx_pending (rtl_rx d) of
        [] \<Rightarrow> (d, Inl (Err (Failed ''No packets'')))
      | p # ps \<Rightarrow> (d\<lparr>rtl_rx := (rtl_rx d)\<lparr>rx_pending := ps\<rparr>\<rparr>, Inr p))"

subsection \<open>Transmission\<close>

text \<open>
  One call of \<open>poll_tx\<close>.  \<open>ptr\<close> gives the address of a boxed packet, \<open>tsd\<close> the value of the status
  register of the slot at each read, in the order of the reads.  The result is the new context, the
  port writes and the return value.
\<close>

definition tx_done :: "u32 \<Rightarrow> bool" where
  "tx_done cmd \<longleftrightarrow> cmd AND push_bit 13 1 \<noteq> 0 \<and> cmd AND push_bit 15 1 \<noteq> 0"

function rtl_poll_tx ::
  "nat \<Rightarrow> (bytes \<Rightarrow> nat) \<Rightarrow> (nat \<Rightarrow> u32) \<Rightarrow> nat \<Rightarrow> tx_context \<Rightarrow> tx_context \<times> port_write list \<times> unit res" where
  "rtl_poll_tx io ptr tsd k tx =
     (case index_at (tx_queued tx) (tx_next_index tx) of
        Inl e \<Rightarrow> (tx, [], Inl e)
      | Inr q \<Rightarrow>
         if q \<noteq> None \<and> \<not> tx_done (tsd k) then (tx, [], Inr ())
         else
           let i = tx_next_index tx; tx = tx\<lparr>tx_queued := (tx_queued tx)[i := None]\<rparr> in
           case tx_pending tx of
             [] \<Rightarrow> (tx, [], Inr ())
           | p # ps \<Rightarrow>
             let tx = tx\<lparr>tx_pending := ps\<rparr> in
             if 2 ^ 32 \<le> length p \<or> 2 ^ 32 \<le> ptr p then (tx, [], Inl (Err TryFromIntError))
             else
               let tx = tx\<lparr>tx_queued := (tx_queued tx)[i := Some p], tx_next_index := (i + 1) mod 4,
                           tx_packet_count := tx_packet_count tx + 1\<rparr>;
                   (tx, ws, r) = rtl_poll_tx io ptr tsd (k + 1) tx
               in (tx, Out32 (io + 0x20 + 4 * i) (word_of_nat (ptr p)) #
                       Out32 (io + 0x10 + 4 * i) (word_of_nat (length p)) # ws, r))"
  by pat_completeness auto
termination by (relation "measure (\<lambda>(io, ptr, tsd, k, tx). length (tx_pending tx))") auto

declare rtl_poll_tx.simps [simp del]

subsection \<open>Reception\<close>

definition raw_u16 :: "bytes \<Rightarrow> nat \<Rightarrow> u16 res" where
  "raw_u16 buf i = (if i + 2 \<le> length buf then Inr (word_le (take 2 (drop i buf))) else Inl (UB ''out of bounds''))"

definition erase :: "bytes \<Rightarrow> nat \<Rightarrow> nat \<Rightarrow> bytes" where
  "erase buf i n = take i buf @ replicate n 0 @ drop (i + n) buf"

definition align4 :: "nat \<Rightarrow> nat" where
  "align4 n = (n + 3) div 4 * 4"

text \<open>\<open>(packet_len + 4 + 3) & !3\<close> clears the two low bits.\<close>

definition rx_frame :: "rx_context \<Rightarrow> (bytes \<times> nat) option res" where
  "rx_frame rx =
     (let i = rx_next_index rx; buf = rx_buf rx in
      and_then (raw_u16 buf i) (\<lambda>rx_status.
      if rx_status = 0 then Inr None
      else
        and_then (raw_u16 buf (i + 2)) (\<lambda>packet_len.
        let n = unat packet_len in
        if i + 4 + n \<le> length buf then Inr (Some (take n (drop (i + 4) buf), n)) else Inl (UB ''out of bounds''))))"

definition rx_advance :: "nat \<Rightarrow> rx_context \<Rightarrow> bytes \<Rightarrow> nat \<Rightarrow> rx_context \<times> port_write list" where
  "rx_advance io rx packet n =
     (let i = rx_next_index rx;
          rx = rx\<lparr>rx_pending := rx_pending rx @ [packet], rx_buf := erase (rx_buf rx) i (n + 4)\<rparr>;
          ws = [Out16 (io + 0x38) (word_of_nat i), Out16 (io + 0x3E) 1];
          j = i + align4 (n + 4);
          (j, ws) =
            (if j \<ge> 8192
             then (j mod 8192, ws @ [Out16 (io + 0x38) (word_of_nat (j mod 8192)), Out16 (io + 0x3E) 0x11])
             else (j, ws))
      in (rx\<lparr>rx_next_index := j, rx_packet_count := rx_packet_count rx + 1\<rparr>, ws))"

definition live_bytes :: "bytes \<Rightarrow> nat" where
  "live_bytes buf = length (filter (\<lambda>b. b \<noteq> 0) buf)"

lemma live_bytes_append: "live_bytes (a @ b) = live_bytes a + live_bytes b"
  by (simp add: live_bytes_def)

lemma word_le_zeros: "set bs \<subseteq> {0} \<Longrightarrow> (word_le bs :: 'a :: len word) = 0"
proof -
  assume "set bs \<subseteq> {0}"
  then have "of_le_bytes bs = 0" by (induction bs) auto
  then show ?thesis by (simp add: word_le_def)
qed

lemma live_bytes_erase:
  assumes "i + n \<le> length buf" "2 \<le> n" "(word_le (take 2 (drop i buf)) :: u16) \<noteq> 0"
  shows "live_bytes (erase buf i n) < live_bytes buf"
proof -
  have buf: "buf = take i buf @ take n (drop i buf) @ drop (i + n) buf"
    by (metis add.commute append_take_drop_id drop_drop)
  have "\<not> set (take 2 (drop i buf)) \<subseteq> {0}" using assms(3) word_le_zeros by metis
  then obtain b where b: "b \<in> set (take 2 (drop i buf))" "b \<noteq> 0" by auto
  have "b \<in> set (take n (drop i buf))"
    using set_take_subset_set_take [OF assms(2)] b(1) by (rule subsetD)
  with b(2) have "b \<in> set (filter (\<lambda>b. b \<noteq> 0) (take n (drop i buf)))"
    by (simp only: set_filter mem_Collect_eq simp_thms)
  then have pos: "0 < live_bytes (take n (drop i buf))"
    unfolding live_bytes_def by (rule length_pos_if_in_set)
  have "live_bytes (replicate n 0) = 0" by (simp add: live_bytes_def)
  then have "live_bytes (erase buf i n) = live_bytes (take i buf) + live_bytes (drop (i + n) buf)"
    by (simp only: erase_def live_bytes_append)
  moreover have "live_bytes buf = live_bytes (take i buf) + (live_bytes (take n (drop i buf)) + live_bytes (drop (i + n) buf))"
    using arg_cong [OF buf, of live_bytes] by (simp only: live_bytes_append)
  ultimately show ?thesis using pos by linarith
qed

lemma rx_frame_Some:
  assumes "rx_frame rx = Inr (Some (packet, n))"
  shows "rx_next_index rx + 4 + n \<le> length (rx_buf rx)"
    "(word_le (take 2 (drop (rx_next_index rx) (rx_buf rx))) :: u16) \<noteq> 0"
    "n = unat (word_le (take 2 (drop (rx_next_index rx + 2) (rx_buf rx))) :: u16)"
    "packet = take n (drop (rx_next_index rx + 4) (rx_buf rx))"
  using assms by (auto simp: rx_frame_def raw_u16_def Let_def and_then_eq_Inr split: if_splits)

lemma rx_advance_buf:
  "rx_buf (fst (rx_advance io rx packet n)) = erase (rx_buf rx) (rx_next_index rx) (n + 4)"
  by (simp add: rx_advance_def Let_def)

text \<open>Each turn of the receive loop erases a descriptor with a non-zero status, so the loop ends.\<close>

function rtl_poll_rx :: "nat \<Rightarrow> rx_context \<Rightarrow> (rx_context \<times> port_write list) res" where
  "rtl_poll_rx io rx =
     (case rx_frame rx of
        Inl e \<Rightarrow> Inl e
      | Inr None \<Rightarrow> Inr (rx, [])
      | Inr (Some (packet, n)) \<Rightarrow>
          (case rx_advance io rx packet n of
             (rx', ws) \<Rightarrow> and_then (rtl_poll_rx io rx') (\<lambda>(rx'', ws'). Inr (rx'', ws @ ws'))))"
  by pat_completeness auto
termination
proof (relation "measure (\<lambda>(io, rx). live_bytes (rx_buf rx))")
  fix io rx x y packet n rx' ws
  assume "rx_frame rx = Inr x" "x = Some y" "(packet, n) = y" and adv: "(rx', ws) = rx_advance io rx packet n"
  then have f: "rx_frame rx = Inr (Some (packet, n))" by simp
  have "live_bytes (erase (rx_buf rx) (rx_next_index rx) (n + 4)) < live_bytes (rx_buf rx)"
    by (rule live_bytes_erase) (use rx_frame_Some [OF f] in simp_all)
  then show "((io, rx'), io, rx) \<in> measure (\<lambda>(io, rx). live_bytes (rx_buf rx))"
    using rx_advance_buf [of io rx packet n] adv by (metis case_prod_conv fst_conv in_measure)
qed simp

declare rtl_poll_rx.simps [simp del]

subsection \<open>What the loops do\<close>

definition tx_inv :: "tx_context \<Rightarrow> bool" where
  "tx_inv tx \<longleftrightarrow> length (tx_queued tx) = 4 \<and> tx_next_index tx < 4"

text \<open>The port writes that start the transmission of packets in slots \<open>i\<close>, \<open>i + 1\<close>, and so on round the four slots.\<close>

fun tx_writes :: "nat \<Rightarrow> (bytes \<Rightarrow> nat) \<Rightarrow> nat \<Rightarrow> bytes list \<Rightarrow> port_write list" where
  "tx_writes io ptr i [] = []"
| "tx_writes io ptr i (p # ps) =
     Out32 (io + 0x20 + 4 * i) (word_of_nat (ptr p)) #
     Out32 (io + 0x10 + 4 * i) (word_of_nat (length p)) # tx_writes io ptr ((i + 1) mod 4) ps"

lemma rtl_poll_tx_fifo:
  assumes "tx_inv tx" "\<forall>p\<in>set (tx_pending tx). length p < 2 ^ 32 \<and> ptr p < 2 ^ 32"
  shows "\<exists>n tx'. rtl_poll_tx io ptr tsd k tx =
      (tx', tx_writes io ptr (tx_next_index tx) (take n (tx_pending tx)), Inr ()) \<and>
    n \<le> length (tx_pending tx) \<and> tx_pending tx' = drop n (tx_pending tx) \<and> tx_inv tx' \<and>
    tx_next_index tx' = (tx_next_index tx + n) mod 4 \<and> tx_packet_count tx' = tx_packet_count tx + n"
  using assms
proof (induction "tx_pending tx" arbitrary: tx k)
  case Nil
  then have q: "index_at (tx_queued tx) (tx_next_index tx) = Inr (tx_queued tx ! tx_next_index tx)"
    by (simp add: tx_inv_def index_at_def)
  show ?case
    using Nil by (subst rtl_poll_tx.simps) (auto simp: q tx_inv_def Let_def)
next
  case (Cons p ps)
  let ?i = "tx_next_index tx"
  have q: "index_at (tx_queued tx) ?i = Inr (tx_queued tx ! ?i)"
    using Cons.prems by (simp add: tx_inv_def index_at_def)
  show ?case
  proof (cases "tx_queued tx ! ?i \<noteq> None \<and> \<not> tx_done (tsd k)")
    case True
    then show ?thesis using Cons.prems
      by (intro exI [of _ 0] exI [of _ tx]) (simp add: rtl_poll_tx.simps [of _ _ _ _ tx] q tx_inv_def)
  next
    case False
    define t where "t = tx\<lparr>tx_pending := ps, tx_queued := (tx_queued tx)[?i := Some p],
       tx_next_index := (?i + 1) mod 4, tx_packet_count := tx_packet_count tx + 1\<rparr>"
    have pend: "tx_pending tx = p # ps" using Cons.hyps(2) by simp
    have "tx_inv t" "\<forall>p\<in>set (tx_pending t). length p < 2 ^ 32 \<and> ptr p < 2 ^ 32"
      using Cons.prems pend by (auto simp: t_def tx_inv_def)
    then obtain n tx' where rec: "rtl_poll_tx io ptr tsd (k + 1) t =
        (tx', tx_writes io ptr (tx_next_index t) (take n ps), Inr ())"
      "n \<le> length ps" "tx_pending tx' = drop n ps" "tx_inv tx'" "tx_next_index tx' = (tx_next_index t + n) mod 4"
      "tx_packet_count tx' = tx_packet_count t + n"
      using Cons.hyps(1) [of t "k + 1"] by (auto simp: t_def)
    have b: "\<not> (2 ^ 32 \<le> length p \<or> 2 ^ 32 \<le> ptr p)" using Cons.prems pend by auto
    have "rtl_poll_tx io ptr tsd k tx = (tx', tx_writes io ptr ?i (p # take n ps), Inr ())"
      using False b rec(1) by (subst rtl_poll_tx.simps) (auto simp: q pend Let_def t_def)
    with rec show ?thesis
      by (intro exI [of _ "Suc n"] exI [of _ tx']) (simp add: pend t_def mod_simps)
  qed
qed

text \<open>How the card lays out one received frame: a non-zero status, the length, the bytes, padding to four bytes.\<close>

definition rx_entry :: "u16 \<times> bytes \<Rightarrow> bytes" where
  "rx_entry e = le_word (fst e) @ le_word (word_of_nat (length (snd e)) :: u16) @ snd e @
     replicate (align4 (length (snd e) + 4) - (length (snd e) + 4)) 0"

definition rx_zeroed :: "nat \<Rightarrow> (u16 \<times> bytes) list \<Rightarrow> bytes" where
  "rx_zeroed i es =
     replicate i 0 @ concat (map rx_entry es) @ replicate (RTL8139_RXBUF_SIZE - i - length (concat (map rx_entry es))) 0"

lemma align4_ge: "n \<le> align4 n"
  unfolding align4_def by presburger

lemma length_rx_entry [simp]: "length (rx_entry e) = align4 (length (snd e) + 4)"
  using align4_ge [of "length (snd e) + 4"] by (simp add: rx_entry_def)

lemma zeros_le_word: "(word_le (replicate n 0) :: u16) = 0"
  by (rule word_le_zeros) auto

lemma rx_zeroed_Nil: "i \<le> RTL8139_RXBUF_SIZE \<Longrightarrow> rx_zeroed i [] = replicate RTL8139_RXBUF_SIZE 0"
  by (simp add: rx_zeroed_def flip: replicate_add)

lemma rx_zeroed_erase:
  assumes "i + length (concat (map rx_entry (e # es))) \<le> RTL8139_RXBUF_SIZE"
  shows "erase (rx_zeroed i (e # es)) i (length (snd e) + 4) = rx_zeroed (i + align4 (length (snd e) + 4)) es"
proof -
  let ?n = "length (snd e) + 4"
  have "replicate i 0 @ replicate ?n 0 @ replicate (align4 ?n - ?n) 0 = replicate (i + align4 ?n) (0 :: u8)"
    using align4_ge [of ?n] by (simp flip: replicate_add)
  moreover define tail :: bytes where
    "tail = concat (map rx_entry es) @ replicate (RTL8139_RXBUF_SIZE - (i + align4 ?n) - length (concat (map rx_entry es))) 0"
  define frame where "frame = le_word (fst e) @ le_word (word_of_nat (length (snd e)) :: u16) @ snd e"
  have "rx_zeroed i (e # es) = replicate i 0 @ frame @ replicate (align4 ?n - ?n) 0 @ tail"
    unfolding rx_zeroed_def tail_def list.map concat.simps length_append length_rx_entry
    by (simp add: frame_def rx_entry_def diff_diff_left ac_simps)
  moreover have "length frame = ?n" by (simp add: frame_def)
  ultimately have "erase (rx_zeroed i (e # es)) i ?n = (replicate i 0 @ replicate ?n 0 @ replicate (align4 ?n - ?n) 0) @ tail"
    by (simp add: erase_def)
  with \<open>replicate i 0 @ _ = _\<close> show ?thesis
    by (simp add: rx_zeroed_def tail_def)
qed

lemma rx_frame_entry:
  assumes "rx_buf rx = rx_zeroed (rx_next_index rx) (e # es)" "fst e \<noteq> 0" "length (snd e) < 65536"
  shows "rx_frame rx = Inr (Some (snd e, length (snd e)))"
proof -
  let ?i = "rx_next_index rx"
  obtain rest where buf: "rx_buf rx = replicate ?i 0 @ le_word (fst e) @ le_word (word_of_nat (length (snd e)) :: u16) @ snd e @ rest"
    using assms(1) by (simp add: rx_zeroed_def rx_entry_def)
  have "word_le (le_word (fst e)) = fst e"
    "word_le (le_word (word_of_nat (length (snd e)) :: u16)) = (word_of_nat (length (snd e)) :: u16)"
    by (simp_all add: codec_simps)
  moreover have "unat (word_of_nat (length (snd e)) :: u16) = length (snd e)"
    using assms(3) by (simp add: unat_of_nat)
  ultimately show ?thesis
    using assms(2) by (simp add: rx_frame_def raw_u16_def buf Let_def)
qed

text \<open>
  Frames that the card stored in the zeroed ring one after the other are delivered in that order, and the
  ring is zeroed again.
\<close>

lemma rtl_poll_rx_delivers:
  assumes "rx_buf rx = rx_zeroed (rx_next_index rx) es" "rx_next_index rx < 8192"
    "rx_next_index rx + length (concat (map rx_entry es)) \<le> 8192" "\<forall>e\<in>set es. fst e \<noteq> 0"
  shows "\<exists>rx' ws. rtl_poll_rx io rx = Inr (rx', ws) \<and>
    rx_pending rx' = rx_pending rx @ map snd es \<and>
    rx_buf rx' = replicate RTL8139_RXBUF_SIZE 0 \<and>
    rx_next_index rx' = (rx_next_index rx + length (concat (map rx_entry es))) mod 8192 \<and>
    rx_packet_count rx' = rx_packet_count rx + length es"
  using assms
proof (induction es arbitrary: rx)
  case Nil
  have "rx_frame rx = Inr None"
    using Nil.prems
    by (simp add: zeros_le_word rx_frame_def raw_u16_def rx_zeroed_Nil RTL8139_RXBUF_SIZE_def Let_def)
  then show ?case
    using Nil.prems by (simp add: rtl_poll_rx.simps [of _ rx] rx_zeroed_Nil RTL8139_RXBUF_SIZE_def)
next
  case (Cons e es)
  let ?i = "rx_next_index rx" and ?n = "length (snd e)"
  have n: "?n + 4 \<le> align4 (?n + 4)" by (rule align4_ge)
  then have fit: "?i + align4 (?n + 4) + length (concat (map rx_entry es)) \<le> 8192" "?n < 65536"
    using Cons.prems(3) by simp_all
  have frame: "rx_frame rx = Inr (Some (snd e, ?n))"
    by (rule rx_frame_entry [OF Cons.prems(1)]) (use Cons.prems(4) fit in auto)
  obtain t ws where adv: "rx_advance io rx (snd e) ?n = (t, ws)" by fastforce
  let ?j = "?i + align4 (?n + 4)"
  have nx: "rx_next_index t = ?j mod 8192"
    and fields: "rx_pending t = rx_pending rx @ [snd e]" "rx_packet_count t = rx_packet_count rx + 1"
    using adv by (auto simp: rx_advance_def Let_def split: if_splits)
  have "rx_buf t = rx_zeroed ?j es"
    using rx_advance_buf [of io rx "snd e" ?n] adv Cons.prems(1) rx_zeroed_erase [of ?i e es] fit
    by (simp add: RTL8139_RXBUF_SIZE_def)
  moreover have "es = []" if "?j = 8192"
    using fit(1) that align4_ge [of "length (snd (hd es)) + 4"] by (cases es) auto
  ultimately have buf: "rx_buf t = rx_zeroed (rx_next_index t) es" and
    le: "rx_next_index t + length (concat (map rx_entry es)) \<le> 8192"
    and eq: "(rx_next_index t + length (concat (map rx_entry es))) mod 8192 = (?j + length (concat (map rx_entry es))) mod 8192"
    using fit nx by (cases "?j = 8192"; simp add: rx_zeroed_Nil RTL8139_RXBUF_SIZE_def)+
  obtain rx' ws' where "rtl_poll_rx io t = Inr (rx', ws')" "rx_pending rx' = rx_pending t @ map snd es"
    "rx_buf rx' = replicate RTL8139_RXBUF_SIZE 0" "rx_packet_count rx' = rx_packet_count t + length es"
    "rx_next_index rx' = (rx_next_index t + length (concat (map rx_entry es))) mod 8192"
    using Cons.IH [OF buf _ le] nx Cons.prems(4) by auto
  then show ?case
    using eq fields by (simp add: rtl_poll_rx.simps [of _ rx] frame adv add.assoc)
qed

end
