(* ===== verification/Network.thy ===== *)
theory Network
  imports Dns Tcp Rtl8139
begin

text \<open>
  The network manager of \<open>os/src/net/manager.rs\<close>: socket tables, the ARP table, configuration by
  DHCP, and the polling of interfaces.  Sockets live in the tables that own them and are named by
  their port, interfaces live in \<open>devices\<close> and are named by a number; a number without a device is a
  weak reference that can no longer be upgraded.  An operation returns the new state next to its
  result, because what was changed before an error stays changed.  The trait \<open>NetworkInterface\<close> is the
  record \<open>nic_ops\<close> of its methods and the locale \<open>nic\<close> states its contract.
\<close>

subsection \<open>State\<close>

record 'd nic_ops =
  nic_addr :: "'d \<Rightarrow> eth_addr"
  nic_push :: "'d \<Rightarrow> bytes \<Rightarrow> 'd \<times> unit res"
  nic_pop :: "'d \<Rightarrow> 'd \<times> bytes res"

record 'd network =
  interfaces :: "nat list"
  devices :: "nat \<rightharpoonup> 'd"
  interface_has_added :: bool
  net_netmask :: "ip_addr option"
  net_router :: "ip_addr option"
  net_dns :: "ip_addr option"
  net_self_ip :: "ip_addr option"
  ip_tx_queue :: "bytes list"
  tcp_dynamic_port_hint :: u16
  tcp_socket_table :: "u16 \<rightharpoonup> tcp_socket"
  udp_socket_table :: "u16 \<rightharpoonup> udp_socket"
  arp_table :: "ip_addr \<rightharpoonup> eth_addr \<times> nat"

definition network_new :: "'d network" where
  "network_new =
     \<lparr>interfaces = [], devices = Map.empty, interface_has_added = False, net_netmask = None, net_router = None,
      net_dns = None, net_self_ip = None, ip_tx_queue = [], tcp_dynamic_port_hint = 0,
      tcp_socket_table = Map.empty, udp_socket_table = Map.empty, arp_table = Map.empty\<rparr>"

definition register_udp_socket :: "u16 \<Rightarrow> udp_socket \<Rightarrow> 'd network \<Rightarrow> 'd network" where
  "register_udp_socket port s net = net\<lparr>udp_socket_table := (udp_socket_table net)(port \<mapsto> s)\<rparr>"

text \<open>The first \<open>Network::take\<close>; the tasks that it spawns are the polling steps below.\<close>

definition network_take_new :: "'d network" where
  "network_take_new = register_udp_socket PORT_DNS_SERVER udp_socket_default network_new"

definition register_interface :: "nat \<Rightarrow> 'd network \<Rightarrow> 'd network" where
  "register_interface iface net = net\<lparr>interfaces := interfaces net @ [iface], interface_has_added := True\<rparr>"

definition send_ip_packet :: "bytes \<Rightarrow> 'd network \<Rightarrow> 'd network" where
  "send_ip_packet packet net = net\<lparr>ip_tx_queue := ip_tx_queue net @ [packet]\<rparr>"

definition arp_table_register :: "ip_addr \<Rightarrow> eth_addr \<Rightarrow> nat \<Rightarrow> 'd network \<Rightarrow> 'd network" where
  "arp_table_register ip eth iface net = net\<lparr>arp_table := (arp_table net)(ip \<mapsto> (eth, iface))\<rparr>"

definition arp_table_get :: "'d network \<Rightarrow> ip_addr \<Rightarrow> eth_addr option" where
  "arp_table_get net ip = map_option fst (arp_table net ip)"

subsection \<open>TCP ports and sockets\<close>

definition in_port_range :: "u16 \<Rightarrow> bool" where
  "in_port_range port \<longleftrightarrow> 49152 \<le> port \<and> port < 65535"

function scan_port :: "(u16 \<rightharpoonup> tcp_socket) \<Rightarrow> u16 \<Rightarrow> u16" where
  "scan_port table port =
     (if in_port_range port \<and> table port \<noteq> None then scan_port table (port + 1) else port)"
  by pat_completeness auto
termination
proof (relation "measure (\<lambda>(table, port). 65536 - unat port)")
  fix table :: "u16 \<rightharpoonup> tcp_socket" and port :: u16
  assume "in_port_range port \<and> table port \<noteq> None"
  then have "unat port < 65535" by (simp add: in_port_range_def word_less_nat_alt)
  then have "unat (port + 1) = unat port + 1" by (simp add: unat_word_ariths)
  with \<open>unat port < 65535\<close> show "((table, port + 1), table, port) \<in> measure (\<lambda>(table, port). 65536 - unat port)"
    by simp
qed simp

declare scan_port.simps [simp del]

definition pick_unused_dynamic_tcp_port :: "'d network \<Rightarrow> u16 res" where
  "pick_unused_dynamic_tcp_port net =
     (let port = tcp_dynamic_port_hint net;
          port = (if \<not> in_port_range port then 49152 else port);
          table = tcp_socket_table net;
          port = scan_port table port
      in if in_port_range port then Inr port
         else
           let port = scan_port table 49152
           in if in_port_range port then Inr port
              else Inl (Err (Failed ''No more available TCP port'')))"

text \<open>The result is the port under which the socket is registered and the socket with that port.\<close>

definition register_tcp_socket :: "tcp_socket \<Rightarrow> ('d network, u16 \<times> tcp_socket) act" where
  "register_tcp_socket sock net =
     (case sk_self_port sock of
        Some self_port \<Rightarrow>
          if tcp_socket_table net self_port = None
          then (net\<lparr>tcp_socket_table := (tcp_socket_table net)(self_port \<mapsto> sock)\<rparr>, Inr (self_port, sock))
          else (net, Inl (Err (Failed ''TCP port is already in use'')))
      | None \<Rightarrow>
          (case pick_unused_dynamic_tcp_port net of
             Inl e \<Rightarrow> (net, Inl e)
           | Inr port \<Rightarrow>
               let sock = sock\<lparr>sk_self_port := Some port\<rparr>
               in (net\<lparr>tcp_socket_table := (tcp_socket_table net)(port \<mapsto> sock)\<rparr>, Inr (port, sock))))"

definition put_socket :: "u16 \<Rightarrow> tcp_socket \<Rightarrow> 'd network \<Rightarrow> 'd network" where
  "put_socket port sock net = net\<lparr>tcp_socket_table := (tcp_socket_table net)(port \<mapsto> sock)\<rparr>"

definition open_tcp_socket :: "ip_addr \<Rightarrow> u16 \<Rightarrow> ('d network, u16) act" where
  "open_tcp_socket ip port =
     act_then (register_tcp_socket (new_client ip port)) (\<lambda>(p, sock) net.
       let sock = sock\<lparr>sk_self_ip := net_self_ip net\<rparr>; net = put_socket p sock net in
       case tcp_open sock of
         Inl e \<Rightarrow> (net, Inl e)
       | Inr (sock, syn_packet) \<Rightarrow> (send_ip_packet syn_packet (put_socket p sock net), Inr p))"

text \<open>One turn of the transmit task of a registered socket; its result is ignored.\<close>

definition poll_socket_tx :: "u16 \<Rightarrow> 'd network \<Rightarrow> 'd network" where
  "poll_socket_tx port net =
     (case tcp_socket_table net port of
        None \<Rightarrow> net
      | Some sock \<Rightarrow>
          (case tcp_poll_tx sock of
             (sock, Inr (Some out)) \<Rightarrow> send_ip_packet out (put_socket port sock net)
           | (sock, _) \<Rightarrow> put_socket port sock net))"

subsection \<open>Receiving\<close>

text \<open>A call of a method of the interface \<open>iface\<close>, which exists.\<close>

definition push_packet :: "'d nic_ops \<Rightarrow> nat \<Rightarrow> 'd \<Rightarrow> bytes \<Rightarrow> ('d network, unit) act" where
  "push_packet ops iface d packet net =
     (case nic_push ops d packet of (d', r) \<Rightarrow> (net\<lparr>devices := (devices net)(iface \<mapsto> d')\<rparr>, r))"

text \<open>\<open>if let Some(iface) = iface.upgrade()\<close>.\<close>

definition with_iface :: "nat \<Rightarrow> ('d \<Rightarrow> ('d network, unit) act) \<Rightarrow> ('d network, unit) act" where
  "with_iface iface f net = (case devices net iface of None \<Rightarrow> (net, Inr ()) | Some d \<Rightarrow> f d net)"

definition ask_arp :: "'d nic_ops \<Rightarrow> nat \<Rightarrow> ip_addr \<Rightarrow> ip_addr \<Rightarrow> ('d network, unit) act" where
  "ask_arp ops iface src_ip dst_ip =
     with_iface iface (\<lambda>d. push_packet ops iface d (arp_bytes (arp_request (nic_addr ops d) src_ip dst_ip)))"

definition dhcp_option :: "'d nic_ops \<Rightarrow> nat \<Rightarrow> ip_addr \<Rightarrow> u8 \<Rightarrow> bytes \<Rightarrow> ('d network, unit) act" where
  "dhcp_option ops iface new_self_ip op data net =
     (if op = DHCP_OPT_MESSAGE_TYPE then
        (case index_at data 0 of Inl e \<Rightarrow> (net, Inl e) | Inr _ \<Rightarrow> (net, Inr ()))
      else if op = DHCP_OPT_NETMASK then
        (case from_slice 4 (\<lambda>bs. word_be (take 4 bs)) data of
           Inr netmask \<Rightarrow> (net\<lparr>net_netmask := Some netmask\<rparr>, Inr ()) | Inl _ \<Rightarrow> (net, Inr ()))
      else if op = DHCP_OPT_ROUTER then
        (case from_slice 4 (\<lambda>bs. word_be (take 4 bs)) data of
           Inr router \<Rightarrow> ask_arp ops iface new_self_ip router (net\<lparr>net_router := Some router\<rparr>)
         | Inl _ \<Rightarrow> (net, Inr ()))
      else if op = DHCP_OPT_DNS then
        (case from_slice 4 (\<lambda>bs. word_be (take 4 bs)) data of
           Inr dns \<Rightarrow> ask_arp ops iface new_self_ip dns (net\<lparr>net_dns := Some (ip_addr_new 8 8 8 8)\<rparr>)
         | Inl _ \<Rightarrow> (net, Inr ()))
      else (net, Inr ()))"

function dhcp_options :: "'d nic_ops \<Rightarrow> nat \<Rightarrow> ip_addr \<Rightarrow> bytes \<Rightarrow> ('d network, unit) act" where
  "dhcp_options ops iface ip [] net = (net, Inr ())"
| "dhcp_options ops iface ip (op # it) net =
     (if op = DHCP_OPT_MESSAGE_TYPE_PADDING then dhcp_options ops iface ip it net
      else if op = DHCP_OPT_MESSAGE_TYPE_END then (net, Inr ())
      else
        (case it of
           [] \<Rightarrow> (net, Inr ())
         | len # it \<Rightarrow>
             if len = 0 then (net, Inr ())
             else
               act_then (dhcp_option ops iface ip op (take (unat len) it)) (\<lambda>_ net.
                 if unat len \<le> length it then dhcp_options ops iface ip (drop (unat len) it) net
                 else (net, Inl (Err (Failed ''Invalid op data len'')))) net))"
  by pat_completeness auto
termination by (relation "measure (\<lambda>(ops, iface, ip, it, net). length it)") auto

definition handle_rx_dhcp_client :: "'d nic_ops \<Rightarrow> bytes \<Rightarrow> nat \<Rightarrow> ('d network, unit) act" where
  "handle_rx_dhcp_client ops packet iface net =
     (case from_slice 282 dhcp_of packet of
        Inl e \<Rightarrow> (net, Inl e)
      | Inr dhcp \<Rightarrow>
          if \<not> is_boot_reply dhcp then (net, Inr ())
          else dhcp_options ops iface (dhcp_yiaddr dhcp) (drop 282 packet)
                 (net\<lparr>net_self_ip := Some (dhcp_yiaddr dhcp)\<rparr>))"

definition handle_rx_udp :: "'d nic_ops \<Rightarrow> bytes \<Rightarrow> nat \<Rightarrow> ('d network, unit) act" where
  "handle_rx_udp ops packet iface net =
     (case from_slice 42 udp_of packet of
        Inl e \<Rightarrow> (net, Inl e)
      | Inr udp \<Rightarrow>
          if udp_src_port udp = UDP_PORT_DHCP_SERVER \<and> udp_dst_port udp = UDP_PORT_DHCP_CLIENT
          then handle_rx_dhcp_client ops packet iface net
          else
            (case udp_socket_table net (udp_dst_port udp) of
               None \<Rightarrow> (net, Inr ())
             | Some sock \<Rightarrow>
                 (case udp_handle_rx sock packet of
                    Inl e \<Rightarrow> (net, Inl e)
                  | Inr sock \<Rightarrow> (register_udp_socket (udp_dst_port udp) sock net, Inr ()))))"

definition handle_rx_tcp :: "bytes \<Rightarrow> ('d network, unit) act" where
  "handle_rx_tcp in_bytes net =
     (case from_slice 54 tcp_of in_bytes of
        Inl e \<Rightarrow> (net, Inl e)
      | Inr in_tcp \<Rightarrow>
          (case tcp_socket_table net (tcp_dst_port in_tcp) of
             None \<Rightarrow> (net, Inr ())
           | Some sock \<Rightarrow>
               (case handle_rx sock in_bytes of
                  Inl e \<Rightarrow> (net, Inl e)
                | Inr (sock, out) \<Rightarrow>
                    let net = put_socket (tcp_dst_port in_tcp) sock net
                    in (case out of None \<Rightarrow> net | Some packet \<Rightarrow> send_ip_packet packet net, Inr ()))))"

definition handle_rx_icmp :: "bytes \<Rightarrow> ('d network, unit) act" where
  "handle_rx_icmp packet net =
     (case from_slice 42 icmp_of packet of Inl e \<Rightarrow> (net, Inl e) | Inr _ \<Rightarrow> (net, Inr ()))"

definition handle_rx_arp :: "bytes \<Rightarrow> nat \<Rightarrow> ('d network, unit) act" where
  "handle_rx_arp packet iface net =
     (case from_slice 42 arp_of packet of
        Inr arp \<Rightarrow>
          (if arp_is_response arp then arp_table_register (arp_sender_ip arp) (arp_sender_mac arp) iface net else net,
           Inr ())
      | Inl _ \<Rightarrow> (net, Inl (Err (Failed ''handle_rx_arp: Not a valid ARP Packet''))))"

definition handle_receive :: "'d nic_ops \<Rightarrow> bytes \<Rightarrow> nat \<Rightarrow> ('d network, unit) act" where
  "handle_receive ops packet iface net =
     (case from_slice 14 eth_of packet of
        Inl e \<Rightarrow> (net, Inl e)
      | Inr eth \<Rightarrow>
          if eth_type eth = ethertype_ip_v4 then
            (case from_slice 34 ip_of packet of
               Inl e \<Rightarrow> (net, Inl e)
             | Inr ip \<Rightarrow>
                 if ip_protocol ip = proto_udp then handle_rx_udp ops packet iface net
                 else if ip_protocol ip = proto_tcp then handle_rx_tcp packet net
                 else if ip_protocol ip = proto_icmp then handle_rx_icmp packet net
                 else (net, Inr ()))
          else if eth_type eth = ethertype_arp then handle_rx_arp packet iface net
          else (net, Inr ()))"

subsection \<open>The polling steps\<close>

definition probe_interfaces :: "'d nic_ops \<Rightarrow> ('d network, unit) act" where
  "probe_interfaces ops net =
     (if interface_has_added net then
        for_each (\<lambda>iface. with_iface iface (\<lambda>d.
          act_then (lift_res (dhcp_request (nic_addr ops d))) (\<lambda>dhcp_req.
          push_packet ops iface d (dhcp_bytes dhcp_req))))
          (interfaces net) (net\<lparr>interface_has_added := False\<rparr>)
      else (net, Inr ()))"

definition next_hop_info :: "'d network \<Rightarrow> ip_addr \<Rightarrow> ip_addr \<Rightarrow> ip_addr \<Rightarrow> (eth_addr \<times> nat) option" where
  "next_hop_info net src_ip msk dst_ip =
     (if network_prefix src_ip msk = network_prefix dst_ip msk then arp_table net dst_ip
      else Option.bind (net_router net) (arp_table net))"

definition fill_in :: "bytes \<Rightarrow> ip_addr \<Rightarrow> eth_addr \<Rightarrow> eth_addr \<Rightarrow> bytes res" where
  "fill_in org_packet src_ip next_hop own =
     and_then (update_slice 34 ip_bytes ip_of (\<lambda>p. clear_checksum ((set_src p src_ip)
       \<lparr>ip_eth := eth_new next_hop own ethertype_ip_v4\<rparr>)) org_packet) (\<lambda>org_packet.
     and_then (slice_of org_packet 14 34) (\<lambda>header.
     and_then (calc header) (\<lambda>csum.
     update_slice 34 ip_bytes ip_of (\<lambda>p. set_checksum p csum) org_packet)))"

definition process_tx :: "'d nic_ops \<Rightarrow> ('d network, unit) act" where
  "process_tx ops net =
     (case ip_tx_queue net of
        [] \<Rightarrow> (net, Inr ())
      | org_packet # rest \<Rightarrow>
          let net = net\<lparr>ip_tx_queue := rest\<rparr> in
          (case from_slice 34 ip_of org_packet of
             Inl _ \<Rightarrow> (net, Inr ())
           | Inr ip_packet \<Rightarrow>
               (case (net_self_ip net, net_netmask net) of
                  (Some src_ip, Some msk) \<Rightarrow>
                    (case next_hop_info net src_ip msk (ip_dst ip_packet) of
                       Some (next_hop, iface) \<Rightarrow>
                         with_iface iface (\<lambda>d.
                           act_then (lift_res (fill_in org_packet src_ip next_hop (nic_addr ops d))) (\<lambda>packet.
                           push_packet ops iface d packet)) net
                     | None \<Rightarrow> for_each (\<lambda>iface. ask_arp ops iface src_ip (ip_dst ip_packet)) (interfaces net) net)
                | _ \<Rightarrow> (net, Inr ()))))"

definition receive_one :: "'d nic_ops \<Rightarrow> nat \<Rightarrow> 'd \<Rightarrow> ('d network, unit) act" where
  "receive_one ops iface d net =
     (case nic_pop ops d of
        (d', Inr packet) \<Rightarrow> handle_receive ops packet iface (net\<lparr>devices := (devices net)(iface \<mapsto> d')\<rparr>)
      | (d', Inl _) \<Rightarrow> (net\<lparr>devices := (devices net)(iface \<mapsto> d')\<rparr>, Inr ()))"

definition process_rx :: "'d nic_ops \<Rightarrow> ('d network, unit) act" where
  "process_rx ops net = for_each (\<lambda>iface. with_iface iface (receive_one ops iface)) (interfaces net) net"

text \<open>One turn of the manager's loop; an error ends the task.\<close>

definition network_manager_step :: "'d nic_ops \<Rightarrow> ('d network, unit) act" where
  "network_manager_step ops =
     act_then (probe_interfaces ops) (\<lambda>_. act_then (process_tx ops) (\<lambda>_. process_rx ops))"

subsection \<open>Port selection\<close>

lemma scan_port_result: "\<not> in_port_range (scan_port table port) \<or> table (scan_port table port) = None"
  by (induction table port rule: scan_port.induct) (metis scan_port.simps)

lemma scan_port_skips:
  assumes "\<not> in_port_range (scan_port table port)" "49152 \<le> port" "port \<le> q" "in_port_range q"
  shows "table q \<noteq> None"
  using assms
proof (induction table port rule: scan_port.induct)
  case (1 table port)
  have r: "in_port_range port"
    using "1.prems" by (auto simp: in_port_range_def)
  then have t: "table port \<noteq> None" using "1.prems" by (auto simp: scan_port.simps [of table port] split: if_splits)
  have succ: "unat (port + 1) = unat port + 1"
    using r by (simp add: in_port_range_def word_less_nat_alt unat_word_ariths)
  show ?case
  proof (cases "q = port")
    case False
    then have "port + 1 \<le> q" "49152 \<le> port + 1"
      using "1.prems" succ by (simp_all add: word_le_nat_alt unat_arith_simps)
    with "1.IH" r t "1.prems" show ?thesis by (simp add: scan_port.simps [of table port])
  qed (use t in simp)
qed

lemma pick_port_free:
  "pick_unused_dynamic_tcp_port net = Inr port \<Longrightarrow> in_port_range port \<and> tcp_socket_table net port = None"
  using scan_port_result by (auto simp: pick_unused_dynamic_tcp_port_def Let_def split: if_splits)

lemma pick_port_error:
  "pick_unused_dynamic_tcp_port net = Inl e \<longleftrightarrow>
     e = Err (Failed ''No more available TCP port'') \<and> (\<forall>p. in_port_range p \<longrightarrow> tcp_socket_table net p \<noteq> None)"
  (is "?l \<longleftrightarrow> ?r")
proof
  assume ?l
  then have e: "e = Err (Failed ''No more available TCP port'')"
    and s: "\<not> in_port_range (scan_port (tcp_socket_table net) 49152)"
    by (auto simp: pick_unused_dynamic_tcp_port_def Let_def split: if_splits)
  have "tcp_socket_table net p \<noteq> None" if "in_port_range p" for p
    by (rule scan_port_skips [OF s]) (use that in \<open>auto simp: in_port_range_def\<close>)
  with e show ?r by blast
next
  assume r: ?r
  show ?l
  proof (cases "pick_unused_dynamic_tcp_port net")
    case (Inl e')
    then show ?thesis using r by (auto simp: pick_unused_dynamic_tcp_port_def Let_def split: if_splits)
  next
    case (Inr port)
    then show ?thesis using pick_port_free [OF Inr] r by auto
  qed
qed

subsection \<open>The socket table\<close>

text \<open>Every registered TCP socket knows the port under which it is registered.\<close>

definition table_keyed :: "'d network \<Rightarrow> bool" where
  "table_keyed net \<longleftrightarrow> (\<forall>p s. tcp_socket_table net p = Some s \<longrightarrow> sk_self_port s = Some p)"

lemma handle_rx_self_port:
  assumes "from_slice 54 tcp_of bs = Inr p" "handle_rx s bs = Inr (s', out)" "sk_self_port s = Some (tcp_dst_port p)"
  shows "sk_self_port s' = Some (tcp_dst_port p)"
proof -
  obtain data where "tcp_payload bs p = Inr data" using assms by (auto simp: handle_rx_def and_then_eq_Inr)
  moreover have "case rx_match s p data of Inl t \<Rightarrow> sk_self_port t = Some (tcp_dst_port p)
      | Inr (t, _) \<Rightarrow> sk_self_port t = Some (tcp_dst_port p)"
    using assms(3) by (cases "sk_state s") (auto simp: rx_match_def Let_def)
  ultimately show ?thesis
    using assms(1,2) by (auto simp: handle_rx_def Let_def and_then_eq_Inr split: sum.splits)
qed

lemma tcp_poll_tx_self_port: "sk_self_port (fst (tcp_poll_tx s)) = sk_self_port s"
  using tcp_poll_tx_frame [of s "fst (tcp_poll_tx s)" "snd (tcp_poll_tx s)"] by auto

lemma tcp_poll_tx_self_port': "tcp_poll_tx s = (s', r) \<Longrightarrow> sk_self_port s' = sk_self_port s"
  using tcp_poll_tx_self_port [of s] by simp

lemma tcp_open_self_port: "tcp_open s = Inr (s', out) \<Longrightarrow> sk_self_port s' = sk_self_port s"
  by (auto simp: tcp_open_def and_then_eq_Inr Let_def)

lemma register_tcp_socket_cases:
  "register_tcp_socket sock net = (net', Inr (p, sock')) \<Longrightarrow>
     tcp_socket_table net p = None \<and> net' = put_socket p sock' net \<and> sk_self_port sock' = Some p"
  using pick_port_free [of net]
  by (auto simp: register_tcp_socket_def put_socket_def Let_def split: option.splits if_splits sum.splits)

lemma table_keyed_frame [simp]:
  "table_keyed (net\<lparr>devices := d\<rparr>) = table_keyed net" "table_keyed (net\<lparr>net_netmask := m\<rparr>) = table_keyed net"
  "table_keyed (net\<lparr>net_router := m\<rparr>) = table_keyed net" "table_keyed (net\<lparr>net_dns := m\<rparr>) = table_keyed net"
  "table_keyed (net\<lparr>net_self_ip := m\<rparr>) = table_keyed net" "table_keyed (net\<lparr>ip_tx_queue := q\<rparr>) = table_keyed net"
  "table_keyed (net\<lparr>interface_has_added := b\<rparr>) = table_keyed net"
  "table_keyed (send_ip_packet p net) = table_keyed net" "table_keyed (register_udp_socket port u net) = table_keyed net"
  "table_keyed (arp_table_register ip e i net) = table_keyed net"
  by (simp_all add: table_keyed_def send_ip_packet_def register_udp_socket_def arp_table_register_def)

lemma table_keyed_put: "table_keyed net \<Longrightarrow> sk_self_port s = Some p \<Longrightarrow> table_keyed (put_socket p s net)"
  by (simp add: table_keyed_def put_socket_def)

lemma register_keyed: "table_keyed net \<Longrightarrow> table_keyed (fst (register_tcp_socket sock net))"
proof (cases "register_tcp_socket sock net")
  case (Pair net' r)
  assume k: "table_keyed net"
  show ?thesis
  proof (cases r)
    case (Inl e)
    then have "net' = net"
      using Pair by (auto simp: register_tcp_socket_def Let_def split: option.splits if_splits sum.splits)
    with Pair k show ?thesis by simp
  next
    case (Inr x)
    with register_tcp_socket_cases [of sock net net' "fst x" "snd x"] Pair k show ?thesis
      by (simp add: table_keyed_put)
  qed
qed

lemma open_keyed: "table_keyed net \<Longrightarrow> table_keyed (fst (open_tcp_socket ip port net))"
  using register_keyed [of net "new_client ip port"] register_tcp_socket_cases [of "new_client ip port" net]
  by (auto simp: open_tcp_socket_def act_then_def Let_def split: sum.splits prod.splits
      intro!: table_keyed_put dest: tcp_open_self_port)

lemma poll_socket_keyed: "table_keyed net \<Longrightarrow> table_keyed (poll_socket_tx port net)"
  by (auto simp: poll_socket_tx_def table_keyed_def [of net] tcp_poll_tx_self_port' intro!: table_keyed_put
      split: option.splits prod.splits sum.splits)

text \<open>An action keeps a predicate when it does so on success and on failure.\<close>

definition keeps :: "('s \<Rightarrow> bool) \<Rightarrow> ('s, 'a) act \<Rightarrow> bool" where
  "keeps P m \<longleftrightarrow> (\<forall>s. P s \<longrightarrow> P (fst (m s)))"

lemma keepsI [intro]: "(\<And>s. P s \<Longrightarrow> P (fst (m s))) \<Longrightarrow> keeps P m"
  by (simp add: keeps_def)

lemma keepsD: "keeps P m \<Longrightarrow> P s \<Longrightarrow> P (fst (m s))"
  by (simp add: keeps_def)

lemma keeps_then:
  assumes "keeps P m" "\<And>x. keeps P (f x)"
  shows "keeps P (act_then m f)"
proof (rule keepsI)
  fix s assume P: "P s"
  obtain s' r where m: "m s = (s', r)" by fastforce
  then have "P s'" using keepsD [OF assms(1) P] by simp
  then show "P (fst (act_then m f s))" using m keepsD [OF assms(2)] by (cases r) simp_all
qed

lemma keeps_for_each: "(\<And>x. keeps P (f x)) \<Longrightarrow> keeps P (for_each f xs)"
proof (induction xs)
  case (Cons x xs)
  have "for_each f (x # xs) = act_then (f x) (\<lambda>_. for_each f xs)" by (rule ext) simp
  with Cons show ?case by (auto intro: keeps_then)
qed auto

lemma keeps_lift: "keeps P (lift_res r)"
  by (simp add: keeps_def lift_res_def)

lemma keeps_with: "(\<And>d. keeps P (f d)) \<Longrightarrow> keeps P (with_iface iface f)"
  by (auto simp: keeps_def with_iface_def split: option.splits)

lemma keyed_push: "keeps table_keyed (push_packet ops iface d p)"
  by (auto simp: keeps_def push_packet_def split: prod.splits)

lemma keyed_arp: "keeps table_keyed (ask_arp ops iface a b)"
  unfolding ask_arp_def by (intro keeps_with keyed_push)

lemma keyed_dhcp_option: "keeps table_keyed (dhcp_option ops iface ip op data)"
  by (rule keepsI) (simp add: dhcp_option_def keepsD [OF keyed_arp] split: sum.split)

lemma keyed_dhcp_options: "keeps table_keyed (dhcp_options ops iface ip it)"
proof (rule keepsI)
  fix net :: "'a network" assume "table_keyed net"
  then show "table_keyed (fst (dhcp_options ops iface ip it net))"
  proof (induction ops iface ip it net rule: dhcp_options.induct)
    case (2 ops iface ip op it net)
    show ?case
    proof (cases it)
      case (Cons len it')
      obtain net' r where o: "dhcp_option ops iface ip op (take (unat len) it') net = (net', r)" by fastforce
      then have k: "table_keyed net'" using keepsD [OF keyed_dhcp_option "2.prems"] by (metis fst_conv)
      show ?thesis
      proof (cases r)
        case (Inr u)
        with "2.IH" k o Cons "2.prems" show ?thesis by simp
      qed (use "2.IH" k o Cons "2.prems" in simp)
    qed (use 2 in simp)
  qed simp
qed

lemma keyed_rx_dhcp: "keeps table_keyed (handle_rx_dhcp_client ops packet iface)"
  by (rule keepsI) (simp add: handle_rx_dhcp_client_def keepsD [OF keyed_dhcp_options] split: sum.split)

lemma keyed_rx_udp: "keeps table_keyed (handle_rx_udp ops packet iface)"
  by (rule keepsI) (simp add: handle_rx_udp_def keepsD [OF keyed_rx_dhcp] split: sum.split option.split)

lemma keyed_rx_tcp: "keeps table_keyed (handle_rx_tcp packet)"
proof (rule keepsI)
  fix net :: "'a network" assume k: "table_keyed net"
  show "table_keyed (fst (handle_rx_tcp packet net))"
  proof (cases "from_slice 54 tcp_of packet")
    case (Inr p)
    have "sk_self_port s' = Some (tcp_dst_port p)"
      if "tcp_socket_table net (tcp_dst_port p) = Some s" "handle_rx s packet = Inr (s', out)" for s s' out
      using handle_rx_self_port [OF Inr that(2)] k that(1) by (simp add: table_keyed_def)
    with Inr k show ?thesis
      by (auto simp: handle_rx_tcp_def Let_def split: sum.splits option.splits intro!: table_keyed_put)
  qed (use k in \<open>simp add: handle_rx_tcp_def\<close>)
qed

lemma keyed_rx_icmp: "keeps table_keyed (handle_rx_icmp packet)"
  by (auto simp: handle_rx_icmp_def split: sum.splits)

lemma keyed_rx_arp: "keeps table_keyed (handle_rx_arp packet iface)"
  by (auto simp: handle_rx_arp_def split: sum.splits)

lemmas keyed_handlers = keyed_rx_udp keyed_rx_tcp keyed_rx_icmp keyed_rx_arp

lemma keyed_receive: "keeps table_keyed (handle_receive ops packet iface)"
  by (rule keepsI, simp add: handle_receive_def split: sum.split)
    (simp add: keyed_handlers [THEN keepsD])

lemma keyed_probe: "keeps table_keyed (probe_interfaces ops)"
proof (rule keepsI)
  fix net :: "'a network" assume "table_keyed net"
  then show "table_keyed (fst (probe_interfaces ops net))"
    unfolding probe_interfaces_def
    by (cases "interface_has_added net")
      (simp_all add: keepsD [OF keeps_for_each [OF keeps_with [OF keeps_then [OF keeps_lift keyed_push]]]])
qed

lemma keyed_tx: "keeps table_keyed (process_tx ops)"
proof (rule keepsI)
  fix net :: "'a network" assume "table_keyed net"
  then show "table_keyed (fst (process_tx ops net))"
    by (simp add: process_tx_def Let_def keepsD [OF keeps_for_each [OF keyed_arp]]
        keepsD [OF keeps_with [OF keeps_then [OF keeps_lift keyed_push]]]
        split: list.split sum.split option.split prod.split)
qed

lemma keyed_rx_one: "keeps table_keyed (receive_one ops iface d)"
  by (rule keepsI) (simp add: receive_one_def keepsD [OF keyed_receive] split: prod.split sum.split)

lemma keyed_rx: "keeps table_keyed (process_rx ops)"
  by (rule keepsI) (simp add: process_rx_def keepsD [OF keeps_for_each [OF keeps_with [OF keyed_rx_one]]])

lemma keyed_step: "keeps table_keyed (network_manager_step ops)"
  unfolding network_manager_step_def by (intro keeps_then keyed_probe keyed_tx keyed_rx)

subsection \<open>Routing a packet\<close>

lemma ip_header_slice: "length p = 34 \<Longrightarrow> slice_of (p @ r) 14 34 = Inr (drop 14 p)"
  by (simp add: slice_of_def)

lemma length_ip_header_bytes [simp]: "length (ip_header_bytes p) = 20"
  by (simp add: ip_header_bytes_def ip.length_as_slice)

lemma next_hop_info_queue [simp]: "next_hop_info (net\<lparr>ip_tx_queue := q\<rparr>) = next_hop_info net"
  by (simp add: next_hop_info_def fun_eq_iff)

text \<open>
  \<open>fill_in\<close> addresses the frame to the next hop and leaves everything but the Ethernet header, the source
  address and the checksum as it was; the header it produces passes the receiver's check.
\<close>

lemma fill_in_ok:
  assumes "34 \<le> length org"
  obtains out where "fill_in org src hop own = Inr out" "length out = length org" "drop 34 out = drop 34 org"
    "ip_eth (ip_of out) = eth_new hop own ethertype_ip_v4" "ip_src (ip_of out) = src"
    "ip_dst (ip_of out) = ip_dst (ip_of org)" "ip_protocol (ip_of out) = ip_protocol (ip_of org)"
    "ip_length (ip_of out) = ip_length (ip_of org)"
    "calc (take 20 (drop 14 out)) = Inr 0"
proof -
  let ?p = "(set_src (ip_of org) src)\<lparr>ip_eth := eth_new hop own ethertype_ip_v4\<rparr>"
  obtain c where c: "calc (ip_header_bytes (clear_checksum ?p)) = Inr c"
    using calc_returns [of "ip_header_bytes (clear_checksum ?p)"] by (auto simp: ip_header_bytes_def ip.length_as_slice)
  let ?q = "set_checksum ?p c"
  have "fill_in org src hop own = Inr (ip_bytes ?q @ drop 34 org)"
    using assms c
    by (simp add: fill_in_def update_slice_def ip.length_as_slice ip_header_slice ip.of_bytes_as_slice
        ip_header_bytes_def) (simp add: set_checksum_def clear_checksum_def)
  moreover have "take 20 (drop 14 (ip_bytes ?q @ drop 34 org)) = ip_header_bytes ?q"
    by (simp add: ip_header_bytes_def ip.length_as_slice)
  moreover have "calc (ip_header_bytes ?q) = Inr 0" using c by (rule ip_header_checksum)
  ultimately show ?thesis
    by (intro that [of "ip_bytes ?q @ drop 34 org"])
      (use assms in \<open>simp_all add: ip.length_as_slice ip.of_bytes_as_slice set_checksum_def set_src_def\<close>)
qed

text \<open>From \<open>devs\<close> to \<open>devs'\<close> exactly the existing interfaces in \<open>S\<close> have sent one more packet.\<close>

definition delivered ::
  "'d nic_ops \<Rightarrow> ('d \<Rightarrow> bytes list) \<Rightarrow> (eth_addr \<Rightarrow> bytes) \<Rightarrow> nat set \<Rightarrow> (nat \<rightharpoonup> 'd) \<Rightarrow> (nat \<rightharpoonup> 'd) \<Rightarrow> bool" where
  "delivered ops outbox msg S devs devs' \<longleftrightarrow>
     (\<forall>i. (devs i = None \<longrightarrow> devs' i = None) \<and>
          (\<forall>d. devs i = Some d \<longrightarrow>
             (\<exists>d'. devs' i = Some d' \<and> nic_addr ops d' = nic_addr ops d \<and>
                   outbox d' = outbox d @ (if i \<in> S then [msg (nic_addr ops d)] else []))))"

lemma delivered_empty: "delivered ops outbox msg {} devs devs"
  by (simp add: delivered_def)

lemma delivered_absent: "devs i = None \<Longrightarrow> delivered ops outbox msg {i} devs devs"
  by (auto simp: delivered_def)

lemma delivered_trans:
  assumes "delivered ops outbox msg {i} a b" "delivered ops outbox msg S b c" "i \<notin> S"
  shows "delivered ops outbox msg (insert i S) a c"
  unfolding delivered_def
proof (intro allI conjI impI)
  fix j assume "a j = None"
  then show "c j = None" using assms(1,2) by (simp add: delivered_def)
next
  fix j d assume "a j = Some d"
  then obtain d' where d': "b j = Some d'" "nic_addr ops d' = nic_addr ops d"
      "outbox d' = outbox d @ (if j \<in> {i} then [msg (nic_addr ops d)] else [])"
    using assms(1) unfolding delivered_def by blast
  then obtain d'' where "c j = Some d''" "nic_addr ops d'' = nic_addr ops d'"
      "outbox d'' = outbox d' @ (if j \<in> S then [msg (nic_addr ops d')] else [])"
    using assms(2) unfolding delivered_def by blast
  with d' assms(3) show "\<exists>d''. c j = Some d'' \<and> nic_addr ops d'' = nic_addr ops d \<and>
      outbox d'' = outbox d @ (if j \<in> insert i S then [msg (nic_addr ops d)] else [])"
    by auto
qed

text \<open>The contract of \<open>NetworkInterface\<close>: a pushed packet joins the packets to be sent, in order.\<close>

locale nic =
  fixes ops :: "'d nic_ops"
    and outbox :: "'d \<Rightarrow> bytes list"
  assumes push_law: "\<exists>d'. nic_push ops d p = (d', Inr ()) \<and> outbox d' = outbox d @ [p] \<and> nic_addr ops d' = nic_addr ops d"
    and pop_law: "nic_pop ops d = (d', r) \<Longrightarrow> outbox d' = outbox d \<and> nic_addr ops d' = nic_addr ops d"
begin

lemma push_packet_ok:
  "\<exists>d'. push_packet ops i d p net = (net\<lparr>devices := (devices net)(i \<mapsto> d')\<rparr>, Inr ()) \<and>
    outbox d' = outbox d @ [p] \<and> nic_addr ops d' = nic_addr ops d"
  using push_law [of d p] by (auto simp: push_packet_def)

lemma process_tx_routed:
  assumes "ip_tx_queue net = org # rest" "34 \<le> length org" "net_self_ip net = Some src" "net_netmask net = Some msk"
    and "next_hop_info net src msk (ip_dst (ip_of org)) = Some (hop, i)" "devices net i = Some d"
  shows "\<exists>d' out. process_tx ops net = (net\<lparr>ip_tx_queue := rest, devices := (devices net)(i \<mapsto> d')\<rparr>, Inr ()) \<and>
    outbox d' = outbox d @ [out] \<and> nic_addr ops d' = nic_addr ops d \<and>
    drop 34 out = drop 34 org \<and> length out = length org \<and>
    ip_eth (ip_of out) = eth_new hop (nic_addr ops d) ethertype_ip_v4 \<and> ip_src (ip_of out) = src \<and>
    ip_dst (ip_of out) = ip_dst (ip_of org) \<and> calc (take 20 (drop 14 out)) = Inr 0"
proof -
  obtain out where out: "fill_in org src hop (nic_addr ops d) = Inr out" "length out = length org"
    "drop 34 out = drop 34 org" "ip_eth (ip_of out) = eth_new hop (nic_addr ops d) ethertype_ip_v4"
    "ip_src (ip_of out) = src" "ip_dst (ip_of out) = ip_dst (ip_of org)" "calc (take 20 (drop 14 out)) = Inr 0"
    by (rule fill_in_ok [OF assms(2)])
  let ?n = "net\<lparr>ip_tx_queue := rest\<rparr>"
  have "next_hop_info ?n src msk (ip_dst (ip_of org)) = Some (hop, i)"
    using assms(5) by simp
  moreover obtain d' where "push_packet ops i d out ?n = (?n\<lparr>devices := (devices ?n)(i \<mapsto> d')\<rparr>, Inr ())"
    "outbox d' = outbox d @ [out]" "nic_addr ops d' = nic_addr ops d"
    using push_packet_ok by blast
  ultimately show ?thesis
    using assms out by (auto simp: process_tx_def from_slice_def with_iface_def)
qed

text \<open>Sending the same kind of message from every interface that still exists.\<close>

lemma push_delivered:
  assumes "devices net i = Some d"
  shows "\<exists>devs. push_packet ops i d (msg (nic_addr ops d)) net = (net\<lparr>devices := devs\<rparr>, Inr ()) \<and>
    delivered ops outbox msg {i} (devices net) devs"
proof -
  obtain d' where d': "push_packet ops i d (msg (nic_addr ops d)) net = (net\<lparr>devices := (devices net)(i \<mapsto> d')\<rparr>, Inr ())"
    "outbox d' = outbox d @ [msg (nic_addr ops d)]" "nic_addr ops d' = nic_addr ops d"
    using push_packet_ok by blast
  then have "delivered ops outbox msg {i} (devices net) ((devices net)(i \<mapsto> d'))"
    using assms by (simp add: delivered_def)
  with d' show ?thesis by blast
qed

lemma broadcast:
  assumes "distinct is"
  shows "\<exists>devs. for_each (\<lambda>i. with_iface i (\<lambda>d. push_packet ops i d (msg (nic_addr ops d)))) is net =
      (net\<lparr>devices := devs\<rparr>, Inr ()) \<and> delivered ops outbox msg (set is) (devices net) devs"
  using assms
proof (induction "is" arbitrary: net)
  case Nil
  have "net = net\<lparr>devices := devices net\<rparr>" by simp
  then show ?case by (metis for_each.simps(1) delivered_empty empty_set)
next
  case (Cons i "is")
  have "\<exists>devs. with_iface i (\<lambda>d. push_packet ops i d (msg (nic_addr ops d))) net = (net\<lparr>devices := devs\<rparr>, Inr ()) \<and>
    delivered ops outbox msg {i} (devices net) devs"
  proof (cases "devices net i")
    case None
    then show ?thesis by (intro exI [of _ "devices net"]) (simp add: with_iface_def delivered_absent)
  next
    case (Some d)
    then show ?thesis using push_delivered by (simp add: with_iface_def)
  qed
  then obtain devs where 1: "with_iface i (\<lambda>d. push_packet ops i d (msg (nic_addr ops d))) net = (net\<lparr>devices := devs\<rparr>, Inr ())"
    "delivered ops outbox msg {i} (devices net) devs" by blast
  obtain devs' where 2: "for_each (\<lambda>i. with_iface i (\<lambda>d. push_packet ops i d (msg (nic_addr ops d)))) is (net\<lparr>devices := devs\<rparr>) =
      (net\<lparr>devices := devs'\<rparr>, Inr ())" "delivered ops outbox msg (set is) devs devs'"
    using Cons.IH [of "net\<lparr>devices := devs\<rparr>"] Cons.prems by auto
  from 1 2 delivered_trans [OF 1(2) 2(2)] Cons.prems show ?case by auto
qed

lemma process_tx_unrouted:
  assumes "ip_tx_queue net = org # rest" "34 \<le> length org" "net_self_ip net = Some src" "net_netmask net = Some msk"
    and "next_hop_info net src msk (ip_dst (ip_of org)) = None" "distinct (interfaces net)"
  shows "\<exists>devs. process_tx ops net = (net\<lparr>ip_tx_queue := rest, devices := devs\<rparr>, Inr ()) \<and>
    delivered ops outbox (\<lambda>own. arp_bytes (arp_request own src (ip_dst (ip_of org)))) (set (interfaces net))
      (devices net) devs"
  using assms broadcast [OF assms(6), of "\<lambda>own. arp_bytes (arp_request own src (ip_dst (ip_of org)))" "net\<lparr>ip_tx_queue := rest\<rparr>"]
  by (simp add: process_tx_def from_slice_def ask_arp_def)

lemma probe_asks:
  assumes "interface_has_added net" "distinct (interfaces net)"
  shows "\<exists>devs req. probe_interfaces ops net = (net\<lparr>interface_has_added := False, devices := devs\<rparr>, Inr ()) \<and>
    (\<forall>own. dhcp_request own = Inr (req own)) \<and>
    delivered ops outbox (\<lambda>own. dhcp_bytes (req own)) (set (interfaces net)) (devices net) devs"
proof -
  have "\<forall>own. \<exists>r. dhcp_request own = Inr r" using dhcp_request_ok by blast
  then obtain req where req: "\<And>own. dhcp_request own = Inr (req own)" by metis
  have lift: "act_then (lift_res (dhcp_request a)) f = f (req a)" for a f
    by (rule ext) (simp add: req)
  obtain devs where devs: "for_each (\<lambda>i. with_iface i (\<lambda>d. push_packet ops i d (dhcp_bytes (req (nic_addr ops d)))))
      (interfaces net) (net\<lparr>interface_has_added := False\<rparr>) = (net\<lparr>interface_has_added := False, devices := devs\<rparr>, Inr ())"
    "delivered ops outbox (\<lambda>own. dhcp_bytes (req own)) (set (interfaces net)) (devices net) devs"
    using broadcast [OF assms(2), of "\<lambda>own. dhcp_bytes (req own)" "net\<lparr>interface_has_added := False\<rparr>"] by auto
  have "probe_interfaces ops net = (net\<lparr>interface_has_added := False, devices := devs\<rparr>, Inr ())"
    using assms(1) devs(1) unfolding probe_interfaces_def lift by simp
  with devs(2) req show ?thesis by blast
qed

end

definition rtl_ops :: "rtl8139 nic_ops" where
  "rtl_ops = \<lparr>nic_addr = rtl_eth_addr, nic_push = rtl_push_packet, nic_pop = rtl_pop_packet\<rparr>"

definition rtl_outbox :: "rtl8139 \<Rightarrow> bytes list" where
  "rtl_outbox d = tx_pending (rtl_tx d)"

interpretation rtl: nic rtl_ops rtl_outbox
  by standard (auto simp: rtl_ops_def rtl_outbox_def rtl_push_packet_def rtl_pop_packet_def split: list.splits)

subsection \<open>DHCP options\<close>

definition encode_option :: "u8 \<times> bytes \<Rightarrow> bytes" where
  "encode_option e = fst e # word_of_nat (length (snd e)) # snd e"

definition good_option :: "u8 \<times> bytes \<Rightarrow> bool" where
  "good_option e \<longleftrightarrow> fst e \<noteq> DHCP_OPT_MESSAGE_TYPE_PADDING \<and> fst e \<noteq> DHCP_OPT_MESSAGE_TYPE_END \<and>
     snd e \<noteq> [] \<and> length (snd e) < 256"

text \<open>The option loop applies exactly the options that were encoded before the end mark, in order.\<close>

lemma dhcp_options_encoded:
  assumes "list_all good_option opts"
  shows "dhcp_options ops iface ip (concat (map encode_option opts) @ DHCP_OPT_MESSAGE_TYPE_END # junk) net =
    for_each (\<lambda>(op, data). dhcp_option ops iface ip op data) opts net"
  using assms
proof (induction opts arbitrary: net)
  case Nil
  show ?case by (simp add: DHCP_OPT_MESSAGE_TYPE_END_def DHCP_OPT_MESSAGE_TYPE_PADDING_def)
next
  case (Cons e opts)
  obtain op data where e: "e = (op, data)" by fastforce
  let ?len = "word_of_nat (length data) :: u8"
  have len: "unat ?len = length data" "?len \<noteq> 0"
    using Cons.prems e by (auto simp: good_option_def unat_of_nat word_of_nat_eq_0_iff nat_dvd_not_less)
  have ops: "op \<noteq> DHCP_OPT_MESSAGE_TYPE_PADDING" "op \<noteq> DHCP_OPT_MESSAGE_TYPE_END"
    using Cons.prems e by (simp_all add: good_option_def)
  have IH: "dhcp_options ops iface ip (concat (map encode_option opts) @ DHCP_OPT_MESSAGE_TYPE_END # junk) =
    for_each (\<lambda>(op, data). dhcp_option ops iface ip op data) opts"
    using Cons by (auto simp: fun_eq_iff)
  show ?case using ops len by (simp add: e encode_option_def [of "(op, data)"] IH)
qed

context nic
begin

lemma dhcp_configures:
  assumes "is_boot_reply p" "devices net i = Some d"
    and opts: "opts = [(DHCP_OPT_MESSAGE_TYPE, [t]), (DHCP_OPT_NETMASK, be_word m), (DHCP_OPT_ROUTER, be_word r),
      (DHCP_OPT_DNS, be_word s)]"
  shows "\<exists>d'. handle_rx_dhcp_client ops (dhcp_bytes p @ concat (map encode_option opts) @ DHCP_OPT_MESSAGE_TYPE_END # junk) i net =
      (net\<lparr>net_self_ip := Some (dhcp_yiaddr p), net_netmask := Some m, net_router := Some r,
           net_dns := Some (ip_addr_new 8 8 8 8), devices := (devices net)(i \<mapsto> d')\<rparr>, Inr ()) \<and>
    outbox d' = outbox d @ [arp_bytes (arp_request (nic_addr ops d) (dhcp_yiaddr p) r),
                            arp_bytes (arp_request (nic_addr ops d) (dhcp_yiaddr p) s)]"
proof -
  let ?ip = "dhcp_yiaddr p"
  have ne: "be_word x \<noteq> []" for x :: ip_addr
  proof -
    have "length (be_word x) \<noteq> 0" by simp
    then show ?thesis by blast
  qed
  have good: "list_all good_option opts"
    by (simp add: ne opts good_option_def DHCP_OPT_MESSAGE_TYPE_def DHCP_OPT_NETMASK_def DHCP_OPT_ROUTER_def
        DHCP_OPT_DNS_def DHCP_OPT_MESSAGE_TYPE_PADDING_def DHCP_OPT_MESSAGE_TYPE_END_def)
  let ?n1 = "net\<lparr>net_self_ip := Some ?ip, net_netmask := Some m, net_router := Some r\<rparr>"
  obtain d1 where d1: "push_packet ops i d (arp_bytes (arp_request (nic_addr ops d) ?ip r)) ?n1 =
      (?n1\<lparr>devices := (devices ?n1)(i \<mapsto> d1)\<rparr>, Inr ())"
    "outbox d1 = outbox d @ [arp_bytes (arp_request (nic_addr ops d) ?ip r)]" "nic_addr ops d1 = nic_addr ops d"
    using push_packet_ok by blast
  let ?n2 = "?n1\<lparr>devices := (devices net)(i \<mapsto> d1), net_dns := Some (ip_addr_new 8 8 8 8)\<rparr>"
  obtain d2 where d2: "push_packet ops i d1 (arp_bytes (arp_request (nic_addr ops d1) ?ip s)) ?n2 =
      (?n2\<lparr>devices := (devices ?n2)(i \<mapsto> d2)\<rparr>, Inr ())"
    "outbox d2 = outbox d1 @ [arp_bytes (arp_request (nic_addr ops d1) ?ip s)]"
    using push_packet_ok by blast
  have "for_each (\<lambda>(op, data). dhcp_option ops i ?ip op data) opts (net\<lparr>net_self_ip := Some ?ip\<rparr>) =
      (?n2\<lparr>devices := (devices net)(i \<mapsto> d2)\<rparr>, Inr ())"
    using assms(2) d1 d2
    by (simp add: opts act_then_def dhcp_option_def index_at_def ask_arp_def with_iface_def from_slice_def codec_simps
        DHCP_OPT_MESSAGE_TYPE_def DHCP_OPT_NETMASK_def DHCP_OPT_ROUTER_def DHCP_OPT_DNS_def)
  then show ?thesis
    using assms(1) d1 d2 good
    by (intro exI [of _ d2])
      (simp add: handle_rx_dhcp_client_def dhcp.from_as_slice dhcp.length_as_slice dhcp_options_encoded)
qed

end

end
