(* ===== verification/Window.thy ===== *)
theory Window
  imports Bitmap
begin

text \<open>
  The screen and the windows of applications: the drawing routines of \<open>noli/src/graphics.rs\<close>, which draw every point
  with a system call, that system call (\<open>sys_draw_point\<close> of \<open>os/src/syscall.rs\<close>, on the frame buffer of
  \<open>os/src/vram.rs\<close>), the sheets of \<open>noli/src/sheet.rs\<close> and the windows of \<open>noli/src/window.rs\<close>.  The state of a
  drawing on the screen is the frame buffer as a bitmap.  The lemmas show what flushing a sheet puts on the screen,
  that drawing in a window leaves its title bar alone, and which calls write outside of the frame buffer.
\<close>

subsection \<open>The system call\<close>

definition sys_draw_point :: "int \<Rightarrow> int \<Rightarrow> u32 \<Rightarrow> (bitmap, nat) act" where
  "sys_draw_point x y c vram =
     (case bitmap_draw_point c x y vram of
        (v, Inr _) \<Rightarrow> (v, Inr 0)
      | (v, Inl (Err _)) \<Rightarrow> (v, Inr 1)
      | (v, Inl f) \<Rightarrow> (v, Inl f))"

abbreviation (input) noli_failed :: "string \<Rightarrow> 'a res" where
  "noli_failed msg \<equiv> Inl (Err (from_noli_error (Noli_Failed msg)))"

definition draw_point :: "u32 \<Rightarrow> int \<Rightarrow> int \<Rightarrow> (bitmap, unit) act" where
  "draw_point c x y =
     act_then (sys_draw_point x y c) (\<lambda>result.
       lift_res (if result = 0 then Inr () else noli_failed ''draw_point: syscall failed''))"

subsection \<open>Graphics\<close>

text \<open>
  \<open>draw_line\<close> calls itself as \<open>bitmap_draw_line\<close> does, without the tests of the range: once with the end points
  exchanged, and for every column of the line with two points of that column.
\<close>

definition screen_column :: "u32 \<Rightarrow> int \<Rightarrow> int \<Rightarrow> int \<Rightarrow> (bitmap, unit) act" where
  "screen_column color x y0 y1 =
     (if y0 \<le> y1 then for_each (\<lambda>i. draw_point color x i) [y0..y1]
      else for_each (\<lambda>i. draw_point color x i) [y1..y0])"

definition screen_line_right :: "u32 \<Rightarrow> int \<Rightarrow> int \<Rightarrow> int \<Rightarrow> int \<Rightarrow> (bitmap, unit) act" where
  "screen_line_right color x0 y0 x1 y1 =
     (let lx = x1 - x0 + 1; a = tdiv ((y1 - y0) * MULTIPLIER) lx
      in act_then (for_each (\<lambda>i. screen_column color (x0 + i) (y0 + tdiv (a * i) MULTIPLIER)
                     (y0 + tdiv (a * (i + 1)) MULTIPLIER)) [0..lx - 1]) (\<lambda>_.
         act_then (draw_point color x0 y0) (\<lambda>_. draw_point color x1 y1)))"

definition draw_line :: "u32 \<Rightarrow> int \<Rightarrow> int \<Rightarrow> int \<Rightarrow> int \<Rightarrow> (bitmap, unit) act" where
  "draw_line color x0 y0 x1 y1 =
     (if x1 < x0 then screen_line_right color x1 y1 x0 y0
      else if x1 = x0 then screen_column color x0 y0 y1
      else screen_line_right color x0 y0 x1 y1)"

definition draw_rect :: "u32 \<Rightarrow> int \<Rightarrow> int \<Rightarrow> int \<Rightarrow> int \<Rightarrow> (bitmap, unit) act" where
  "draw_rect color x y width height =
     act_then (draw_line color x y (x + width) y) (\<lambda>_.
     act_then (draw_line color x y x (y + height)) (\<lambda>_.
     act_then (draw_line color (x + width) y (x + width) (y + height)) (\<lambda>_.
     draw_line color x (y + height) (x + width) (y + height))))"

definition fill_rect :: "u32 \<Rightarrow> int \<Rightarrow> int \<Rightarrow> int \<Rightarrow> int \<Rightarrow> (bitmap, unit) act" where
  "fill_rect color px py width height =
     for_each (\<lambda>dx. for_each (\<lambda>dy. draw_point color (px + dx) (py + dy)) [0..height - 1]) [0..width - 1]"

definition fill_circle :: "u32 \<Rightarrow> int \<Rightarrow> int \<Rightarrow> int \<Rightarrow> (bitmap, unit) act" where
  "fill_circle color center_x center_y radius =
     for_each (\<lambda>i. for_each (\<lambda>j.
       let x = i - radius; y = j - radius
       in if x * x + y * y \<le> radius * radius + 1 then draw_point color (i + center_x) (j + center_y) else act_ok)
       [0..radius * 2]) [0..radius * 2]"

text \<open>The font has 256 glyphs, and indexing it with a larger code point panics.\<close>

definition with_glyph :: "font \<Rightarrow> nat \<Rightarrow> ((nat \<Rightarrow> u8) \<Rightarrow> ('s, unit) act) \<Rightarrow> ('s, unit) act" where
  "with_glyph font c m = (if c < 256 then m (font c) else lift_res (Inl (Panic ''index out of bounds'')))"

definition row_bit :: "(nat \<Rightarrow> u8) \<Rightarrow> int \<Rightarrow> int \<Rightarrow> bool" where
  "row_bit font_data x y \<longleftrightarrow> drop_bit (nat x) (font_data (nat y)) AND 1 = 1"

definition draw_char :: "font \<Rightarrow> u32 \<Rightarrow> int \<Rightarrow> int \<Rightarrow> nat \<Rightarrow> (bitmap, unit) act" where
  "draw_char font color px py c =
     with_glyph font c (\<lambda>font_data.
       for_each (\<lambda>y. for_each (\<lambda>x.
         if row_bit font_data x y then draw_point color (px + x) (py + y) else act_ok) [0..7]) [0..15])"

definition draw_char_2x :: "font \<Rightarrow> u32 \<Rightarrow> int \<Rightarrow> int \<Rightarrow> nat \<Rightarrow> (bitmap, unit) act" where
  "draw_char_2x font color px py c =
     with_glyph font c (\<lambda>font_data.
       for_each (\<lambda>y. for_each (\<lambda>x.
         if row_bit font_data x y
         then act_then (draw_point color (px + x * 2) (py + y * 2)) (\<lambda>_.
              act_then (draw_point color (px + x * 2 + 1) (py + y * 2)) (\<lambda>_.
              act_then (draw_point color (px + x * 2) (py + y * 2 + 1)) (\<lambda>_.
              draw_point color (px + x * 2 + 1) (py + y * 2 + 1))))
         else act_ok) [0..7]) [0..15])"

definition draw_char_3x :: "font \<Rightarrow> u32 \<Rightarrow> int \<Rightarrow> int \<Rightarrow> nat \<Rightarrow> (bitmap, unit) act" where
  "draw_char_3x font color px py c =
     with_glyph font c (\<lambda>font_data.
       for_each (\<lambda>y. for_each (\<lambda>x.
         if row_bit font_data (x div 3) (y div 3) then draw_point color (px + x) (py + y) else act_ok) [0..23]) [0..47])"

definition true_count :: "(nat \<Rightarrow> u8) \<Rightarrow> int \<Rightarrow> int \<Rightarrow> u32" where
  "true_count font_data x y =
     (let font_3x = (\<lambda>y x. row_bit font_data (x div 3) (y div 3))
      in of_bool (font_3x (y * 2) (x * 2)) + of_bool (font_3x (y * 2 + 1) (x * 2))
         + of_bool (font_3x (y * 2) (x * 2 + 1)) + of_bool (font_3x (y * 2 + 1) (x * 2 + 1)))"

definition shade :: "u32 \<Rightarrow> u32 \<Rightarrow> u32" where
  "shade color n =
     (let r = drop_bit 16 color AND 0xff; g = drop_bit 8 color AND 0xff; b = color AND 0xff
      in push_bit 16 (r * n div 4) OR push_bit 8 (g * n div 4) OR (b * n div 4))"

definition draw_char_1p5x :: "font \<Rightarrow> u32 \<Rightarrow> int \<Rightarrow> int \<Rightarrow> nat \<Rightarrow> (bitmap, unit) act" where
  "draw_char_1p5x font color px py c =
     with_glyph font c (\<lambda>font_data.
       for_each (\<lambda>y. for_each (\<lambda>x.
         draw_point (shade color (true_count font_data x y)) (px + x) (py + y)) [0..11]) [0..23])"

definition draw_string :: "font \<Rightarrow> u32 \<Rightarrow> int \<Rightarrow> int \<Rightarrow> nat list \<Rightarrow> (bitmap, unit) act" where
  "draw_string font color x y s = draw_chars (\<lambda>px c. draw_char font color px y c) 8 x s"

definition draw_string_1p5x :: "font \<Rightarrow> u32 \<Rightarrow> int \<Rightarrow> int \<Rightarrow> nat list \<Rightarrow> (bitmap, unit) act" where
  "draw_string_1p5x font color x y s = draw_chars (\<lambda>px c. draw_char_1p5x font color px y c) 12 x s"

definition draw_string_2x :: "font \<Rightarrow> u32 \<Rightarrow> int \<Rightarrow> int \<Rightarrow> nat list \<Rightarrow> (bitmap, unit) act" where
  "draw_string_2x font color x y s = draw_chars (\<lambda>px c. draw_char_2x font color px y c) 16 x s"

definition draw_string_3x :: "font \<Rightarrow> u32 \<Rightarrow> int \<Rightarrow> int \<Rightarrow> nat list \<Rightarrow> (bitmap, unit) act" where
  "draw_string_3x font color x y s = draw_chars (\<lambda>px c. draw_char_3x font color px y c) 24 x s"

definition draw_string_with_underline :: "font \<Rightarrow> u32 \<Rightarrow> int \<Rightarrow> int \<Rightarrow> nat list \<Rightarrow> (bitmap, unit) act" where
  "draw_string_with_underline font color x y s =
     act_then (draw_string font color x y s) (\<lambda>_.
       draw_line color x (y + 16) (x + 8 * int (length s)) (y + 16))"

subsection \<open>Sheets\<close>

record sheet =
  sheet_x :: int
  sheet_y :: int
  sheet_bitmap :: bitmap

definition sheet_new :: "rect \<Rightarrow> sheet res" where
  "sheet_new r =
     and_then (bitmap_new (rect_w r) (rect_h r) (rect_w r)) (\<lambda>b.
     Inr \<lparr>sheet_x = rect_x r, sheet_y = rect_y r, sheet_bitmap = b\<rparr>)"

definition set_position :: "int \<Rightarrow> int \<Rightarrow> sheet \<Rightarrow> sheet" where
  "set_position x y s = s\<lparr>sheet_x := x, sheet_y := y\<rparr>"

definition sheet_width :: "sheet \<Rightarrow> int" where "sheet_width s = bm_width (sheet_bitmap s)"
definition sheet_height :: "sheet \<Rightarrow> int" where "sheet_height s = bm_height (sheet_bitmap s)"

definition sheet_rect :: "sheet \<Rightarrow> rect res" where
  "sheet_rect s = unwrap (rect_new (sheet_x s) (sheet_y s) (sheet_width s) (sheet_height s))"

text \<open>The flushing routines ignore the errors of \<open>draw_point\<close>.\<close>

definition ignore_err :: "('s, unit) act \<Rightarrow> ('s, unit) act" where
  "ignore_err m s = (case m s of (s', Inl (Err _)) \<Rightarrow> (s', Inr ()) | r \<Rightarrow> r)"

definition flush_pixel :: "sheet \<Rightarrow> int \<Rightarrow> int \<Rightarrow> (bitmap, unit) act" where
  "flush_pixel s x y =
     act_then (lift_res (pixel_at (sheet_bitmap s) x y)) (\<lambda>p.
       ignore_err (draw_point (case p of Some c \<Rightarrow> c | None \<Rightarrow> 0) (x + sheet_x s) (y + sheet_y s)))"

definition sheet_flush_area :: "sheet \<Rightarrow> rect \<Rightarrow> (bitmap, unit) act" where
  "sheet_flush_area s global_rect =
     act_then (lift_res (and_then (sheet_rect s) (\<lambda>r. rect_intersection r global_rect))) (\<lambda>gr.
       case gr of
         None \<Rightarrow> act_ok
       | Some gi \<Rightarrow>
           act_then (lift_res (and_then
             (unwrap (rect_new (rect_x gi - sheet_x s) (rect_y gi - sheet_y s) (rect_w gi) (rect_h gi))) frame_ranges))
             (\<lambda>(x_range, y_range).
               for_each (\<lambda>y. for_each (\<lambda>x. flush_pixel s x y) [range_start x_range..range_end x_range - 1])
                 [range_start y_range..range_end y_range - 1]))"

definition sheet_flush :: "sheet \<Rightarrow> (bitmap, unit) act" where
  "sheet_flush s = for_each (\<lambda>y. for_each (\<lambda>x. flush_pixel s x y) [0..sheet_width s - 1]) [0..sheet_height s - 1]"

definition draw_border :: "u32 \<Rightarrow> sheet \<Rightarrow> (bitmap, unit) act" where
  "draw_border color s =
     (let x = sheet_x s; y = sheet_y s; w = sheet_width s; h = sheet_height s
      in act_then (draw_line color x y (x + w) y) (\<lambda>_.
         act_then (draw_line color x y x (y + h)) (\<lambda>_.
         act_then (draw_line color (x + w) y (x + w) (y + h)) (\<lambda>_.
         draw_line color x (y + h) (x + w) (y + h)))))"

subsection \<open>Windows\<close>

definition WHITE :: u32 where "WHITE = 0xffffff"
definition DARKBLUE :: u32 where "DARKBLUE = 0x00008b"
definition GREY :: u32 where "GREY = 0x808080"
definition DARKGREY :: u32 where "DARKGREY = 0x5a5a5a"
definition BLACK :: u32 where "BLACK = 0x000000"
definition TITLE_BAR_HEIGHT :: int where "TITLE_BAR_HEIGHT = 24"
definition BUTTON_SIZE :: int where "BUTTON_SIZE = 16"

datatype string_size = Medium | Large | XLarge

record window =
  win_name :: "nat list"
  win_background :: u32
  win_sheet :: sheet
  win_active :: bool

text \<open>A drawing routine on the bitmap of the window.\<close>

definition on_win :: "(bitmap, unit) act \<Rightarrow> (window, unit) act" where
  "on_win m w =
     (case m (sheet_bitmap (win_sheet w)) of
        (b, r) \<Rightarrow> (w\<lparr>win_sheet := (win_sheet w)\<lparr>sheet_bitmap := b\<rparr>\<rparr>, r))"

definition init_titlebar :: "font \<Rightarrow> (window, unit) act" where
  "init_titlebar font win =
     (let width = sheet_width (win_sheet win)
      in act_then (on_win (bitmap_draw_rect DARKBLUE 0 0 width TITLE_BAR_HEIGHT)) (\<lambda>_.
         act_then (on_win (bitmap_draw_string font WHITE None 5 3 (win_name win))) (\<lambda>_.
         act_then (on_win (bitmap_draw_rect GREY (width - (6 + BUTTON_SIZE)) 4 BUTTON_SIZE BUTTON_SIZE)) (\<lambda>_.
         act_then (on_win (bitmap_draw_line WHITE (width - (6 + BUTTON_SIZE)) 4 (width - 6) 4)) (\<lambda>_.
         act_then (on_win (bitmap_draw_line WHITE (width - (6 + BUTTON_SIZE)) 4 (width - (6 + BUTTON_SIZE)) (4 + BUTTON_SIZE))) (\<lambda>_.
         act_then (on_win (bitmap_draw_line DARKGREY (width - (6 + BUTTON_SIZE)) (4 + BUTTON_SIZE) (width - 6) (4 + BUTTON_SIZE))) (\<lambda>_.
         act_then (on_win (bitmap_draw_line DARKGREY (width - 6) 4 (width - 6) (4 + BUTTON_SIZE))) (\<lambda>_.
         act_then (on_win (bitmap_draw_line BLACK (width - (6 + BUTTON_SIZE) + 4) 8 (width - (6 + BUTTON_SIZE) + 12) 16)) (\<lambda>_.
         on_win (bitmap_draw_line BLACK (width - (6 + BUTTON_SIZE) + 4) 16 (width - (6 + BUTTON_SIZE) + 12) 8))))))))) win)"

definition window_new :: "font \<Rightarrow> nat list \<Rightarrow> u32 \<Rightarrow> int \<Rightarrow> int \<Rightarrow> int \<Rightarrow> int \<Rightarrow> window res" where
  "window_new font name color x y width height =
     and_then (unwrap (rect_new x y width height)) (\<lambda>r.
     and_then (sheet_new r) (\<lambda>sheet.
     case bitmap_draw_rect color 0 0 width height (sheet_bitmap sheet) of
       (_, Inl f) \<Rightarrow> Inl f
     | (b, Inr _) \<Rightarrow>
         (case init_titlebar font \<lparr>win_name = name, win_background = color,
              win_sheet = sheet\<lparr>sheet_bitmap := b\<rparr>, win_active = True\<rparr> of
            (w, Inr _) \<Rightarrow> Inr w
          | (_, Inl (Err _)) \<Rightarrow> Inl (Panic ''failed to init titlebar'')
          | (_, Inl f) \<Rightarrow> Inl f)))"

definition window_flush_area :: "window \<Rightarrow> rect \<Rightarrow> (bitmap, unit) act" where
  "window_flush_area w r = sheet_flush_area (win_sheet w) r"

definition window_flush :: "window \<Rightarrow> (bitmap, unit) act" where
  "window_flush w = sheet_flush (win_sheet w)"

definition window_fill_rect :: "u32 \<Rightarrow> int \<Rightarrow> int \<Rightarrow> int \<Rightarrow> int \<Rightarrow> (window, unit) act" where
  "window_fill_rect color px py width height w =
     (if px < 0 \<or> px + width > sheet_width (win_sheet w) \<or> py < 0 \<or>
         py + height + TITLE_BAR_HEIGHT > sheet_height (win_sheet w)
      then (w, noli_failed ''fill_rect: out of range'')
      else on_win (bitmap_draw_rect color px (py + TITLE_BAR_HEIGHT) width height) w)"

definition window_draw_line :: "u32 \<Rightarrow> int \<Rightarrow> int \<Rightarrow> int \<Rightarrow> int \<Rightarrow> (window, unit) act" where
  "window_draw_line color x0 y0 x1 y1 w =
     (if min x0 x1 < 0 \<or> min y0 y1 < 0 \<or> max x0 x1 > sheet_width (win_sheet w) \<or>
         max y0 y1 + TITLE_BAR_HEIGHT > sheet_height (win_sheet w)
      then (w, noli_failed ''out of range'')
      else on_win (bitmap_draw_line color x1 (y1 + TITLE_BAR_HEIGHT) x0 (y0 + TITLE_BAR_HEIGHT)) w)"

definition window_draw_string ::
    "font \<Rightarrow> u32 \<Rightarrow> int \<Rightarrow> int \<Rightarrow> nat list \<Rightarrow> string_size \<Rightarrow> bool \<Rightarrow> (window, unit) act" where
  "window_draw_string font color x y s sz underline w =
     (if x < 0 \<or> x > sheet_width (win_sheet w) \<or> y < 0 \<or> y + TITLE_BAR_HEIGHT > sheet_height (win_sheet w)
      then (w, noli_failed ''draw_string: out of range'')
      else on_win
        ((case sz of
            Medium \<Rightarrow> if underline then bitmap_draw_string_with_underline else bitmap_draw_string
          | Large \<Rightarrow> if underline then bitmap_draw_string_2x_with_underline else bitmap_draw_string_2x
          | XLarge \<Rightarrow> if underline then bitmap_draw_string_3x_with_underline else bitmap_draw_string_3x)
         font color None x (y + TITLE_BAR_HEIGHT) s) w)"

definition window_draw_point :: "u32 \<Rightarrow> int \<Rightarrow> int \<Rightarrow> (window, unit) act" where
  "window_draw_point color x y w =
     (if x < 0 \<or> x > sheet_width (win_sheet w) \<or> y < 0 \<or> y + TITLE_BAR_HEIGHT > sheet_height (win_sheet w)
      then (w, noli_failed ''draw_point: out of range'')
      else on_win (bitmap_draw_point color x (y + TITLE_BAR_HEIGHT)) w)"

text \<open>A pixel of the drawing library is a point with a colour of three components of eight bits.\<close>

definition draw_iter :: "(int \<times> int \<times> u8 \<times> u8 \<times> u8) list \<Rightarrow> (window, unit) act" where
  "draw_iter pixels =
     for_each (\<lambda>(x, y, r, g, b) w.
       if x \<ge> sheet_width (win_sheet w) \<or> y + TITLE_BAR_HEIGHT \<ge> sheet_height (win_sheet w) then (w, Inr ())
       else window_draw_point (push_bit 16 (ucast r) + push_bit 8 (ucast g) + ucast b) x y w) pixels"

subsection \<open>Drawing on the screen\<close>

lemma draw_point_inside:
  "bm_ok b \<Longrightarrow> inside b (x, y) \<Longrightarrow> draw_point c x y b = (set_pix c (x, y) b, Inr ())"
  by (simp add: draw_point_def sys_draw_point_def draw_inside act_then_def lift_res_def)

lemma paints_draw_point: "F (x, y) = Some c \<Longrightarrow> paints F {(x, y)} (draw_point c x y)"
  using paints_point [of F x y c] unfolding paints_iff by (auto simp: draw_point_inside draw_inside)

text \<open>The routines of \<open>graphics.rs\<close> paint what their counterparts of \<open>bitmap.rs\<close> paint.\<close>

lemma paints_fill_rect:
  "paints (\<lambda>_. Some c) ({px..px + w - 1} \<times> {py..py + h - 1}) (fill_rect c px py w h)"
proof -
  have "paints (\<lambda>_. Some c) (\<Union>dx \<in> set [0..w - 1]. \<Union>dy \<in> set [0..h - 1]. {(px + dx, py + dy)}) (fill_rect c px py w h)"
    unfolding fill_rect_def by (intro paints_for_each paints_draw_point) simp
  moreover have "(\<Union>dx \<in> set [0..w - 1]. \<Union>dy \<in> set [0..h - 1]. {(px + dx, py + dy)}) =
      {px..px + w - 1} \<times> {py..py + h - 1}" (is "?A = ?B")
  proof (intro set_eqI iffI)
    fix p assume "p \<in> ?B"
    then show "p \<in> ?A" by (intro UN_I [of "fst p - px"] UN_I [of "snd p - py"]) auto
  qed auto
  ultimately show ?thesis by simp
qed

lemma paints_screen_column:
  "paints (\<lambda>_. Some c) ({x} \<times> {min y0 y1..max y0 y1}) (screen_column c x y0 y1)"
proof -
  have "paints (\<lambda>_. Some c) ({x} \<times> {s..e}) (for_each (\<lambda>i. draw_point c x i) [s..e])" for s e
  proof -
    have "paints (\<lambda>_. Some c) (\<Union>i \<in> set [s..e]. {(x, i)}) (for_each (\<lambda>i. draw_point c x i) [s..e])"
      by (intro paints_for_each paints_draw_point) simp
    then show ?thesis by (rule paints_cong) auto
  qed
  then show ?thesis by (simp add: screen_column_def min_def max_def)
qed

lemma paints_screen_line: "paints (\<lambda>_. Some c) (line_points x0 y0 x1 y1) (screen_line_right c x0 y0 x1 y1)"
proof -
  have s: "set [0..x1 - x0 + 1 - 1] = {0..x1 - x0 + 1 - 1}" by simp
  show ?thesis
    unfolding line_points_def screen_line_right_def Let_def s [symmetric]
    by (intro paints_then paints_draw_point paints_for_each paints_screen_column) simp_all
qed

lemma paints_circle:
  "paints (\<lambda>_. Some c) {(x, y). (x - cx - r) * (x - cx - r) + (y - cy - r) * (y - cy - r) \<le> r * r + 1 \<and>
     x \<in> {cx..cx + 2 * r} \<and> y \<in> {cy..cy + 2 * r}} (fill_circle c cx cy r)"
proof -
  let ?in = "\<lambda>i j. (i - r) * (i - r) + (j - r) * (j - r) \<le> r * r + 1"
  have "paints (\<lambda>_. Some c) (\<Union>i \<in> set [0..r * 2]. \<Union>j \<in> set [0..r * 2]. if ?in i j then {(i + cx, j + cy)} else {})
      (fill_circle c cx cy r)"
    unfolding fill_circle_def Let_def
    by (intro paints_for_each) (auto intro: paints_draw_point paints_nothing)
  moreover have "(\<Union>i \<in> set [0..r * 2]. \<Union>j \<in> set [0..r * 2]. if ?in i j then {(i + cx, j + cy)} else {}) =
      {(x, y). (x - cx - r) * (x - cx - r) + (y - cy - r) * (y - cy - r) \<le> r * r + 1 \<and>
        x \<in> {cx..cx + 2 * r} \<and> y \<in> {cy..cy + 2 * r}}" (is "?A = ?B")
  proof (intro set_eqI iffI)
    fix p assume "p \<in> ?B"
    then show "p \<in> ?A"
      by (intro UN_I [of "fst p - cx"] UN_I [of "snd p - cy"]) auto
  qed (auto split: if_splits)
  ultimately show ?thesis by simp
qed

subsection \<open>Flushing a sheet\<close>

definition row_inside :: "bitmap \<Rightarrow> int \<times> int \<Rightarrow> bool" where
  "row_inside b p \<longleftrightarrow> 0 \<le> snd p \<and> snd p < bm_height b"

interpretation clipping: drawing row_inside
  by unfold_locales (simp add: row_inside_def same_shape_def)

lemma clips_point:
  assumes "F (x, y) = Some c"
  shows "draws row_inside F {(x, y)} (ignore_err (draw_point c x y))"
  unfolding draws_def
proof (intro allI impI)
  fix b assume b: "bm_ok b" "\<forall>p \<in> {(x, y)}. row_inside b p"
  show "\<exists>b'. ignore_err (draw_point c x y) b = (b', Inr ()) \<and> painted F {p \<in> {(x, y)}. inside b p} b b'"
  proof (cases "inside b (x, y)")
    case True
    then have "{p \<in> {(x, y)}. inside b p} = {(x, y)}" by auto
    with True b(1) paintsD [OF paints_draw_point [of F x y c]] assms show ?thesis
      by (auto simp: ignore_err_def draw_point_inside)
  next
    case False
    then have "{p \<in> {(x, y)}. inside b p} = {}" "\<not> is_in_x_range b x"
      using b by (auto simp: inside_def row_inside_def is_in_x_range_def)
    then show ?thesis
      by (simp add: ignore_err_def draw_point_def sys_draw_point_def bitmap_draw_point_def act_then_def lift_res_def
          painted_def restrict_map_def)
  qed
qed

lemma clips_flush_pixel:
  assumes "bm_ok (sheet_bitmap s)" "inside (sheet_bitmap s) (x, y)"
  shows "draws row_inside (clip_picture (sheet_bitmap s) (sheet_x s) (sheet_y s)) {(x + sheet_x s, y + sheet_y s)}
    (flush_pixel s x y)"
proof -
  have "flush_pixel s x y = ignore_err (draw_point (pix (sheet_bitmap s) (x, y)) (x + sheet_x s) (y + sheet_y s))"
    using assms by (intro ext) (simp add: flush_pixel_def pixel_at_ok)
  with assms(2) show ?thesis by (simp add: clips_point clip_picture_def)
qed

lemma clips_flush_box:
  assumes "bm_ok (sheet_bitmap s)" "0 \<le> x0" "x1 < sheet_width s" "0 \<le> y0" "y1 < sheet_height s"
  shows "draws row_inside (clip_picture (sheet_bitmap s) (sheet_x s) (sheet_y s))
    ({x0 + sheet_x s..x1 + sheet_x s} \<times> {y0 + sheet_y s..y1 + sheet_y s})
    (for_each (\<lambda>y. for_each (\<lambda>x. flush_pixel s x y) [x0..x1]) [y0..y1])"
proof -
  have "draws row_inside (clip_picture (sheet_bitmap s) (sheet_x s) (sheet_y s))
      (\<Union>y \<in> set [y0..y1]. \<Union>x \<in> set [x0..x1]. {(x + sheet_x s, y + sheet_y s)})
      (for_each (\<lambda>y. for_each (\<lambda>x. flush_pixel s x y) [x0..x1]) [y0..y1])"
    using assms by (intro clipping.draws_for_each clips_flush_pixel) (auto simp: inside_def sheet_width_def sheet_height_def)
  moreover have "(\<Union>y \<in> set [y0..y1]. \<Union>x \<in> set [x0..x1]. {(x + sheet_x s, y + sheet_y s)}) =
      {x0 + sheet_x s..x1 + sheet_x s} \<times> {y0 + sheet_y s..y1 + sheet_y s}" (is "?A = ?B")
  proof (intro set_eqI iffI)
    fix p assume "p \<in> ?B"
    then show "p \<in> ?A" by (intro UN_I [of "snd p - sheet_y s"] UN_I [of "fst p - sheet_x s"]) auto
  qed auto
  ultimately show ?thesis by simp
qed

lemma sheet_flush_ok:
  assumes "bm_ok scr" "bm_ok (sheet_bitmap s)" "0 \<le> sheet_y s" "sheet_y s + sheet_height s \<le> bm_height scr"
  shows "\<exists>scr'. sheet_flush s scr = (scr', Inr ()) \<and>
    painted (clip_picture (sheet_bitmap s) (sheet_x s) (sheet_y s)) {p. inside scr p} scr scr'"
proof -
  let ?F = "clip_picture (sheet_bitmap s) (sheet_x s) (sheet_y s)"
  let ?D = "{0 + sheet_x s..sheet_width s - 1 + sheet_x s} \<times> {0 + sheet_y s..sheet_height s - 1 + sheet_y s}"
  have "draws row_inside ?F ?D (sheet_flush s)"
    unfolding sheet_flush_def using assms(2) by (intro clips_flush_box) simp_all
  moreover have "\<forall>p \<in> ?D. row_inside scr p" using assms(3,4) by (auto simp: row_inside_def)
  ultimately obtain scr' where r: "sheet_flush s scr = (scr', Inr ())" "painted ?F {p \<in> ?D. inside scr p} scr scr'"
    using assms(1) unfolding draws_def by blast
  have "?F |` {p \<in> ?D. inside scr p} = ?F |` {p. inside scr p}"
    by (intro ext) (auto simp: restrict_map_def clip_picture_def inside_def sheet_width_def sheet_height_def split: if_splits)
  with r show ?thesis using painted_cong by blast
qed

text \<open>A sheet that reaches below the screen is written past the end of the frame buffer.\<close>

lemma draw_point_past_end:
  assumes "bm_ok scr" "is_in_x_range scr x" "bm_height scr \<le> y"
  shows "draw_point c x y scr = (scr, Inl (UB ''write outside of the buffer''))"
  using draw_point_below [OF assms] by (simp add: draw_point_def sys_draw_point_def act_then_def)

lemma sheet_flush_area_ok:
  assumes "bm_ok scr" "bm_ok (sheet_bitmap s)" "0 \<le> sheet_y s" "sheet_y s + sheet_height s \<le> bm_height scr"
    and pos: "0 < sheet_width s" "0 < sheet_height s" "0 < rect_w r" "0 < rect_h r"
  shows "\<exists>scr'. sheet_flush_area s r scr = (scr', Inr ()) \<and>
    painted (clip_picture (sheet_bitmap s) (sheet_x s) (sheet_y s))
      {p. inside scr p \<and> rect_x r \<le> fst p \<and> fst p < rect_x r + rect_w r \<and> rect_y r \<le> snd p \<and> snd p < rect_y r + rect_h r} scr scr'"
proof -
  let ?F = "clip_picture (sheet_bitmap s) (sheet_x s) (sheet_y s)"
  let ?A = "{p. inside scr p \<and> rect_x r \<le> fst p \<and> fst p < rect_x r + rect_w r \<and> rect_y r \<le> snd p \<and> snd p < rect_y r + rect_h r}"
  define x0 x1 y0 y1 where b: "x0 = max (sheet_x s) (rect_x r)" "x1 = min (sheet_x s + sheet_width s) (rect_x r + rect_w r)"
    "y0 = max (sheet_y s) (rect_y r)" "y1 = min (sheet_y s + sheet_height s) (rect_y r + rect_h r)"
  have rect: "and_then (sheet_rect s) (\<lambda>g. rect_intersection g r) =
      Inr (if x0 < x1 \<and> y0 < y1 then Some \<lparr>rect_x = x0, rect_y = y0, rect_w = x1 - x0, rect_h = y1 - y0\<rparr> else None)"
  proof -
    have "sheet_rect s = Inr \<lparr>rect_x = sheet_x s, rect_y = sheet_y s, rect_w = sheet_width s, rect_h = sheet_height s\<rparr>"
      using pos by (simp add: sheet_rect_def rect_new_def unwrap_def)
    then show ?thesis using pos by (simp only: and_then_simps) (subst rect_intersection_ok, simp_all add: b Let_def)
  qed
  show ?thesis
  proof (cases "x0 < x1 \<and> y0 < y1")
    case True
    let ?D = "{x0 - sheet_x s + sheet_x s..x1 - sheet_x s - 1 + sheet_x s} \<times> {y0 - sheet_y s + sheet_y s..y1 - sheet_y s - 1 + sheet_y s}"
    have eq: "sheet_flush_area s r scr = for_each (\<lambda>y. for_each (\<lambda>x. flush_pixel s x y)
        [x0 - sheet_x s..x1 - sheet_x s - 1]) [y0 - sheet_y s..y1 - sheet_y s - 1] scr"
      using True by (simp add: sheet_flush_area_def rect rect_new_def unwrap_def frame_ranges_def scalar_range_new_def
          algebra_simps)
    have "draws row_inside ?F ?D (for_each (\<lambda>y. for_each (\<lambda>x. flush_pixel s x y)
        [x0 - sheet_x s..x1 - sheet_x s - 1]) [y0 - sheet_y s..y1 - sheet_y s - 1])"
      using assms(2) by (intro clips_flush_box) (simp_all add: b)
    moreover have "\<forall>p \<in> ?D. row_inside scr p" using assms(3,4) by (auto simp: row_inside_def b)
    ultimately obtain scr' where r: "sheet_flush_area s r scr = (scr', Inr ())" "painted ?F {p \<in> ?D. inside scr p} scr scr'"
      using assms(1) unfolding draws_def eq by blast
    have "?F |` {p \<in> ?D. inside scr p} = ?F |` ?A"
      by (intro ext) (auto simp: restrict_map_def clip_picture_def inside_def sheet_width_def sheet_height_def b split: if_splits)
    with r show ?thesis using painted_cong by blast
  next
    case False
    then have "sheet_flush_area s r scr = (scr, Inr ())" by (auto simp: sheet_flush_area_def rect act_ok_def)
    moreover have "?F |` ?A = Map.empty"
      using False by (intro ext) (auto simp: restrict_map_def clip_picture_def inside_def sheet_width_def sheet_height_def b
          split: if_splits)
    then have "painted ?F ?A scr scr" by (simp add: painted_def)
    ultimately show ?thesis by blast
  qed
qed

subsection \<open>The title bar\<close>

text \<open>\<open>leaves_above y0 m\<close>: whatever its outcome, the routine \<open>m\<close> changes no pixel above the row \<open>y0\<close>.\<close>

definition leaves_above :: "int \<Rightarrow> (bitmap, unit) act \<Rightarrow> bool" where
  "leaves_above y0 m \<longleftrightarrow> (\<forall>b. bm_ok b \<longrightarrow> same_shape b (fst (m b)) \<and>
     (\<forall>p. stored b p \<longrightarrow> snd p < y0 \<longrightarrow> pix (fst (m b)) p = pix b p))"

named_theorems above_intros

lemma above_ok [above_intros]: "leaves_above y0 act_ok"
  by (simp add: leaves_above_def act_ok_def)

lemma above_fail [above_intros]: "leaves_above y0 (\<lambda>b. (b, r))"
  by (simp add: leaves_above_def)

lemma above_then [above_intros]:
  assumes "leaves_above y0 m" "leaves_above y0 n"
  shows "leaves_above y0 (act_then m (\<lambda>_. n))"
  unfolding leaves_above_def
proof (intro allI impI)
  fix b assume b: "bm_ok b"
  obtain b1 r where m: "m b = (b1, r)" by (cases "m b")
  have s: "same_shape b b1" and k: "\<And>p. stored b p \<Longrightarrow> snd p < y0 \<Longrightarrow> pix b1 p = pix b p"
    using assms(1) b m unfolding leaves_above_def by (metis fst_conv)+
  have "bm_ok b1" using b by (simp add: same_shape_cong [OF s])
  note n' = assms(2) [unfolded leaves_above_def, rule_format, OF this]
  have n: "same_shape b1 (fst (n b1))" "\<And>p. stored b p \<Longrightarrow> snd p < y0 \<Longrightarrow> pix (fst (n b1)) p = pix b1 p"
    using n' by (blast, metis same_shape_cong(3) [OF s])
  show "same_shape b (fst (act_then m (\<lambda>_. n) b)) \<and>
      (\<forall>p. stored b p \<longrightarrow> snd p < y0 \<longrightarrow> pix (fst (act_then m (\<lambda>_. n) b)) p = pix b p)"
    using m s k n same_shape_trans [OF s n(1)] by (cases r) (simp_all add: act_then_def)
qed

lemma above_for_each [above_intros]:
  "(\<And>i. i \<in> set xs \<Longrightarrow> leaves_above y0 (f i)) \<Longrightarrow> leaves_above y0 (for_each f xs)"
proof (induction xs)
  case Nil
  then show ?case by (simp add: leaves_above_def)
next
  case (Cons i xs)
  have "for_each f (i # xs) = act_then (f i) (\<lambda>_. for_each f xs)" by (rule ext) simp
  with Cons show ?case by (simp add: above_then)
qed

lemma above_if [above_intros]:
  "leaves_above y0 m \<Longrightarrow> leaves_above y0 n \<Longrightarrow> leaves_above y0 (\<lambda>b. if P b then m b else n b)"
  by (simp add: leaves_above_def)

lemma above_if' [above_intros]:
  "leaves_above y0 m \<Longrightarrow> leaves_above y0 n \<Longrightarrow> leaves_above y0 (if P then m else n)"
  by simp

lemma above_point [above_intros]:
  assumes "y0 \<le> y"
  shows "leaves_above y0 (bitmap_draw_point c x y)"
  unfolding leaves_above_def
proof (intro allI impI)
  fix b assume b: "bm_ok b"
  show "same_shape b (fst (bitmap_draw_point c x y b)) \<and>
      (\<forall>p. stored b p \<longrightarrow> snd p < y0 \<longrightarrow> pix (fst (bitmap_draw_point c x y b)) p = pix b p)"
  proof (cases "inside b (x, y)")
    case True
    with b assms show ?thesis by (auto simp: draw_inside pix_set_pix inside_stored)
  next
    case False
    have "fst (bitmap_draw_point c x y b) = b"
    proof (cases "is_in_x_range b x")
      case True
      with False b have "y < 0 \<or> bm_height b \<le> y" by (auto simp: inside_def is_in_x_range_def bm_ok_def)
      then show ?thesis
      proof
        assume "y < 0"
        then have "y * pixels_per_line b \<le> - 1 * pixels_per_line b"
          using b by (intro mult_right_mono) (simp_all add: bm_ok_def)
        then have "pixel_offset b x y < 0" using True by (simp add: pixel_offset_def is_in_x_range_def)
        then show ?thesis by (simp add: bitmap_draw_point_def unchecked_draw_point_def)
      qed (simp add: draw_point_below [OF b True])
    qed (simp add: bitmap_draw_point_def)
    then show ?thesis by simp
  qed
qed

lemma above_column [above_intros]: "Y \<le> y0 \<Longrightarrow> Y \<le> y1 \<Longrightarrow> leaves_above Y (draw_column c x y0 y1)"
  unfolding draw_column_def [abs_def] by (intro above_intros) auto

lemma above_line_right [above_intros]:
  assumes "Y \<le> y0" "Y \<le> y1"
  shows "leaves_above Y (draw_line_right c x0 y0 x1 y1)"
proof -
  let ?a = "tdiv ((y1 - y0) * MULTIPLIER) (x1 - x0 + 1)"
  have "Y \<le> y0 + tdiv (?a * i) MULTIPLIER" if "0 < x1 - x0 + 1" "0 \<le> i" "i \<le> x1 - x0 + 1" for i
    using slope_between [OF that, of "y1 - y0"] assms by linarith
  with assms show ?thesis
    unfolding draw_line_right_def Let_def by (intro above_intros) auto
qed

lemma above_line [above_intros]: "Y \<le> y0 \<Longrightarrow> Y \<le> y1 \<Longrightarrow> leaves_above Y (bitmap_draw_line c x0 y0 x1 y1)"
  unfolding bitmap_draw_line_def [abs_def] by (intro above_intros) auto

lemma above_rect [above_intros]: "Y \<le> y \<Longrightarrow> leaves_above Y (bitmap_draw_rect c x y w h)"
  unfolding bitmap_draw_rect_def [abs_def] by (intro above_intros) auto

lemma above_background [above_intros]:
  "(\<And>g. leaves_above Y (m g)) \<Longrightarrow> leaves_above Y (case bg of Some g \<Rightarrow> m g | None \<Rightarrow> act_ok)"
  by (cases bg) (simp_all add: above_ok)

lemma above_char [above_intros]: "Y \<le> py \<Longrightarrow> leaves_above Y (bitmap_draw_char font fg bg px py c)"
  unfolding bitmap_draw_char_def [abs_def] by (intro above_intros) auto

lemma above_char_2x [above_intros]: "Y \<le> py \<Longrightarrow> leaves_above Y (bitmap_draw_char_2x font fg bg px py c)"
  unfolding bitmap_draw_char_2x_def [abs_def] by (intro above_intros) auto

lemma above_char_3x [above_intros]: "Y \<le> py \<Longrightarrow> leaves_above Y (bitmap_draw_char_3x font fg bg px py c)"
  unfolding bitmap_draw_char_3x_def [abs_def] by (intro above_intros) auto

lemma above_chars [above_intros]:
  "(\<And>px c. leaves_above Y (d px c)) \<Longrightarrow> leaves_above Y (draw_chars d adv px s)"
  by (induction s arbitrary: px) (simp_all add: above_ok above_then)

lemmas string_defs = bitmap_draw_string_def bitmap_draw_string_2x_def bitmap_draw_string_3x_def
  bitmap_draw_string_with_underline_def bitmap_draw_string_2x_with_underline_def
  bitmap_draw_string_3x_with_underline_def

text \<open>The calls an application can draw with.\<close>

datatype window_call =
    Fill_rect u32 int int int int
  | Draw_line u32 int int int int
  | Draw_string font u32 int int "nat list" string_size bool
  | Draw_point u32 int int
  | Draw_iter "(int \<times> int \<times> u8 \<times> u8 \<times> u8) list"

fun window_run :: "window_call \<Rightarrow> (window, unit) act" where
  "window_run (Fill_rect c x y w h) = window_fill_rect c x y w h"
| "window_run (Draw_line c x0 y0 x1 y1) = window_draw_line c x0 y0 x1 y1"
| "window_run (Draw_string font c x y s sz u) = window_draw_string font c x y s sz u"
| "window_run (Draw_point c x y) = window_draw_point c x y"
| "window_run (Draw_iter ps) = draw_iter ps"

definition title_kept :: "window \<Rightarrow> window \<Rightarrow> bool" where
  "title_kept w w' \<longleftrightarrow> win_name w' = win_name w \<and> sheet_x (win_sheet w') = sheet_x (win_sheet w) \<and>
     sheet_y (win_sheet w') = sheet_y (win_sheet w) \<and>
     same_shape (sheet_bitmap (win_sheet w)) (sheet_bitmap (win_sheet w')) \<and>
     (\<forall>p. stored (sheet_bitmap (win_sheet w)) p \<longrightarrow> snd p < TITLE_BAR_HEIGHT \<longrightarrow>
        pix (sheet_bitmap (win_sheet w')) p = pix (sheet_bitmap (win_sheet w)) p)"

lemma title_kept_refl [simp]: "title_kept w w"
  by (simp add: title_kept_def)

lemma title_kept_ok:
  assumes "title_kept v w" "bm_ok (sheet_bitmap (win_sheet v))"
  shows "bm_ok (sheet_bitmap (win_sheet w))"
proof -
  have s: "same_shape (sheet_bitmap (win_sheet v)) (sheet_bitmap (win_sheet w))" using assms(1) by (simp add: title_kept_def)
  show ?thesis using assms(2) by (simp add: same_shape_cong(1) [OF s])
qed

lemma title_kept_trans:
  assumes "title_kept u v" "title_kept v w"
  shows "title_kept u w"
proof -
  have s: "same_shape (sheet_bitmap (win_sheet u)) (sheet_bitmap (win_sheet v))" using assms(1) by (simp add: title_kept_def)
  with assms show ?thesis
    using same_shape_trans [OF s] by (auto simp: title_kept_def same_shape_cong(3) [OF s])
qed

lemma on_win_kept:
  "leaves_above TITLE_BAR_HEIGHT m \<Longrightarrow> bm_ok (sheet_bitmap (win_sheet w)) \<Longrightarrow> title_kept w (fst (on_win m w))"
  by (auto simp: on_win_def title_kept_def leaves_above_def split: prod.split)

lemma window_draw_point_kept:
  "bm_ok (sheet_bitmap (win_sheet w)) \<Longrightarrow> title_kept w (fst (window_draw_point c x y w))"
  by (auto simp: window_draw_point_def intro!: on_win_kept above_point)

lemma window_run_kept:
  assumes "bm_ok (sheet_bitmap (win_sheet w))"
  shows "title_kept w (fst (window_run call w))"
proof (cases call)
  case (Draw_string font c x y s sz u)
  let ?m = "(case sz of
      Medium \<Rightarrow> if u then bitmap_draw_string_with_underline else bitmap_draw_string
    | Large \<Rightarrow> if u then bitmap_draw_string_2x_with_underline else bitmap_draw_string_2x
    | XLarge \<Rightarrow> if u then bitmap_draw_string_3x_with_underline else bitmap_draw_string_3x)
      font c None x (y + TITLE_BAR_HEIGHT) s"
  have "leaves_above TITLE_BAR_HEIGHT ?m" if "0 \<le> y"
    using that by (cases sz; cases u) (simp_all add: string_defs above_intros)
  moreover have "fst (window_run call w) = w \<or> 0 \<le> y \<and> fst (window_run call w) = fst (on_win ?m w)"
    unfolding Draw_string window_run.simps window_draw_string_def by (simp add: not_less)
  ultimately show ?thesis using on_win_kept [OF _ assms] by force
next
  case (Draw_iter ps)
  have "title_kept w (fst (draw_iter ps w))"
    using assms
  proof (induction ps arbitrary: w)
    case (Cons q ps)
    obtain x y r g b where q: "q = (x, y, r, g, b)" by (cases q)
    let ?f = "if x \<ge> sheet_width (win_sheet w) \<or> y + TITLE_BAR_HEIGHT \<ge> sheet_height (win_sheet w) then (w, Inr ())
      else window_draw_point (push_bit 16 (ucast r) + push_bit 8 (ucast g) + ucast b) x y w"
    have k: "title_kept w (fst ?f)" using window_draw_point_kept [OF Cons.prems] by simp
    then have "bm_ok (sheet_bitmap (win_sheet (fst ?f)))" by (rule title_kept_ok [OF _ Cons.prems])
    from title_kept_trans [OF k Cons.IH [OF this]] k show ?case
      unfolding draw_iter_def q for_each.simps act_then_def by (auto split: prod.split sum.split)
  qed (simp add: draw_iter_def)
  with Draw_iter show ?thesis by simp
qed (use assms in \<open>auto simp: window_fill_rect_def window_draw_line_def window_draw_point_kept
      intro!: on_win_kept above_intros\<close>)

lemma window_calls_kept:
  "bm_ok (sheet_bitmap (win_sheet w)) \<Longrightarrow> title_kept w (fold (\<lambda>call w. fst (window_run call w)) calls w)"
proof (induction calls arbitrary: w)
  case (Cons call calls)
  note k = window_run_kept [OF Cons.prems, of call]
  from title_kept_trans [OF k Cons.IH [OF title_kept_ok [OF k Cons.prems]]] show ?case by simp
qed simp

text \<open>The last row of a window: it passes the test of \<open>draw_point\<close> and is written outside of the buffer.\<close>

lemma window_draw_point_past_end:
  assumes "bm_ok (sheet_bitmap (win_sheet w))" "is_in_x_range (sheet_bitmap (win_sheet w)) x"
    and "y + TITLE_BAR_HEIGHT = sheet_height (win_sheet w)" "0 \<le> y"
  shows "window_draw_point c x y w = (w, Inl (UB ''write outside of the buffer''))"
  using assms draw_point_below [OF assms(1,2), of "y + TITLE_BAR_HEIGHT" c]
  by (simp add: window_draw_point_def on_win_def sheet_width_def sheet_height_def is_in_x_range_def)

subsection \<open>A new window\<close>

text \<open>\<open>bar_op W H m\<close>: on bitmaps of that size, \<open>m\<close> does not fail and changes the title bar only.\<close>

definition bar_op :: "int \<Rightarrow> int \<Rightarrow> (bitmap, unit) act \<Rightarrow> bool" where
  "bar_op W H m \<longleftrightarrow> (\<forall>b. bm_ok b \<longrightarrow> bm_width b = W \<longrightarrow> bm_height b = H \<longrightarrow>
     (\<exists>b'. m b = (b', Inr ()) \<and> same_shape b b' \<and>
       (\<forall>p. stored b p \<longrightarrow> TITLE_BAR_HEIGHT \<le> snd p \<longrightarrow> pix b' p = pix b p)))"

lemma bar_then:
  assumes "bar_op W H m" "bar_op W H n"
  shows "bar_op W H (act_then m (\<lambda>_. n))"
  unfolding bar_op_def
proof (intro allI impI)
  fix b assume b: "bm_ok b" "bm_width b = W" "bm_height b = H"
  obtain b1 where b1: "m b = (b1, Inr ())" "same_shape b b1"
      "\<And>p. stored b p \<Longrightarrow> TITLE_BAR_HEIGHT \<le> snd p \<Longrightarrow> pix b1 p = pix b p"
    using assms(1) b unfolding bar_op_def by blast
  have "bm_ok b1" "bm_width b1 = W" "bm_height b1 = H" "\<And>p. stored b1 p = stored b p"
    using b b1(2) by (simp_all add: same_shape_cong [OF b1(2)], simp_all add: same_shape_def)
  then obtain b2 where b2: "n b1 = (b2, Inr ())" "same_shape b1 b2"
      "\<And>p. stored b p \<Longrightarrow> TITLE_BAR_HEIGHT \<le> snd p \<Longrightarrow> pix b2 p = pix b1 p"
    using assms(2) unfolding bar_op_def by blast
  show "\<exists>b'. act_then m (\<lambda>_. n) b = (b', Inr ()) \<and> same_shape b b' \<and>
      (\<forall>p. stored b p \<longrightarrow> TITLE_BAR_HEIGHT \<le> snd p \<longrightarrow> pix b' p = pix b p)"
    using b1 b2 same_shape_trans [OF b1(2) b2(2)] by (intro exI [of _ b2]) simp
qed

lemma painted_bar:
  assumes "\<And>b. bm_ok b \<Longrightarrow> bm_width b = W \<Longrightarrow> bm_height b = H \<Longrightarrow>
    \<exists>b' F D. m b = (b', Inr ()) \<and> painted F D b b' \<and> (\<forall>p \<in> D. snd p < TITLE_BAR_HEIGHT)"
  shows "bar_op W H m"
  unfolding bar_op_def
proof (intro allI impI)
  fix b assume "bm_ok b" "bm_width b = W" "bm_height b = H"
  from assms [OF this] obtain b' F D where
    r: "m b = (b', Inr ())" "painted F D b b'" "\<forall>p \<in> D. snd p < TITLE_BAR_HEIGHT" by blast
  have "pix b' p = pix b p" if "stored b p" "TITLE_BAR_HEIGHT \<le> snd p" for p
    using paintedD(2) [OF r(2) that(1)] r(3) that(2) by force
  with r(1) paintedD(1) [OF r(2)] show "\<exists>b'. m b = (b', Inr ()) \<and> same_shape b b' \<and>
      (\<forall>p. stored b p \<longrightarrow> TITLE_BAR_HEIGHT \<le> snd p \<longrightarrow> pix b' p = pix b p)" by blast
qed

lemma bar_rect:
  assumes "0 \<le> x" "0 < w" "x + w \<le> W" "0 \<le> y" "0 < h" "y + h \<le> TITLE_BAR_HEIGHT" "TITLE_BAR_HEIGHT \<le> H"
  shows "bar_op W H (bitmap_draw_rect c x y w h)"
proof (rule painted_bar)
  fix b assume "bm_ok b" "bm_width b = W" "bm_height b = H"
  with assms bitmap_draw_rect_ok [of b w h x y c] obtain b' where
    "bitmap_draw_rect c x y w h b = (b', Inr ())" "painted (\<lambda>_. Some c) ({x..x + w - 1} \<times> {y..y + h - 1}) b b'"
    by (auto simp: inside_def)
  with assms show "\<exists>b' F D. bitmap_draw_rect c x y w h b = (b', Inr ()) \<and> painted F D b b' \<and> (\<forall>p \<in> D. snd p < TITLE_BAR_HEIGHT)"
    by (intro exI conjI) auto
qed

lemma bar_line:
  assumes "0 \<le> x0" "x0 < W" "0 \<le> x1" "x1 < W" "0 \<le> y0" "y0 < TITLE_BAR_HEIGHT" "0 \<le> y1" "y1 < TITLE_BAR_HEIGHT"
    "TITLE_BAR_HEIGHT \<le> H"
  shows "bar_op W H (bitmap_draw_line c x0 y0 x1 y1)"
proof (rule painted_bar)
  fix b assume "bm_ok b" "bm_width b = W" "bm_height b = H"
  with assms bitmap_draw_line_ok [of b x0 y0 x1 y1 c] obtain b' S where
    "bitmap_draw_line c x0 y0 x1 y1 b = (b', Inr ())" "painted (\<lambda>_. Some c) S b b'"
    "S \<subseteq> {min x0 x1..max x0 x1} \<times> {min y0 y1..max y0 y1}"
    by (auto simp: inside_def)
  with assms show "\<exists>b' F D. bitmap_draw_line c x0 y0 x1 y1 b = (b', Inr ()) \<and> painted F D b b' \<and> (\<forall>p \<in> D. snd p < TITLE_BAR_HEIGHT)"
    by (intro exI conjI ballI) (assumption+, force)
qed

lemma bar_string:
  assumes "0 \<le> px" "px + 8 * int (length s) \<le> W" "0 \<le> py" "py + 16 \<le> TITLE_BAR_HEIGHT" "TITLE_BAR_HEIGHT \<le> H"
  shows "bar_op W H (bitmap_draw_string font fg bg px py s)"
  using assms(1,2) unfolding bitmap_draw_string_def
proof (induction s arbitrary: px)
  case Nil
  then show ?case by (simp add: bar_op_def act_ok_def)
next
  case (Cons c s)
  have "bar_op W H (bitmap_draw_char font fg bg px py c)"
  proof (rule painted_bar)
    fix b assume "bm_ok b" "bm_width b = W" "bm_height b = H"
    with assms(3-5) Cons.prems bitmap_draw_char_ok [of b px py font fg bg c] obtain b' where
      "bitmap_draw_char font fg bg px py c b = (b', Inr ())"
      "painted (char_picture font 1 fg bg px py c) ({px..px + 7} \<times> {py..py + 15}) b b'"
      by (auto simp: inside_def)
    with assms(3-5) show "\<exists>b' F D. bitmap_draw_char font fg bg px py c b = (b', Inr ()) \<and> painted F D b b' \<and>
        (\<forall>p \<in> D. snd p < TITLE_BAR_HEIGHT)"
      by (intro exI conjI ballI) (assumption+, force)
  qed
  with Cons show ?case by (simp add: bar_then)
qed

lemma on_win_then: "act_then (on_win m) (\<lambda>_. on_win n) = on_win (act_then m (\<lambda>_. n))"
  by (rule ext) (simp add: on_win_def act_then_def split: prod.split sum.split)

lemma init_titlebar_ok:
  assumes "bm_ok (sheet_bitmap (win_sheet w))" "22 \<le> sheet_width (win_sheet w)" "24 \<le> sheet_height (win_sheet w)"
    "5 + 8 * int (length (win_name w)) \<le> sheet_width (win_sheet w)"
  shows "\<exists>b'. init_titlebar font w = (w\<lparr>win_sheet := (win_sheet w)\<lparr>sheet_bitmap := b'\<rparr>\<rparr>, Inr ()) \<and>
    same_shape (sheet_bitmap (win_sheet w)) b' \<and>
    (\<forall>p. stored (sheet_bitmap (win_sheet w)) p \<longrightarrow> TITLE_BAR_HEIGHT \<le> snd p \<longrightarrow>
       pix b' p = pix (sheet_bitmap (win_sheet w)) p)"
proof -
  have "\<exists>m. init_titlebar font w = on_win m w \<and> bar_op (sheet_width (win_sheet w)) (sheet_height (win_sheet w)) m"
    unfolding init_titlebar_def Let_def on_win_then
    by (intro exI conjI, rule refl)
      (use assms in \<open>intro bar_then bar_rect bar_line bar_string; simp add: TITLE_BAR_HEIGHT_def BUTTON_SIZE_def\<close>)
  then obtain m where m: "init_titlebar font w = on_win m w"
    "bar_op (sheet_width (win_sheet w)) (sheet_height (win_sheet w)) m" by blast
  from m(2) assms(1) obtain b' where "m (sheet_bitmap (win_sheet w)) = (b', Inr ())"
    "same_shape (sheet_bitmap (win_sheet w)) b'"
    "\<forall>p. stored (sheet_bitmap (win_sheet w)) p \<longrightarrow> TITLE_BAR_HEIGHT \<le> snd p \<longrightarrow>
       pix b' p = pix (sheet_bitmap (win_sheet w)) p"
    unfolding bar_op_def sheet_width_def sheet_height_def by blast
  then show ?thesis by (intro exI [of _ b']) (simp add: m(1) on_win_def)
qed

lemma window_new_ok:
  assumes "22 \<le> width" "24 \<le> height" "5 + 8 * int (length name) \<le> width"
  shows "\<exists>w. window_new font name color x y width height = Inr w \<and> bm_ok (sheet_bitmap (win_sheet w)) \<and>
    sheet_x (win_sheet w) = x \<and> sheet_y (win_sheet w) = y \<and> sheet_width (win_sheet w) = width \<and>
    sheet_height (win_sheet w) = height \<and>
    (\<forall>p. inside (sheet_bitmap (win_sheet w)) p \<longrightarrow> TITLE_BAR_HEIGHT \<le> snd p \<longrightarrow> pix (sheet_bitmap (win_sheet w)) p = color)"
proof -
  let ?b0 = "\<lparr>bm_width = width, bm_height = height, pixels_per_line = width, bm_pixels = replicate (nat (width * height)) 0\<rparr>"
  have b0: "bm_ok ?b0" using assms by (simp add: bm_ok_def)
  obtain b1 where b1: "bitmap_draw_rect color 0 0 width height ?b0 = (b1, Inr ())"
      "painted (\<lambda>_. Some color) ({0..0 + width - 1} \<times> {0..0 + height - 1}) ?b0 b1"
    using bitmap_draw_rect_ok [OF b0, of width height 0 0 color] assms by (auto simp: inside_def)
  note s1 = paintedD(1) [OF b1(2)]
  let ?w = "\<lparr>win_name = name, win_background = color, win_sheet = \<lparr>sheet_x = x, sheet_y = y, sheet_bitmap = b1\<rparr>, win_active = True\<rparr>"
  have d: "bm_ok b1" "bm_width b1 = width" "bm_height b1 = height"
    using b0 s1 by (simp_all add: same_shape_cong [OF s1], simp_all add: same_shape_def)
  obtain b2 where b2: "init_titlebar font ?w = (?w\<lparr>win_sheet := (win_sheet ?w)\<lparr>sheet_bitmap := b2\<rparr>\<rparr>, Inr ())"
      "same_shape b1 b2" "\<And>p. stored b1 p \<Longrightarrow> TITLE_BAR_HEIGHT \<le> snd p \<Longrightarrow> pix b2 p = pix b1 p"
    using init_titlebar_ok [of ?w font] assms d by (auto simp: sheet_width_def sheet_height_def)
  have new: "window_new font name color x y width height = Inr (?w\<lparr>win_sheet := (win_sheet ?w)\<lparr>sheet_bitmap := b2\<rparr>\<rparr>)"
    using assms b1(1) b2(1) by (simp add: window_new_def rect_new_def unwrap_def sheet_new_def bitmap_new_def)
  have "pix b2 p = color" if "inside b2 p" "TITLE_BAR_HEIGHT \<le> snd p" for p
  proof -
    have i: "inside b1 p" "inside ?b0 p" using that(1) by (simp_all add: same_shape_cong [OF b2(2)] same_shape_cong [OF s1])
    then have "p \<in> {0..0 + width - 1} \<times> {0..0 + height - 1}" by (cases p) (auto simp: inside_def)
    with paintedD(3) [OF b1(2) inside_stored [OF b0 i(2)]] b2(3) [OF inside_stored [OF d(1) i(1)] that(2)] show ?thesis by simp
  qed
  moreover have "bm_ok b2" using d(1) by (simp add: same_shape_cong [OF b2(2)])
  ultimately show ?thesis
    using d b2(2) by (simp add: new sheet_width_def sheet_height_def same_shape_def)
qed

end
