(* ===== verification/Trb.thy ===== *)
theory Trb
  imports Util
begin

text \<open>
  The transfer request blocks of \<open>os/src/xhci/trb.rs\<close>.  A block is 16 bytes: a 64-bit data word, an option word
  and a control word.  The fields of the two small words are read and written with \<open>read_bits\<close> and
  \<open>write_bits\<close> at constant positions, where neither can fail; \<open>field\<close> and \<open>set_field\<close> are their results.
\<close>

datatype trb_type =
    Normal | SetupStage | DataStage | StatusStage | Link | EnableSlotCommand | AddressDeviceCommand
  | ConfigureEndpointCommand | EvaluateContextCommand | NoOpCommand | TransferEvent
  | CommandCompletionEvent | PortStatusChangeEvent | HostControllerEvent

fun trb_type_code :: "trb_type \<Rightarrow> u32" where
  "trb_type_code Normal = 1"
| "trb_type_code SetupStage = 2"
| "trb_type_code DataStage = 3"
| "trb_type_code StatusStage = 4"
| "trb_type_code Link = 6"
| "trb_type_code EnableSlotCommand = 9"
| "trb_type_code AddressDeviceCommand = 11"
| "trb_type_code ConfigureEndpointCommand = 12"
| "trb_type_code EvaluateContextCommand = 13"
| "trb_type_code NoOpCommand = 23"
| "trb_type_code TransferEvent = 32"
| "trb_type_code CommandCompletionEvent = 33"
| "trb_type_code PortStatusChangeEvent = 34"
| "trb_type_code HostControllerEvent = 37"

datatype completion_code =
    Success | BabbleDetectedError | UsbTransactionError | TrbError | StallError | ShortPacket
  | ParameterError | EventRingFullError

fun completion_code_num :: "completion_code \<Rightarrow> u32" where
  "completion_code_num Success = 1"
| "completion_code_num BabbleDetectedError = 3"
| "completion_code_num UsbTransactionError = 4"
| "completion_code_num TrbError = 5"
| "completion_code_num StallError = 6"
| "completion_code_num ShortPacket = 13"
| "completion_code_num ParameterError = 17"
| "completion_code_num EventRingFullError = 21"

definition completion_code_parse :: "u32 \<Rightarrow> string" where
  "completion_code_parse code =
     (if code = completion_code_num Success then ''Success''
      else if code = completion_code_num UsbTransactionError then ''UsbTransactionError''
      else if code = completion_code_num TrbError then ''TrbError''
      else if code = completion_code_num StallError then ''StallError''
      else if code = completion_code_num ShortPacket then ''ShortPacket''
      else if code = completion_code_num ParameterError then ''ParameterError''
      else if code = completion_code_num EventRingFullError then ''EventRingFullError''
      else ''?'')"

record generic_trb =
  trb_data :: u64
  trb_option :: u32
  trb_control :: u32

definition trb_default :: generic_trb where
  "trb_default = \<lparr>trb_data = 0, trb_option = 0, trb_control = 0\<rparr>"

subsection \<open>Fields\<close>

definition field :: "'a :: len word \<Rightarrow> nat \<Rightarrow> nat \<Rightarrow> 'a word" where
  "field w shift width = drop_bit shift w AND mask width"

definition set_field :: "'a :: len word \<Rightarrow> nat \<Rightarrow> nat \<Rightarrow> 'a word \<Rightarrow> 'a word" where
  "set_field w shift width v = push_bit shift v OR (w AND NOT (push_bit shift (mask width)))"

lemma read_bits_field:
  fixes w :: "'a :: len word"
  assumes "shift < LENGTH('a)" "width < LENGTH('a)"
  shows "read_bits w shift width = Inr (field w shift width)"
  using assms by (simp add: read_bits_def field_def Let_def push_bit_one_minus_one del: push_bit_of_1)

lemma write_bits_set_field:
  fixes w :: "'a :: len word"
  assumes "shift < LENGTH('a)" "width < LENGTH('a)" "take_bit width v = v"
  shows "write_bits w shift width v = Inr (set_field w shift width v)"
  using assms by (simp add: write_bits_Inr set_field_def)

lemma field_set_field:
  fixes w :: "'a :: len word"
  assumes "take_bit width v = v" "shift + width \<le> LENGTH('a)"
  shows "field (set_field w shift width v) shift width = v"
proof -
  have "drop_bit shift (set_field w shift width v) AND mask width = take_bit width v"
    unfolding set_field_def using assms(2) by (intro bit_word_eqI) (auto simp: bit_simps)
  then show ?thesis using assms(1) by (simp add: field_def)
qed

lemma field_set_field_other:
  fixes w :: "'a :: len word"
  assumes "take_bit width v = v" "s + n \<le> shift \<or> shift + width \<le> s"
  shows "field (set_field w shift width v) s n = field w s n"
proof (rule bit_word_eqI)
  fix k
  have v: "bit v i \<Longrightarrow> i < width" for i using assms(1) by (metis bit_take_bit_iff)
  have "\<not> bit v (s + k - shift)" if "shift + width \<le> s" using v [of "s + k - shift"] that by auto
  then show "bit (field (set_field w shift width v) s n) k = bit (field w s n) k"
    using assms(2) by (auto simp: field_def set_field_def bit_simps dest: bit_imp_le_length)
qed

definition cycle_state :: "generic_trb \<Rightarrow> bool" where
  "cycle_state t \<longleftrightarrow> field (trb_control t) 0 1 \<noteq> 0"

definition set_cycle_state :: "generic_trb \<Rightarrow> bool \<Rightarrow> generic_trb" where
  "set_cycle_state t cycle = t\<lparr>trb_control := set_field (trb_control t) 0 1 (of_bool cycle)\<rparr>"

definition set_toggle_cycle :: "generic_trb \<Rightarrow> bool \<Rightarrow> generic_trb" where
  "set_toggle_cycle t v = t\<lparr>trb_control := set_field (trb_control t) 1 1 (of_bool v)\<rparr>"

definition trb_type_of :: "generic_trb \<Rightarrow> u32" where
  "trb_type_of t = field (trb_control t) 10 6"

definition set_trb_type :: "generic_trb \<Rightarrow> trb_type \<Rightarrow> generic_trb" where
  "set_trb_type t ty = t\<lparr>trb_control := set_field (trb_control t) 10 6 (trb_type_code ty)\<rparr>"

definition dci :: "generic_trb \<Rightarrow> nat" where
  "dci t = unat (extract_bits (trb_control t) 16 5)"

definition completion_code_of :: "generic_trb \<Rightarrow> u32" where
  "completion_code_of t = field (trb_option t) 24 8"

definition transfer_length :: "generic_trb \<Rightarrow> nat" where
  "transfer_length t = unat (field (trb_option t) 0 24)"

definition slot_id :: "generic_trb \<Rightarrow> u8" where
  "slot_id t = ucast (field (trb_control t) 24 8)"

definition set_slot_id :: "generic_trb \<Rightarrow> u8 \<Rightarrow> generic_trb" where
  "set_slot_id t slot = t\<lparr>trb_control := set_field (trb_control t) 24 8 (ucast slot)\<rparr>"

definition completed :: "generic_trb \<Rightarrow> unit res" where
  "completed t =
     (if trb_type_of t \<noteq> trb_type_code CommandCompletionEvent \<and> trb_type_of t \<noteq> trb_type_code TransferEvent
      then Inl (Err (FailedString ''Expected TrbType == CommandCompletionEvent or TransferEvent''))
      else if completion_code_of t \<noteq> completion_code_num Success \<and>
              completion_code_of t \<noteq> completion_code_num ShortPacket
      then Inl (Err (FailedString ''Expected CompletionCode == Success''))
      else Inr ())"

subsection \<open>Commands and links\<close>

definition cmd_no_op :: generic_trb where
  "cmd_no_op = set_trb_type trb_default NoOpCommand"

definition cmd_enable_slot :: generic_trb where
  "cmd_enable_slot = set_trb_type trb_default EnableSlotCommand"

definition cmd_address_device :: "u64 \<Rightarrow> u8 \<Rightarrow> generic_trb" where
  "cmd_address_device input_context slot =
     set_slot_id ((set_trb_type trb_default AddressDeviceCommand)\<lparr>trb_data := input_context\<rparr>) slot"

definition cmd_evaluate_context :: "u64 \<Rightarrow> u8 \<Rightarrow> generic_trb" where
  "cmd_evaluate_context input_context slot =
     set_slot_id ((set_trb_type trb_default EvaluateContextCommand)\<lparr>trb_data := input_context\<rparr>) slot"

definition cmd_configure_endpoint :: "u64 \<Rightarrow> u8 \<Rightarrow> generic_trb" where
  "cmd_configure_endpoint input_context slot =
     set_slot_id ((set_trb_type trb_default ConfigureEndpointCommand)\<lparr>trb_data := input_context\<rparr>) slot"

definition trb_link :: "u64 \<Rightarrow> generic_trb" where
  "trb_link ring_phys_addr =
     set_toggle_cycle ((set_trb_type trb_default Link)\<lparr>trb_data := ring_phys_addr\<rparr>) True"

subsection \<open>Transfer stages\<close>

text \<open>
  The four stage blocks have the layout of the generic one, and the source transmutes them.  The setup
  stage keeps its eight request bytes where the data word is, in little-endian order.
\<close>

definition CTRL_BIT_INTERRUPT_ON_SHORT_PACKET :: u32 where
  "CTRL_BIT_INTERRUPT_ON_SHORT_PACKET = push_bit 2 1"
definition CTRL_BIT_INTERRUPT_ON_COMPLETION :: u32 where
  "CTRL_BIT_INTERRUPT_ON_COMPLETION = push_bit 5 1"
definition CTRL_BIT_IMMEDIATE_DATA :: u32 where
  "CTRL_BIT_IMMEDIATE_DATA = push_bit 6 1"
definition CTRL_BIT_DATA_DIR_OUT :: u32 where
  "CTRL_BIT_DATA_DIR_OUT = push_bit 16 0"
definition CTRL_BIT_DATA_DIR_IN :: u32 where
  "CTRL_BIT_DATA_DIR_IN = push_bit 16 1"

definition normal_trb_new :: "u64 \<Rightarrow> u16 \<Rightarrow> generic_trb" where
  "normal_trb_new buf size16 =
     \<lparr>trb_data = buf, trb_option = ucast size16,
      trb_control = push_bit 10 (trb_type_code Normal) OR CTRL_BIT_INTERRUPT_ON_COMPLETION
        OR CTRL_BIT_INTERRUPT_ON_SHORT_PACKET\<rparr>"

record setup_stage_trb =
  request_type :: u8
  request :: u8
  setup_value :: u16
  setup_index :: u16
  setup_length :: u16
  setup_option :: u32
  setup_control :: u32

definition REQ_TYPE_DIR_DEVICE_TO_HOST :: u8 where "REQ_TYPE_DIR_DEVICE_TO_HOST = push_bit 7 1"
definition REQ_TYPE_DIR_HOST_TO_DEVICE :: u8 where "REQ_TYPE_DIR_HOST_TO_DEVICE = push_bit 7 0"
definition REQ_TYPE_TYPE_CLASS :: u8 where "REQ_TYPE_TYPE_CLASS = push_bit 5 1"
definition REQ_TYPE_TYPE_VENDOR :: u8 where "REQ_TYPE_TYPE_VENDOR = push_bit 5 2"
definition REQ_TYPE_TO_DEVICE :: u8 where "REQ_TYPE_TO_DEVICE = 0"
definition REQ_TYPE_TO_INTERFACE :: u8 where "REQ_TYPE_TO_INTERFACE = 1"
definition REQ_GET_REPORT :: u8 where "REQ_GET_REPORT = 1"
definition REQ_GET_DESCRIPTOR :: u8 where "REQ_GET_DESCRIPTOR = 6"
definition REQ_SET_CONFIGURATION :: u8 where "REQ_SET_CONFIGURATION = 9"
definition REQ_SET_INTERFACE :: u8 where "REQ_SET_INTERFACE = 11"
definition REQ_SET_PROTOCOL :: u8 where "REQ_SET_PROTOCOL = 0x0b"

definition setup_stage_new :: "u8 \<Rightarrow> u8 \<Rightarrow> u16 \<Rightarrow> u16 \<Rightarrow> u16 \<Rightarrow> setup_stage_trb" where
  "setup_stage_new rtype req val idx len =
     (let transfer_type :: u32 =
            (if len = 0 then 0
             else if req AND REQ_TYPE_DIR_DEVICE_TO_HOST \<noteq> 0 then 3
             else 2)
      in \<lparr>request_type = rtype, request = req, setup_value = val, setup_index = idx, setup_length = len,
          setup_option = 8,
          setup_control = push_bit 16 transfer_type OR push_bit 10 (trb_type_code SetupStage)
            OR CTRL_BIT_IMMEDIATE_DATA\<rparr>)"

definition new_vendor_device_in :: "u8 \<Rightarrow> u16 \<Rightarrow> u16 \<Rightarrow> u16 \<Rightarrow> setup_stage_trb" where
  "new_vendor_device_in req val idx len =
     setup_stage_new (REQ_TYPE_DIR_DEVICE_TO_HOST OR REQ_TYPE_TYPE_VENDOR OR REQ_TYPE_TO_DEVICE) req val idx len"

definition new_vendor_device_out :: "u8 \<Rightarrow> u16 \<Rightarrow> u16 \<Rightarrow> u16 \<Rightarrow> setup_stage_trb" where
  "new_vendor_device_out req val idx len =
     setup_stage_new (REQ_TYPE_DIR_HOST_TO_DEVICE OR REQ_TYPE_TYPE_VENDOR OR REQ_TYPE_TO_DEVICE) req val idx len"

definition setup_to_generic :: "setup_stage_trb \<Rightarrow> generic_trb" where
  "setup_to_generic t =
     \<lparr>trb_data = word_le ([request_type t, request t] @ le_word (setup_value t) @ le_word (setup_index t)
        @ le_word (setup_length t)),
      trb_option = setup_option t, trb_control = setup_control t\<rparr>"

definition data_stage_new_in :: "u64 \<Rightarrow> nat \<Rightarrow> generic_trb" where
  "data_stage_new_in buf size_in_bytes =
     \<lparr>trb_data = buf, trb_option = word_of_nat size_in_bytes,
      trb_control = push_bit 10 (trb_type_code DataStage) OR CTRL_BIT_DATA_DIR_IN
        OR CTRL_BIT_INTERRUPT_ON_COMPLETION OR CTRL_BIT_INTERRUPT_ON_SHORT_PACKET\<rparr>"

definition data_stage_new_out :: "u64 \<Rightarrow> nat \<Rightarrow> generic_trb" where
  "data_stage_new_out buf size_in_bytes =
     \<lparr>trb_data = buf, trb_option = word_of_nat size_in_bytes,
      trb_control = push_bit 10 (trb_type_code DataStage) OR CTRL_BIT_DATA_DIR_OUT
        OR CTRL_BIT_INTERRUPT_ON_COMPLETION OR CTRL_BIT_INTERRUPT_ON_SHORT_PACKET\<rparr>"

definition status_stage_new_out :: generic_trb where
  "status_stage_new_out = \<lparr>trb_data = 0, trb_option = 0, trb_control = push_bit 10 (trb_type_code StatusStage)\<rparr>"

definition status_stage_new_in :: generic_trb where
  "status_stage_new_in =
     \<lparr>trb_data = 0, trb_option = 0,
      trb_control = push_bit 10 (trb_type_code StatusStage) OR CTRL_BIT_DATA_DIR_IN
        OR CTRL_BIT_INTERRUPT_ON_COMPLETION OR CTRL_BIT_INTERRUPT_ON_SHORT_PACKET\<rparr>"

lemmas stage_defs =
  normal_trb_new_def setup_stage_new_def setup_to_generic_def data_stage_new_in_def data_stage_new_out_def
  status_stage_new_out_def status_stage_new_in_def CTRL_BIT_INTERRUPT_ON_SHORT_PACKET_def
  CTRL_BIT_INTERRUPT_ON_COMPLETION_def CTRL_BIT_IMMEDIATE_DATA_def CTRL_BIT_DATA_DIR_OUT_def
  CTRL_BIT_DATA_DIR_IN_def

lemmas command_defs =
  cmd_no_op_def cmd_enable_slot_def cmd_address_device_def cmd_evaluate_context_def
  cmd_configure_endpoint_def

subsection \<open>What a block says of itself\<close>

lemma trb_type_code_fits [simp]: "take_bit 6 (trb_type_code ty) = trb_type_code ty"
  by (cases ty) simp_all

lemma trb_type_code_inj: "trb_type_code a = trb_type_code b \<longleftrightarrow> a = b"
  by (cases a; cases b) simp_all

lemma slot_fits: "take_bit 8 (ucast (slot :: u8) :: u32) = ucast slot"
  by (rule bit_word_eqI) (auto simp: bit_simps dest: bit_imp_le_length)

lemma slot_narrow: "ucast (ucast (slot :: u8) :: u32) = slot"
  by (rule bit_word_eqI) (auto simp: bit_simps)

lemma of_bool_fits [simp]: "take_bit (Suc 0) (of_bool b :: 'a :: len word) = of_bool b"
  by (cases b) simp_all

lemma cycle_set_cycle [simp]: "cycle_state (set_cycle_state t c) = c"
  by (simp add: cycle_state_def set_cycle_state_def field_set_field)

lemma set_cycle_other [simp]:
  "trb_type_of (set_cycle_state t c) = trb_type_of t"
  "slot_id (set_cycle_state t c) = slot_id t"
  "trb_data (set_cycle_state t c) = trb_data t"
  "trb_option (set_cycle_state t c) = trb_option t"
  by (simp_all add: trb_type_of_def set_cycle_state_def slot_id_def field_set_field_other)

lemma set_cycle_twice [simp]: "set_cycle_state (set_cycle_state t a) b = set_cycle_state t b"
proof -
  have "set_field (set_field w 0 1 (of_bool a)) 0 1 (of_bool b) = set_field w 0 1 (of_bool b)" for w :: u32
    by (rule bit_word_eqI) (auto simp: set_field_def bit_simps)
  then show ?thesis by (simp add: set_cycle_state_def)
qed

lemma command_types:
  "trb_type_of cmd_no_op = trb_type_code NoOpCommand"
  "trb_type_of cmd_enable_slot = trb_type_code EnableSlotCommand"
  "trb_type_of (cmd_address_device p s) = trb_type_code AddressDeviceCommand"
  "trb_type_of (cmd_evaluate_context p s) = trb_type_code EvaluateContextCommand"
  "trb_type_of (cmd_configure_endpoint p s) = trb_type_code ConfigureEndpointCommand"
  "trb_type_of (trb_link q) = trb_type_code Link"
  by (simp_all add: command_defs trb_link_def trb_type_of_def set_trb_type_def set_slot_id_def
      set_toggle_cycle_def field_set_field field_set_field_other slot_fits del: trb_type_code.simps)

lemma command_slot:
  "slot_id (cmd_address_device p s) = s \<and> slot_id (cmd_evaluate_context p s) = s
   \<and> slot_id (cmd_configure_endpoint p s) = s"
  by (simp add: command_defs slot_id_def set_slot_id_def field_set_field slot_fits slot_narrow)

lemma command_data:
  "trb_data (cmd_address_device p s) = p \<and> trb_data (cmd_evaluate_context p s) = p
   \<and> trb_data (cmd_configure_endpoint p s) = p \<and> trb_data (trb_link p) = p"
  by (simp add: command_defs set_slot_id_def trb_link_def set_toggle_cycle_def)

lemma stage_types:
  "trb_type_of (normal_trb_new p n) = trb_type_code Normal"
  "trb_type_of (setup_to_generic (setup_stage_new a b c d l)) = trb_type_code SetupStage"
  "trb_type_of (data_stage_new_in p k) = trb_type_code DataStage"
  "trb_type_of (data_stage_new_out p k) = trb_type_code DataStage"
  "trb_type_of status_stage_new_out = trb_type_code StatusStage"
  "trb_type_of status_stage_new_in = trb_type_code StatusStage"
  by (simp_all add: stage_defs trb_type_of_def field_def Let_def mask_eq_exp_minus_1)

lemma trb_link_clear: "\<not> cycle_state (trb_link p)" "\<not> cycle_state trb_default"
  by (simp_all add: trb_link_def cycle_state_def set_toggle_cycle_def set_trb_type_def trb_default_def
      field_def set_field_def)

lemma normal_clear: "\<not> cycle_state (normal_trb_new p n)"
  by (simp add: stage_defs cycle_state_def field_def)

text \<open>The setup bytes on the wire are the request of the USB specification, in its order.\<close>

lemma setup_bytes:
  "le_word (trb_data (setup_to_generic (setup_stage_new rt rq v i l))) =
     [rt, rq] @ le_word v @ le_word i @ le_word l"
  by (simp add: setup_to_generic_def setup_stage_new_def Let_def codec_simps)

end
