(* ===== verification/Ring.thy ===== *)
theory Ring
  imports Trb
begin

text \<open>
  The rings of \<open>os/src/xhci/ring.rs\<close> through which the driver and the xHCI controller exchange transfer
  request blocks, and the event futures of \<open>os/src/xhci/future.rs\<close>.  A ring is an array of sixteen blocks
  with an index; the cycle bit of a block says which side owns it.  The controller is described by what it
  does to such an array: \<open>xhc_fetch\<close> is its dequeue side for the command ring, and for the event ring it may
  write any block at any time.  The lemmas show that the cycle bits make the rings queues: commands are
  fetched in the order in which they were pushed, a transfer ring always keeps eleven blocks with the
  controller, and an event is handed, once and in order, to each live waiter whose condition it meets.
\<close>

subsection \<open>The array\<close>

definition NUM_TRB :: nat where "NUM_TRB = 16"

record trb_ring =
  trbs :: "generic_trb list"
  current_index :: nat
  ring_base :: nat

definition ring_new :: "nat \<Rightarrow> trb_ring" where
  "ring_new base = \<lparr>trbs = replicate NUM_TRB trb_default, current_index = 0, ring_base = base\<rparr>"

definition ring_reset :: "trb_ring \<Rightarrow> trb_ring" where
  "ring_reset r = r\<lparr>current_index := 0, trbs := map (\<lambda>t. set_cycle_state t False) (trbs r)\<rparr>"

definition ring_phys_addr :: "trb_ring \<Rightarrow> u64" where
  "ring_phys_addr r = word_of_nat (ring_base r)"

definition num_trbs :: "trb_ring \<Rightarrow> nat" where
  "num_trbs r = NUM_TRB"

definition trb_ptr :: "trb_ring \<Rightarrow> nat \<Rightarrow> nat res" where
  "trb_ptr r i = and_then (index_at (trbs r) i) (\<lambda>_. Inr (ring_base r + 16 * i))"

definition ring_current :: "trb_ring \<Rightarrow> generic_trb res" where
  "ring_current r = index_at (trbs r) (current_index r)"

definition current_ptr :: "trb_ring \<Rightarrow> nat res" where
  "current_ptr r = trb_ptr r (current_index r)"

definition advance_index :: "bool \<Rightarrow> (trb_ring, unit) act" where
  "advance_index new_cycle r =
     act_then (lift_res (ring_current r)) (\<lambda>t r.
       if cycle_state t = new_cycle then (r, Inl (Err (Failed ''cycle state does not change'')))
       else (r\<lparr>trbs := (trbs r)[current_index r := set_cycle_state t new_cycle],
               current_index := (current_index r + 1) mod length (trbs r)\<rparr>, Inr ())) r"

definition advance_index_notoggle :: "bool \<Rightarrow> (trb_ring, unit) act" where
  "advance_index_notoggle cycle_ours r =
     act_then (lift_res (ring_current r)) (\<lambda>t r.
       if cycle_state t \<noteq> cycle_ours then (r, Inl (Err (Failed ''cycle state mismatch'')))
       else (r\<lparr>current_index := (current_index r + 1) mod length (trbs r)\<rparr>, Inr ())) r"

definition ring_write :: "nat \<Rightarrow> generic_trb \<Rightarrow> (trb_ring, unit) act" where
  "ring_write i t r =
     (if i < length (trbs r) then (r\<lparr>trbs := (trbs r)[i := t]\<rparr>, Inr ())
      else (r, Inl (Err (Failed ''TrbRing Out of Range''))))"

definition expect_ok :: "string \<Rightarrow> ('s, unit) act \<Rightarrow> ('s, unit) act" where
  "expect_ok msg m s = (case m s of (s', Inl (Err e)) \<Rightarrow> (s', Inl (Panic msg)) | x \<Rightarrow> x)"

definition write_current :: "generic_trb \<Rightarrow> (trb_ring, unit) act" where
  "write_current t r = expect_ok ''writing to the current index shall not fail'' (ring_write (current_index r) t) r"

subsection \<open>The command ring\<close>

record command_ring =
  cmd_ring :: trb_ring
  cmd_ours :: bool

definition with_ring :: "(trb_ring, 'a) act \<Rightarrow> (command_ring, 'a) act" where
  "with_ring m c = (case m (cmd_ring c) of (r, x) \<Rightarrow> (c\<lparr>cmd_ring := r\<rparr>, x))"

definition command_ring_new :: "nat \<Rightarrow> command_ring \<times> unit res" where
  "command_ring_new base =
     (let r = ring_new base
      in with_ring (expect_ok ''failed to write a link trb'' (ring_write (NUM_TRB - 1) (trb_link (ring_phys_addr r))))
           \<lparr>cmd_ring = r, cmd_ours = False\<rparr>)"

definition command_ring_reset :: "command_ring \<Rightarrow> command_ring" where
  "command_ring_reset c = \<lparr>cmd_ring = ring_reset (cmd_ring c), cmd_ours = False\<rparr>"

definition skip_link :: "(command_ring, unit) act" where
  "skip_link c =
     act_then (lift_res (ring_current (cmd_ring c))) (\<lambda>t.
       if trb_type_of t = trb_type_code Link
       then act_then (with_ring (advance_index (\<not> cmd_ours c)))
              (\<lambda>_ c. (c\<lparr>cmd_ours := \<not> cmd_ours c\<rparr>, Inr ()))
       else act_ok) c"

definition command_push :: "generic_trb \<Rightarrow> (command_ring, nat) act" where
  "command_push src c =
     act_then (lift_res (ring_current (cmd_ring c))) (\<lambda>t.
       if cycle_state t \<noteq> cmd_ours c then lift_res (Inl (Err (Failed ''Command Ring is Full'')))
       else act_then (lift_res (current_ptr (cmd_ring c))) (\<lambda>dst_ptr.
            act_then (with_ring (write_current (set_cycle_state src (cmd_ours c)))) (\<lambda>_.
            act_then (with_ring (advance_index (\<not> cmd_ours c))) (\<lambda>_.
            act_then skip_link (\<lambda>_. lift_res (Inr dst_ptr)))))) c"

subsection \<open>The transfer ring\<close>

text \<open>
  The transfer ring keeps a producer's ring like the command ring, and the index up to which the controller
  has reported completions.  \<open>alloc i\<close> is the address that the allocator returns for the buffer of
  block \<open>i\<close>.
\<close>

record transfer_ring =
  tr_prod :: command_ring
  dequeue_index :: nat
  buffers :: "u64 list"

definition with_prod :: "(command_ring, 'a) act \<Rightarrow> (transfer_ring, 'a) act" where
  "with_prod m t = (case m (tr_prod t) of (c, x) \<Rightarrow> (t\<lparr>tr_prod := c\<rparr>, x))"

definition transfer_ring_new :: "nat \<Rightarrow> (nat \<Rightarrow> u64) \<Rightarrow> nat \<Rightarrow> transfer_ring \<times> unit res" where
  "transfer_ring_new base alloc transfer_size =
     (let r = ring_new base;
          t = \<lparr>tr_prod = \<lparr>cmd_ring = r, cmd_ours = False\<rparr>, dequeue_index = 0,
               buffers = replicate (NUM_TRB - 1) 0\<rparr>
      in act_then
           (with_prod (with_ring (expect_ok ''failed to write a link trb''
              (ring_write (num_trbs r - 1) (trb_link (ring_phys_addr r))))))
           (\<lambda>_. for_each (\<lambda>i t.
              with_prod (with_ring (expect_ok ''failed to write a link trb''
                  (ring_write i (normal_trb_new (alloc i) (word_of_nat transfer_size)))))
                (t\<lparr>buffers := (buffers t)[i := alloc i]\<rparr>))
              [0..<NUM_TRB - 1]) t)"

definition not_given :: "command_ring \<Rightarrow> nat" where
  "not_given c = length (filter (\<lambda>t. cycle_state t = cmd_ours c) (trbs (cmd_ring c)))"

lemma filter_update_less:
  "i < length xs \<Longrightarrow> P (xs ! i) \<Longrightarrow> \<not> P y \<Longrightarrow> length (filter P (xs[i := y])) < length (filter P xs)"
proof (induction xs arbitrary: i)
  case (Cons x xs)
  then show ?case
  proof (cases i)
    case (Suc j)
    with Cons.prems Cons.IH [of j] show ?thesis by simp
  qed simp
qed simp

lemma advance_index_gives:
  "with_ring (advance_index (\<not> cmd_ours c)) c = (c', Inr u) \<Longrightarrow> not_given c' < not_given c"
  by (auto simp: with_ring_def advance_index_def act_then_def lift_res_def ring_current_def not_given_def
      res_simps filter_update_less split: sum.splits if_splits)

function fill_loop :: "(command_ring, unit) act" where
  "fill_loop c =
     (if (current_index (cmd_ring c) + 1) mod (num_trbs (cmd_ring c) - 1) = num_trbs (cmd_ring c) - 4
      then (c, Inr ())
      else (case with_ring (advance_index (\<not> cmd_ours c)) c of
          (c', Inl e) \<Rightarrow> (c', Inl e)
        | (c', Inr _) \<Rightarrow> fill_loop c'))"
  by pat_completeness auto
termination by (relation "measure not_given") (auto intro: advance_index_gives)

declare fill_loop.simps [simp del]

definition fill_ring :: "(transfer_ring, unit) act" where
  "fill_ring = with_prod fill_loop"

definition dequeue_trb :: "nat \<Rightarrow> (transfer_ring, unit) act" where
  "dequeue_trb ptr t =
     act_then (lift_res (trb_ptr (cmd_ring (tr_prod t)) (dequeue_index t))) (\<lambda>expected.
       if expected \<noteq> ptr then lift_res (Inl (Err (FailedString ''expected trb ptr'')))
       else act_then (\<lambda>t. (t\<lparr>dequeue_index :=
                 (if dequeue_index t + 1 = num_trbs (cmd_ring (tr_prod t)) - 1 then 0 else dequeue_index t + 1)\<rparr>,
               Inr ())) (\<lambda>_.
            act_then (with_prod (with_ring (advance_index (\<not> cmd_ours (tr_prod t))))) (\<lambda>_.
            with_prod skip_link))) t"

subsection \<open>Event futures\<close>

record event_wait_cond =
  cond_type :: "trb_type option"
  cond_addr :: "u64 option"
  cond_slot :: "u8 option"

record event_wait_info =
  wait_cond :: event_wait_cond
  wait_trbs :: "generic_trb list"

definition wait_matches :: "event_wait_info \<Rightarrow> generic_trb \<Rightarrow> bool" where
  "wait_matches w t \<longleftrightarrow>
     (case cond_type (wait_cond w) of Some ty \<Rightarrow> trb_type_of t = trb_type_code ty | None \<Rightarrow> True) \<and>
     (case cond_slot (wait_cond w) of Some s \<Rightarrow> slot_id t = s | None \<Rightarrow> True) \<and>
     (case cond_addr (wait_cond w) of Some a \<Rightarrow> trb_data t = a | None \<Rightarrow> True)"

definition wait_resolve :: "generic_trb \<Rightarrow> event_wait_info \<Rightarrow> event_wait_info" where
  "wait_resolve t w = w\<lparr>wait_trbs := wait_trbs w @ [t]\<rparr>"

subsection \<open>The event ring\<close>

text \<open>
  Waiters are shared: a future holds a counted reference and the event ring a weak one.  \<open>waiters\<close> is the part
  of memory that holds the waiters, by address; a waiter is in it as long as some future refers to it, and the
  upgrade of a weak reference succeeds just for the addresses in its domain.  \<open>erdp\<close> is the contents of the
  dequeue pointer register, when its address is set.
\<close>

record event_ring =
  ev_ring :: trb_ring
  erst_base :: u64
  erst_size :: u16
  ev_ours :: bool
  erdp :: "u64 option"
  events_per_slot :: "u8 \<rightharpoonup> generic_trb list"
  events_per_trb :: "u64 \<rightharpoonup> generic_trb"
  wait_list :: "nat list"
  waiters :: "nat \<rightharpoonup> event_wait_info"

definition event_ring_new :: "nat \<Rightarrow> event_ring" where
  "event_ring_new base =
     \<lparr>ev_ring = ring_new base, erst_base = word_of_nat base, erst_size = word_of_nat NUM_TRB, ev_ours = True,
      erdp = None, events_per_slot = Map.empty, events_per_trb = Map.empty, wait_list = [], waiters = Map.empty\<rparr>"

definition set_erdp :: "u64 \<Rightarrow> event_ring \<Rightarrow> event_ring" where
  "set_erdp reg s = s\<lparr>erdp := Some reg\<rparr>"

definition has_next_event :: "event_ring \<Rightarrow> bool res" where
  "has_next_event s = and_then (ring_current (ev_ring s)) (\<lambda>t. Inr (cycle_state t = ev_ours s))"

definition with_ev_ring :: "(trb_ring, 'a) act \<Rightarrow> (event_ring, 'a) act" where
  "with_ev_ring m s = (case m (ev_ring s) of (r, x) \<Rightarrow> (s\<lparr>ev_ring := r\<rparr>, x))"

definition event_pop :: "(event_ring, generic_trb option) act" where
  "event_pop s =
     act_then (lift_res (has_next_event s)) (\<lambda>next.
       if \<not> next then lift_res (Inr None)
       else act_then (lift_res (ring_current (ev_ring s))) (\<lambda>e.
            act_then (lift_res (current_ptr (ev_ring s))) (\<lambda>eptr.
            act_then (with_ev_ring (advance_index_notoggle (ev_ours s))) (\<lambda>_ s.
              case erdp s of
                None \<Rightarrow> (s, Inl (Panic ''erdp is not set''))
              | Some reg \<Rightarrow>
                  (s\<lparr>erdp := Some (word_of_nat eptr OR (reg AND 15)),
                     ev_ours := (if current_index (ev_ring s) = 0 then \<not> ev_ours s else ev_ours s)\<rparr>,
                   Inr (Some e)))))) s"

text \<open>
  The blocks that the driver owns at the moment, in the order in which it will take them: those from the
  index to the end with its cycle bit, and when that is all of them, those from the start with the other one.
\<close>

definition pending :: "event_ring \<Rightarrow> generic_trb list" where
  "pending s =
     (let a = takeWhile (\<lambda>t. cycle_state t = ev_ours s) (drop (current_index (ev_ring s)) (trbs (ev_ring s)))
      in a @ (if length a = length (trbs (ev_ring s)) - current_index (ev_ring s)
              then takeWhile (\<lambda>t. cycle_state t \<noteq> ev_ours s) (trbs (ev_ring s)) else []))"

lemma takeWhile_until:
  "i < length xs \<Longrightarrow> \<not> P (xs ! i) \<Longrightarrow> length (takeWhile P xs) < length xs"
  by (metis length_takeWhile_le le_neq_implies_less nth_mem takeWhile_eq_all_conv takeWhile_eq_take take_all order_refl)

lemma pending_step:
  assumes "current_index (ev_ring s) < length (trbs (ev_ring s))"
    and "cycle_state (trbs (ev_ring s) ! current_index (ev_ring s)) = ev_ours s"
    and "s' = s\<lparr>ev_ring := (ev_ring s)\<lparr>current_index := i\<rparr>, ev_ours := o', erdp := x\<rparr>"
    and "i = Suc (current_index (ev_ring s)) mod length (trbs (ev_ring s))"
    and "o' = (if i = 0 then \<not> ev_ours s else ev_ours s)"
  shows "pending s = trbs (ev_ring s) ! current_index (ev_ring s) # pending s'"
proof (cases "Suc (current_index (ev_ring s)) = length (trbs (ev_ring s))")
  case True
  let ?xs = "trbs (ev_ring s)"
  let ?P = "\<lambda>t. cycle_state t \<noteq> ev_ours s"
  have "drop (current_index (ev_ring s)) ?xs = [?xs ! current_index (ev_ring s)]"
    using True by (metis Cons_nth_drop_Suc assms(1) drop_all order_refl)
  moreover have "length (takeWhile ?P ?xs) \<noteq> length ?xs"
    using takeWhile_until [of "current_index (ev_ring s)" ?xs ?P] assms(1,2) by auto
  moreover have "length ?xs - current_index (ev_ring s) = Suc 0" using True by simp
  ultimately show ?thesis using assms True by (simp add: pending_def Let_def)
next
  case False
  then have lt: "Suc (current_index (ev_ring s)) < length (trbs (ev_ring s))" using assms(1) by simp
  then have "i = Suc (current_index (ev_ring s))" using assms(4) by simp
  moreover have "drop (current_index (ev_ring s)) (trbs (ev_ring s)) =
      trbs (ev_ring s) ! current_index (ev_ring s) # drop (Suc (current_index (ev_ring s))) (trbs (ev_ring s))"
    using assms(1) by (simp add: Cons_nth_drop_Suc)
  ultimately show ?thesis using assms lt by (simp add: pending_def Let_def) arith
qed

lemma event_pop_cases:
  assumes "event_pop s = (s', Inr x)"
  shows "x = None \<and> s' = s \<and> pending s = [] \<or>
    (\<exists>reg. x = Some (trbs (ev_ring s) ! current_index (ev_ring s)) \<and>
      pending s = trbs (ev_ring s) ! current_index (ev_ring s) # pending s' \<and>
      s' = s\<lparr>ev_ring := ev_ring s', ev_ours := ev_ours s', erdp := Some reg\<rparr> \<and>
      trbs (ev_ring s') = trbs (ev_ring s))"
proof (cases "current_index (ev_ring s) < length (trbs (ev_ring s))")
  case lt: True
  let ?e = "trbs (ev_ring s) ! current_index (ev_ring s)"
  show ?thesis
  proof (cases "cycle_state ?e = ev_ours s")
    case True
    then obtain reg where "erdp s = Some reg"
      using assms lt by (cases "erdp s") (simp_all add: event_pop_def has_next_event_def ring_current_def
          with_ev_ring_def advance_index_notoggle_def current_ptr_def trb_ptr_def act_then_def lift_res_def)
    moreover obtain r' where r': "r' = word_of_nat (ring_base (ev_ring s) + 16 * current_index (ev_ring s))
        OR (reg AND 15)" by blast
    ultimately have "x = Some ?e" and s': "s' = s\<lparr>ev_ring := (ev_ring s)\<lparr>current_index :=
        Suc (current_index (ev_ring s)) mod length (trbs (ev_ring s))\<rparr>,
        ev_ours := (if Suc (current_index (ev_ring s)) mod length (trbs (ev_ring s)) = 0 then \<not> ev_ours s
          else ev_ours s), erdp := Some r'\<rparr>"
      using assms lt True by (auto simp: event_pop_def has_next_event_def ring_current_def
          with_ev_ring_def advance_index_notoggle_def current_ptr_def trb_ptr_def act_then_def lift_res_def)
    with pending_step [OF lt True s' refl refl] show ?thesis by (intro disjI2 exI [of _ r']) simp
  next
    case False
    then have "takeWhile (\<lambda>t. cycle_state t = ev_ours s) (drop (current_index (ev_ring s)) (trbs (ev_ring s))) = []"
      using lt by (simp add: Cons_nth_drop_Suc [symmetric])
    then have "pending s = []" using lt by (simp add: pending_def)
    with False assms lt show ?thesis
      by (simp add: event_pop_def has_next_event_def ring_current_def lift_res_def)
  qed
next
  case False
  with assms show ?thesis
    by (simp add: event_pop_def has_next_event_def ring_current_def index_at_def lift_res_def)
qed

lemma event_pop_next: "event_pop s = (s', Inr (Some e)) \<Longrightarrow> has_next_event s = Inr True"
proof (cases "has_next_event s")
  case (Inr b)
  assume "event_pop s = (s', Inr (Some e))"
  with Inr show ?thesis by (cases b) (simp_all add: event_pop_def lift_res_def)
qed (simp add: event_pop_def)

lemma event_pop_less: "event_pop s = (s', Inr (Some e)) \<Longrightarrow> length (pending s') < length (pending s)"
  using event_pop_cases by fastforce

lemma pending_cong:
  "ev_ring s = ev_ring t \<Longrightarrow> ev_ours s = ev_ours t \<Longrightarrow> pending s = pending t"
  unfolding pending_def by (simp only:)

definition enqueue_event :: "generic_trb \<Rightarrow> generic_trb list \<Rightarrow> event_ring \<Rightarrow> event_ring" where
  "enqueue_event e q s =
     s\<lparr>events_per_slot := (events_per_slot s)(slot_id e \<mapsto> (if length q > 10 then tl q else q) @ [e])\<rparr>"

function slot_loop :: "u8 \<Rightarrow> (event_ring, generic_trb option) act" where
  "slot_loop slot s =
     (case has_next_event s of
        Inl f \<Rightarrow> (s, Inl f)
      | Inr b \<Rightarrow>
          if \<not> b then (s, Inr None)
          else (case event_pop s of
              (s', Inl f) \<Rightarrow> (s', Inl f)
            | (s', Inr None) \<Rightarrow> (s', Inl (Err (Failed ''Expected some entries but it was empty'')))
            | (s', Inr (Some e)) \<Rightarrow>
                if slot_id e = slot then (s', Inr (Some e))
                else (case events_per_slot s' (slot_id e) of
                    None \<Rightarrow> (s', Inl (Err (Failed ''Expected VecDeque but not found'')))
                  | Some q \<Rightarrow> slot_loop slot (enqueue_event e q s'))))"
  by pat_completeness auto
termination
  by (relation "measure (\<lambda>(slot, s). length (pending s))")
    (auto simp: enqueue_event_def pending_cong [of "_\<lparr>events_per_slot := _\<rparr>" _] dest!: event_pop_less [OF sym])

declare slot_loop.simps [simp del]

definition pop_for_slot :: "u8 \<Rightarrow> (event_ring, generic_trb option) act" where
  "pop_for_slot slot s =
     (case events_per_slot s slot of
        Some (e # q) \<Rightarrow> (s\<lparr>events_per_slot := (events_per_slot s)(slot \<mapsto> q)\<rparr>, Inr (Some e))
      | Some [] \<Rightarrow> slot_loop slot s
      | None \<Rightarrow> slot_loop slot (s\<lparr>events_per_slot := (events_per_slot s)(slot \<mapsto> [])\<rparr>))"

function trb_loop :: "u64 \<Rightarrow> (event_ring, generic_trb option) act" where
  "trb_loop addr s =
     (case has_next_event s of
        Inl f \<Rightarrow> (s, Inl f)
      | Inr b \<Rightarrow>
          if \<not> b then (s, Inr None)
          else (case event_pop s of
              (s', Inl f) \<Rightarrow> (s', Inl f)
            | (s', Inr None) \<Rightarrow> (s', Inl (Err (Failed ''Expected some entries but it was empty'')))
            | (s', Inr (Some e)) \<Rightarrow>
                if trb_data e = addr then (s', Inr (Some e))
                else trb_loop addr (s'\<lparr>events_per_trb := (events_per_trb s')(addr \<mapsto> e)\<rparr>)))"
  by pat_completeness auto
termination
  by (relation "measure (\<lambda>(addr, s). length (pending s))")
    (auto simp: pending_cong [of "_\<lparr>events_per_trb := _\<rparr>" _] dest!: event_pop_less [OF sym])

declare trb_loop.simps [simp del]

definition pop_for_trb :: "u64 \<Rightarrow> (event_ring, generic_trb option) act" where
  "pop_for_trb addr s =
     (case events_per_trb s addr of
        Some e \<Rightarrow> (s\<lparr>events_per_trb := (events_per_trb s)(addr := None)\<rparr>, Inr (Some e))
      | None \<Rightarrow> trb_loop addr s)"

definition register_waiter :: "nat \<Rightarrow> event_ring \<Rightarrow> event_ring" where
  "register_waiter w s = s\<lparr>wait_list := wait_list s @ [w]\<rparr>"

fun resolve_all :: "generic_trb \<Rightarrow> nat list \<Rightarrow> (nat \<rightharpoonup> event_wait_info) \<Rightarrow> (nat \<rightharpoonup> event_wait_info)" where
  "resolve_all e [] m = m"
| "resolve_all e (a # as) m =
     resolve_all e as (case m a of
         Some w \<Rightarrow> if wait_matches w e then m(a \<mapsto> wait_resolve e w) else m
       | None \<Rightarrow> m)"

definition event_ring_poll :: "(event_ring, unit) act" where
  "event_ring_poll =
     act_then event_pop (\<lambda>x s. case x of
         None \<Rightarrow> (s, Inr ())
       | Some e \<Rightarrow>
           (let m = resolve_all e (wait_list s) (waiters s)
            in (s\<lparr>waiters := m, wait_list := filter (\<lambda>a. m a \<noteq> None) (wait_list s)\<rparr>, Inr ())))"

text \<open>
  A new future allocates its waiter at an address \<open>a\<close> that is not in use and registers it; polling the future
  takes the oldest block of its waiter; dropping the last future of a waiter frees it.
\<close>

definition event_future_new :: "nat \<Rightarrow> event_wait_cond \<Rightarrow> event_ring \<Rightarrow> event_ring" where
  "event_future_new a cond s =
     register_waiter a (s\<lparr>waiters := (waiters s)(a \<mapsto> \<lparr>wait_cond = cond, wait_trbs = []\<rparr>)\<rparr>)"

definition on_slot :: "u8 \<Rightarrow> event_wait_cond" where
  "on_slot slot = \<lparr>cond_type = None, cond_addr = None, cond_slot = Some slot\<rparr>"

definition command_completion_on_slot :: "u8 \<Rightarrow> event_wait_cond" where
  "command_completion_on_slot slot =
     \<lparr>cond_type = Some CommandCompletionEvent, cond_addr = None, cond_slot = Some slot\<rparr>"

definition transfer_event_on_slot :: "u8 \<Rightarrow> event_wait_cond" where
  "transfer_event_on_slot slot = \<lparr>cond_type = Some TransferEvent, cond_addr = None, cond_slot = Some slot\<rparr>"

definition on_trb :: "u64 \<Rightarrow> event_wait_cond" where
  "on_trb addr = \<lparr>cond_type = None, cond_addr = Some addr, cond_slot = None\<rparr>"

definition event_future_poll :: "nat \<Rightarrow> event_ring \<Rightarrow> event_ring \<times> generic_trb option" where
  "event_future_poll a s =
     (case waiters s a of
        Some w \<Rightarrow> (case wait_trbs w of
            t # q \<Rightarrow> (s\<lparr>waiters := (waiters s)(a \<mapsto> w\<lparr>wait_trbs := q\<rparr>)\<rparr>, Some t)
          | [] \<Rightarrow> (s, None))
      | None \<Rightarrow> (s, None))"

definition event_future_drop :: "nat \<Rightarrow> event_ring \<Rightarrow> event_ring" where
  "event_future_drop a s = s\<lparr>waiters := (waiters s)(a := None)\<rparr>"

subsection \<open>The producer keeps its ring in shape\<close>

text \<open>
  Below the index the blocks carry the controller's cycle bit, from the index on the driver's; the last block
  is a link to the first one and no other block is a link.
\<close>

definition producer_inv :: "command_ring \<Rightarrow> bool" where
  "producer_inv c \<longleftrightarrow>
     (let ts = trbs (cmd_ring c); k = current_index (cmd_ring c)
      in length ts = 16 \<and> k < 15 \<and> ring_base (cmd_ring c) < USIZE \<and>
         ts ! 15 = set_cycle_state (trb_link (ring_phys_addr (cmd_ring c))) (cmd_ours c) \<and>
         (\<forall>i<15. trb_type_of (ts ! i) \<noteq> trb_type_code Link) \<and>
         (\<forall>i<15. cycle_state (ts ! i) = (if i < k then \<not> cmd_ours c else cmd_ours c)))"

definition give :: "command_ring \<Rightarrow> command_ring" where
  "give c =
     (let r = cmd_ring c; k = current_index r; b = (\<not> cmd_ours c);
          ts = (trbs r)[k := set_cycle_state (trbs r ! k) b]
      in if k = 14 then \<lparr>cmd_ring = r\<lparr>trbs := ts[15 := set_cycle_state (trb_link (ring_phys_addr r)) b],
                           current_index := 0\<rparr>, cmd_ours = b\<rparr>
         else c\<lparr>cmd_ring := r\<lparr>trbs := ts, current_index := Suc k\<rparr>\<rparr>)"

lemma give_inv: "producer_inv c \<Longrightarrow> producer_inv (give c)"
  by (auto simp: producer_inv_def give_def Let_def ring_phys_addr_def nth_list_update less_Suc_eq)

lemma advance_gives:
  assumes "producer_inv c"
  shows "act_then (with_ring (advance_index (\<not> cmd_ours c))) (\<lambda>_. skip_link) c = (give c, Inr ())"
proof -
  let ?r = "cmd_ring c" and ?k = "current_index (cmd_ring c)"
  have f: "length (trbs ?r) = 16" "?k < 15" "cycle_state (trbs ?r ! ?k) = cmd_ours c"
      "\<And>i. i < 15 \<Longrightarrow> trb_type_of (trbs ?r ! i) \<noteq> trb_type_code Link"
      "trbs ?r ! 15 = set_cycle_state (trb_link (ring_phys_addr ?r)) (cmd_ours c)"
    using assms by (simp_all add: producer_inv_def Let_def)
  then have adv: "with_ring (advance_index (\<not> cmd_ours c)) c =
      (c\<lparr>cmd_ring := ?r\<lparr>trbs := (trbs ?r)[?k := set_cycle_state (trbs ?r ! ?k) (\<not> cmd_ours c)],
         current_index := Suc ?k\<rparr>\<rparr>, Inr ())"
    by (simp add: with_ring_def advance_index_def ring_current_def)
  show ?thesis
  proof (cases "?k = 14")
    case True
    with f adv show ?thesis
      by (simp add: skip_link_def ring_current_def command_types with_ring_def advance_index_def
          give_def Let_def act_then_def lift_res_def)
  next
    case False
    with f(2) have "Suc ?k < 15" by simp
    with f adv False show ?thesis
      by (simp add: skip_link_def ring_current_def give_def Let_def act_ok_def)
  qed
qed

definition put :: "generic_trb \<Rightarrow> command_ring \<Rightarrow> command_ring" where
  "put src c = c\<lparr>cmd_ring := (cmd_ring c)\<lparr>trbs :=
     (trbs (cmd_ring c))[current_index (cmd_ring c) := set_cycle_state src (cmd_ours c)]\<rparr>\<rparr>"

lemma put_inv: "producer_inv c \<Longrightarrow> trb_type_of src \<noteq> trb_type_code Link \<Longrightarrow> producer_inv (put src c)"
  by (auto simp: producer_inv_def put_def Let_def ring_phys_addr_def nth_list_update)

lemma put_ours [simp]: "cmd_ours (put src c) = cmd_ours c"
  by (simp add: put_def)

lemma command_push_ok:
  assumes "producer_inv c" "trb_type_of src \<noteq> trb_type_code Link"
  shows "command_push src c =
    (give (put src c), Inr (ring_base (cmd_ring c) + 16 * current_index (cmd_ring c)))"
proof -
  have f: "length (trbs (cmd_ring c)) = 16" "current_index (cmd_ring c) < 15"
      "cycle_state (trbs (cmd_ring c) ! current_index (cmd_ring c)) = cmd_ours c"
    using assms by (simp_all add: producer_inv_def Let_def)
  then have w: "with_ring (write_current (set_cycle_state src (cmd_ours c))) c = (put src c, Inr ())"
    by (simp add: with_ring_def write_current_def expect_ok_def ring_write_def put_def)
  have "act_then (with_ring (advance_index (\<not> cmd_ours c)))
      (\<lambda>_. act_then skip_link (\<lambda>_. lift_res (Inr p))) (put src c) = (give (put src c), Inr p)" for p
    using advance_gives [OF put_inv [OF assms]] unfolding put_ours
    by (simp add: act_then_assoc [symmetric] lift_res_def)
  with f w show ?thesis
    by (simp add: command_push_def ring_current_def current_ptr_def trb_ptr_def)
qed

lemma command_ring_new_ok:
  assumes "base < USIZE"
  shows "\<exists>c. command_ring_new base = (c, Inr ()) \<and> producer_inv c \<and> cmd_ours c = False \<and>
    current_index (cmd_ring c) = 0 \<and> ring_base (cmd_ring c) = base"
proof -
  have "set_cycle_state (trb_link p) False = trb_link p" for p
    by (simp add: set_cycle_state_def trb_link_def set_toggle_cycle_def set_trb_type_def trb_default_def
        set_field_def mask_eq_exp_minus_1)
  moreover have "trb_type_of trb_default \<noteq> trb_type_code Link"
    by (simp add: trb_type_of_def trb_default_def field_def)
  ultimately show ?thesis
    using assms by (simp add: command_ring_new_def ring_new_def with_ring_def expect_ok_def ring_write_def
        NUM_TRB_def producer_inv_def Let_def ring_phys_addr_def trb_link_clear nth_list_update)
qed

lemma command_ring_reset_inv:
  assumes "producer_inv c"
  shows "producer_inv (command_ring_reset c)"
  using assms by (simp add: producer_inv_def command_ring_reset_def ring_reset_def Let_def ring_phys_addr_def)

subsection \<open>The controller takes what was pushed\<close>

text \<open>
  The dequeue side of the controller keeps the index of the next block and a cycle state.  A block with
  another cycle bit is not its own; at a link it goes to the linked block and toggles its cycle state when the
  link says so.
\<close>

definition xhc_follow :: "trb_ring \<Rightarrow> nat \<times> bool \<Rightarrow> nat \<times> bool" where
  "xhc_follow r = (\<lambda>(i, ccs).
     let t = trbs r ! i
     in if cycle_state t = ccs \<and> trb_type_of t = trb_type_code Link
        then ((unat (trb_data t) - ring_base r) div 16, ccs \<noteq> (field (trb_control t) 1 1 \<noteq> 0))
        else (i, ccs))"

definition xhc_fetch :: "trb_ring \<Rightarrow> nat \<times> bool \<Rightarrow> (generic_trb \<times> nat \<times> bool) option" where
  "xhc_fetch r con =
     (case xhc_follow r con of (i, ccs) \<Rightarrow>
        if cycle_state (trbs r ! i) = ccs then Some (trbs r ! i, i + 1, ccs) else None)"

text \<open>The blocks between the controller's index and the driver's, in the order of the ring.\<close>

definition linked :: "command_ring \<Rightarrow> generic_trb list \<Rightarrow> nat \<times> bool \<Rightarrow> bool" where
  "linked c q = (\<lambda>(i, ccs).
     let ts = trbs (cmd_ring c); k = current_index (cmd_ring c)
     in producer_inv c \<and>
        (if ccs = cmd_ours c then k < i \<and> i \<le> 15 \<and> q = drop i (take 15 ts) @ take k ts
         else i \<le> k \<and> q = drop i (take k ts)))"

lemma link_toggles: "field (trb_control (set_cycle_state (trb_link p) b)) 1 1 = 1"
  by (simp add: set_cycle_state_def trb_link_def set_toggle_cycle_def field_set_field field_set_field_other)

lemma xhc_follow_link:
  assumes "producer_inv c"
  shows "xhc_follow (cmd_ring c) (15, cmd_ours c) = (0, \<not> cmd_ours c)"
proof -
  have "trbs (cmd_ring c) ! 15 = set_cycle_state (trb_link (ring_phys_addr (cmd_ring c))) (cmd_ours c)"
      and "ring_base (cmd_ring c) < USIZE"
    using assms by (simp_all add: producer_inv_def Let_def)
  then show ?thesis
    by (simp add: xhc_follow_def Let_def command_types command_data link_toggles [unfolded One_nat_def] ring_phys_addr_def
        unat_of_nat take_bit_nat_eq_self)
qed

lemma xhc_follow_other:
  "producer_inv c \<Longrightarrow> i < 15 \<Longrightarrow> xhc_follow (cmd_ring c) (i, ccs) = (i, ccs)"
  by (simp add: xhc_follow_def producer_inv_def Let_def)

lemma linked_fetch:
  assumes "linked c q con"
  shows "case q of [] \<Rightarrow> xhc_fetch (cmd_ring c) con = None
    | t # q' \<Rightarrow> \<exists>con'. xhc_fetch (cmd_ring c) con = Some (t, con') \<and> linked c q' con'"
proof -
  let ?ts = "trbs (cmd_ring c)" and ?k = "current_index (cmd_ring c)"
  obtain i ccs where con: "con = (i, ccs)" by (cases con)
  have inv: "producer_inv c" using assms con by (simp add: linked_def Let_def)
  then have f: "length ?ts = 16" "?k < 15"
      "\<And>j. j < 15 \<Longrightarrow> cycle_state (?ts ! j) = (if j < ?k then \<not> cmd_ours c else cmd_ours c)"
    by (simp_all add: producer_inv_def Let_def)
  have ahead: ?thesis if l: "linked c q (j, \<not> cmd_ours c)" and x: "xhc_follow (cmd_ring c) con = (j, \<not> cmd_ours c)" for j
  proof (cases "j < ?k")
    case True
    then have "q = ?ts ! j # drop (Suc j) (take ?k ?ts)"
      using l f by (simp add: linked_def Let_def Cons_nth_drop_Suc [symmetric])
    with True x f inv show ?thesis by (simp add: xhc_fetch_def linked_def Let_def)
  next
    case False
    with l f x show ?thesis by (simp add: xhc_fetch_def linked_def Let_def)
  qed
  show ?thesis
  proof (cases "ccs = cmd_ours c")
    case False
    then have "ccs = (\<not> cmd_ours c)" "i < 15" using assms con f by (auto simp: linked_def Let_def)
    with ahead [of i] assms con inv show ?thesis by (simp add: xhc_follow_other)
  next
    case True
    show ?thesis
    proof (cases "i < 15")
      case lt: True
      then have "q = ?ts ! i # drop (Suc i) (take 15 ?ts) @ take ?k ?ts" "?k < i"
        using assms con True f by (simp_all add: linked_def Let_def Cons_nth_drop_Suc [symmetric])
      with True lt con f inv show ?thesis
        by (simp add: xhc_fetch_def xhc_follow_other linked_def Let_def)
    next
      case False
      then have "i = 15" "linked c q (0, \<not> cmd_ours c)"
        using assms con True f by (auto simp: linked_def Let_def)
      with ahead [of 0] con True inv show ?thesis by (simp add: xhc_follow_link)
    qed
  qed
qed

lemma linked_push:
  assumes "linked c q con" "length q < 14" "trb_type_of src \<noteq> trb_type_code Link"
  shows "linked (give (put src c)) (q @ [set_cycle_state src (\<not> cmd_ours c)]) con"
proof -
  let ?ts = "trbs (cmd_ring c)" and ?k = "current_index (cmd_ring c)"
  let ?t = "set_cycle_state src (\<not> cmd_ours c)"
  obtain i ccs where con: "con = (i, ccs)" by (cases con)
  have inv: "producer_inv c" using assms con by (simp add: linked_def Let_def)
  then have f: "length ?ts = 16" "?k < 15" by (simp_all add: producer_inv_def Let_def)
  have inv': "producer_inv (give (put src c))" by (intro give_inv put_inv inv assms)
  have k: "take (Suc ?k) (?ts[?k := ?t]) = take ?k ?ts @ [?t]"
    using f by (simp add: take_Suc_conv_app_nth)
  show ?thesis
  proof (cases "?k = 14")
    case True
    have "i \<le> 14" "0 < i" "ccs \<noteq> cmd_ours c" "q = drop i (take 14 ?ts)"
      using assms con True f by (auto simp: linked_def Let_def split: if_splits)
    with k True f inv' con show ?thesis
      by (simp add: linked_def Let_def give_def put_def)
  next
    case False
    have "drop i (take 15 (?ts[?k := ?t])) = drop i (take 15 ?ts)" if "Suc ?k < i"
      using that by (simp add: take_update_swap)
    with False have "linked (give (put src c)) (q @ [?t]) (i, ccs) \<longleftrightarrow>
        (if ccs = cmd_ours c then Suc ?k < i \<and> i \<le> 15 \<and> q @ [?t] = drop i (take 15 ?ts) @ take ?k ?ts @ [?t]
         else i \<le> Suc ?k \<and> q @ [?t] = drop i (take ?k ?ts @ [?t]))"
      using k f inv' by (auto simp: linked_def Let_def give_def put_def)
    with assms con f show ?thesis by (auto simp: linked_def Let_def split: if_splits)
  qed
qed

text \<open>
  The driver, the queue of the commands it has pushed and the controller has not fetched, and the
  controller's index.  The driver keeps fewer than fifteen commands outstanding; it waits for each of its
  commands, so that it never has more than one.
\<close>

inductive cmd_reachable :: "nat \<Rightarrow> command_ring \<Rightarrow> generic_trb list \<Rightarrow> nat \<times> bool \<Rightarrow> bool" for base where
  start: "command_ring_new base = (c, Inr ()) \<Longrightarrow> cmd_reachable base c [] (0, True)"
| push: "cmd_reachable base c q con \<Longrightarrow> length q < 14 \<Longrightarrow> trb_type_of src \<noteq> trb_type_code Link \<Longrightarrow>
    command_push src c = (c', x) \<Longrightarrow> cmd_reachable base c' (q @ [set_cycle_state src (\<not> cmd_ours c)]) con"
| fetch: "cmd_reachable base c (t # q) con \<Longrightarrow> xhc_fetch (cmd_ring c) con = Some (t', con') \<Longrightarrow>
    cmd_reachable base c q con'"
| reset: "cmd_reachable base c q con \<Longrightarrow> cmd_reachable base (command_ring_reset c) [] (0, True)"

lemma linked_start:
  "producer_inv c \<Longrightarrow> current_index (cmd_ring c) = 0 \<Longrightarrow> \<not> cmd_ours c \<Longrightarrow> linked c [] (0, True)"
  by (simp add: linked_def Let_def)

lemma cmd_reachable_linked:
  assumes "cmd_reachable base c q con" "base < USIZE"
  shows "linked c q con"
  using assms
proof (induction rule: cmd_reachable.induct)
  case (start c)
  then show ?case using command_ring_new_ok [of base] linked_start by fastforce
next
  case (push c q con src c' x)
  then have "producer_inv c" by (auto simp: linked_def Let_def split: prod.splits)
  with push command_push_ok [of c src] linked_push [of c q con src] show ?case by simp
next
  case (fetch c t q con t' con')
  then show ?case using linked_fetch [of c "t # q" con] by fastforce
next
  case (reset c q con)
  then have "producer_inv c" by (auto simp: linked_def Let_def split: prod.splits)
  then show ?case
    by (intro linked_start command_ring_reset_inv) (simp_all add: command_ring_reset_def ring_reset_def)
qed

subsection \<open>The transfer ring keeps eleven blocks with the controller\<close>

definition transfer_inv :: "transfer_ring \<Rightarrow> bool" where
  "transfer_inv t \<longleftrightarrow> producer_inv (tr_prod t) \<and> dequeue_index t < 15 \<and>
     current_index (cmd_ring (tr_prod t)) = (dequeue_index t + 11) mod 15"

lemma dequeue_trb_ok:
  assumes "transfer_inv t" "ptr = ring_base (cmd_ring (tr_prod t)) + 16 * dequeue_index t"
  shows "\<exists>t'. dequeue_trb ptr t = (t', Inr ()) \<and> transfer_inv t' \<and>
    dequeue_index t' = (dequeue_index t + 1) mod 15 \<and> tr_prod t' = give (tr_prod t)"
proof -
  let ?p = "tr_prod t" and ?d = "(dequeue_index t + 1) mod 15"
  have inv: "producer_inv ?p" and d: "dequeue_index t < 15"
      and k: "current_index (cmd_ring ?p) = (dequeue_index t + 11) mod 15"
    using assms by (simp_all add: transfer_inv_def)
  have len: "length (trbs (cmd_ring ?p)) = 16" using inv by (simp add: producer_inv_def Let_def)
  have w: "act_then (with_prod m) (\<lambda>_. with_prod n) u =
      (case act_then m (\<lambda>_. n) (tr_prod u) of (c, x) \<Rightarrow> (u\<lparr>tr_prod := c\<rparr>, x))" for m n u
    by (simp add: act_then_def with_prod_def split: prod.split sum.split)
  have "dequeue_trb ptr t = (t\<lparr>dequeue_index := ?d, tr_prod := give ?p\<rparr>, Inr ())"
    using advance_gives [OF inv] d len assms(2)
    by (auto simp: dequeue_trb_def trb_ptr_def num_trbs_def NUM_TRB_def w)
  moreover have "current_index (cmd_ring (give ?p)) = (?d + 11) mod 15"
  proof -
    have "(?d + 11) mod 15 = Suc (dequeue_index t + 11) mod 15" by (simp add: mod_simps)
    also have "\<dots> = (if current_index (cmd_ring ?p) = 14 then 0 else Suc (current_index (cmd_ring ?p)))"
      by (simp only: mod_Suc k) simp
    finally show ?thesis by (simp add: give_def Let_def)
  qed
  moreover note give_inv [OF inv]
  ultimately show ?thesis by (simp add: transfer_inv_def)
qed

lemma dequeue_trb_other:
  "dequeue_index t < length (trbs (cmd_ring (tr_prod t))) \<Longrightarrow>
   ptr \<noteq> ring_base (cmd_ring (tr_prod t)) + 16 * dequeue_index t \<Longrightarrow>
   dequeue_trb ptr t = (t, Inl (Err (FailedString ''expected trb ptr'')))"
  by (simp add: dequeue_trb_def trb_ptr_def lift_res_def)

lemma fill_loop_ok:
  assumes "producer_inv c" "current_index (cmd_ring c) \<le> 11"
  shows "\<exists>c'. fill_loop c = (c', Inr ()) \<and> producer_inv c' \<and> current_index (cmd_ring c') = 11 \<and>
    ring_base (cmd_ring c') = ring_base (cmd_ring c)"
  using assms
proof (induction c rule: fill_loop.induct)
  case (1 c)
  show ?case
  proof (cases "current_index (cmd_ring c) = 11")
    case True
    with 1 show ?thesis by (simp add: fill_loop.simps [of c] num_trbs_def NUM_TRB_def)
  next
    case False
    with 1(3) have k: "current_index (cmd_ring c) < 11" by simp
    have g: "with_ring (advance_index (\<not> cmd_ours c)) c = (give c, Inr ())"
      using 1(2) k by (simp add: with_ring_def advance_index_def ring_current_def producer_inv_def Let_def give_def)
    have gk: "current_index (cmd_ring (give c)) \<le> 11" "ring_base (cmd_ring (give c)) = ring_base (cmd_ring c)"
      using k by (simp_all add: give_def Let_def)
    have "(current_index (cmd_ring c) + 1) mod (num_trbs (cmd_ring c) - 1) \<noteq> num_trbs (cmd_ring c) - 4"
      using k by (simp add: num_trbs_def NUM_TRB_def)
    with 1(1) [OF this g [symmetric] refl give_inv [OF 1(2)] gk(1)] g gk(2) show ?thesis
      by (simp add: fill_loop.simps [of c])
  qed
qed

lemma transfer_ring_new_ok:
  assumes "base < USIZE"
  shows "\<exists>t. transfer_ring_new base alloc n = (t, Inr ()) \<and> producer_inv (tr_prod t) \<and> dequeue_index t = 0 \<and>
    current_index (cmd_ring (tr_prod t)) = 0 \<and> ring_base (cmd_ring (tr_prod t)) = base \<and>
    buffers t = map alloc [0..<15] \<and>
    (\<forall>i<15. trbs (cmd_ring (tr_prod t)) ! i = normal_trb_new (alloc i) (word_of_nat n))"
proof -
  let ?w = "\<lambda>i t. with_prod (with_ring (expect_ok ''failed to write a link trb''
      (ring_write i (normal_trb_new (alloc i) (word_of_nat n))))) (t\<lparr>buffers := (buffers t)[i := alloc i]\<rparr>)"
  let ?R = "\<lambda>k t. producer_inv (tr_prod t) \<and> dequeue_index t = 0 \<and> cmd_ours (tr_prod t) = False \<and>
    current_index (cmd_ring (tr_prod t)) = 0 \<and> ring_base (cmd_ring (tr_prod t)) = base \<and>
    length (buffers t) = 15 \<and> (\<forall>i<k. buffers t ! i = alloc i) \<and>
    (\<forall>i<k. trbs (cmd_ring (tr_prod t)) ! i = normal_trb_new (alloc i) (word_of_nat n))"
  have step: "\<exists>t'. ?w k t = (t', Inr ()) \<and> ?R (Suc k) t'" if "?R k t" "k < 15" for k t
    using that by (auto simp: with_prod_def with_ring_def expect_ok_def ring_write_def producer_inv_def Let_def
        nth_list_update stage_types normal_clear ring_phys_addr_def less_Suc_eq)
  have loop: "\<exists>t'. for_each ?w [0..<k] t = (t', Inr ()) \<and> ?R k t'" if "?R 0 t" "k \<le> 15" for k t
    using that
  proof (induction k)
    case (Suc k)
    then obtain t' where "for_each ?w [0..<k] t = (t', Inr ())" "?R k t'" by auto
    with step [of t' k] Suc.prems show ?case
      by (auto simp: for_each_append)
  qed simp
  obtain c where c: "command_ring_new base = (c, Inr ())" "producer_inv c" "cmd_ours c = False"
      "current_index (cmd_ring c) = 0" "ring_base (cmd_ring c) = base"
    using command_ring_new_ok [OF assms] by blast
  then obtain t where "for_each ?w [0..<15]
      \<lparr>tr_prod = c, dequeue_index = 0, buffers = replicate 15 0\<rparr> = (t, Inr ())" "?R 15 t"
    using loop [of "\<lparr>tr_prod = c, dequeue_index = 0, buffers = replicate 15 0\<rparr>" 15] by auto
  moreover from this(2) have "buffers t = map alloc [0..<15]" by (simp add: list_eq_iff_nth_eq)
  ultimately show ?thesis
    using c(1) by (auto simp: transfer_ring_new_def command_ring_new_def Let_def with_prod_def num_trbs_def
        NUM_TRB_def act_then_def split: prod.splits)
qed

lemma transfer_ring_filled:
  assumes "base < USIZE"
  shows "\<exists>t. act_then (\<lambda>_. transfer_ring_new base alloc n) (\<lambda>_. fill_ring) s = (t, Inr ()) \<and> transfer_inv t \<and>
    dequeue_index t = 0 \<and> ring_base (cmd_ring (tr_prod t)) = base"
proof -
  obtain t where t: "transfer_ring_new base alloc n = (t, Inr ())" "producer_inv (tr_prod t)" "dequeue_index t = 0"
      "current_index (cmd_ring (tr_prod t)) = 0" "ring_base (cmd_ring (tr_prod t)) = base"
    using transfer_ring_new_ok [OF assms, of alloc n] by blast
  with fill_loop_ok [of "tr_prod t"] show ?thesis
    by (auto simp: fill_ring_def with_prod_def transfer_inv_def)
qed

text \<open>Seen from the controller, eleven blocks are outstanding from the dequeue index on.\<close>

lemma transfer_inv_linked:
  assumes "transfer_inv t"
  shows "\<exists>q ccs. linked (tr_prod t) q (dequeue_index t, ccs) \<and> length q = 11"
proof -
  let ?c = "tr_prod t" and ?d = "dequeue_index t"
  have inv: "producer_inv ?c" and d: "?d < 15" and k: "current_index (cmd_ring ?c) = (?d + 11) mod 15"
    using assms by (simp_all add: transfer_inv_def)
  have len: "length (trbs (cmd_ring ?c)) = 16" using inv by (simp add: producer_inv_def Let_def)
  show ?thesis
  proof (cases "?d < 4")
    case True
    then have "current_index (cmd_ring ?c) = ?d + 11" using k by simp
    with inv len True show ?thesis by (intro exI [of _ "\<not> cmd_ours ?c"] exI [of _ "drop ?d (take (?d + 11) (trbs (cmd_ring ?c)))"])
        (simp add: linked_def)
  next
    case False
    then have "?d + 11 = (?d - 4) + 15" "?d - 4 < 15" using d by simp_all
    then have "current_index (cmd_ring ?c) = ?d - 4" using k by (metis mod_add_self2 mod_less)
    with inv len d False show ?thesis by (intro exI [of _ "cmd_ours ?c"]
        exI [of _ "drop ?d (take 15 (trbs (cmd_ring ?c))) @ take (?d - 4) (trbs (cmd_ring ?c))"]) (simp add: linked_def)
  qed
qed

lemma give_base [simp]: "ring_base (cmd_ring (give c)) = ring_base (cmd_ring c)"
  by (simp add: give_def Let_def)

lemma transfer_ring_runs:
  assumes "transfer_inv t" "ring_base (cmd_ring (tr_prod t)) = base" "dequeue_index t = 0"
  shows "\<exists>t'. for_each dequeue_trb (map (\<lambda>i. base + 16 * (i mod 15)) [0..<n]) t = (t', Inr ()) \<and>
    transfer_inv t' \<and> dequeue_index t' = n mod 15 \<and> ring_base (cmd_ring (tr_prod t')) = base"
proof (induction n)
  case 0
  show ?case using assms by simp
next
  case (Suc n)
  then obtain t1 where t1: "for_each dequeue_trb (map (\<lambda>i. base + 16 * (i mod 15)) [0..<n]) t = (t1, Inr ())"
      "transfer_inv t1" "dequeue_index t1 = n mod 15" "ring_base (cmd_ring (tr_prod t1)) = base" by blast
  obtain t2 where "dequeue_trb (base + 16 * (n mod 15)) t1 = (t2, Inr ())" "transfer_inv t2"
      "dequeue_index t2 = (dequeue_index t1 + 1) mod 15" "tr_prod t2 = give (tr_prod t1)"
    using dequeue_trb_ok [OF t1(2)] t1(3,4) by metis
  with t1 show ?case by (simp add: for_each_append mod_Suc_eq)
qed

subsection \<open>Events reach their waiters\<close>

definition event_ok :: "event_ring \<Rightarrow> bool" where
  "event_ok s \<longleftrightarrow> current_index (ev_ring s) < length (trbs (ev_ring s)) \<and> erdp s \<noteq> None \<and> distinct (wait_list s)"

definition delivered_to :: "event_wait_info \<Rightarrow> generic_trb list \<Rightarrow> event_wait_info" where
  "delivered_to w es = w\<lparr>wait_trbs := wait_trbs w @ filter (wait_matches w) es\<rparr>"

lemma delivered_to_Nil [simp]: "delivered_to w [] = w"
  by (simp add: delivered_to_def)

lemma delivered_to_twice: "delivered_to (delivered_to w es) fs = delivered_to w (es @ fs)"
proof -
  have "wait_matches (w\<lparr>wait_trbs := q\<rparr>) = wait_matches w" for q
    by (simp add: wait_matches_def fun_eq_iff)
  then show ?thesis by (simp add: delivered_to_def)
qed

lemma resolve_all_eq:
  "distinct as \<Longrightarrow>
   resolve_all e as m a = (if a \<in> set as then map_option (\<lambda>w. delivered_to w [e]) (m a) else m a)"
  by (induction as arbitrary: m)
    (auto simp: delivered_to_def wait_resolve_def split: option.split)

lemma event_pop_ok:
  assumes "event_ok s"
  shows "\<exists>s'. event_pop s = (s', Inr (case pending s of [] \<Rightarrow> None | e # _ \<Rightarrow> Some e)) \<and> event_ok s' \<and>
    pending s' = tl (pending s) \<and> wait_list s' = wait_list s \<and> waiters s' = waiters s \<and>
    events_per_slot s' = events_per_slot s"
proof -
  obtain s' x where p: "event_pop s = (s', Inr x)" and "current_index (ev_ring s') < length (trbs (ev_ring s'))"
  proof (cases "cycle_state (trbs (ev_ring s) ! current_index (ev_ring s)) = ev_ours s")
    case True
    moreover have "Suc (current_index (ev_ring s)) mod length (trbs (ev_ring s)) < length (trbs (ev_ring s))"
      using assms by (intro mod_less_divisor) (auto simp: event_ok_def)
    ultimately show ?thesis
      using assms that by (auto simp: event_ok_def event_pop_def has_next_event_def ring_current_def
          with_ev_ring_def advance_index_notoggle_def current_ptr_def trb_ptr_def)
  next
    case False
    then show ?thesis
      using assms that by (auto simp: event_ok_def event_pop_def has_next_event_def ring_current_def lift_res_def)
  qed
  moreover from event_pop_cases [OF p]
  have "x = (case pending s of [] \<Rightarrow> None | e # _ \<Rightarrow> Some e)" "pending s' = tl (pending s)"
      and s': "s' = s \<or> (\<exists>r b reg. s' = s\<lparr>ev_ring := r, ev_ours := b, erdp := Some reg\<rparr>)"
    by auto
  moreover from s' have "wait_list s' = wait_list s" "waiters s' = waiters s" "events_per_slot s' = events_per_slot s"
      "erdp s' \<noteq> None"
    using assms by (auto simp: event_ok_def)
  ultimately show ?thesis using p assms by (intro exI [of _ s']) (simp add: event_ok_def)
qed

definition served :: "event_ring \<Rightarrow> generic_trb list \<Rightarrow> event_ring \<Rightarrow> bool" where
  "served s es s' \<longleftrightarrow>
     set (wait_list s') \<subseteq> set (wait_list s) \<and>
     (\<forall>a \<in> set (wait_list s). waiters s a \<noteq> None \<longrightarrow> a \<in> set (wait_list s')) \<and>
     (\<forall>a. waiters s' a = (if a \<in> set (wait_list s) then map_option (\<lambda>w. delivered_to w es) (waiters s a) else waiters s a))"

lemma served_refl: "served s [] s"
  by (simp add: served_def option.map_ident)

lemma served_trans: "served s es t \<Longrightarrow> served t fs u \<Longrightarrow> served s (es @ fs) u"
  unfolding served_def
  by (intro conjI allI ballI impI) (auto simp: delivered_to_twice option.map_comp comp_def)

lemma event_ring_poll_ok:
  assumes "event_ok s"
  shows "\<exists>s'. event_ring_poll s = (s', Inr ()) \<and> event_ok s' \<and> pending s' = tl (pending s) \<and>
    served s (take 1 (pending s)) s'"
proof -
  obtain s1 where p: "event_pop s = (s1, Inr (case pending s of [] \<Rightarrow> None | e # _ \<Rightarrow> Some e))" "event_ok s1"
      "pending s1 = tl (pending s)" "wait_list s1 = wait_list s" "waiters s1 = waiters s"
    using event_pop_ok [OF assms] by blast
  show ?thesis
  proof (cases "pending s")
    case Nil
    with p served_refl [of s] show ?thesis by (auto simp: event_ring_poll_def served_def)
  next
    case (Cons e es)
    have d: "distinct (wait_list s)" using assms by (simp add: event_ok_def)
    let ?m = "resolve_all e (wait_list s) (waiters s)"
    obtain s' where s': "s' = s1\<lparr>waiters := ?m, wait_list := filter (\<lambda>a. ?m a \<noteq> None) (wait_list s)\<rparr>" by blast
    have m: "?m a = (if a \<in> set (wait_list s) then map_option (\<lambda>w. delivered_to w [e]) (waiters s a) else waiters s a)" for a
      by (rule resolve_all_eq [OF d])
    have "pending s' = pending s1" by (rule pending_cong) (simp_all add: s')
    moreover have "event_ring_poll s = (s', Inr ())"
      using p(1,4,5) Cons by (simp add: event_ring_poll_def Let_def s')
    moreover have "event_ok s'" using p(2) d by (simp add: event_ok_def s')
    moreover have "served s [e] s'" using m by (auto simp: served_def s')
    ultimately show ?thesis using Cons p(3) by simp
  qed
qed

text \<open>
  After \<open>n\<close> polls each registered waiter that is still referred to has received just the events among the first
  \<open>n\<close> that meet its condition, in the order in which the controller wrote them.
\<close>

lemma polls_deliver:
  assumes "event_ok s"
  shows "\<exists>s'. for_each (\<lambda>_. event_ring_poll) [0..<n] s = (s', Inr ()) \<and> event_ok s' \<and>
    pending s' = drop n (pending s) \<and> served s (take n (pending s)) s'"
proof (induction n)
  case 0
  show ?case using assms by (simp add: served_refl)
next
  case (Suc n)
  then obtain s1 where s1: "for_each (\<lambda>_. event_ring_poll) [0..<n] s = (s1, Inr ())" "event_ok s1"
      "pending s1 = drop n (pending s)" "served s (take n (pending s)) s1"
    by blast
  obtain s2 where s2: "event_ring_poll s1 = (s2, Inr ())" "event_ok s2" "pending s2 = tl (pending s1)"
      "served s1 (take 1 (pending s1)) s2"
    using event_ring_poll_ok [OF s1(2)] by blast
  have "take n (pending s) @ take 1 (drop n (pending s)) = take (Suc n) (pending s)"
    using take_add [of n 1 "pending s"] by simp
  with served_trans [OF s1(4) s2(4)] s1(3) have "served s (take (Suc n) (pending s)) s2" by simp
  moreover have "pending s2 = drop (Suc n) (pending s)" using s1(3) s2(3) by (simp add: drop_Suc tl_drop)
  ultimately show ?case using s1 s2 by (intro exI [of _ s2]) (simp add: for_each_append)
qed

lemma event_future_new_ok:
  "event_ok s \<Longrightarrow> a \<notin> set (wait_list s) \<Longrightarrow> event_ok (event_future_new a cond s)"
  by (simp add: event_ok_def event_future_new_def register_waiter_def)

lemma event_future_new_pending: "pending (event_future_new a cond s) = pending s"
  by (rule pending_cong) (simp_all add: event_future_new_def register_waiter_def)

lemma event_future_new_live:
  "waiters (event_future_new a cond s) a = Some \<lparr>wait_cond = cond, wait_trbs = []\<rparr>"
  "a \<in> set (wait_list (event_future_new a cond s))"
  by (simp_all add: event_future_new_def register_waiter_def)

text \<open>
  \<open>pop_for_slot\<close> finds the first pending event of the slot, when every slot that has events has been asked for
  before.
\<close>

lemma slot_loop_finds:
  assumes "event_ok s" "\<And>e. e \<in> set (pending s) \<Longrightarrow> events_per_slot s (slot_id e) \<noteq> None"
  shows "\<exists>s'. slot_loop slot s = (s', Inr (find (\<lambda>e. slot_id e = slot) (pending s))) \<and> event_ok s'"
  using assms
proof (induction slot s rule: slot_loop.induct)
  case (1 slot s)
  have lt: "current_index (ev_ring s) < length (trbs (ev_ring s))" using 1(2) by (simp add: event_ok_def)
  let ?b = "cycle_state (trbs (ev_ring s) ! current_index (ev_ring s)) = ev_ours s"
  have next_ev: "has_next_event s = Inr ?b" using lt by (simp add: has_next_event_def ring_current_def)
  obtain s1 where p: "event_pop s = (s1, Inr (case pending s of [] \<Rightarrow> None | e # _ \<Rightarrow> Some e))" "event_ok s1"
      "pending s1 = tl (pending s)" "events_per_slot s1 = events_per_slot s"
    using event_pop_ok [OF 1(2)] by blast
  show ?case
  proof (cases "pending s")
    case Nil
    then have "\<not> ?b" using lt by (auto simp: pending_def Let_def Cons_nth_drop_Suc [symmetric] split: if_splits)
    with Nil next_ev 1(2) show ?thesis by (simp add: slot_loop.simps [of slot s])
  next
    case (Cons e es)
    then have b: "?b" using event_pop_next [of s s1 e] p(1) next_ev by simp
    obtain q where q: "events_per_slot s1 (slot_id e) = Some q" using 1(3) [of e] Cons p(4) by auto
    let ?t = "enqueue_event e q s1"
    have t: "pending ?t = es" "event_ok ?t"
      using p(2,3) Cons pending_cong [of ?t s1] by (simp_all add: enqueue_event_def event_ok_def)
    have "\<exists>s'. slot_loop slot ?t = (s', Inr (find (\<lambda>e. slot_id e = slot) es)) \<and> event_ok s'" if "slot_id e \<noteq> slot"
    proof -
      have "events_per_slot ?t (slot_id e') \<noteq> None" if "e' \<in> set (pending ?t)" for e'
        using that 1(3) [of e'] Cons t(1) p(4) by (simp add: enqueue_event_def)
      from 1(1) [OF next_ev _ p(1) [symmetric] refl _ that q t(2) this] b Cons t(1) show ?thesis by simp
    qed
    with Cons next_ev b p q show ?thesis by (cases "slot_id e = slot") (simp_all add: slot_loop.simps [of slot s])
  qed
qed

text \<open>An event of a slot that nobody has asked for is taken off the ring and lost with an error.\<close>

lemma slot_loop_loses:
  assumes "event_ok s" "pending s = e # es" "slot_id e \<noteq> slot" "events_per_slot s (slot_id e) = None"
  shows "\<exists>s'. slot_loop slot s = (s', Inl (Err (Failed ''Expected VecDeque but not found''))) \<and> pending s' = es \<and>
    events_per_slot s' = events_per_slot s"
proof -
  obtain s1 where p: "event_pop s = (s1, Inr (Some e))" "pending s1 = es" "events_per_slot s1 = events_per_slot s"
    using event_pop_ok [OF assms(1)] assms(2) by auto
  with assms event_pop_next [OF p(1)] show ?thesis by (simp add: slot_loop.simps [of slot s])
qed

end
