(* ===== verification/Xhci_Regs.thy ===== *)
theory Xhci_Regs
  imports Ring
begin

text \<open>
  The registers of \<open>os/src/xhci/registers.rs\<close> and the contexts of \<open>os/src/xhci/context.rs\<close>.  A register is the
  word it holds.  The loops that wait for the controller (\<open>reset_xhc\<close>, \<open>start_xhc\<close>, \<open>PortScWrapper::reset\<close>)
  take the sequence of values that the controller shows: they stop at the first one that meets their condition
  and do not return when there is none.  The lemmas show that a write to a port register clears no status bit
  but the named one, and that each setter of a context changes its own field only.
\<close>

subsection \<open>Port status and control\<close>

datatype UsbMode = Unknown u32 | FullSpeed | LowSpeed | HighSpeed | SuperSpeed

fun psi :: "UsbMode \<Rightarrow> u32" where
  "psi FullSpeed = 1"
| "psi LowSpeed = 2"
| "psi HighSpeed = 3"
| "psi SuperSpeed = 4"
| "psi (Unknown p) = p"

datatype PortState = PoweredOff | Disconnected | Reset | Disabled | Enabled
  | Other (st_pp: bool) (st_ccs: bool) (st_ped: bool) (st_pr: bool)

definition PRESERVE_MASK :: u32 where "PRESERVE_MASK = 0x4F01FFE9"
definition BIT_CURRENT_CONNECT_STATUS :: u32 where "BIT_CURRENT_CONNECT_STATUS = push_bit 0 1"
definition BIT_PORT_ENABLED_DISABLED :: u32 where "BIT_PORT_ENABLED_DISABLED = push_bit 1 1"
definition BIT_PORT_RESET :: u32 where "BIT_PORT_RESET = push_bit 4 1"
definition BIT_PORT_POWER :: u32 where "BIT_PORT_POWER = push_bit 9 1"
definition BIT_CONNECT_STATUS_CHANGE :: u32 where "BIT_CONNECT_STATUS_CHANGE = push_bit 17 1"
definition BIT_PORT_RESET_CHANGE :: u32 where "BIT_PORT_RESET_CHANGE = push_bit 21 1"

lemmas portsc_bits =
  PRESERVE_MASK_def BIT_CURRENT_CONNECT_STATUS_def BIT_PORT_ENABLED_DISABLED_def BIT_PORT_RESET_def
  BIT_PORT_POWER_def BIT_CONNECT_STATUS_CHANGE_def BIT_PORT_RESET_CHANGE_def

text \<open>The word that \<open>set_bits\<close> writes, from the word it reads.\<close>

definition set_bits :: "u32 \<Rightarrow> u32 \<Rightarrow> u32" where
  "set_bits bits old = (old AND PRESERVE_MASK) OR bits"

definition ccs :: "u32 \<Rightarrow> bool" where "ccs v \<longleftrightarrow> v AND BIT_CURRENT_CONNECT_STATUS \<noteq> 0"
definition ped :: "u32 \<Rightarrow> bool" where "ped v \<longleftrightarrow> v AND BIT_PORT_ENABLED_DISABLED \<noteq> 0"
definition pr :: "u32 \<Rightarrow> bool" where "pr v \<longleftrightarrow> v AND BIT_PORT_RESET \<noteq> 0"
definition pp :: "u32 \<Rightarrow> bool" where "pp v \<longleftrightarrow> v AND BIT_PORT_POWER \<noteq> 0"
definition csc :: "u32 \<Rightarrow> bool" where "csc v \<longleftrightarrow> v AND BIT_CONNECT_STATUS_CHANGE \<noteq> 0"
definition prc :: "u32 \<Rightarrow> bool" where "prc v \<longleftrightarrow> v AND BIT_PORT_RESET_CHANGE \<noteq> 0"

definition clear_csc :: "u32 \<Rightarrow> u32" where "clear_csc = set_bits BIT_CONNECT_STATUS_CHANGE"
definition clear_prc :: "u32 \<Rightarrow> u32" where "clear_prc = set_bits BIT_PORT_RESET_CHANGE"

definition port_speed :: "u32 \<Rightarrow> UsbMode" where
  "port_speed v =
     (let s = extract_bits v 10 4
      in if s = 1 then FullSpeed else if s = 2 then LowSpeed else if s = 3 then HighSpeed
         else if s = 4 then SuperSpeed else Unknown s)"

definition max_packet_size :: "u32 \<Rightarrow> u16 res" where
  "max_packet_size v =
     (case port_speed v of
        FullSpeed \<Rightarrow> Inr 8
      | LowSpeed \<Rightarrow> Inr 8
      | HighSpeed \<Rightarrow> Inr 64
      | SuperSpeed \<Rightarrow> Inr 512
      | Unknown _ \<Rightarrow> Inl (Err (FailedString ''Unknown Protocol Speeed ID'')))"

fun state_of_bits :: "bool \<Rightarrow> bool \<Rightarrow> bool \<Rightarrow> bool \<Rightarrow> PortState" where
  "state_of_bits False False False False = PoweredOff"
| "state_of_bits True False False False = Disconnected"
| "state_of_bits True True False False = Disabled"
| "state_of_bits True True False True = Reset"
| "state_of_bits True True True False = Enabled"
| "state_of_bits a b c d = Other a b c d"

definition port_state :: "u32 \<Rightarrow> PortState" where
  "port_state v = state_of_bits (pp v) (ccs v) (ped v) (pr v)"

text \<open>
  \<open>wait_until P vs\<close> polls the values \<open>vs\<close> that a register shows one after the other; it is how many of
  them the loop has read when it stops.
\<close>

fun wait_until :: "('a \<Rightarrow> bool) \<Rightarrow> 'a list \<Rightarrow> nat res" where
  "wait_until P [] = Inl NoReturn"
| "wait_until P (v # vs) = (if P v then Inr 1 else and_then (wait_until P vs) (\<lambda>n. Inr (Suc n)))"

text \<open>
  \<open>PortScWrapper::reset\<close>: the values read are, in this order, the one \<open>set_bits\<close> reads, those of the first loop,
  the one of the second \<open>set_bits\<close> and those of the second loop.  The result is the words written.
\<close>

definition port_reset :: "u32 list \<Rightarrow> u32 list res" where
  "port_reset vs =
     (case vs of
        [] \<Rightarrow> Inl NoReturn
      | v # vs1 \<Rightarrow> and_then (wait_until pp vs1) (\<lambda>n.
          case drop n vs1 of
            [] \<Rightarrow> Inl NoReturn
          | w # vs2 \<Rightarrow> and_then (wait_until (\<lambda>v. \<not> pr v) vs2) (\<lambda>_.
              Inr [set_bits BIT_PORT_POWER v, set_bits BIT_PORT_RESET w])))"

definition portsc_addr :: "nat \<Rightarrow> nat \<Rightarrow> nat \<Rightarrow> nat" where
  "portsc_addr bar cap_length port = bar + cap_length + 0x400 + 4 * ((port - 1) * 4)"

definition portsc_new :: "nat \<Rightarrow> nat \<Rightarrow> nat \<Rightarrow> nat list" where
  "portsc_new bar cap_length num_ports = map (portsc_addr bar cap_length) [1..<Suc num_ports]"

definition portsc_get :: "nat list \<Rightarrow> nat \<Rightarrow> nat res" where
  "portsc_get entries port = ok_or (nth_opt entries (wrapping_sub port 1)) (Failed ''xHC: Port Number Out of Range'')"

record portsc_iter =
  next_port :: nat
  next_port_back :: nat

definition portsc_iter_new :: "nat list \<Rightarrow> portsc_iter" where
  "portsc_iter_new entries = \<lparr>next_port = 1, next_port_back = length entries\<rparr>"

definition portsc_next :: "nat list \<Rightarrow> portsc_iter \<Rightarrow> portsc_iter \<times> (nat \<times> nat) option" where
  "portsc_next entries it =
     (if next_port it \<le> next_port_back it
      then (case portsc_get entries (next_port it) of
          Inr p \<Rightarrow> (it\<lparr>next_port := next_port it + 1\<rparr>, Some (next_port it, p))
        | Inl _ \<Rightarrow> (it, None))
      else (it, None))"

definition portsc_next_back :: "nat list \<Rightarrow> portsc_iter \<Rightarrow> portsc_iter \<times> (nat \<times> nat) option" where
  "portsc_next_back entries it =
     (if next_port it \<le> next_port_back it
      then (case portsc_get entries (next_port_back it) of
          Inr p \<Rightarrow> (it\<lparr>next_port_back := next_port_back it - 1\<rparr>, Some (next_port_back it, p))
        | Inl _ \<Rightarrow> (it, None))
      else (it, None))"

subsection \<open>Capability, operational and runtime registers\<close>

record cap_regs =
  cap_length :: u8
  hcsparams1 :: u32
  hcsparams2 :: u32
  hccparams1 :: u32
  cap_dboff :: u32
  cap_rtsoff :: u32

definition num_of_device_slots :: "cap_regs \<Rightarrow> nat" where
  "num_of_device_slots r = unat (extract_bits (hcsparams1 r) 0 8)"

definition num_of_interrupters :: "cap_regs \<Rightarrow> nat" where
  "num_of_interrupters r = unat (extract_bits (hcsparams1 r) 8 11)"

definition num_of_ports :: "cap_regs \<Rightarrow> nat" where
  "num_of_ports r = unat (extract_bits (hcsparams1 r) 24 8)"

definition num_scratch_pad_bufs :: "cap_regs \<Rightarrow> nat" where
  "num_scratch_pad_bufs r =
     unat (push_bit 5 (extract_bits (hcsparams2 r) 21 5) OR extract_bits (hcsparams2 r) 27 5)"

definition assert_capabilities :: "cap_regs \<Rightarrow> unit res" where
  "assert_capabilities r =
     (if hccparams1 r AND 1 = 0
      then Inl (Err (Failed ''HCCPARAMS1.AC64 was 0 (No 64-bit addressing capability)''))
      else if hccparams1 r AND 4 \<noteq> 0
      then Inl (Err (Failed ''HCCPARAMS1.CSZ was 1 (Context size is 64, not 32)''))
      else Inr ())"

record op_regs =
  op_command :: u32
  op_status :: u32
  op_page_size :: u32
  cmd_ring_ctrl :: u64
  dcbaa_ptr :: u64
  op_config :: u64

definition CMD_RUN_STOP :: u32 where "CMD_RUN_STOP = 1"
definition CMD_HC_RESET :: u32 where "CMD_HC_RESET = 2"
definition STATUS_HC_HALTED :: u32 where "STATUS_HC_HALTED = 1"

definition clear_command_bits :: "u32 \<Rightarrow> op_regs \<Rightarrow> op_regs" where
  "clear_command_bits bits r = r\<lparr>op_command := op_command r AND NOT bits\<rparr>"

definition set_command_bits :: "u32 \<Rightarrow> op_regs \<Rightarrow> op_regs" where
  "set_command_bits bits r = r\<lparr>op_command := op_command r OR bits\<rparr>"

fun trailing_zeros_upto :: "nat \<Rightarrow> 'a :: len word \<Rightarrow> nat" where
  "trailing_zeros_upto 0 w = 0"
| "trailing_zeros_upto (Suc n) w = (if bit w 0 then 0 else Suc (trailing_zeros_upto n (drop_bit 1 w)))"

definition op_page_size_of :: "op_regs \<Rightarrow> nat res" where
  "op_page_size_of r =
     (let page_size_bits = op_page_size r AND 0xFFFF
      in if length (filter (bit page_size_bits) [0..<32]) \<noteq> 1
         then Inl (Err (Failed ''PAGE_SIZE has multiple bits set''))
         else Inr (2 ^ (trailing_zeros_upto 32 page_size_bits + 12)))"

definition set_num_device_slots :: "nat \<Rightarrow> op_regs \<Rightarrow> op_regs" where
  "set_num_device_slots num r = r\<lparr>op_config := (op_config r AND NOT 0xFF) OR word_of_nat num\<rparr>"

definition set_dcbaa_ptr :: "u64 \<Rightarrow> op_regs \<Rightarrow> op_regs" where
  "set_dcbaa_ptr p r = r\<lparr>dcbaa_ptr := p\<rparr>"

definition set_cmd_ring_ctrl :: "command_ring \<Rightarrow> op_regs \<Rightarrow> op_regs" where
  "set_cmd_ring_ctrl c r = r\<lparr>cmd_ring_ctrl := ring_phys_addr (cmd_ring c) OR 1\<rparr>"

definition assert_params :: "op_regs \<Rightarrow> unit res" where
  "assert_params r =
     and_then (op_page_size_of r) (\<lambda>n.
       if n = PAGE_SIZE then Inr () else Inl (Panic ''assertion failed''))"

definition reset_xhc :: "u32 list \<Rightarrow> u32 list \<Rightarrow> op_regs \<Rightarrow> op_regs \<times> unit res" where
  "reset_xhc statuses commands r =
     (let r = clear_command_bits CMD_RUN_STOP r
      in case wait_until (\<lambda>s. s AND STATUS_HC_HALTED \<noteq> 0) statuses of
           Inl e \<Rightarrow> (r, Inl e)
         | Inr _ \<Rightarrow>
             (let r = set_command_bits CMD_HC_RESET r
              in (r, and_then (wait_until (\<lambda>c. c AND CMD_HC_RESET = 0) commands) (\<lambda>_. Inr ()))))"

definition start_xhc :: "u32 list \<Rightarrow> op_regs \<Rightarrow> op_regs \<times> unit res" where
  "start_xhc statuses r =
     (let r = set_command_bits CMD_RUN_STOP r
      in (r, and_then (wait_until (\<lambda>s. s AND STATUS_HC_HALTED = 0) statuses) (\<lambda>_. Inr ())))"

record irs =
  irs_management :: u32
  irs_moderation :: u32
  irs_erst_size :: u32
  irs_erst_base :: u64
  irs_erdp :: u64

text \<open>\<open>erst_at\<close> is where the segment table of the event ring stands.\<close>

definition init_irs :: "irs list \<Rightarrow> nat \<Rightarrow> u64 \<Rightarrow> event_ring \<Rightarrow> (irs list \<times> event_ring) res" where
  "init_irs regs i erst_at ring =
     (if i < length regs
      then (let r = (regs ! i)\<lparr>irs_erst_size := 1, irs_erdp := ring_phys_addr (ev_ring ring),
                     irs_erst_base := erst_at, irs_management := 0\<rparr>
            in Inr (regs[i := r], set_erdp (irs_erdp r) ring))
      else Inl (Err (Failed ''Index out of range'')))"

definition doorbell_value :: "u8 \<Rightarrow> u16 \<Rightarrow> u32" where
  "doorbell_value target task = ucast target OR push_bit 16 (ucast task)"

subsection \<open>Endpoint and device contexts\<close>

datatype EndpointType = IsochOut | BulkOut | InterruptOut | Control | IsochIn | BulkIn | InterruptIn

fun endpoint_type_code :: "EndpointType \<Rightarrow> u32" where
  "endpoint_type_code IsochOut = 1"
| "endpoint_type_code BulkOut = 2"
| "endpoint_type_code InterruptOut = 3"
| "endpoint_type_code Control = 4"
| "endpoint_type_code IsochIn = 5"
| "endpoint_type_code BulkIn = 6"
| "endpoint_type_code InterruptIn = 7"

record endpoint_context =
  ep_data0 :: u32
  ep_data1 :: u32
  tr_dequeue_ptr :: u64
  average_trb_length :: u16
  max_esit_payload_low :: u16

definition endpoint_context_zero :: endpoint_context where
  "endpoint_context_zero =
     \<lparr>ep_data0 = 0, ep_data1 = 0, tr_dequeue_ptr = 0, average_trb_length = 0, max_esit_payload_low = 0\<rparr>"

definition set_ep_type :: "EndpointType \<Rightarrow> endpoint_context \<Rightarrow> endpoint_context res" where
  "set_ep_type ty ep =
     (if endpoint_type_code ty < 8
      then Inr (ep\<lparr>ep_data1 := (ep_data1 ep AND NOT (push_bit 3 7)) OR push_bit 3 (endpoint_type_code ty)\<rparr>)
      else Inl (Err (FailedString ''Invalid ep_type'')))"

definition set_ring_dequeue_pointer :: "u64 \<Rightarrow> endpoint_context \<Rightarrow> endpoint_context res" where
  "set_ring_dequeue_pointer p ep =
     and_then (write_bits (tr_dequeue_ptr ep) 4 60 (drop_bit 4 p)) (\<lambda>w. Inr (ep\<lparr>tr_dequeue_ptr := w\<rparr>))"

definition set_dequeue_cycle_state :: "bool \<Rightarrow> endpoint_context \<Rightarrow> endpoint_context res" where
  "set_dequeue_cycle_state dcs ep =
     and_then (write_bits (tr_dequeue_ptr ep) 0 1 (of_bool dcs)) (\<lambda>w. Inr (ep\<lparr>tr_dequeue_ptr := w\<rparr>))"

definition set_error_count :: "u32 \<Rightarrow> endpoint_context \<Rightarrow> endpoint_context res" where
  "set_error_count error_count ep =
     (if error_count AND NOT 3 = 0
      then Inr (ep\<lparr>ep_data1 := (ep_data1 ep AND NOT (push_bit 1 3)) OR push_bit 1 error_count\<rparr>)
      else Inl (Err (Failed ''invalid error_count'')))"

definition set_max_packet_size :: "u16 \<Rightarrow> endpoint_context \<Rightarrow> endpoint_context" where
  "set_max_packet_size n ep =
     ep\<lparr>ep_data1 := (ep_data1 ep AND NOT (push_bit 16 0xffff)) OR push_bit 16 (ucast n)\<rparr>"

definition endpoint_interval :: "UsbMode \<Rightarrow> u8 \<Rightarrow> u8 res" where
  "endpoint_interval mode interval_from_ep_desc =
     (case mode of
        Unknown _ \<Rightarrow> Inl (Err (FailedString ''Failed to calc interval''))
      | HighSpeed \<Rightarrow>
          if interval_from_ep_desc = 0 then Inl (Panic ''sub overflow'') else Inr (interval_from_ep_desc - 1)
      | SuperSpeed \<Rightarrow>
          if interval_from_ep_desc = 0 then Inl (Panic ''sub overflow'') else Inr (interval_from_ep_desc - 1)
      | _ \<Rightarrow>
          if interval_from_ep_desc = 0 then Inl (Panic ''argument of integer logarithm must be positive'')
          else Inr (word_of_nat (bit_length (unat interval_from_ep_desc) - 1) + 3))"

text \<open>What the constructors of the three transfer endpoints share, apart from the endpoint type.\<close>

definition new_endpoint ::
    "EndpointType \<Rightarrow> u16 \<Rightarrow> u64 \<Rightarrow> UsbMode \<Rightarrow> u8 \<Rightarrow> u16 \<Rightarrow> endpoint_context res" where
  "new_endpoint ty mps tr_ptr mode interval_from_ep_desc avg =
     and_then (endpoint_interval mode interval_from_ep_desc) (\<lambda>interval.
     and_then (set_ep_type ty endpoint_context_zero) (\<lambda>ep.
     and_then (set_dequeue_cycle_state True ep) (\<lambda>ep.
     and_then (set_error_count 3 ep) (\<lambda>ep.
     and_then (set_ring_dequeue_pointer tr_ptr (set_max_packet_size mps ep)) (\<lambda>ep.
     Inr (ep\<lparr>ep_data0 := push_bit 16 (ucast interval), average_trb_length := avg,
             max_esit_payload_low := mps\<rparr>))))))"

definition new_interrupt_in_endpoint :: "u16 \<Rightarrow> u64 \<Rightarrow> UsbMode \<Rightarrow> u8 \<Rightarrow> u16 \<Rightarrow> endpoint_context res" where
  "new_interrupt_in_endpoint = new_endpoint InterruptIn"

definition new_bulk_in_endpoint :: "u16 \<Rightarrow> u64 \<Rightarrow> UsbMode \<Rightarrow> u8 \<Rightarrow> u16 \<Rightarrow> endpoint_context res" where
  "new_bulk_in_endpoint = new_endpoint BulkIn"

definition new_bulk_out_endpoint :: "u16 \<Rightarrow> u64 \<Rightarrow> UsbMode \<Rightarrow> u8 \<Rightarrow> u16 \<Rightarrow> endpoint_context res" where
  "new_bulk_out_endpoint = new_endpoint BulkOut"

definition new_control_endpoint :: "u16 \<Rightarrow> u64 \<Rightarrow> endpoint_context res" where
  "new_control_endpoint mps tr_ptr =
     and_then (set_ep_type Control endpoint_context_zero) (\<lambda>ep.
     and_then (set_dequeue_cycle_state True ep) (\<lambda>ep.
     and_then (set_error_count 3 ep) (\<lambda>ep.
     and_then (set_ring_dequeue_pointer tr_ptr (set_max_packet_size mps ep)) (\<lambda>ep.
     Inr (ep\<lparr>average_trb_length := 8\<rparr>)))))"

record device_context =
  slot_ctx0 :: u32
  slot_ctx1 :: u32
  ep_ctx :: "endpoint_context list"

definition device_context_default :: device_context where
  "device_context_default = \<lparr>slot_ctx0 = 0, slot_ctx1 = 0, ep_ctx = replicate 31 endpoint_context_zero\<rparr>"

definition set_root_hub_port_number :: "nat \<Rightarrow> device_context \<Rightarrow> device_context res" where
  "set_root_hub_port_number port d =
     (if 0 < port \<and> port < 256
      then Inr (d\<lparr>slot_ctx1 := (slot_ctx1 d AND NOT (push_bit 16 0xFF)) OR push_bit 16 (word_of_nat port)\<rparr>)
      else Inl (Err (Failed ''port out of range'')))"

definition set_last_valid_dci :: "nat \<Rightarrow> device_context \<Rightarrow> device_context res" where
  "set_last_valid_dci dci_num d =
     (if dci_num \<le> 31
      then Inr (d\<lparr>slot_ctx0 := (slot_ctx0 d AND NOT (push_bit 27 31)) OR push_bit 27 (word_of_nat dci_num)\<rparr>)
      else Inl (Err (Failed ''num_ep_ctx out of range'')))"

definition set_port_speed :: "UsbMode \<Rightarrow> device_context \<Rightarrow> device_context res" where
  "set_port_speed mode d =
     (if psi mode < 16
      then Inr (d\<lparr>slot_ctx0 := (slot_ctx0 d AND NOT (push_bit 20 15)) OR push_bit 20 (psi mode)\<rparr>)
      else Inl (Err (Failed ''psi out of range'')))"

record input_control_context =
  drop_context_bitmap :: u32
  add_context_bitmap :: u32

definition input_control_default :: input_control_context where
  "input_control_default = \<lparr>drop_context_bitmap = 0, add_context_bitmap = 0\<rparr>"

definition add_context :: "nat \<Rightarrow> input_control_context \<Rightarrow> input_control_context res" where
  "add_context ici c =
     (if ici < 32 then Inr (c\<lparr>add_context_bitmap := add_context_bitmap c OR push_bit ici 1\<rparr>)
      else Inl (Err (Failed ''add_context: ici out of range'')))"

record input_context =
  input_ctrl_ctx :: input_control_context
  device_ctx :: device_context

definition input_context_default :: input_context where
  "input_context_default = \<lparr>input_ctrl_ctx = input_control_default, device_ctx = device_context_default\<rparr>"

definition on_device_ctx :: "(device_context \<Rightarrow> device_context res) \<Rightarrow> input_context \<Rightarrow> input_context res" where
  "on_device_ctx f c = and_then (f (device_ctx c)) (\<lambda>d. Inr (c\<lparr>device_ctx := d\<rparr>))"

definition set_ep_ctx :: "nat \<Rightarrow> endpoint_context \<Rightarrow> input_context \<Rightarrow> input_context res" where
  "set_ep_ctx dci_num ep c =
     and_then (usize_sub dci_num 1) (\<lambda>i.
       if i < length (ep_ctx (device_ctx c))
       then Inr (c\<lparr>device_ctx := (device_ctx c)\<lparr>ep_ctx := (ep_ctx (device_ctx c))[i := ep]\<rparr>\<rparr>)
       else Inl (Panic ''index out of bounds''))"

definition set_input_ctrl_ctx :: "input_control_context \<Rightarrow> input_context \<Rightarrow> input_context" where
  "set_input_ctrl_ctx x c = c\<lparr>input_ctrl_ctx := x\<rparr>"

record dcbaa =
  dcbaa_inner :: "u64 list"
  dcbaa_context :: "u64 option list"

definition dcbaa_new :: "u64 \<Rightarrow> dcbaa" where
  "dcbaa_new scratchpad = \<lparr>dcbaa_inner = (replicate 256 0)[0 := scratchpad], dcbaa_context = replicate 255 None\<rparr>"

definition set_output_context :: "u8 \<Rightarrow> u64 \<Rightarrow> (dcbaa, unit) act" where
  "set_output_context slot ptr d =
     (if unat slot < length (dcbaa_context d)
      then (d\<lparr>dcbaa_context := (dcbaa_context d)[unat slot := Some ptr],
              dcbaa_inner := (dcbaa_inner d)[unat slot := ptr]\<rparr>, Inr ())
      else (d, Inl (Panic ''index out of bounds'')))"

subsection \<open>Port registers\<close>

text \<open>
  Of the bits that a one clears (1 and 17 to 23) or that start a reset (4), a write carries just those that
  it was asked to write.
\<close>

lemma set_bits_keeps_changes:
  assumes "i = 1 \<or> i = 4 \<or> i \<in> {17..23}"
  shows "bit (set_bits bits old) i = bit bits i"
proof -
  have "\<not> bit PRESERVE_MASK i"
    using assms by (auto simp: PRESERVE_MASK_def numeral_eq_Suc atLeastAtMost_iff le_Suc_eq bit_numeral_rec dest!: le_antisym)
  then show ?thesis by (auto simp: set_bits_def bit_simps)
qed

lemma portsc_get_new:
  assumes "port < USIZE" "n < 256"
  shows "portsc_get (portsc_new bar l n) port =
    (if 1 \<le> port \<and> port \<le> n then Inr (bar + l + 0x400 + 0x10 * (port - 1))
     else Inl (Err (Failed ''xHC: Port Number Out of Range'')))"
  using assms by (cases port)
    (auto simp: portsc_get_def portsc_new_def nth_opt_def portsc_addr_def wrapping_sub_def nth_append)

text \<open>Iterating from the front gives the ports one after the other, and iterating from the back in reverse.\<close>

lemma portsc_iterates:
  assumes "n < 256" "1 \<le> i" "i \<le> j" "j \<le> n"
  shows "portsc_next (portsc_new bar l n) \<lparr>next_port = i, next_port_back = j\<rparr> =
      (\<lparr>next_port = i + 1, next_port_back = j\<rparr>, Some (i, bar + l + 0x400 + 0x10 * (i - 1)))"
    and "portsc_next_back (portsc_new bar l n) \<lparr>next_port = i, next_port_back = j\<rparr> =
      (\<lparr>next_port = i, next_port_back = j - 1\<rparr>, Some (j, bar + l + 0x400 + 0x10 * (j - 1)))"
  using assms portsc_get_new [of i n bar l] portsc_get_new [of j n bar l]
  by (simp_all add: portsc_next_def portsc_next_back_def)

lemma wait_until_Inr:
  "wait_until P vs = Inr n \<longleftrightarrow> 0 < n \<and> n \<le> length vs \<and> P (vs ! (n - 1)) \<and> (\<forall>i < n - 1. \<not> P (vs ! i))"
proof (induction vs arbitrary: n)
  case (Cons v vs)
  show ?case
  proof (cases "P v")
    case True
    then show ?thesis by (cases n) (auto simp: nth_Cons split: nat.split)
  next
    case False
    show ?thesis
    proof (cases n)
      case (Suc m)
      with False Cons.IH [of m] show ?thesis
        by (cases m) (auto simp: res_simps nth_Cons less_Suc_eq_0_disj split: nat.split)
    qed (use False in \<open>auto simp: res_simps\<close>)
  qed
qed auto

lemma wait_until_returns: "(\<exists>n. wait_until P vs = Inr n) \<longleftrightarrow> (\<exists>v \<in> set vs. P v)"
  by (induction vs) (auto simp: res_simps)

subsection \<open>Context fields\<close>

lemma endpoint_type_code_fits [simp]: "take_bit 3 (endpoint_type_code ty) = endpoint_type_code ty"
  by (cases ty) simp_all

lemma set_ep_type_field:
  "set_ep_type ty ep = Inr (ep\<lparr>ep_data1 := set_field (ep_data1 ep) 3 3 (endpoint_type_code ty)\<rparr>)"
proof -
  have "endpoint_type_code ty < 8" by (cases ty) simp_all
  then show ?thesis by (simp add: set_ep_type_def set_field_def mask_eq_exp_minus_1 ac_simps)
qed

lemma set_error_count_field:
  "set_error_count 3 ep = Inr (ep\<lparr>ep_data1 := set_field (ep_data1 ep) 1 2 3\<rparr>)"
  by (simp add: set_error_count_def set_field_def mask_eq_exp_minus_1 ac_simps)

lemma set_max_packet_size_field:
  "set_max_packet_size n ep = ep\<lparr>ep_data1 := set_field (ep_data1 ep) 16 16 (ucast n)\<rparr>"
  by (simp add: set_max_packet_size_def set_field_def mask_eq_exp_minus_1 ac_simps)

lemma ucast_u16_fits: "take_bit 16 (ucast (n :: u16) :: u32) = ucast n"
  by (rule bit_word_eqI) (auto simp: bit_simps dest: bit_imp_le_length)

lemma drop_bit_fits: "take_bit 60 (drop_bit 4 (p :: u64)) = drop_bit 4 p"
  by (rule bit_word_eqI) (auto simp: bit_simps dest: bit_imp_le_length)

lemma set_dequeue_pointer_fields:
  "set_dequeue_cycle_state b ep = Inr (ep\<lparr>tr_dequeue_ptr := set_field (tr_dequeue_ptr ep) 0 1 (of_bool b)\<rparr>)"
  "set_ring_dequeue_pointer p ep = Inr (ep\<lparr>tr_dequeue_ptr := set_field (tr_dequeue_ptr ep) 4 60 (drop_bit 4 p)\<rparr>)"
  by (simp_all add: set_dequeue_cycle_state_def set_ring_dequeue_pointer_def write_bits_set_field drop_bit_fits)

lemmas context_fields =
  set_ep_type_field set_error_count_field set_max_packet_size_field set_dequeue_pointer_fields

definition endpoint_context_is ::
    "EndpointType \<Rightarrow> u16 \<Rightarrow> u64 \<Rightarrow> u8 \<Rightarrow> u16 \<Rightarrow> u16 \<Rightarrow> endpoint_context \<Rightarrow> bool" where
  "endpoint_context_is ty mps p interval avg esit ep \<longleftrightarrow>
     field (ep_data1 ep) 3 3 = endpoint_type_code ty \<and> field (ep_data1 ep) 1 2 = 3 \<and>
     field (ep_data1 ep) 16 16 = ucast mps \<and> field (tr_dequeue_ptr ep) 0 1 = 1 \<and>
     field (tr_dequeue_ptr ep) 4 60 = drop_bit 4 p \<and> field (ep_data0 ep) 16 8 = ucast interval \<and>
     average_trb_length ep = avg \<and> max_esit_payload_low ep = esit"

lemma field_push_u8: "field (push_bit 16 (ucast (i :: u8) :: u32)) 16 8 = ucast i"
  by (rule bit_word_eqI) (auto simp: field_def bit_simps dest: bit_imp_le_length)

lemma new_endpoint_ok:
  assumes "endpoint_interval mode iv = Inr i"
  shows "\<exists>ep. new_endpoint ty mps p mode iv avg = Inr ep \<and> endpoint_context_is ty mps p i avg mps ep"
  using assms
  by (simp add: new_endpoint_def context_fields endpoint_context_is_def field_set_field field_set_field_other
      ucast_u16_fits drop_bit_fits field_push_u8 field_set_field [of "Suc 0"])

lemma new_control_endpoint_ok:
  "\<exists>ep. new_control_endpoint mps p = Inr ep \<and> endpoint_context_is Control mps p 0 8 0 ep"
  by (simp add: new_control_endpoint_def context_fields endpoint_context_is_def endpoint_context_zero_def field_set_field
      field_set_field_other ucast_u16_fits drop_bit_fits field_push_u8 field_set_field [of "Suc 0"])
    (simp add: field_def)

text \<open>
  The interval of a full or low speed endpoint is the exponent of the largest power of two that is at most the
  descriptor's milliseconds, in units of an eighth of a millisecond.
\<close>

lemma endpoint_interval_ok:
  assumes "iv \<noteq> 0" "\<not> (\<exists>p. mode = Unknown p)"
  shows "\<exists>i. endpoint_interval mode iv = Inr i \<and>
    (if mode = FullSpeed \<or> mode = LowSpeed then 2 ^ unat i \<le> 8 * unat iv \<and> 8 * unat iv < 2 * 2 ^ unat i
     else unat i = unat iv - 1)"
proof -
  have p: "0 < unat iv" using assms(1) by (simp add: unat_gt_0)
  have le: "bit_length (unat iv) \<le> 8" using bit_length_le_iff [of "unat iv" 8] unsigned_less [of iv] by simp
  obtain k where k: "bit_length (unat iv) = Suc k" using p bit_length_pos [of "unat iv"] gr0_implies_Suc by blast
  have "(word_of_nat k + 3 :: u8) = word_of_nat (k + 3)" by simp
  then have u: "unat (word_of_nat k + 3 :: u8) = k + 3"
    using k le by (simp only: unat_of_nat) (simp add: take_bit_nat_eq_self)
  have "2 ^ k \<le> unat iv" "unat iv < 2 ^ Suc k" using bit_length_bounds [OF p] k by simp_all
  then have fs: "2 ^ (k + 3) \<le> 8 * unat iv" "8 * unat iv < 2 * 2 ^ (k + 3)" by (simp_all add: power_add)
  have "unat (iv - 1) = unat iv - 1" using assms(1) p by (simp add: unat_sub word_le_nat_alt Suc_leI)
  then show ?thesis using assms u fs k by (cases mode) (simp_all add: endpoint_interval_def)
qed

lemma device_slot_fields:
  "0 < port \<Longrightarrow> port < 256 \<Longrightarrow> \<exists>d'. set_root_hub_port_number port d = Inr d' \<and>
     field (slot_ctx1 d') 16 8 = word_of_nat port \<and> slot_ctx0 d' = slot_ctx0 d \<and> ep_ctx d' = ep_ctx d"
  "n \<le> 31 \<Longrightarrow> \<exists>d'. set_last_valid_dci n d = Inr d' \<and> field (slot_ctx0 d') 27 5 = word_of_nat n \<and>
     field (slot_ctx0 d') 20 4 = field (slot_ctx0 d) 20 4 \<and> slot_ctx1 d' = slot_ctx1 d \<and> ep_ctx d' = ep_ctx d"
proof -
  have w: "(w AND NOT (push_bit s (mask n))) OR push_bit s v = set_field w s n v" for w v :: u32 and s n
    by (simp add: set_field_def ac_simps)
  have m: "(0xFF :: u32) = mask 8" "(31 :: u32) = mask 5" by (simp_all add: mask_eq_exp_minus_1)
  show "\<exists>d'. set_root_hub_port_number port d = Inr d' \<and>
     field (slot_ctx1 d') 16 8 = word_of_nat port \<and> slot_ctx0 d' = slot_ctx0 d \<and> ep_ctx d' = ep_ctx d"
    if "0 < port" "port < 256"
  proof -
    have "take_bit 8 (word_of_nat port :: u32) = word_of_nat port"
      using that by (simp add: take_bit_of_nat take_bit_nat_eq_self)
    with that show ?thesis by (simp add: set_root_hub_port_number_def m w field_set_field del: push_bit_numeral)
  qed
  show "\<exists>d'. set_last_valid_dci n d = Inr d' \<and> field (slot_ctx0 d') 27 5 = word_of_nat n \<and>
     field (slot_ctx0 d') 20 4 = field (slot_ctx0 d) 20 4 \<and> slot_ctx1 d' = slot_ctx1 d \<and> ep_ctx d' = ep_ctx d"
    if "n \<le> 31"
  proof -
    have "take_bit 5 (word_of_nat n :: u32) = word_of_nat n"
      using that by (simp add: take_bit_of_nat take_bit_nat_eq_self)
    with that show ?thesis
      by (simp add: set_last_valid_dci_def m w field_set_field field_set_field_other del: push_bit_numeral)
  qed
qed

end
