(* ===== verification/Usb.thy ===== *)
theory Usb
  imports Packets
begin

text \<open>
  The USB descriptors of \<open>os/src/usb/descriptor.rs\<close> and the choice of a configuration in
  \<open>os/src/usb_hid_keyboard.rs\<close> and \<open>os/src/usb_hid_tablet.rs\<close>.  Every descriptor is an instance of
  \<open>sliceable\<close>.  The iterator over a configuration adds the length byte of a descriptor to its index, so that a
  device that sends a length of zero makes it produce descriptors for ever: collecting it is a partial
  function, and the lemmas say when it returns.
\<close>

subsection \<open>The descriptors\<close>

definition desc_type_config :: u8 where "desc_type_config = 2"
definition desc_type_interface :: u8 where "desc_type_interface = 4"
definition desc_type_endpoint :: u8 where "desc_type_endpoint = 5"

record device_descriptor =
  dd_length :: u8
  dd_type :: u8
  dd_version :: u16
  dd_class :: u8
  dd_subclass :: u8
  dd_protocol :: u8
  dd_max_packet_size :: u8
  dd_vendor_id :: u16
  dd_product_id :: u16
  dd_device_version :: u16
  dd_manufacturer_idx :: u8
  dd_product_idx :: u8
  dd_serial_idx :: u8
  dd_num_of_config :: u8

definition device_bytes :: "device_descriptor \<Rightarrow> bytes" where
  "device_bytes d =
     [dd_length d, dd_type d] @ le_word (dd_version d) @
     [dd_class d, dd_subclass d, dd_protocol d, dd_max_packet_size d] @
     le_word (dd_vendor_id d) @ le_word (dd_product_id d) @ le_word (dd_device_version d) @
     [dd_manufacturer_idx d, dd_product_idx d, dd_serial_idx d, dd_num_of_config d]"

definition device_of :: "bytes \<Rightarrow> device_descriptor" where
  "device_of bs =
     \<lparr>dd_length = bs ! 0, dd_type = bs ! 1, dd_version = word_le (take 2 (drop 2 bs)),
      dd_class = bs ! 4, dd_subclass = bs ! 5, dd_protocol = bs ! 6, dd_max_packet_size = bs ! 7,
      dd_vendor_id = word_le (take 2 (drop 8 bs)), dd_product_id = word_le (take 2 (drop 10 bs)),
      dd_device_version = word_le (take 2 (drop 12 bs)), dd_manufacturer_idx = bs ! 14,
      dd_product_idx = bs ! 15, dd_serial_idx = bs ! 16, dd_num_of_config = bs ! 17\<rparr>"

record config_descriptor =
  cd_length :: u8
  cd_type :: u8
  cd_total_length :: u16
  cd_num_of_interfaces :: u8
  cd_config_value :: u8
  cd_string_index :: u8
  cd_attribute :: u8
  cd_max_power :: u8

definition config_bytes :: "config_descriptor \<Rightarrow> bytes" where
  "config_bytes d =
     [cd_length d, cd_type d] @ le_word (cd_total_length d) @
     [cd_num_of_interfaces d, cd_config_value d, cd_string_index d, cd_attribute d, cd_max_power d]"

definition config_of :: "bytes \<Rightarrow> config_descriptor" where
  "config_of bs =
     \<lparr>cd_length = bs ! 0, cd_type = bs ! 1, cd_total_length = word_le (take 2 (drop 2 bs)),
      cd_num_of_interfaces = bs ! 4, cd_config_value = bs ! 5, cd_string_index = bs ! 6,
      cd_attribute = bs ! 7, cd_max_power = bs ! 8\<rparr>"

record interface_descriptor =
  id_length :: u8
  id_type :: u8
  id_interface_number :: u8
  id_alt_setting :: u8
  id_num_of_endpoints :: u8
  id_class :: u8
  id_subclass :: u8
  id_protocol :: u8
  id_interface_index :: u8

definition interface_bytes :: "interface_descriptor \<Rightarrow> bytes" where
  "interface_bytes d =
     [id_length d, id_type d, id_interface_number d, id_alt_setting d, id_num_of_endpoints d, id_class d,
      id_subclass d, id_protocol d, id_interface_index d]"

definition interface_of :: "bytes \<Rightarrow> interface_descriptor" where
  "interface_of bs =
     \<lparr>id_length = bs ! 0, id_type = bs ! 1, id_interface_number = bs ! 2, id_alt_setting = bs ! 3,
      id_num_of_endpoints = bs ! 4, id_class = bs ! 5, id_subclass = bs ! 6, id_protocol = bs ! 7,
      id_interface_index = bs ! 8\<rparr>"

definition triple :: "interface_descriptor \<Rightarrow> u8 \<times> u8 \<times> u8" where
  "triple d = (id_class d, id_subclass d, id_protocol d)"

record endpoint_descriptor =
  ed_length :: u8
  ed_type :: u8
  endpoint_address :: u8
  attributes :: u8
  ed_max_packet_size :: u16
  interval :: u8

definition endpoint_bytes :: "endpoint_descriptor \<Rightarrow> bytes" where
  "endpoint_bytes d =
     [ed_length d, ed_type d, endpoint_address d, attributes d] @ le_word (ed_max_packet_size d) @ [interval d]"

definition endpoint_of :: "bytes \<Rightarrow> endpoint_descriptor" where
  "endpoint_of bs =
     \<lparr>ed_length = bs ! 0, ed_type = bs ! 1, endpoint_address = bs ! 2, attributes = bs ! 3,
      ed_max_packet_size = word_le (take 2 (drop 4 bs)), interval = bs ! 6\<rparr>"

definition ep_dci :: "endpoint_descriptor \<Rightarrow> nat" where
  "ep_dci d = unat ((endpoint_address d AND 0xF) * 2 + drop_bit 7 (endpoint_address d))"

lemma take_nths: "n \<le> length bs \<Longrightarrow> take n bs = map ((!) bs) [0..<n]"
  by (rule nth_equalityI) simp_all

lemma take_drop_nths: "k + n \<le> length bs \<Longrightarrow> take n (drop k bs) = map ((!) bs) [k..<k + n]"
  by (rule nth_equalityI) (simp_all add: nth_append)

lemmas usb_codec =
  device_bytes_def device_of_def config_bytes_def config_of_def interface_bytes_def interface_of_def
  endpoint_bytes_def endpoint_of_def

interpretation usb_device: sliceable 18 device_bytes device_of
proof
  fix bs :: bytes
  assume "18 \<le> length bs"
  then show "device_bytes (device_of bs) = take 18 bs"
    by (simp add: usb_codec codec_simps take_drop_nths take_nths [of 18] upt_rec [of _ "numeral _"]) (simp add: numeral_eq_Suc)
qed (simp_all add: usb_codec codec_simps nth_append)

interpretation usb_config: sliceable 9 config_bytes config_of
proof
  fix bs :: bytes
  assume "9 \<le> length bs"
  then show "config_bytes (config_of bs) = take 9 bs"
    by (simp add: usb_codec codec_simps take_drop_nths take_nths [of 9] upt_rec [of _ "numeral _"]) (simp add: numeral_eq_Suc)
qed (simp_all add: usb_codec codec_simps nth_append)

interpretation usb_interface: sliceable 9 interface_bytes interface_of
proof
  fix bs :: bytes
  assume "9 \<le> length bs"
  then show "interface_bytes (interface_of bs) = take 9 bs"
    by (simp add: usb_codec take_nths [of 9] upt_rec [of _ "numeral _"]) (simp add: numeral_eq_Suc)
qed (simp_all add: usb_codec)

interpretation usb_endpoint: sliceable 7 endpoint_bytes endpoint_of
proof
  fix bs :: bytes
  assume "7 \<le> length bs"
  then show "endpoint_bytes (endpoint_of bs) = take 7 bs"
    by (simp add: usb_codec codec_simps take_drop_nths take_nths [of 7] upt_rec [of _ "numeral _"]) (simp add: numeral_eq_Suc)
qed (simp_all add: usb_codec codec_simps nth_append)

subsection \<open>The iterator\<close>

datatype usb_descriptor =
    Config config_descriptor
  | Interface interface_descriptor
  | Endpoint endpoint_descriptor
  | UnknownDesc u8 u8

text \<open>\<open>desc_next buf i\<close> is the next index and the descriptor at index \<open>i\<close>.\<close>

definition desc_next :: "bytes \<Rightarrow> nat \<Rightarrow> (nat \<times> usb_descriptor option) res" where
  "desc_next whole i =
     (if length whole \<le> i then Inr (i, None)
      else let buf = drop i whole
           in and_then (index_at buf 0) (\<lambda>desc_len.
              and_then (index_at buf 1) (\<lambda>desc_type.
                if desc_type = desc_type_config
                then (case copy_from_slice 9 config_of buf of Inl _ \<Rightarrow> Inr (i, None)
                  | Inr d \<Rightarrow> Inr (i + unat desc_len, Some (Config d)))
                else if desc_type = desc_type_interface
                then (case copy_from_slice 9 interface_of buf of Inl _ \<Rightarrow> Inr (i, None)
                  | Inr d \<Rightarrow> Inr (i + unat desc_len, Some (Interface d)))
                else if desc_type = desc_type_endpoint
                then (case copy_from_slice 7 endpoint_of buf of Inl _ \<Rightarrow> Inr (i, None)
                  | Inr d \<Rightarrow> Inr (i + unat desc_len, Some (Endpoint d)))
                else Inr (i + unat desc_len, Some (UnknownDesc desc_len desc_type)))))"

partial_function (option) desc_collect :: "bytes \<Rightarrow> nat \<Rightarrow> usb_descriptor list res option" where
  "desc_collect buf i =
     (case desc_next buf i of
        Inl e \<Rightarrow> Some (Inl e)
      | Inr (j, None) \<Rightarrow> Some (Inr [])
      | Inr (j, Some d) \<Rightarrow>
          Option.bind (desc_collect buf j) (\<lambda>r. Some (and_then r (\<lambda>ds. Inr (d # ds)))))"

declare desc_collect.simps [code]

definition descriptors_of :: "bytes \<Rightarrow> usb_descriptor list res" where
  "descriptors_of buf = returned (desc_collect buf 0)"

text \<open>The bytes of a descriptor, followed by what its length byte says of it.\<close>

fun desc_bytes :: "usb_descriptor \<Rightarrow> bytes" where
  "desc_bytes (Config d) = config_bytes d"
| "desc_bytes (Interface d) = interface_bytes d"
| "desc_bytes (Endpoint d) = endpoint_bytes d"
| "desc_bytes (UnknownDesc l t) = [l, t]"

fun desc_ok :: "usb_descriptor \<times> bytes \<Rightarrow> bool" where
  "desc_ok (Config d, r) \<longleftrightarrow> cd_type d = desc_type_config \<and> unat (cd_length d) = 9 + length r"
| "desc_ok (Interface d, r) \<longleftrightarrow> id_type d = desc_type_interface \<and> unat (id_length d) = 9 + length r"
| "desc_ok (Endpoint d, r) \<longleftrightarrow> ed_type d = desc_type_endpoint \<and> unat (ed_length d) = 7 + length r"
| "desc_ok (UnknownDesc l t, r) \<longleftrightarrow>
     t \<notin> {desc_type_config, desc_type_interface, desc_type_endpoint} \<and> unat l = 2 + length r"

lemma desc_next_ok:
  assumes "desc_ok (d, r)"
  shows "desc_next (pre @ desc_bytes d @ r @ post) (length pre) =
    Inr (length pre + length (desc_bytes d @ r), Some d)"
proof (cases d)
  case (Config c)
  then show ?thesis
    using assms usb_config.copy_as_slice [of c "r @ post"]
    by (simp add: desc_next_def Let_def config_bytes_def desc_type_config_def)
next
  case (Interface c)
  then show ?thesis
    using assms usb_interface.copy_as_slice [of c "r @ post"]
    by (simp add: desc_next_def Let_def interface_bytes_def desc_type_config_def desc_type_interface_def)
next
  case (Endpoint c)
  then show ?thesis
    using assms usb_endpoint.copy_as_slice [of c "r @ post"]
    by (simp add: desc_next_def Let_def endpoint_bytes_def desc_type_config_def desc_type_interface_def
        desc_type_endpoint_def)
next
  case (UnknownDesc l t)
  with assms show ?thesis by (simp add: desc_next_def Let_def)
qed

lemma desc_collect_ok:
  assumes "\<forall>x \<in> set ds. desc_ok x"
  shows "desc_collect (pre @ concat (map (\<lambda>(d, r). desc_bytes d @ r) ds)) (length pre) = Some (Inr (map fst ds))"
  using assms
proof (induction ds arbitrary: pre)
  case Nil
  then show ?case by (subst desc_collect.simps) (simp add: desc_next_def)
next
  case (Cons x ds)
  obtain d r where x: "x = (d, r)" by (cases x)
  with Cons.prems desc_next_ok [of d r pre "concat (map (\<lambda>(d, r). desc_bytes d @ r) ds)"]
    Cons.IH [of "pre @ desc_bytes d @ r"]
  show ?case by (subst desc_collect.simps) simp
qed

text \<open>A descriptor of length zero keeps the iterator where it is.\<close>

lemma desc_collect_stuck:
  assumes "desc_next buf i = Inr (i, Some d)"
  shows "desc_collect buf i = None"
proof -
  have "\<forall>d. desc_next buf i \<noteq> Inr (i, Some d)" if "desc_collect buf i = Some r" for r
  proof (rule desc_collect.raw_induct [where P = "\<lambda>buf i r. \<forall>d. desc_next buf i \<noteq> Inr (i, Some d)", OF _ that],
      intro allI notI)
    fix f and buf :: bytes and i r d
    assume IH: "\<And>buf i r. f buf i = Some r \<Longrightarrow> \<forall>d. desc_next buf i \<noteq> Inr (i, Some d)"
      and body: "(case desc_next buf i of Inl e \<Rightarrow> Some (Inl e) | Inr (j, None) \<Rightarrow> Some (Inr [])
        | Inr (j, Some d) \<Rightarrow> Option.bind (f buf j) (\<lambda>r. Some (and_then r (\<lambda>ds. Inr (d # ds))))) = Some r"
      and d: "desc_next buf i = Inr (i, Some d)"
    then obtain r' where "f buf i = Some r'" by (auto split: bind_splits)
    with IH d show False by blast
  qed
  with assms show ?thesis by (cases "desc_collect buf i") auto
qed

subsection \<open>Choosing a configuration\<close>

text \<open>
  The loop of both drivers' \<open>pick_config\<close>, for the interface with the given class, subclass and protocol: the
  last configuration before the first such interface, that interface, and the endpoints that follow the
  configuration up to the next one.
\<close>

fun pick_loop :: "u8 \<times> u8 \<times> u8 \<Rightarrow> usb_descriptor list \<Rightarrow>
    config_descriptor option \<times> interface_descriptor option \<times> endpoint_descriptor list \<Rightarrow>
    config_descriptor option \<times> interface_descriptor option \<times> endpoint_descriptor list" where
  "pick_loop t [] acc = acc"
| "pick_loop t (Config e # ds) (last_config, iface, eps) =
     (if iface \<noteq> None then (last_config, iface, eps) else pick_loop t ds (Some e, iface, []))"
| "pick_loop t (Interface e # ds) (last_config, iface, eps) =
     pick_loop t ds (last_config, if triple e = t then Some e else iface, eps)"
| "pick_loop t (Endpoint e # ds) (last_config, iface, eps) = pick_loop t ds (last_config, iface, eps @ [e])"
| "pick_loop t (UnknownDesc l ty # ds) acc = pick_loop t ds acc"

definition pick_result ::
    "config_descriptor option \<times> interface_descriptor option \<times> endpoint_descriptor list \<Rightarrow>
     (config_descriptor \<times> interface_descriptor \<times> endpoint_descriptor list) res" where
  "pick_result = (\<lambda>(last_config, iface, eps).
     and_then (ok_or last_config (Failed ''No USB KBD Boot config found'')) (\<lambda>c.
     and_then (ok_or iface (Failed ''No USB KBD Boot interface found'')) (\<lambda>i. Inr (c, i, eps))))"

definition keyboard_pick_config ::
    "usb_descriptor list \<Rightarrow> (config_descriptor \<times> interface_descriptor \<times> endpoint_descriptor list) res" where
  "keyboard_pick_config ds = pick_result (pick_loop (3, 1, 1) ds (None, None, []))"

definition tablet_pick_config ::
    "usb_descriptor list \<Rightarrow> (config_descriptor \<times> interface_descriptor \<times> endpoint_descriptor list) res" where
  "tablet_pick_config ds = pick_result (pick_loop (3, 0, 0) ds (None, None, []))"

definition is_config :: "usb_descriptor \<Rightarrow> bool" where
  "is_config d = (case d of Config _ \<Rightarrow> True | _ \<Rightarrow> False)"

definition endpoint_list :: "usb_descriptor list \<Rightarrow> endpoint_descriptor list" where
  "endpoint_list ds = concat (map (\<lambda>d. case d of Endpoint e \<Rightarrow> [e] | _ \<Rightarrow> []) ds)"

definition matching_interfaces :: "u8 \<times> u8 \<times> u8 \<Rightarrow> usb_descriptor list \<Rightarrow> interface_descriptor list" where
  "matching_interfaces t ds = concat (map (\<lambda>d. case d of Interface e \<Rightarrow> (if triple e = t then [e] else []) | _ \<Rightarrow> []) ds)"

text \<open>A configuration without the interface is passed over; the one that has it is taken whole.\<close>

lemma pick_loop_body:
  "\<forall>d \<in> set ds. \<not> is_config d \<Longrightarrow>
   pick_loop t (ds @ rest) (c, i, eps) =
   pick_loop t rest (c, if matching_interfaces t ds = [] then i else Some (last (matching_interfaces t ds)), eps @ endpoint_list ds)"
proof (induction ds arbitrary: i eps)
  case (Cons d ds)
  then show ?case by (cases d) (auto simp: is_config_def matching_interfaces_def endpoint_list_def)
qed (simp add: matching_interfaces_def endpoint_list_def)

lemma pick_loop_found:
  assumes "\<forall>d \<in> set ds. \<not> is_config d" "matching_interfaces t ds \<noteq> []"
    and "rest = [] \<or> is_config (hd rest)"
  shows "pick_loop t (Config c # ds @ rest) (c', None, eps) =
    (Some c, Some (last (matching_interfaces t ds)), endpoint_list ds)"
proof -
  have "pick_loop t (Config c # ds @ rest) (c', None, eps) =
      pick_loop t rest (Some c, Some (last (matching_interfaces t ds)), endpoint_list ds)"
    using assms(2) by (simp add: pick_loop_body [OF assms(1)])
  also have "\<dots> = (Some c, Some (last (matching_interfaces t ds)), endpoint_list ds)"
    using assms(3) by (cases rest) (auto simp: is_config_def split: usb_descriptor.splits)
  finally show ?thesis .
qed

lemma pick_loop_skip:
  assumes "\<forall>d \<in> set ds. \<not> is_config d" "matching_interfaces t ds = []"
  shows "pick_loop t (Config c # ds @ rest) (c', None, eps) = pick_loop t rest (Some c, None, endpoint_list ds)"
  using assms(2) by (simp add: pick_loop_body [OF assms(1)])

text \<open>The device context index of an endpoint: its number doubled, plus one for an endpoint towards the host.\<close>

lemma ep_dci_eq: "ep_dci d = 2 * (unat (endpoint_address d) mod 16) + unat (endpoint_address d) div 128"
proof -
  let ?a = "endpoint_address d"
  have m: "(0xF :: u8) = mask 4" by (simp add: mask_eq_exp_minus_1)
  have lt: "unat ?a < 256" using unsigned_less [of ?a] by simp
  then have "unat ?a div 128 < 2" by (simp add: div_less_iff_less_mult)
  moreover have "unat ?a mod 16 < 16" by simp
  ultimately have "2 * (unat ?a mod 16) + unat ?a div 128 < 256" by linarith
  then show ?thesis
    by (simp add: ep_dci_def m take_bit_eq_mask [symmetric] unat_word_ariths unat_take_bit unat_drop_bit
        mod_simps mult.commute)
qed

lemma ep_dci_bound: "ep_dci d < 32"
proof -
  have "unat (endpoint_address d) div 128 < 2"
    using unsigned_less [of "endpoint_address d"] by (simp add: div_less_iff_less_mult)
  moreover have "unat (endpoint_address d) mod 16 < 16" by simp
  ultimately show ?thesis unfolding ep_dci_eq by linarith
qed

end
