(* ===== verification/Xhci_Ctrl.thy ===== *)
theory Xhci_Ctrl
  imports Xhci_Regs Usb
begin

text \<open>
  The host controller driver of \<open>os/src/xhci/controller.rs\<close>, \<open>device.rs\<close> and \<open>init.rs\<close>.  An asynchronous
  function is cut at its await: the first part submits the request and registers a future at the fresh address
  \<open>a\<close>; the second takes the event of that future.  The lemmas follow a command through both rings: the
  controller fetches the command that was sent, and once it has written an event for it, polling the event ring
  makes the future ready with just that event.
\<close>

subsection \<open>The controller\<close>

record controller =
  c_op :: op_regs
  c_irs :: "irs list"
  c_portsc :: "u32 list"
  c_doorbells :: "u32 list"
  c_cmd :: command_ring
  c_ev :: event_ring
  c_dcbaa :: dcbaa

definition with_c_cmd :: "(command_ring, 'a) act \<Rightarrow> (controller, 'a) act" where
  "with_c_cmd m c = (case m (c_cmd c) of (r, x) \<Rightarrow> (c\<lparr>c_cmd := r\<rparr>, x))"

definition init_primary_event_ring :: "u64 \<Rightarrow> (controller, unit) act" where
  "init_primary_event_ring erst_at c =
     (case init_irs (c_irs c) 0 erst_at (c_ev c) of
        Inl e \<Rightarrow> (c, Inl e)
      | Inr (regs, ev) \<Rightarrow> (c\<lparr>c_irs := regs, c_ev := ev\<rparr>, Inr ()))"

definition init_slots_and_contexts :: "cap_regs \<Rightarrow> u64 \<Rightarrow> controller \<Rightarrow> controller" where
  "init_slots_and_contexts cap dcbaa_at c =
     c\<lparr>c_op := set_dcbaa_ptr dcbaa_at (set_num_device_slots (num_of_device_slots cap) (c_op c))\<rparr>"

definition init_command_ring :: "controller \<Rightarrow> controller" where
  "init_command_ring c = c\<lparr>c_op := set_cmd_ring_ctrl (c_cmd c) (c_op c)\<rparr>"

text \<open>
  \<open>cmd_at\<close>, \<open>ev_at\<close>, \<open>erst_at\<close> and \<open>dcbaa_at\<close> are the addresses of the allocated structures and \<open>statuses\<close> the
  values that the status register shows while the controller starts.
\<close>

definition controller_new ::
    "cap_regs \<Rightarrow> op_regs \<Rightarrow> irs list \<Rightarrow> u32 list \<Rightarrow> u32 list \<Rightarrow> dcbaa \<Rightarrow> nat \<Rightarrow> nat \<Rightarrow> u64 \<Rightarrow> u64 \<Rightarrow> u32 list \<Rightarrow>
     controller \<times> unit res" where
  "controller_new cap op regs portsc doorbells ctxs cmd_at ev_at erst_at dcbaa_at statuses =
     (case command_ring_new cmd_at of (cmd, r) \<Rightarrow>
        act_then (lift_res r) (\<lambda>_.
        act_then (init_primary_event_ring erst_at) (\<lambda>_ c.
          let c = init_command_ring (init_slots_and_contexts cap dcbaa_at c)
          in case start_xhc statuses (c_op c) of (op, x) \<Rightarrow> (c\<lparr>c_op := op\<rparr>, x)))
        \<lparr>c_op = op, c_irs = regs, c_portsc = portsc, c_doorbells = doorbells, c_cmd = cmd,
         c_ev = event_ring_new ev_at, c_dcbaa = ctxs\<rparr>)"

definition set_output_context_for_slot :: "u8 \<Rightarrow> u64 \<Rightarrow> (controller, unit) act" where
  "set_output_context_for_slot slot ptr c =
     (case set_output_context slot ptr (c_dcbaa c) of (d, x) \<Rightarrow> (c\<lparr>c_dcbaa := d\<rparr>, x))"

definition notify_xhc :: "(controller, unit) act" where
  "notify_xhc c =
     (if c_doorbells c = [] then (c, Inl (Panic ''index out of bounds''))
      else (c\<lparr>c_doorbells := (c_doorbells c)[0 := doorbell_value 0 0]\<rparr>, Inr ()))"

definition notify_ep :: "u8 \<Rightarrow> nat \<Rightarrow> (controller, unit) act" where
  "notify_ep slot n c =
     (if length (c_doorbells c) \<le> unat slot then (c, Inl (Err (Failed ''invalid slot'')))
      else if 256 \<le> n then (c, Inl (Err TryFromIntError))
      else (c\<lparr>c_doorbells := (c_doorbells c)[unat slot := doorbell_value (word_of_nat n) 0]\<rparr>, Inr ()))"

definition new_future :: "nat \<Rightarrow> event_wait_cond \<Rightarrow> controller \<Rightarrow> controller" where
  "new_future a cond c = c\<lparr>c_ev := event_future_new a cond (c_ev c)\<rparr>"

definition send_command :: "nat \<Rightarrow> generic_trb \<Rightarrow> (controller, u64) act" where
  "send_command a cmd =
     act_then (with_c_cmd (command_push cmd)) (\<lambda>cmd_ptr.
     act_then notify_xhc (\<lambda>_ c. (new_future a (on_trb (word_of_nat cmd_ptr)) c, Inr (word_of_nat cmd_ptr))))"

text \<open>The await of a future: none while it is pending; when it is ready it is dropped.\<close>

definition await_future :: "nat \<Rightarrow> controller \<Rightarrow> controller \<times> generic_trb option" where
  "await_future a c =
     (case event_future_poll a (c_ev c) of
        (ev, None) \<Rightarrow> (c\<lparr>c_ev := ev\<rparr>, None)
      | (ev, Some t) \<Rightarrow> (c\<lparr>c_ev := event_future_drop a ev\<rparr>, Some t))"

subsection \<open>Requests on a control endpoint\<close>

record control_state =
  s_xhc :: controller
  s_ctrl :: command_ring

definition with_ctrl :: "(command_ring, 'a) act \<Rightarrow> (control_state, 'a) act" where
  "with_ctrl m s = (case m (s_ctrl s) of (r, x) \<Rightarrow> (s\<lparr>s_ctrl := r\<rparr>, x))"

definition with_xhc :: "(controller, 'a) act \<Rightarrow> (control_state, 'a) act" where
  "with_xhc m s = (case m (s_xhc s) of (r, x) \<Rightarrow> (s\<lparr>s_xhc := r\<rparr>, x))"

definition wait_on :: "nat \<Rightarrow> u8 \<Rightarrow> nat \<Rightarrow> (control_state, u64) act" where
  "wait_on a slot ptr =
     act_then (with_xhc (notify_ep slot 1)) (\<lambda>_.
       with_xhc (\<lambda>c. (new_future a (on_trb (word_of_nat ptr)) c, Inr (word_of_nat ptr))))"

definition submit_no_data :: "nat \<Rightarrow> u8 \<Rightarrow> setup_stage_trb \<Rightarrow> (control_state, u64) act" where
  "submit_no_data a slot setup =
     act_then (with_ctrl (command_push (setup_to_generic setup))) (\<lambda>_.
     act_then (with_ctrl (command_push status_stage_new_in)) (wait_on a slot))"

definition submit_data_in :: "nat \<Rightarrow> u8 \<Rightarrow> setup_stage_trb \<Rightarrow> u64 \<Rightarrow> nat \<Rightarrow> (control_state, u64) act" where
  "submit_data_in a slot setup buf size_in_bytes =
     act_then (with_ctrl (command_push (setup_to_generic setup))) (\<lambda>_.
     act_then (with_ctrl (command_push (data_stage_new_in buf size_in_bytes))) (\<lambda>ptr.
     act_then (with_ctrl (command_push status_stage_new_out)) (\<lambda>_. wait_on a slot ptr)))"

definition request_set_config :: "nat \<Rightarrow> u8 \<Rightarrow> u8 \<Rightarrow> (control_state, u64) act" where
  "request_set_config a slot config_value =
     submit_no_data a slot (setup_stage_new 0 REQ_SET_CONFIGURATION (ucast config_value) 0 0)"

definition request_set_interface :: "nat \<Rightarrow> u8 \<Rightarrow> u8 \<Rightarrow> u8 \<Rightarrow> (control_state, u64) act" where
  "request_set_interface a slot interface_number alt_setting =
     submit_no_data a slot
       (setup_stage_new REQ_TYPE_TO_INTERFACE REQ_SET_INTERFACE (ucast alt_setting) (ucast interface_number) 0)"

definition request_set_protocol :: "nat \<Rightarrow> u8 \<Rightarrow> u8 \<Rightarrow> u8 \<Rightarrow> (control_state, u64) act" where
  "request_set_protocol a slot interface_number protocol =
     submit_no_data a slot
       (setup_stage_new REQ_TYPE_TO_INTERFACE REQ_SET_PROTOCOL (ucast protocol) (ucast interface_number) 0)"

definition request_report_bytes :: "nat \<Rightarrow> u8 \<Rightarrow> u64 \<Rightarrow> nat \<Rightarrow> (control_state, u64) act" where
  "request_report_bytes a slot buf len =
     submit_data_in a slot
       (setup_stage_new (REQ_TYPE_DIR_DEVICE_TO_HOST OR REQ_TYPE_TYPE_CLASS OR REQ_TYPE_TO_INTERFACE)
          REQ_GET_REPORT 0x0200 0 (word_of_nat len)) buf len"

definition request_descriptor :: "nat \<Rightarrow> u8 \<Rightarrow> u8 \<Rightarrow> u8 \<Rightarrow> u16 \<Rightarrow> u64 \<Rightarrow> nat \<Rightarrow> (control_state, u64) act" where
  "request_descriptor a slot desc_type desc_index lang_id buf size_in_bytes =
     submit_data_in a slot
       (setup_stage_new REQ_TYPE_DIR_DEVICE_TO_HOST REQ_GET_DESCRIPTOR
          (push_bit 8 (ucast desc_type) OR ucast desc_index) lang_id (word_of_nat size_in_bytes))
       buf size_in_bytes"

text \<open>
  The descriptor requests differ in the descriptor type and the size of the buffer at \<open>buf\<close>; the configuration
  is asked for twice, the second time with the total length that the first answer gave.
\<close>

definition request_initial_device_descriptor :: "nat \<Rightarrow> u8 \<Rightarrow> u64 \<Rightarrow> (control_state, u64) act" where
  "request_initial_device_descriptor a slot buf = request_descriptor a slot 1 0 0 buf 8"

definition request_device_descriptor :: "nat \<Rightarrow> u8 \<Rightarrow> u64 \<Rightarrow> (control_state, u64) act" where
  "request_device_descriptor a slot buf = request_descriptor a slot 1 0 0 buf 18"

definition request_config_descriptor :: "nat \<Rightarrow> u8 \<Rightarrow> u64 \<Rightarrow> (control_state, u64) act" where
  "request_config_descriptor a slot buf = request_descriptor a slot 2 0 0 buf 9"

definition request_config_descriptor_rest :: "nat \<Rightarrow> u8 \<Rightarrow> config_descriptor \<Rightarrow> u64 \<Rightarrow> (control_state, u64) act" where
  "request_config_descriptor_rest a slot d buf = request_descriptor a slot 2 0 0 buf (unat (cd_total_length d))"

definition request_string_descriptor :: "nat \<Rightarrow> u8 \<Rightarrow> u16 \<Rightarrow> u8 \<Rightarrow> u64 \<Rightarrow> (control_state, u64) act" where
  "request_string_descriptor a slot lang_id str_index buf = request_descriptor a slot 3 str_index lang_id buf 128"

definition request_string_descriptor_zero :: "nat \<Rightarrow> u8 \<Rightarrow> u64 \<Rightarrow> (control_state, u64) act" where
  "request_string_descriptor_zero a slot buf = request_descriptor a slot 3 0 0 buf (8 * 2)"

definition finish_request :: "nat \<Rightarrow> controller \<Rightarrow> controller \<times> unit res option" where
  "finish_request a c = (case await_future a c of (c', t) \<Rightarrow> (c', map_option completed t))"

subsection \<open>Setting up endpoints\<close>

definition endpoint_type_of :: "endpoint_descriptor \<Rightarrow> EndpointType" where
  "endpoint_type_of d =
     (let dir = drop_bit 7 (endpoint_address d); ty = attributes d AND 3
      in if dir = 0 \<and> ty = 1 then IsochOut
         else if dir = 0 \<and> ty = 2 then BulkOut
         else if dir = 0 \<and> ty = 3 then InterruptOut
         else if ty = 0 then Control
         else if ty = 1 then IsochIn
         else if ty = 2 then BulkIn
         else InterruptIn)"

definition new_context_for ::
    "EndpointType \<Rightarrow> (u16 \<Rightarrow> u64 \<Rightarrow> UsbMode \<Rightarrow> u8 \<Rightarrow> u16 \<Rightarrow> endpoint_context res) option" where
  "new_context_for ty =
     (case ty of InterruptIn \<Rightarrow> Some new_interrupt_in_endpoint | BulkIn \<Rightarrow> Some new_bulk_in_endpoint
      | BulkOut \<Rightarrow> Some new_bulk_out_endpoint | _ \<Rightarrow> None)"

record setup_state =
  su_ctrl :: input_control_context
  su_input :: input_context
  su_rings :: "transfer_ring option list"
  su_last_dci :: nat

text \<open>
  One turn of the loop, with the port's register value \<open>v\<close>; the ring of the endpoint stands at \<open>base\<close> and its
  buffers are given by \<open>alloc\<close>.
\<close>

definition setup_endpoint :: "u32 \<Rightarrow> nat \<Rightarrow> (nat \<Rightarrow> u64) \<Rightarrow> endpoint_descriptor \<Rightarrow> setup_state \<Rightarrow> setup_state res" where
  "setup_endpoint v base alloc d s =
     (case new_context_for (endpoint_type_of d) of
        None \<Rightarrow> Inr s
      | Some mk \<Rightarrow>
          (case transfer_ring_new base alloc 4096 of (tring, x) \<Rightarrow>
             and_then x (\<lambda>_.
             and_then (add_context (ep_dci d) (su_ctrl s)) (\<lambda>ctrl.
             and_then (max_packet_size v) (\<lambda>mps.
             and_then (mk mps (ring_phys_addr (cmd_ring (tr_prod tring))) (port_speed v) (interval d) 8) (\<lambda>ep.
             and_then (set_ep_ctx (ep_dci d) ep (su_input s)) (\<lambda>inp.
             if ep_dci d < length (su_rings s)
             then Inr \<lparr>su_ctrl = ctrl, su_input = inp, su_rings = (su_rings s)[ep_dci d := Some tring],
                       su_last_dci = max (su_last_dci s) (ep_dci d)\<rparr>
             else Inl (Panic ''index out of bounds''))))))))"

fun setup_endpoints_loop ::
    "u32 \<Rightarrow> (nat \<Rightarrow> nat) \<Rightarrow> (nat \<Rightarrow> nat \<Rightarrow> u64) \<Rightarrow> nat \<Rightarrow> endpoint_descriptor list \<Rightarrow> setup_state \<Rightarrow> setup_state res" where
  "setup_endpoints_loop v base alloc k [] s = Inr s"
| "setup_endpoints_loop v base alloc k (d # ds) s =
     and_then (setup_endpoint v (base k) (alloc k) d s) (setup_endpoints_loop v base alloc (Suc k) ds)"

text \<open>The result is the rings and the command that \<open>setup_endpoints\<close> sends.\<close>

definition setup_endpoints ::
    "u32 list \<Rightarrow> nat \<Rightarrow> u8 \<Rightarrow> (nat \<Rightarrow> nat) \<Rightarrow> (nat \<Rightarrow> nat \<Rightarrow> u64) \<Rightarrow> u64 \<Rightarrow> input_context \<Rightarrow> endpoint_descriptor list \<Rightarrow>
     (transfer_ring option list \<times> input_context \<times> generic_trb) res" where
  "setup_endpoints portsc port slot base alloc input_at inp eps =
     and_then (ok_or (nth_opt portsc (wrapping_sub port 1)) (Failed ''xHC: Port Number Out of Range'')) (\<lambda>v.
     and_then (add_context 0 input_control_default) (\<lambda>ctrl.
     and_then (setup_endpoints_loop v base alloc 0 eps
        \<lparr>su_ctrl = ctrl, su_input = inp, su_rings = replicate 32 None, su_last_dci = 1\<rparr>) (\<lambda>s.
     and_then (on_device_ctx (set_last_valid_dci (su_last_dci s)) (su_input s)) (\<lambda>inp.
     Inr (su_rings s, set_input_ctrl_ctx (su_ctrl s) inp, cmd_configure_endpoint input_at slot)))))"

subsection \<open>The event queue of a device\<close>

type_synonym event_queue = "bytes list"

definition event_queue_push :: "bytes \<Rightarrow> event_queue \<Rightarrow> event_queue" where
  "event_queue_push e q = (if length q > 16 then tl q else q) @ [e]"

definition event_queue_pop :: "event_queue \<Rightarrow> event_queue \<times> bytes option" where
  "event_queue_pop q = (case q of [] \<Rightarrow> ([], None) | e # q' \<Rightarrow> (q', Some e))"

lemma event_queue_bound: "length q \<le> 17 \<Longrightarrow> length (event_queue_push e q) \<le> 17"
  by (cases q) (auto simp: event_queue_push_def)

subsection \<open>A command and its event\<close>

lemma send_command_ok:
  assumes "linked (c_cmd c) [] con" "trb_type_of cmd \<noteq> trb_type_code Link" "c_doorbells c \<noteq> []"
  shows "\<exists>c' con' k. send_command a cmd c = (c', Inr (word_of_nat (ring_base (cmd_ring (c_cmd c)) + 16 * k))) \<and> k < 15 \<and>
    xhc_fetch (cmd_ring (c_cmd c')) con = Some (set_cycle_state cmd (\<not> cmd_ours (c_cmd c)), con') \<and>
    linked (c_cmd c') [] con' \<and> c_doorbells c' = (c_doorbells c)[0 := 0] \<and>
    c_ev c' = event_future_new a (on_trb (word_of_nat (ring_base (cmd_ring (c_cmd c)) + 16 * k))) (c_ev c)"
proof -
  let ?k = "current_index (cmd_ring (c_cmd c))" and ?cmd = "give (put cmd (c_cmd c))"
  have inv: "producer_inv (c_cmd c)" using assms(1) by (auto simp: linked_def Let_def split: prod.splits)
  then have k: "?k < 15" by (simp add: producer_inv_def Let_def)
  have l: "linked ?cmd [set_cycle_state cmd (\<not> cmd_ours (c_cmd c))] con"
    using linked_push [OF assms(1) _ assms(2)] by simp
  then obtain con' where "xhc_fetch (cmd_ring ?cmd) con = Some (set_cycle_state cmd (\<not> cmd_ours (c_cmd c)), con')"
      "linked ?cmd [] con'"
    using linked_fetch [OF l] by auto
  moreover have "send_command a cmd c =
      (new_future a (on_trb (word_of_nat (ring_base (cmd_ring (c_cmd c)) + 16 * ?k)))
        (c\<lparr>c_cmd := ?cmd, c_doorbells := (c_doorbells c)[0 := 0]\<rparr>),
       Inr (word_of_nat (ring_base (cmd_ring (c_cmd c)) + 16 * ?k)))"
    using command_push_ok [OF inv assms(2)] assms(3)
    by (simp add: send_command_def with_c_cmd_def notify_xhc_def doorbell_value_def)
  moreover define c' where "c' = new_future a (on_trb (word_of_nat (ring_base (cmd_ring (c_cmd c)) + 16 * ?k)))
      (c\<lparr>c_cmd := ?cmd, c_doorbells := (c_doorbells c)[0 := 0]\<rparr>)"
  ultimately show ?thesis
    using k by (intro exI [of _ c'] exI [of _ con'] exI [of _ ?k]) (simp add: c'_def new_future_def)
qed

text \<open>
  The controller may have written events for others before the one that the future waits for: each is taken by
  one poll, and the future is ready after the poll that takes its own.
\<close>

lemma future_resolved:
  assumes "event_ok s" "a \<in> set (wait_list s)" "waiters s a = Some \<lparr>wait_cond = on_trb p, wait_trbs = []\<rparr>"
    and "pending s = es @ e # fs" "trb_data e = p" "\<forall>x \<in> set es. trb_data x \<noteq> p"
  shows "\<exists>s'. for_each (\<lambda>_. event_ring_poll) [0..<Suc (length es)] s = (s', Inr ()) \<and> event_ok s' \<and>
    pending s' = fs \<and> snd (event_future_poll a s') = Some e"
proof -
  let ?w = "\<lparr>wait_cond = on_trb p, wait_trbs = []\<rparr>"
  obtain s' where s': "for_each (\<lambda>_. event_ring_poll) [0..<Suc (length es)] s = (s', Inr ())" "event_ok s'"
      "pending s' = drop (Suc (length es)) (pending s)" "served s (take (Suc (length es)) (pending s)) s'"
    using polls_deliver [OF assms(1), of "Suc (length es)"] by blast
  have "waiters s' a = Some (delivered_to ?w (es @ [e]))"
    using s'(4) assms(2,3,4) by (simp add: served_def)
  moreover have "wait_trbs (delivered_to ?w (es @ [e])) = [e]"
  proof -
    have m: "wait_matches ?w x \<longleftrightarrow> trb_data x = p" for x by (simp add: wait_matches_def on_trb_def)
    have "filter (wait_matches ?w) es = []" using assms(6) by (simp add: m filter_empty_conv)
    then show ?thesis using assms(5) by (simp add: delivered_to_def m)
  qed
  ultimately show ?thesis using s' assms(4) by (simp add: event_future_poll_def)
qed

subsection \<open>Control requests\<close>

lemma with_ctrl_push:
  assumes "linked (s_ctrl s) q con" "length q < 14" "trb_type_of t \<noteq> trb_type_code Link"
  shows "\<exists>r p. with_ctrl (command_push t) s = (s\<lparr>s_ctrl := r\<rparr>, Inr p) \<and>
    linked r (q @ [set_cycle_state t (\<not> cmd_ours (s_ctrl s))]) con"
proof -
  have "producer_inv (s_ctrl s)" using assms(1) by (auto simp: linked_def Let_def split: prod.splits)
  then have "with_ctrl (command_push t) s =
      (s\<lparr>s_ctrl := give (put t (s_ctrl s))\<rparr>,
       Inr (ring_base (cmd_ring (s_ctrl s)) + 16 * current_index (cmd_ring (s_ctrl s))))"
    using assms(3) by (simp add: with_ctrl_def command_push_ok)
  with linked_push [OF assms] show ?thesis by blast
qed

lemma wait_on_ok:
  assumes "unat slot < length (c_doorbells (s_xhc s))"
  shows "wait_on a slot p s =
    (s\<lparr>s_xhc := new_future a (on_trb (word_of_nat p))
        ((s_xhc s)\<lparr>c_doorbells := (c_doorbells (s_xhc s))[unat slot := 1]\<rparr>)\<rparr>, Inr (word_of_nat p))"
  using assms by (simp add: wait_on_def with_xhc_def notify_ep_def doorbell_value_def)

text \<open>
  A request that reads data puts its three stages on the ring in order, rings the doorbell of its slot with the
  index of the control endpoint and waits for the data stage.
\<close>

lemma submit_data_in_ok:
  assumes "linked (s_ctrl s) [] con" "unat slot < length (c_doorbells (s_xhc s))"
    and "trb_type_of (setup_to_generic setup) \<noteq> trb_type_code Link"
  shows "\<exists>s' p c1 c2 c3. submit_data_in a slot setup buf n s = (s', Inr p) \<and>
    linked (s_ctrl s') [set_cycle_state (setup_to_generic setup) c1, set_cycle_state (data_stage_new_in buf n) c2,
      set_cycle_state status_stage_new_out c3] con \<and>
    c_doorbells (s_xhc s') = (c_doorbells (s_xhc s))[unat slot := 1] \<and>
    c_ev (s_xhc s') = event_future_new a (on_trb p) (c_ev (s_xhc s))"
proof -
  let ?c1 = "\<not> cmd_ours (s_ctrl s)"
  obtain r1 p1 where r1: "with_ctrl (command_push (setup_to_generic setup)) s = (s\<lparr>s_ctrl := r1\<rparr>, Inr p1)"
      "linked r1 [set_cycle_state (setup_to_generic setup) ?c1] con"
    using with_ctrl_push [OF assms(1) _ assms(3)] by auto
  let ?s1 = "s\<lparr>s_ctrl := r1\<rparr>"
  obtain r2 p where r2: "with_ctrl (command_push (data_stage_new_in buf n)) ?s1 = (?s1\<lparr>s_ctrl := r2\<rparr>, Inr p)"
      "linked r2 [set_cycle_state (setup_to_generic setup) ?c1, set_cycle_state (data_stage_new_in buf n) (\<not> cmd_ours r1)] con"
    using with_ctrl_push [of ?s1 "[set_cycle_state (setup_to_generic setup) ?c1]" con "data_stage_new_in buf n"] r1(2)
    by (auto simp: stage_types)
  let ?s2 = "s\<lparr>s_ctrl := r2\<rparr>"
  obtain r3 p' where r3: "with_ctrl (command_push status_stage_new_out) ?s2 = (?s2\<lparr>s_ctrl := r3\<rparr>, Inr p')"
      "linked r3 [set_cycle_state (setup_to_generic setup) ?c1, set_cycle_state (data_stage_new_in buf n) (\<not> cmd_ours r1),
        set_cycle_state status_stage_new_out (\<not> cmd_ours r2)] con"
    using with_ctrl_push [of ?s2 "[set_cycle_state (setup_to_generic setup) ?c1,
        set_cycle_state (data_stage_new_in buf n) (\<not> cmd_ours r1)]" con status_stage_new_out] r2(2)
    by (auto simp: stage_types)
  show ?thesis
    using r1(1) r2(1) r3 assms(2) by (simp add: submit_data_in_def wait_on_ok new_future_def) blast
qed

lemma submit_no_data_ok:
  assumes "linked (s_ctrl s) [] con" "unat slot < length (c_doorbells (s_xhc s))"
    and "trb_type_of (setup_to_generic setup) \<noteq> trb_type_code Link"
  shows "\<exists>s' p c1 c2. submit_no_data a slot setup s = (s', Inr p) \<and>
    linked (s_ctrl s') [set_cycle_state (setup_to_generic setup) c1, set_cycle_state status_stage_new_in c2] con \<and>
    c_doorbells (s_xhc s') = (c_doorbells (s_xhc s))[unat slot := 1] \<and>
    c_ev (s_xhc s') = event_future_new a (on_trb p) (c_ev (s_xhc s))"
proof -
  let ?c1 = "\<not> cmd_ours (s_ctrl s)"
  obtain r1 p1 where r1: "with_ctrl (command_push (setup_to_generic setup)) s = (s\<lparr>s_ctrl := r1\<rparr>, Inr p1)"
      "linked r1 [set_cycle_state (setup_to_generic setup) ?c1] con"
    using with_ctrl_push [OF assms(1) _ assms(3)] by auto
  let ?s1 = "s\<lparr>s_ctrl := r1\<rparr>"
  obtain r2 p where r2: "with_ctrl (command_push status_stage_new_in) ?s1 = (?s1\<lparr>s_ctrl := r2\<rparr>, Inr p)"
      "linked r2 [set_cycle_state (setup_to_generic setup) ?c1, set_cycle_state status_stage_new_in (\<not> cmd_ours r1)] con"
    using with_ctrl_push [of ?s1 "[set_cycle_state (setup_to_generic setup) ?c1]" con status_stage_new_in] r1(2)
    by (auto simp: stage_types)
  show ?thesis
    using r1(1) r2 assms(2) by (simp add: submit_no_data_def wait_on_ok new_future_def) blast
qed

subsection \<open>Endpoint set-up\<close>

definition supported_ep :: "endpoint_descriptor \<Rightarrow> bool" where
  "supported_ep d \<longleftrightarrow> new_context_for (endpoint_type_of d) \<noteq> None"

definition dcis :: "endpoint_descriptor list \<Rightarrow> nat set" where
  "dcis ds = ep_dci ` {d \<in> set ds. supported_ep d}"

definition ep_ready :: "setup_state \<Rightarrow> nat \<Rightarrow> bool" where
  "ep_ready s i \<longleftrightarrow> 0 < i \<and> i < 32 \<and> (\<exists>tr. su_rings s ! i = Some tr \<and> producer_inv (tr_prod tr) \<and>
     current_index (cmd_ring (tr_prod tr)) = 0 \<and> dequeue_index tr = 0 \<and>
     field (tr_dequeue_ptr (ep_ctx (device_ctx (su_input s)) ! (i - 1))) 4 60 =
       drop_bit 4 (ring_phys_addr (cmd_ring (tr_prod tr))))"

text \<open>
  After the endpoints with the indices \<open>D\<close>: the contexts to add are the slot and those endpoints, each of them has
  a fresh ring to which its context points, and the last index is the greatest one.
\<close>

definition endpoints_set_up :: "nat set \<Rightarrow> setup_state \<Rightarrow> bool" where
  "endpoints_set_up D s \<longleftrightarrow>
     length (su_rings s) = 32 \<and> length (ep_ctx (device_ctx (su_input s))) = 31 \<and>
     (\<forall>i. bit (add_context_bitmap (su_ctrl s)) i \<longleftrightarrow> i = 0 \<or> i \<in> D) \<and>
     (\<forall>i < 32. i \<notin> D \<longrightarrow> su_rings s ! i = None) \<and> (\<forall>i \<in> D. ep_ready s i) \<and>
     1 \<le> su_last_dci s \<and> su_last_dci s \<le> 31 \<and> (\<forall>i \<in> D. i \<le> su_last_dci s) \<and>
     (su_last_dci s = 1 \<or> su_last_dci s \<in> D)"

definition add_endpoint :: "nat \<Rightarrow> transfer_ring \<Rightarrow> endpoint_context \<Rightarrow> setup_state \<Rightarrow> setup_state" where
  "add_endpoint n tr ep s =
     \<lparr>su_ctrl = (su_ctrl s)\<lparr>add_context_bitmap := add_context_bitmap (su_ctrl s) OR push_bit n 1\<rparr>,
      su_input = (su_input s)\<lparr>device_ctx := (device_ctx (su_input s))\<lparr>ep_ctx :=
        (ep_ctx (device_ctx (su_input s)))[n - 1 := ep]\<rparr>\<rparr>,
      su_rings = (su_rings s)[n := Some tr], su_last_dci = max (su_last_dci s) n\<rparr>"

lemma ep_ready_add:
  assumes "ep_ready s i \<or> i = n" "0 < n" "n < 32" "length (su_rings s) = 32"
      "length (ep_ctx (device_ctx (su_input s))) = 31"
    and "producer_inv (tr_prod tr)" "dequeue_index tr = 0" "current_index (cmd_ring (tr_prod tr)) = 0"
    and "field (tr_dequeue_ptr ep) 4 60 = drop_bit 4 (ring_phys_addr (cmd_ring (tr_prod tr)))"
  shows "ep_ready (add_endpoint n tr ep s) i"
proof (cases "i = n")
  case True
  moreover have "n - 1 < 31" using assms(2,3) by linarith
  ultimately show ?thesis using assms by (simp add: ep_ready_def add_endpoint_def)
next
  case False
  with assms(1) have "ep_ready s i" by simp
  moreover from this False assms(2) have "i - 1 \<noteq> n - 1" by (auto simp: ep_ready_def)
  ultimately show ?thesis using False by (simp add: ep_ready_def add_endpoint_def)
qed

lemma add_endpoint_set_up:
  assumes inv: "endpoints_set_up D s" and n: "0 < n" "n < 32" and tr: "producer_inv (tr_prod tr)" "dequeue_index tr = 0"
      "current_index (cmd_ring (tr_prod tr)) = 0"
    and ep: "field (tr_dequeue_ptr ep) 4 60 = drop_bit 4 (ring_phys_addr (cmd_ring (tr_prod tr)))"
  shows "endpoints_set_up (insert n D) (add_endpoint n tr ep s)"
proof -
  have b: "bit (w OR push_bit n 1) i \<longleftrightarrow> bit w i \<or> i = n" for w :: u32 and i
    using n(2) by (auto simp: bit_simps)
  have old: "length (su_rings s) = 32" "length (ep_ctx (device_ctx (su_input s))) = 31"
      "\<And>i. bit (add_context_bitmap (su_ctrl s)) i \<longleftrightarrow> i = 0 \<or> i \<in> D"
      "\<And>i. i < 32 \<Longrightarrow> i \<notin> D \<Longrightarrow> su_rings s ! i = None" "\<And>i. i \<in> D \<Longrightarrow> ep_ready s i"
      "1 \<le> su_last_dci s" "su_last_dci s \<le> 31" "\<And>i. i \<in> D \<Longrightarrow> i \<le> su_last_dci s"
      "su_last_dci s = 1 \<or> su_last_dci s \<in> D"
    using inv by (simp_all add: endpoints_set_up_def)
  let ?s = "add_endpoint n tr ep s"
  have "ep_ready ?s i" if "i \<in> insert n D" for i
    using that old(5) by (intro ep_ready_add n old(1,2) tr ep) auto
  moreover have "bit (add_context_bitmap (su_ctrl ?s)) i \<longleftrightarrow> i = 0 \<or> i \<in> insert n D" for i
    using old(3) b by (auto simp: add_endpoint_def)
  moreover have "su_rings ?s ! i = None" if "i < 32" "i \<notin> insert n D" for i
    using that old(4) by (simp add: add_endpoint_def)
  moreover have "\<forall>i \<in> insert n D. i \<le> su_last_dci ?s" using old(8) by (simp add: add_endpoint_def le_max_iff_disj)
  moreover have "su_last_dci ?s = 1 \<or> su_last_dci ?s \<in> insert n D" "su_last_dci ?s \<le> 31" "1 \<le> su_last_dci ?s"
    using old(6,7,9) n(2) by (auto simp: add_endpoint_def max_def)
  ultimately show ?thesis unfolding endpoints_set_up_def using old(1,2) by (simp add: add_endpoint_def)
qed

lemma new_context_for_ok:
  assumes "new_context_for (endpoint_type_of d) = Some mk" "interval d \<noteq> 0" "\<not> (\<exists>p. mode = Unknown p)"
  shows "\<exists>ep. mk mps p mode (interval d) avg = Inr ep \<and> field (tr_dequeue_ptr ep) 4 60 = drop_bit 4 p"
proof -
  obtain ty where mk: "mk = new_endpoint ty"
    using assms(1) by (auto simp: new_context_for_def new_interrupt_in_endpoint_def new_bulk_in_endpoint_def
        new_bulk_out_endpoint_def split: EndpointType.splits)
  obtain i where "endpoint_interval mode (interval d) = Inr i"
    using endpoint_interval_ok [OF assms(2,3)] by blast
  from new_endpoint_ok [OF this, of ty mps p avg] show ?thesis by (auto simp: mk endpoint_context_is_def)
qed

lemma setup_endpoint_ok:
  assumes inv: "endpoints_set_up D s" and d: "supported_ep d" "ep_dci d \<noteq> 0" "interval d \<noteq> 0"
    and v: "max_packet_size v = Inr mps" and base: "base < USIZE"
  shows "\<exists>s'. setup_endpoint v base alloc d s = Inr s' \<and> endpoints_set_up (insert (ep_dci d) D) s'"
proof -
  obtain mk where mk: "new_context_for (endpoint_type_of d) = Some mk" using d by (auto simp: supported_ep_def)
  obtain tr where tr: "transfer_ring_new base alloc 4096 = (tr, Inr ())" "producer_inv (tr_prod tr)"
      "dequeue_index tr = 0" "current_index (cmd_ring (tr_prod tr)) = 0"
    using transfer_ring_new_ok [OF base, of alloc 4096] by blast
  have "\<not> (\<exists>p. port_speed v = Unknown p)" using v by (auto simp: max_packet_size_def)
  then obtain ep where ep: "mk mps (ring_phys_addr (cmd_ring (tr_prod tr))) (port_speed v) (interval d) 8 = Inr ep"
      "field (tr_dequeue_ptr ep) 4 60 = drop_bit 4 (ring_phys_addr (cmd_ring (tr_prod tr)))"
    using new_context_for_ok [OF mk d(3)] by blast
  have "ep_dci d - 1 < 31" using ep_dci_bound [of d] d(2) by linarith
  then have "setup_endpoint v base alloc d s = Inr (add_endpoint (ep_dci d) tr ep s)"
    using mk tr(1) ep(1) v d(2) inv ep_dci_bound [of d]
    by (simp add: setup_endpoint_def add_context_def set_ep_ctx_def endpoints_set_up_def add_endpoint_def)
  moreover have "endpoints_set_up (insert (ep_dci d) D) (add_endpoint (ep_dci d) tr ep s)"
    using d(2) tr ep(2) ep_dci_bound [of d] by (intro add_endpoint_set_up inv) simp_all
  ultimately show ?thesis by blast
qed

lemma setup_loop_ok:
  assumes "endpoints_set_up D s" "\<And>k. base k < USIZE" "max_packet_size v = Inr mps"
    and "\<And>d. d \<in> set ds \<Longrightarrow> supported_ep d \<Longrightarrow> ep_dci d \<noteq> 0 \<and> interval d \<noteq> 0"
  shows "\<exists>s'. setup_endpoints_loop v base alloc k ds s = Inr s' \<and> endpoints_set_up (D \<union> dcis ds) s'"
  using assms
proof (induction ds arbitrary: D s k)
  case Nil
  then show ?case by (simp add: dcis_def)
next
  case (Cons d ds)
  show ?case
  proof (cases "supported_ep d")
    case True
    with Cons.prems(4) [of d] obtain s1 where s1: "setup_endpoint v (base k) (alloc k) d s = Inr s1"
        "endpoints_set_up (insert (ep_dci d) D) s1"
      using setup_endpoint_ok [OF Cons.prems(1) True _ _ Cons.prems(3) Cons.prems(2)] by auto
    have "insert (ep_dci d) D \<union> dcis ds = D \<union> dcis (d # ds)" using True by (auto simp: dcis_def)
    with Cons.IH [OF s1(2) Cons.prems(2,3,4), of "Suc k"] s1(1) show ?thesis by simp
  next
    case False
    then have "setup_endpoint v (base k) (alloc k) d s = Inr s"
      by (simp add: setup_endpoint_def supported_ep_def)
    moreover from False have "dcis (d # ds) = dcis ds" by (auto simp: dcis_def)
    ultimately show ?thesis using Cons.IH [OF Cons.prems(1,2,3,4), of "Suc k"] by simp
  qed
qed

end
