(* ===== verification/Bit_Set.thy ===== *)
theory Bit_Set
  imports Util
begin

text \<open>
  \<open>os/src/bitset.rs\<close>: a fixed-capacity set of small numbers packed in bytes, with its iterator.
  The refinement lemmas give \<open>elems\<close>, the set of numbers a value stands for, and the locale
  \<open>index_set\<close> is the interface through which the keyboard driver uses it.
\<close>

datatype bitset_error = OutOfRange

record bit_set = bs_bytes :: bytes

abbreviation bs_N :: "bit_set \<Rightarrow> nat" where "bs_N s \<equiv> length (bs_bytes s)"

definition bs_new :: "nat \<Rightarrow> bit_set" where
  "bs_new N = \<lparr>bs_bytes = replicate N 0\<rparr>"

definition bs_insert :: "bit_set \<Rightarrow> nat \<Rightarrow> bitset_error + bit_set" where
  "bs_insert s index =
     (if index < bs_N s * 8
      then Inr (s\<lparr>bs_bytes := (bs_bytes s)[index div 8 :=
                  bs_bytes s ! (index div 8) OR push_bit (index mod 8) 1]\<rparr>)
      else Inl OutOfRange)"

definition bs_get :: "bit_set \<Rightarrow> nat \<Rightarrow> bitset_error + bool" where
  "bs_get s index =
     (if index < bs_N s * 8
      then Inr ((bs_bytes s ! (index div 8)) AND push_bit (index mod 8) 1 \<noteq> 0)
      else Inl OutOfRange)"

definition bs_remove :: "bit_set \<Rightarrow> nat \<Rightarrow> bitset_error + bit_set" where
  "bs_remove s index =
     (if index < bs_N s * 8
      then Inr (s\<lparr>bs_bytes := (bs_bytes s)[index div 8 :=
                  bs_bytes s ! (index div 8) AND NOT (push_bit (index mod 8) 1)]\<rparr>)
      else Inl OutOfRange)"

definition bs_clear :: "bit_set \<Rightarrow> bit_set" where
  "bs_clear s = s\<lparr>bs_bytes := map (\<lambda>_. 0) (bs_bytes s)\<rparr>"

definition bs_symmetric_difference :: "bit_set \<Rightarrow> bit_set \<Rightarrow> bit_set" where
  "bs_symmetric_difference s another =
     \<lparr>bs_bytes = map (\<lambda>i. bs_bytes s ! i XOR bs_bytes another ! i) [0..<bs_N s]\<rparr>"

record bit_set_iterator =
  it_set :: bit_set
  it_start :: nat
  it_end :: nat

definition bs_iter :: "bit_set \<Rightarrow> bit_set_iterator" where
  "bs_iter s = \<lparr>it_set = s, it_start = 0, it_end = bs_N s * 8\<rparr>"

function it_next :: "bit_set_iterator \<Rightarrow> (nat option \<times> bit_set_iterator) res" where
  "it_next it =
     (if it_start it < it_end it
      then let i = it_start it; it' = it\<lparr>it_start := Suc i\<rparr>
           in case bs_get (it_set it) i of
                Inl _ \<Rightarrow> Inl (Panic ''unwrap on Err'')
              | Inr True \<Rightarrow> Inr (Some i, it')
              | Inr False \<Rightarrow> it_next it'
      else Inr (None, it))"
  by pat_completeness auto
termination by (relation "measure (\<lambda>it. it_end it - it_start it)") auto

declare it_next.simps [simp del]

lemma it_next_decreases:
  "it_next it = Inr (Some i, it') \<Longrightarrow> it_end it' - it_start it' < it_end it - it_start it"
proof (induction it rule: it_next.induct)
  case (1 it)
  show ?case
  proof (cases "it_start it < it_end it")
    case True
    with "1.prems" "1.IH" [OF True refl refl] show ?thesis
      by (fastforce simp: it_next.simps [of it] Let_def split: sum.splits bool.splits)
  qed (use 1 in \<open>simp add: it_next.simps [of it]\<close>)
qed

text \<open>Draining the iterator, as a \<open>for\<close> loop over \<open>iter()\<close> does.\<close>

function it_collect :: "bit_set_iterator \<Rightarrow> nat list res" where
  "it_collect it =
     (case it_next it of
        Inl e \<Rightarrow> Inl e
      | Inr (None, _) \<Rightarrow> Inr []
      | Inr (Some i, it') \<Rightarrow>
          (case it_collect it' of Inl e \<Rightarrow> Inl e | Inr is \<Rightarrow> Inr (i # is)))"
  by pat_completeness auto
termination
  by (relation "measure (\<lambda>it. it_end it - it_start it)") (auto dest: it_next_decreases)

declare it_collect.simps [simp del]

subsection \<open>The set a value stands for\<close>

definition elems :: "bit_set \<Rightarrow> nat set" where
  "elems s = {i. i < bs_N s * 8 \<and> bit (bs_bytes s ! (i div 8)) (i mod 8)}"

lemma and_push_bit_one_neq_0:
  "k < LENGTH('a) \<Longrightarrow> (w AND push_bit k 1 \<noteq> 0) = bit (w :: 'a :: len word) k"
  by (simp add: and_exp_eq_0_iff_not_bit)

lemma index_div_less: "i < n * 8 \<Longrightarrow> i div 8 < n" for i n :: nat
  by (simp add: less_mult_imp_div_less)

lemma elems_new [simp]: "elems (bs_new N) = {}"
  by (auto simp: elems_def bs_new_def index_div_less)

lemma elems_clear [simp]: "elems (bs_clear s) = {}"
  by (auto simp: elems_def bs_clear_def index_div_less)

lemma get_iff: "i < bs_N s * 8 \<Longrightarrow> bs_get s i = Inr (i \<in> elems s)"
  by (simp add: bs_get_def elems_def and_push_bit_one_neq_0 del: push_bit_of_1)

lemma same_bit_index: "i div 8 = j div 8 \<Longrightarrow> i mod 8 = j mod 8 \<longleftrightarrow> i = (j :: nat)"
  by (metis mod_div_mult_eq)

lemma bs_insert_elems:
  assumes "bs_insert s i = Inr s'"
  shows "elems s' = insert i (elems s) \<and> bs_N s' = bs_N s"
proof -
  from assms have i: "i < bs_N s * 8" and s': "s' = s\<lparr>bs_bytes := (bs_bytes s)[i div 8 :=
      bs_bytes s ! (i div 8) OR push_bit (i mod 8) 1]\<rparr>"
    by (auto simp: bs_insert_def split: if_splits)
  have "j \<in> elems s' \<longleftrightarrow> j = i \<or> j \<in> elems s" for j
    using i same_bit_index [of i j] unfolding s' elems_def
    by (cases "i div 8 = j div 8")
      (auto simp: nth_list_update index_div_less bit_or_iff bit_exp_iff)
  then show ?thesis using s' by auto
qed

lemma bs_remove_elems:
  assumes "bs_remove s i = Inr s'"
  shows "elems s' = elems s - {i} \<and> bs_N s' = bs_N s"
proof -
  from assms have i: "i < bs_N s * 8" and s': "s' = s\<lparr>bs_bytes := (bs_bytes s)[i div 8 :=
      bs_bytes s ! (i div 8) AND NOT (push_bit (i mod 8) 1)]\<rparr>"
    by (auto simp: bs_remove_def split: if_splits)
  have "j \<in> elems s' \<longleftrightarrow> j \<noteq> i \<and> j \<in> elems s" for j
    using i same_bit_index [of i j] unfolding s' elems_def
    by (cases "i div 8 = j div 8")
      (auto simp: nth_list_update index_div_less bit_and_iff bit_not_iff bit_exp_iff)
  then show ?thesis using s' by auto
qed

lemma bs_symmetric_difference_elems:
  assumes "bs_N s = bs_N t"
  shows "elems (bs_symmetric_difference s t) = (elems s - elems t) \<union> (elems t - elems s)"
  using assms
  by (auto simp: elems_def bs_symmetric_difference_def index_div_less bit_xor_iff)

lemma it_collect_from:
  "it_end it \<le> bs_N (it_set it) * 8 \<Longrightarrow>
   it_collect it = Inr (filter (\<lambda>i. i \<in> elems (it_set it)) [it_start it..<it_end it])"
proof (induction "it_end it - it_start it" arbitrary: it rule: less_induct)
  case (less it)
  show ?case
  proof (cases "it_start it < it_end it")
    case True
    let ?it' = "it\<lparr>it_start := Suc (it_start it)\<rparr>"
    have get: "bs_get (it_set it) (it_start it) = Inr (it_start it \<in> elems (it_set it))"
      using True less.prems by (intro get_iff) simp
    have IH: "it_collect ?it' = Inr (filter (\<lambda>i. i \<in> elems (it_set it)) [Suc (it_start it)..<it_end it])"
      using less.hyps [of ?it'] less.prems True by simp
    show ?thesis
    proof (cases "it_start it \<in> elems (it_set it)")
      case mem: True
      then have "it_next it = Inr (Some (it_start it), ?it')"
        using True get by (simp add: it_next.simps [of it] Let_def)
      with IH True mem show ?thesis
        by (simp add: it_collect.simps [of it] upt_conv_Cons)
    next
      case False
      then have "it_next it = it_next ?it'"
        using True get by (simp add: it_next.simps [of it])
      then have "it_collect it = it_collect ?it'"
        by (simp add: it_collect.simps [of it] it_collect.simps [of ?it'])
      with IH True False show ?thesis by (simp add: upt_conv_Cons)
    qed
  qed (simp add: it_collect.simps [of it] it_next.simps [of it])
qed

lemma bs_iter_collect:
  "it_collect (bs_iter s) = Inr (sorted_list_of_set (elems s))"
proof -
  have "it_collect (bs_iter s) = Inr (filter (\<lambda>i. i \<in> elems s) [0..<bs_N s * 8])"
    by (subst it_collect_from) (simp_all add: bs_iter_def)
  moreover have "sorted_list_of_set (set (filter (\<lambda>i. i \<in> elems s) [0..<bs_N s * 8]))
      = filter (\<lambda>i. i \<in> elems s) [0..<bs_N s * 8]"
    by (rule sorted_list_of_set.idem_if_sorted_distinct) (simp_all add: sorted_wrt_filter)
  moreover have "set (filter (\<lambda>i. i \<in> elems s) [0..<bs_N s * 8]) = elems s"
    by (auto simp: elems_def)
  ultimately show ?thesis by simp
qed

subsection \<open>The interface\<close>

text \<open>
  What a client may rely on: every operation in terms of the represented set and a fixed capacity.
  \<open>changed\<close> is the loop of the keyboard driver over the symmetric difference of two
  snapshots.
\<close>

locale index_set =
  fixes mk :: "nat \<Rightarrow> 's"
    and ins :: "'s \<Rightarrow> nat \<Rightarrow> 'e + 's"
    and look :: "'s \<Rightarrow> nat \<Rightarrow> 'e + bool"
    and del :: "'s \<Rightarrow> nat \<Rightarrow> 'e + 's"
    and symdiff :: "'s \<Rightarrow> 's \<Rightarrow> 's"
    and drain :: "'s \<Rightarrow> nat list res"
    and cap :: "'s \<Rightarrow> nat"
    and abs :: "'s \<Rightarrow> nat set"
  assumes mk_abs: "abs (mk n) = {}" "cap (mk n) = n * 8"
    and abs_bound: "i \<in> abs s \<Longrightarrow> i < cap s"
    and ins_ok: "i < cap s \<Longrightarrow> \<exists>s'. ins s i = Inr s' \<and> abs s' = insert i (abs s) \<and> cap s' = cap s"
    and ins_out: "cap s \<le> i \<Longrightarrow> \<exists>e. ins s i = Inl e"
    and look_ok: "i < cap s \<Longrightarrow> look s i = Inr (i \<in> abs s)"
    and del_ok: "i < cap s \<Longrightarrow> \<exists>s'. del s i = Inr s' \<and> abs s' = abs s - {i} \<and> cap s' = cap s"
    and symdiff_abs: "cap s = cap t \<Longrightarrow> abs (symdiff s t) = (abs s - abs t) \<union> (abs t - abs s)"
    and symdiff_cap: "cap s = cap t \<Longrightarrow> cap (symdiff s t) = cap s"
    and drain_ok: "drain s = Inr (sorted_list_of_set (abs s))"
begin

lemma finite_abs: "finite (abs s)"
  by (rule finite_subset [of _ "{..<cap s}"]) (auto dest: abs_bound)

lemma changed_iff:
  assumes "cap s = cap t"
  shows "\<exists>xs. drain (symdiff s t) = Inr xs \<and> distinct xs \<and> sorted xs \<and>
    set xs = {i. (i \<in> abs s) \<noteq> (i \<in> abs t)}"
proof -
  have "{i. (i \<in> abs s) \<noteq> (i \<in> abs t)} = abs (symdiff s t)"
    using assms by (auto simp: symdiff_abs)
  moreover have "finite (abs (symdiff s t))" by (rule finite_abs)
  ultimately show ?thesis by (simp add: drain_ok)
qed

lemma look_after_ins:
  assumes "i < cap s" "ins s i = Inr s'" "j < cap s"
  shows "look s' j = Inr (j = i \<or> j \<in> abs s)"
  using assms ins_ok [of i s] look_ok [of j s'] by auto

end

interpretation bitset: index_set bs_new bs_insert bs_get bs_remove bs_symmetric_difference
  "\<lambda>s. it_collect (bs_iter s)" "\<lambda>s. bs_N s * 8" elems
proof (standard, goal_cases)
  case (2 n) show ?case by (simp add: bs_new_def)
next
  case (3 i s) then show ?case by (simp add: elems_def)
next
  case (4 i s)
  then obtain s' where s': "bs_insert s i = Inr s'" by (simp add: bs_insert_def)
  then show ?case using bs_insert_elems [OF s'] by simp
next
  case (5 s i) then show ?case by (simp add: bs_insert_def)
next
  case (7 i s)
  then obtain s' where s': "bs_remove s i = Inr s'" by (simp add: bs_remove_def)
  then show ?case using bs_remove_elems [OF s'] by simp
next
  case (9 s t) then show ?case by (simp add: bs_symmetric_difference_def)
qed (simp_all add: get_iff bs_symmetric_difference_elems bs_iter_collect)

end
