(* ===== verification/Usb_Hid.thy ===== *)
theory Usb_Hid
  imports Xhci_Ctrl Bit_Set
begin

text \<open>
  The keyboard driver of \<open>os/src/usb_hid_keyboard.rs\<close>, the tablet driver of \<open>os/src/usb_hid_tablet.rs\<close>, the input
  queues of \<open>os/src/input.rs\<close> and the mouse state of \<open>sabi/src/lib.rs\<close>.  A report of the keyboard names the keys
  that are down; the driver compares it with the one before through the set interface of \<open>Bit_Set\<close>, and the lemmas
  show that the characters it queues are those of the keys that went down, in the order of their usage codes.
  The position of the tablet is computed in floating point: a product of a 16-bit value, a power of two and a screen
  width is exact there, and it is written as integer arithmetic here.
\<close>

subsection \<open>Input queues\<close>

datatype KeyEvent = KeyNone | KeyChar char | KeyEnter

fun to_char :: "KeyEvent \<Rightarrow> char option" where
  "to_char (KeyChar c) = Some c"
| "to_char KeyEnter = Some (CHR 0x0A)"
| "to_char KeyNone = None"

record mouse_event =
  mouse_button :: u64
  mouse_x :: int
  mouse_y :: int

record input_manager =
  input_queue :: "char list"
  cursor_queue :: "mouse_event list"

definition push_input :: "char \<Rightarrow> input_manager \<Rightarrow> input_manager" where
  "push_input c m = m\<lparr>input_queue := input_queue m @ [c]\<rparr>"

definition pop_input :: "input_manager \<Rightarrow> input_manager \<times> char option" where
  "pop_input m = (case input_queue m of [] \<Rightarrow> (m, None) | c # q \<Rightarrow> (m\<lparr>input_queue := q\<rparr>, Some c))"

definition push_cursor_input_absolute :: "mouse_event \<Rightarrow> input_manager \<Rightarrow> input_manager" where
  "push_cursor_input_absolute e m = m\<lparr>cursor_queue := cursor_queue m @ [e]\<rparr>"

definition pop_cursor_input_absolute :: "input_manager \<Rightarrow> input_manager \<times> mouse_event option" where
  "pop_cursor_input_absolute m =
     (case cursor_queue m of [] \<Rightarrow> (m, None) | e # q \<Rightarrow> (m\<lparr>cursor_queue := q\<rparr>, Some e))"

subsection \<open>Keys\<close>

definition usage_id_to_char :: "u8 \<Rightarrow> KeyEvent res" where
  "usage_id_to_char usage_id =
     (let n = unat usage_id
      in if n = 0 then Inr KeyNone
         else if 4 \<le> n \<and> n \<le> 29 then Inr (KeyChar (char_of (97 + n - 4)))
         else if 30 \<le> n \<and> n \<le> 39 then Inr (KeyChar (char_of (48 + (n + 1) mod 10)))
         else if n = 40 then Inr KeyEnter
         else if n = 42 then Inr (KeyChar (CHR 0x08))
         else if n = 44 then Inr (KeyChar (CHR '' ''))
         else if n = 45 then Inr (KeyChar (CHR ''-''))
         else if n = 51 then Inr (KeyChar (CHR '':''))
         else if n = 54 then Inr (KeyChar (CHR '',''))
         else if n = 55 then Inr (KeyChar (CHR ''.''))
         else if n = 56 then Inr (KeyChar (CHR ''/''))
         else Inl (Err (FailedString ''Unhandled USB HID Keyboard Usage ID'')))"

fun insert_all :: "bytes \<Rightarrow> bit_set \<Rightarrow> bit_set res" where
  "insert_all [] s = Inr s"
| "insert_all (v # vs) s =
     (case bs_insert s (unat v) of
        Inl _ \<Rightarrow> Inl (Panic ''unwrap on Err'')
      | Inr s' \<Rightarrow> insert_all vs s')"

definition key_pressed :: "bit_set \<Rightarrow> nat \<Rightarrow> input_manager \<Rightarrow> input_manager" where
  "key_pressed prev n m =
     (case usage_id_to_char (word_of_nat n) of
        Inl _ \<Rightarrow> m
      | Inr c \<Rightarrow>
          if \<not> (case bs_get prev n of Inl _ \<Rightarrow> False | Inr b \<Rightarrow> b)
          then (if c = KeyNone then m else (case to_char c of Some ch \<Rightarrow> push_input ch m | None \<Rightarrow> m))
          else m)"

definition keyboard_report :: "bytes \<Rightarrow> bit_set \<times> input_manager \<Rightarrow> (bit_set \<times> input_manager) res" where
  "keyboard_report report = (\<lambda>(prev, m).
     and_then (insert_all (drop 2 report) (bs_new 32)) (\<lambda>next.
     and_then (it_collect (bs_iter (bs_symmetric_difference prev next))) (\<lambda>change.
     Inr (next, fold (key_pressed prev) change m))))"

subsection \<open>The main loop of the keyboard\<close>

text \<open>
  \<open>peek\<close> is the memory as the driver reads it, eight bytes at a time: the first word of the block that the event
  names is the address of the buffer with the report.  \<open>v\<close> is the port register at the end of the turn.
\<close>

record keyboard =
  kb_xhc :: controller
  kb_slot :: u8
  kb_rings :: "transfer_ring option list"
  kb_prev :: bit_set
  kb_input :: input_manager

text \<open>The end of both drivers' initialisation: the rings of the chosen endpoints are handed to the controller.\<close>

definition start_endpoint :: "endpoint_descriptor \<Rightarrow> (keyboard, unit) act" where
  "start_endpoint d k =
     (case nth_opt (kb_rings k) (ep_dci d) of
        None \<Rightarrow> (k, Inl (Err (Failed ''dci out of range for ep_rings'')))
      | Some None \<Rightarrow> (k, Inl (Err (Failed ''Endpoint not created'')))
      | Some (Some tring) \<Rightarrow>
          (case fill_ring tring of (tring', x) \<Rightarrow>
             act_then (lift_res x) (\<lambda>_ k.
               case notify_ep (kb_slot k) (ep_dci d) (kb_xhc k) of (c, y) \<Rightarrow> (k\<lparr>kb_xhc := c\<rparr>, y))
             (k\<lparr>kb_rings := (kb_rings k)[ep_dci d := Some tring']\<rparr>)))"

definition start_endpoints :: "endpoint_descriptor list \<Rightarrow> (keyboard, unit) act" where
  "start_endpoints = for_each start_endpoint"

definition return_trb :: "generic_trb \<Rightarrow> (keyboard, unit) act" where
  "return_trb t k =
     (case nth_opt (kb_rings k) (dci t) of
        None \<Rightarrow> (k, Inl (Err (Failed ''dci out of range for ep_rings'')))
      | Some None \<Rightarrow> (k, Inr ())
      | Some (Some tring) \<Rightarrow>
          (case dequeue_trb (unat (trb_data t)) tring of (tring', x) \<Rightarrow>
             act_then (lift_res x) (\<lambda>_ k.
               case notify_ep (kb_slot k) (dci t) (kb_xhc k) of (c, y) \<Rightarrow> (k\<lparr>kb_xhc := c\<rparr>, y))
             (k\<lparr>kb_rings := (kb_rings k)[dci t := Some tring']\<rparr>)))"

definition keyboard_event :: "(u64 \<Rightarrow> bytes) \<Rightarrow> u32 \<Rightarrow> generic_trb \<Rightarrow> (keyboard, unit) act" where
  "keyboard_event peek v t =
     (let report = peek (word_le (peek (trb_data t)))
      in act_then (return_trb t) (\<lambda>_.
         act_then (\<lambda>k. case keyboard_report report (kb_prev k, kb_input k) of
              Inl e \<Rightarrow> (k, Inl e)
            | Inr (s, m) \<Rightarrow> (k\<lparr>kb_prev := s, kb_input := m\<rparr>, Inr ())) (\<lambda>_ k.
         if ccs v then (k, Inr ()) else (k, Inl (Err (FailedString ''port disconnected''))))))"

subsection \<open>The tablet\<close>

definition MOUSE_BUTTON_L :: u64 where "MOUSE_BUTTON_L = push_bit 0 1"
definition MOUSE_BUTTON_C :: u64 where "MOUSE_BUTTON_C = push_bit 1 1"
definition MOUSE_BUTTON_R :: u64 where "MOUSE_BUTTON_R = push_bit 2 1"

definition from_lcr :: "bool \<Rightarrow> bool \<Rightarrow> bool \<Rightarrow> u64" where
  "from_lcr l r c = MOUSE_BUTTON_L * of_bool l + MOUSE_BUTTON_C * of_bool c + MOUSE_BUTTON_R * of_bool r"

definition button_l :: "u64 \<Rightarrow> bool" where "button_l b \<longleftrightarrow> b AND MOUSE_BUTTON_L \<noteq> 0"
definition button_c :: "u64 \<Rightarrow> bool" where "button_c b \<longleftrightarrow> b AND MOUSE_BUTTON_C \<noteq> 0"
definition button_r :: "u64 \<Rightarrow> bool" where "button_r b \<longleftrightarrow> b AND MOUSE_BUTTON_R \<noteq> 0"

definition scale_to :: "nat \<Rightarrow> nat \<Rightarrow> nat res" where
  "scale_to width p =
     (if width = 0 then Inl (Panic ''clamp: min > max'') else Inr (min (p * width div 32768) (width - 1)))"

definition tablet_report :: "nat \<Rightarrow> nat \<Rightarrow> bytes \<Rightarrow> input_manager \<Rightarrow> input_manager res" where
  "tablet_report w h report m =
     and_then (index_at report 0) (\<lambda>b.
       let l = b AND 1 \<noteq> 0; r = b AND 2 \<noteq> 0; c = b AND 4 \<noteq> 0;
           button = from_lcr l c r
       in and_then (index_at report 1) (\<lambda>x0. and_then (index_at report 2) (\<lambda>x1.
          and_then (index_at report 3) (\<lambda>y0. and_then (index_at report 4) (\<lambda>y1.
          and_then (scale_to w (unat (word_le [x0, x1] :: u16))) (\<lambda>px.
          and_then (scale_to h (unat (word_le [y0, y1] :: u16))) (\<lambda>py.
          Inr (push_cursor_input_absolute
                 \<lparr>mouse_button = button, mouse_x = int px, mouse_y = int py\<rparr> m))))))))"

subsection \<open>What a report types\<close>

lemma insert_all_ok:
  "bs_N s = 32 \<Longrightarrow> \<exists>s'. insert_all vs s = Inr s' \<and> bs_N s' = 32 \<and> elems s' = elems s \<union> unat ` set vs"
proof (induction vs arbitrary: s)
  case (Cons v vs)
  have "unat v < bs_N s * 8" using Cons.prems unsigned_less [of v] by simp
  then obtain s1 where s1: "bs_insert s (unat v) = Inr s1" "elems s1 = insert (unat v) (elems s)" "bs_N s1 = 32"
    using bitset.ins_ok [of "unat v" s] Cons.prems by auto
  with Cons.IH [of s1] show ?case by auto
qed simp

definition typed :: "nat \<Rightarrow> char list" where
  "typed n = (case usage_id_to_char (word_of_nat n) of
     Inr c \<Rightarrow> (case to_char c of Some ch \<Rightarrow> [ch] | None \<Rightarrow> []) | Inl _ \<Rightarrow> [])"

lemma key_pressed_eq:
  assumes "n < bs_N prev * 8"
  shows "key_pressed prev n m = (if n \<in> elems prev then m else m\<lparr>input_queue := input_queue m @ typed n\<rparr>)"
  using assms
  by (auto simp: key_pressed_def typed_def get_iff push_input_def split: sum.split option.split)

lemma fold_key_pressed:
  assumes "\<And>n. n \<in> set ns \<Longrightarrow> n < bs_N prev * 8"
  shows "fold (key_pressed prev) ns m =
    m\<lparr>input_queue := input_queue m @ concat (map typed (filter (\<lambda>n. n \<notin> elems prev) ns))\<rparr>"
  using assms
proof (induction ns arbitrary: m)
  case (Cons n ns)
  then show ?case by (simp add: key_pressed_eq)
qed simp

lemma filter_sorted_list_of_set:
  "finite A \<Longrightarrow> filter P (sorted_list_of_set A) = sorted_list_of_set {x \<in> A. P x}" for A :: "nat set"
proof -
  assume "finite A"
  then have "sorted_list_of_set (set (filter P (sorted_list_of_set A))) = filter P (sorted_list_of_set A)"
    by (intro sorted_list_of_set.idem_if_sorted_distinct) (simp_all add: sorted_wrt_filter)
  with \<open>finite A\<close> show ?thesis by (simp add: Collect_conj_eq Int_commute)
qed

text \<open>
  The driver's comparison of two snapshots against its meaning: the keys of the report that were not down before,
  in increasing order.
\<close>

lemma keyboard_report_ok:
  assumes "bs_N prev = 32"
  shows "\<exists>next. keyboard_report report (prev, m) =
      Inr (next, m\<lparr>input_queue := input_queue m @
        concat (map typed (sorted_list_of_set (unat ` set (drop 2 report) - elems prev)))\<rparr>) \<and>
    bs_N next = 32 \<and> elems next = unat ` set (drop 2 report)"
proof -
  obtain nxt where n: "insert_all (drop 2 report) (bs_new 32) = Inr nxt" "bs_N nxt = 32"
      "elems nxt = unat ` set (drop 2 report)"
    using insert_all_ok [of "bs_new 32" "drop 2 report"] by (auto simp: bs_new_def elems_new [unfolded bs_new_def])
  let ?c = "elems (bs_symmetric_difference prev nxt)"
  have c: "?c = (elems prev - elems nxt) \<union> (elems nxt - elems prev)"
    using assms n(2) by (simp add: bs_symmetric_difference_elems)
  have fin: "finite ?c" by (rule bitset.finite_abs)
  have "{k \<in> ?c. k \<notin> elems prev} = elems nxt - elems prev" using c by auto
  then have "filter (\<lambda>k. k \<notin> elems prev) (sorted_list_of_set ?c) = sorted_list_of_set (elems nxt - elems prev)"
    by (simp only: filter_sorted_list_of_set [OF fin])
  moreover have "k < bs_N prev * 8" if "k \<in> set (sorted_list_of_set ?c)" for k
    using that fin c assms n(2) bitset.abs_bound [of k prev] bitset.abs_bound [of k nxt] by auto
  ultimately show ?thesis
    using n by (simp add: keyboard_report_def bs_iter_collect fold_key_pressed)
qed

lemma dci_bound: "dci t < 32"
proof -
  have "dci t = unat (trb_control t) div 2 ^ 16 mod 2 ^ 5"
    unfolding dci_def by (rule extract_bits_arith) simp_all
  then show ?thesis by simp
qed

text \<open>
  A turn of the keyboard's loop, on the event of the oldest block that is with the controller: the block goes
  back to the controller, whose doorbell is rung for the endpoint, and the keys that went down are queued.
\<close>

lemma keyboard_event_ok:
  assumes k: "length (kb_rings k) = 32" "kb_rings k ! dci t = Some tr" "bs_N (kb_prev k) = 32"
      "unat (kb_slot k) < length (c_doorbells (kb_xhc k))"
    and tr: "transfer_inv tr" "unat (trb_data t) = ring_base (cmd_ring (tr_prod tr)) + 16 * dequeue_index tr"
    and "ccs v"
  shows "\<exists>k' tr'. keyboard_event peek v t k = (k', Inr ()) \<and> kb_rings k' = (kb_rings k)[dci t := Some tr'] \<and>
    transfer_inv tr' \<and> dequeue_index tr' = (dequeue_index tr + 1) mod 15 \<and>
    c_doorbells (kb_xhc k') = (c_doorbells (kb_xhc k))[unat (kb_slot k) := word_of_nat (dci t)] \<and>
    (let down = unat ` set (drop 2 (peek (word_le (peek (trb_data t))))) in
      elems (kb_prev k') = down \<and> bs_N (kb_prev k') = 32 \<and>
      input_queue (kb_input k') = input_queue (kb_input k) @
        concat (map typed (sorted_list_of_set (down - elems (kb_prev k)))))"
proof -
  let ?r = "peek (word_le (peek (trb_data t)))"
  obtain tr' where tr': "dequeue_trb (unat (trb_data t)) tr = (tr', Inr ())" "transfer_inv tr'"
      "dequeue_index tr' = (dequeue_index tr + 1) mod 15"
    using dequeue_trb_ok [OF tr] by blast
  obtain nxt where n: "keyboard_report ?r (kb_prev k, kb_input k) =
      Inr (nxt, (kb_input k)\<lparr>input_queue := input_queue (kb_input k) @
        concat (map typed (sorted_list_of_set (unat ` set (drop 2 ?r) - elems (kb_prev k))))\<rparr>)"
      "bs_N nxt = 32" "elems nxt = unat ` set (drop 2 ?r)"
    using keyboard_report_ok [OF k(3)] by blast
  have d: "doorbell_value (word_of_nat (dci t)) 0 = word_of_nat (dci t)"
    using dci_bound [of t] by (simp add: doorbell_value_def unsigned_of_nat take_bit_nat_eq_self)
  define x where "x = (kb_xhc k)\<lparr>c_doorbells := (c_doorbells (kb_xhc k))[unat (kb_slot k) := word_of_nat (dci t)]\<rparr>"
  have "notify_ep (kb_slot k) (dci t) (kb_xhc k) = (x, Inr ())"
    using k(4) dci_bound [of t] d by (simp add: notify_ep_def x_def)
  then have "return_trb t k = (k\<lparr>kb_rings := (kb_rings k)[dci t := Some tr'], kb_xhc := x\<rparr>, Inr ())"
    using tr'(1) k(1,2) dci_bound [of t] by (simp add: return_trb_def nth_opt_def)
  with n assms(7) tr' show ?thesis by (simp add: keyboard_event_def Let_def x_def) blast
qed

lemma start_endpoint_ok:
  assumes "length (kb_rings k) = 32" "kb_rings k ! ep_dci d = Some tr" "producer_inv (tr_prod tr)"
      "current_index (cmd_ring (tr_prod tr)) = 0" "dequeue_index tr = 0"
      "unat (kb_slot k) < length (c_doorbells (kb_xhc k))"
  shows "\<exists>k' tr'. start_endpoint d k = (k', Inr ()) \<and> kb_rings k' = (kb_rings k)[ep_dci d := Some tr'] \<and>
    transfer_inv tr' \<and> dequeue_index tr' = 0 \<and>
    c_doorbells (kb_xhc k') = (c_doorbells (kb_xhc k))[unat (kb_slot k) := word_of_nat (ep_dci d)]"
proof -
  obtain c where "fill_loop (tr_prod tr) = (c, Inr ())" "producer_inv c" "current_index (cmd_ring c) = 11"
    using fill_loop_ok [OF assms(3)] assms(4) by auto
  then have "fill_ring tr = (tr\<lparr>tr_prod := c\<rparr>, Inr ())" "transfer_inv (tr\<lparr>tr_prod := c\<rparr>)"
    using assms(5) by (simp_all add: fill_ring_def with_prod_def transfer_inv_def)
  moreover have "doorbell_value (word_of_nat (ep_dci d)) 0 = word_of_nat (ep_dci d)"
    using ep_dci_bound [of d] by (simp add: doorbell_value_def unsigned_of_nat take_bit_nat_eq_self)
  ultimately show ?thesis
    using assms ep_dci_bound [of d] by (simp add: start_endpoint_def nth_opt_def notify_ep_def)
      (metis (no_types, lifting) transfer_ring.select_convs(2) transfer_ring.update_convs(1) transfer_ring.surjective)
qed

subsection \<open>Typing and pointing\<close>

lemma usage_letter: "4 \<le> n \<Longrightarrow> n \<le> 29 \<Longrightarrow> typed n = [char_of (n + 93)]"
  by (simp add: typed_def usage_id_to_char_def unat_of_nat take_bit_nat_eq_self)

lemma usage_digit: "30 \<le> n \<Longrightarrow> n \<le> 39 \<Longrightarrow> typed n = [char_of (48 + (n - 29) mod 10)]"
proof -
  assume "30 \<le> n" "n \<le> 39"
  then have "n + 1 = (n - 29) + 10 * 3" by simp
  then have "(n + 1) mod 10 = (n - 29) mod 10" by (simp only: mod_mult_self2)
  with \<open>30 \<le> n\<close> \<open>n \<le> 39\<close> show ?thesis
    by (simp add: typed_def usage_id_to_char_def unat_of_nat take_bit_nat_eq_self)
qed

text \<open>The pointer stays on the screen.\<close>

lemma scale_to_bound: "0 < w \<Longrightarrow> \<exists>x. scale_to w p = Inr x \<and> x < w"
  by (auto simp: scale_to_def min_def)

lemma scale_to_mono: "scale_to w p = Inr x \<Longrightarrow> scale_to w q = Inr y \<Longrightarrow> p \<le> q \<Longrightarrow> x \<le> y"
  by (auto simp: scale_to_def split: if_splits intro!: min.mono div_le_mono mult_le_mono1)

text \<open>
  The constructor of the button state takes its arguments in the order left, right, centre, and the tablet
  driver passes left, centre, right: the right button is reported as the centre one and the other way round.
\<close>

lemma tablet_buttons:
  assumes "tablet_report w h report m = Inr m'" "cursor_queue m = []"
  shows "\<exists>e. cursor_queue m' = [e] \<and> button_l (mouse_button e) = bit (report ! 0) 0 \<and>
    button_c (mouse_button e) = bit (report ! 0) 1 \<and> button_r (mouse_button e) = bit (report ! 0) 2"
proof -
  have b: "(b AND 1 \<noteq> 0) = bit b 0" "(b AND 2 \<noteq> 0) = bit b 1" "(b AND 4 \<noteq> 0) = bit b 2" for b :: u8
    using and_push_bit_one_neq_0 [of 0 b] and_push_bit_one_neq_0 [of 1 b] and_push_bit_one_neq_0 [of 2 b]
    by simp_all
  have "button_l (from_lcr l r c) = l" "button_c (from_lcr l r c) = c" "button_r (from_lcr l r c) = r" for l r c
    by (cases l; cases r; cases c; simp add: from_lcr_def button_l_def button_c_def button_r_def
        MOUSE_BUTTON_L_def MOUSE_BUTTON_C_def MOUSE_BUTTON_R_def)+
  with assms b show ?thesis
    by (auto simp: tablet_report_def res_simps Let_def push_cursor_input_absolute_def)
qed

end
