(* ===== verification/Executor.thy ===== *)
theory Executor
  imports Util
begin

text \<open>
  Cooperative tasks: \<open>os/src/executor.rs\<close>.  A future is a state with a poll function: \<open>poll f w\<close> is the future
  after the poll, the world after it and the result, if it is ready.  A task that spawns others returns them with its poll,
  in the order of the calls of \<open>spawn_global\<close>.  The lemmas show that the executor polls its tasks in turn, each
  once in a round; that tasks which end do leave the queue empty; that \<open>block_on\<close> returns the result of a future
  that becomes ready; and what \<open>with_timeout_ms\<close> returns.
\<close>

datatype 'r poll = Ready 'r | Pending

type_synonym ('f, 'w, 'r) future = "'f \<Rightarrow> 'w \<Rightarrow> 'f \<times> 'w \<times> 'r poll"

subsection \<open>Futures\<close>

record yield_future =
  polled :: bool

definition yield_default :: yield_future where
  "yield_default = \<lparr>polled = False\<rparr>"

definition yield_poll :: "(yield_future, 'w, unit) future" where
  "yield_poll y w = (y\<lparr>polled := True\<rparr>, w, if polled y then Ready () else Pending)"

text \<open>\<open>counter w\<close> is the main counter of the timer.\<close>

record timeout_future =
  time_out :: u64

definition timeout_new_ms :: "u64 \<Rightarrow> u64 \<Rightarrow> u64 \<Rightarrow> timeout_future res" where
  "timeout_new_ms main_counter freq timeout_ms =
     and_then (usize_mul (unat freq div 1000) (unat timeout_ms)) (\<lambda>d.
     and_then (usize_add (unat main_counter) d) (\<lambda>t. Inr \<lparr>time_out = word_of_nat t\<rparr>))"

definition timeout_poll :: "('w \<Rightarrow> u64) \<Rightarrow> (timeout_future, 'w, unit) future" where
  "timeout_poll counter t w = (t, w, if time_out t < counter w then Ready () else Pending)"

definition select_poll :: "('f, 'w, 'a) future \<Rightarrow> ('g, 'w, 'b) future \<Rightarrow> ('f \<times> 'g, 'w, 'a option \<times> 'b option) future" where
  "select_poll pl pr s w =
     (case pl (fst s) w of
        (f, w, Ready l) \<Rightarrow> ((f, snd s), w, Ready (Some l, None))
      | (f, w, Pending) \<Rightarrow>
          (case pr (snd s) w of
             (g, w, Ready r) \<Rightarrow> ((f, g), w, Ready (None, Some r))
           | (g, w, Pending) \<Rightarrow> ((f, g), w, Pending)))"

text \<open>The future of \<open>with_timeout_ms\<close> after its timer has been set.\<close>

definition with_timeout_poll :: "('w \<Rightarrow> u64) \<Rightarrow> ('f, 'w, 'r) future \<Rightarrow> (timeout_future \<times> 'f, 'w, 'r res) future" where
  "with_timeout_poll counter pf s w =
     (case select_poll (timeout_poll counter) pf s w of
        (s, w, Pending) \<Rightarrow> (s, w, Pending)
      | (s, w, Ready (_, r)) \<Rightarrow> (s, w, Ready (ok_or r (Failed ''Timed out''))))"

subsection \<open>Waiting for one future\<close>

text \<open>The loops of \<open>block_on\<close> and \<open>block_on_and_schedule\<close>: \<open>between\<close> is what happens between two polls.  The loop
  may not end; \<open>fuel\<close> bounds the polls.\<close>

fun block_on_loop :: "nat \<Rightarrow> ('w \<Rightarrow> 'w) \<Rightarrow> ('f, 'w, 'r res) future \<Rightarrow> 'f \<Rightarrow> 'w \<Rightarrow> 'w \<times> 'r res" where
  "block_on_loop 0 between poll f w = (w, Inl NoReturn)"
| "block_on_loop (Suc fuel) between poll f w =
     (case poll f w of
        (f, w, Ready r) \<Rightarrow> (w, r)
      | (f, w, Pending) \<Rightarrow> block_on_loop fuel between poll f (between w))"

definition block_on :: "nat \<Rightarrow> ('f, 'w, 'r res) future \<Rightarrow> 'f \<Rightarrow> 'w \<Rightarrow> 'w \<times> 'r res" where
  "block_on fuel poll f w = block_on_loop fuel (\<lambda>w. w) poll f w"

definition block_on_and_schedule :: "nat \<Rightarrow> ('w \<Rightarrow> 'w) \<Rightarrow> ('f, 'w, 'r res) future \<Rightarrow> 'f \<Rightarrow> 'w \<Rightarrow> 'w \<times> 'r res" where
  "block_on_and_schedule fuel switch poll f w = block_on_loop fuel switch poll f w"

subsection \<open>The executor\<close>

record 't executor =
  task_queue :: "'t list option"

definition executor_default :: "'t executor" where
  "executor_default = \<lparr>task_queue = None\<rparr>"

definition queue_of :: "'t executor \<Rightarrow> 't list" where
  "queue_of e = (case task_queue e of None \<Rightarrow> [] | Some q \<Rightarrow> q)"

definition executor_spawn :: "'t \<Rightarrow> 't executor \<Rightarrow> 't executor" where
  "executor_spawn t e = e\<lparr>task_queue := Some (queue_of e @ [t])\<rparr>"

text \<open>What one poll of a task gives: the task, the world, the tasks it spawned and whether it is complete.\<close>

type_synonym ('t, 'w) task = "'t \<Rightarrow> 'w \<Rightarrow> 't \<times> 'w \<times> 't list \<times> bool"

definition executor_poll :: "('t, 'w) task \<Rightarrow> 't executor \<times> 'w \<Rightarrow> 't executor \<times> 'w" where
  "executor_poll pf s =
     (let e = (fst s)\<lparr>task_queue := Some (queue_of (fst s))\<rparr> in
      case queue_of e of
        [] \<Rightarrow> (e, snd s)
      | t # ts \<Rightarrow>
          (case pf t (snd s) of (t, w, new, done) \<Rightarrow>
             let e = fold executor_spawn new (e\<lparr>task_queue := Some ts\<rparr>)
             in (if done then e else executor_spawn t e, w)))"

text \<open>\<open>n\<close> turns of \<open>run_global_poll_loop\<close>, which never ends.\<close>

fun executor_polls :: "('t, 'w) task \<Rightarrow> nat \<Rightarrow> 't executor \<times> 'w \<Rightarrow> 't executor \<times> 'w" where
  "executor_polls pf 0 s = s"
| "executor_polls pf (Suc n) s = executor_polls pf n (executor_poll pf s)"

subsection \<open>Rounds\<close>

lemma queue_of_spawns: "queue_of (fold executor_spawn new e) = queue_of e @ new"
  by (induction new arbitrary: e) (simp_all add: executor_spawn_def queue_of_def)

lemma queue_of_poll:
  "queue_of (fst (executor_poll pf s)) =
     (case queue_of (fst s) of [] \<Rightarrow> []
      | t # ts \<Rightarrow> (case pf t (snd s) of (t, w, new, done) \<Rightarrow> ts @ new @ (if done then [] else [t])))"
  "snd (executor_poll pf s) = (case queue_of (fst s) of [] \<Rightarrow> snd s | t # ts \<Rightarrow> fst (snd (pf t (snd s))))"
  by (auto simp: executor_poll_def Let_def queue_of_spawns executor_spawn_def queue_of_def [of "executor.task_queue_update _ _"]
      split: list.splits prod.splits option.splits)

text \<open>A round: the tasks of a list are polled once each, in order; what they spawn goes before their own return to the
  queue.\<close>

fun sweep :: "('t, 'w) task \<Rightarrow> 't list \<Rightarrow> 'w \<Rightarrow> 't list \<times> 'w" where
  "sweep pf [] w = ([], w)"
| "sweep pf (t # ts) w =
     (case pf t w of (t, w, new, done) \<Rightarrow>
        case sweep pf ts w of (q, w) \<Rightarrow> (new @ (if done then [] else [t]) @ q, w))"

lemma polls_sweep:
  "queue_of e = ts @ us \<Longrightarrow>
   queue_of (fst (executor_polls pf (length ts) (e, w))) = us @ fst (sweep pf ts w) \<and>
   snd (executor_polls pf (length ts) (e, w)) = snd (sweep pf ts w)"
proof (induction ts arbitrary: e w us)
  case (Cons t ts)
  obtain t' w' new d where p: "pf t w = (t', w', new, d)" by (cases "pf t w")
  obtain e1 w1 where e1: "executor_poll pf (e, w) = (e1, w1)" by (cases "executor_poll pf (e, w)")
  have "queue_of e1 = ts @ us @ new @ (if d then [] else [t'])" "w1 = w'"
    using queue_of_poll [of pf "(e, w)"] Cons.prems p e1 by simp_all
  with Cons.IH [of e1 "us @ new @ (if d then [] else [t'])" w1] p e1 show ?case by (simp split: prod.splits)
qed simp

text \<open>Tasks that end: a poll spawns nothing, and completes the task or brings it nearer to its end.\<close>

definition runs_down :: "('t, 'w) task \<Rightarrow> ('t \<Rightarrow> nat) \<Rightarrow> bool" where
  "runs_down pf rank \<longleftrightarrow> (\<forall>t w. case pf t w of (t', w', new, d) \<Rightarrow> new = [] \<and> (d \<or> rank t' < rank t))"

lemma sweep_rank:
  assumes "runs_down pf rank"
  shows "sum_list (map (\<lambda>t. Suc (rank t)) (fst (sweep pf ts w))) + length ts \<le> sum_list (map (\<lambda>t. Suc (rank t)) ts)"
proof (induction ts arbitrary: w)
  case (Cons t ts)
  obtain t' w' new d where p: "pf t w = (t', w', new, d)" by (cases "pf t w")
  with assms have "new = [] \<and> (d \<or> rank t' < rank t)" unfolding runs_down_def by (metis (mono_tags, lifting) case_prod_conv)
  with Cons [of w'] p show ?case by (auto split: prod.splits)
qed simp

lemma executor_drains:
  assumes "runs_down pf rank"
  shows "sum_list (map (\<lambda>t. Suc (rank t)) (queue_of e)) \<le> n \<Longrightarrow> \<exists>k. queue_of (fst (executor_polls pf k (e, w))) = []"
proof (induction n arbitrary: e w rule: less_induct)
  case (less n)
  let ?q = "queue_of e"
  show ?case
  proof (cases "?q = []")
    case True
    then show ?thesis by (intro exI [of _ 0]) simp
  next
    case False
    obtain e1 w1 where e1: "executor_polls pf (length ?q) (e, w) = (e1, w1)" by (cases "executor_polls pf (length ?q) (e, w)")
    have q1: "queue_of e1 = fst (sweep pf ?q w)" using polls_sweep [of e ?q "[]" pf w] e1 by simp
    have "sum_list (map (\<lambda>t. Suc (rank t)) (queue_of e1)) < n"
      using sweep_rank [OF assms, of ?q w] less.prems False unfolding q1 by (cases ?q) (simp_all del: sweep.simps)
    from less.IH [OF this order_refl, of w1] obtain k where "queue_of (fst (executor_polls pf k (e1, w1))) = []" by blast
    moreover have "executor_polls pf (m + k) s = executor_polls pf k (executor_polls pf m s)" for m s
      by (induction m arbitrary: s) simp_all
    ultimately show ?thesis using e1 by (intro exI [of _ "length ?q + k"]) simp
  qed
qed

subsection \<open>Waiting\<close>

text \<open>A future that is pending for \<open>n\<close> polls and then ready.\<close>

fun ready_after :: "('w \<Rightarrow> 'w) \<Rightarrow> ('f, 'w, 'r) future \<Rightarrow> nat \<Rightarrow> 'f \<Rightarrow> 'w \<Rightarrow> 'w \<Rightarrow> 'r \<Rightarrow> bool" where
  "ready_after between poll 0 f w w' r \<longleftrightarrow> snd (poll f w) = (w', Ready r)"
| "ready_after between poll (Suc n) f w w' r \<longleftrightarrow>
     (case poll f w of (f1, w1, p) \<Rightarrow> p = Pending \<and> ready_after between poll n f1 (between w1) w' r)"

lemma block_on_returns:
  "ready_after between poll n f w w' r \<Longrightarrow> n < fuel \<Longrightarrow> block_on_loop fuel between poll f w = (w', r)"
proof (induction n arbitrary: f w fuel)
  case 0
  then show ?case by (cases fuel) (auto split: prod.splits poll.splits)
next
  case (Suc n)
  then obtain k where "fuel = Suc k" "n < k" by (cases fuel) auto
  with Suc show ?case by (auto split: prod.splits poll.splits)
qed

lemma yield_ready_second: "ready_after (\<lambda>w. w) yield_poll 1 yield_default w w ()"
  by (simp add: yield_poll_def yield_default_def)

text \<open>The timer is looked at first: a result that comes with the poll at which the time is over is lost.\<close>

lemma with_timeout_poll_cases:
  "snd (snd (with_timeout_poll counter pf (t, f) w)) =
     (if time_out t < counter w then Ready (Inl (Err (Failed ''Timed out'')))
      else (case snd (snd (pf f w)) of Ready r \<Rightarrow> Ready (Inr r) | Pending \<Rightarrow> Pending))"
  by (auto simp: with_timeout_poll_def select_poll_def timeout_poll_def ok_or_def split: prod.splits poll.splits)

end
