(* ===== verification/Syscall.thy ===== *)
theory Syscall
  imports Process Network Window Usb_Hid Executor
begin

text \<open>
  The system calls of \<open>os/src/syscall.rs\<close> and the calls that applications make in \<open>noli/src/sys/wasabi.rs\<close> and
  \<open>noli/src/net.rs\<close>.  The state of the system puts together what the calls reach: the processes, the frame buffer, the
  input queues, the network with the table of pending name queries, the timer, the memory and the printed text.
  When a call gives the processor away, \<open>others\<close> is what happens until the process runs again.
  The lemmas show what reading and writing a connection and resolving a name return, and the behaviour of the dispatch.
\<close>

subsection \<open>State\<close>

record 'd os =
  os_kernel :: kernel
  os_vram :: bitmap
  os_input :: input_manager
  os_net :: "'d network"
  os_pending :: pending_queries
  os_next_id :: u16
  os_counter :: u64
  os_freq :: u64
  os_mem :: "u64 \<Rightarrow> u8"
  os_out :: bytes
  os_context :: execution_context

text \<open>A slice over a pointer and a length that an application passes, of items of \<open>n\<close> bytes: what
  \<open>from_raw_parts\<close> requires of them is not checked by the code.  \<open>raw_str\<close> also relies on the bytes being text.\<close>

definition raw_slice :: "nat \<Rightarrow> u64 \<Rightarrow> u64 \<Rightarrow> unit res" where
  "raw_slice n p len =
     (if p = 0 then Inl (UB ''slice from the null pointer'')
      else if 2 ^ 63 \<le> unat len * n then Inl (UB ''slice larger than isize::MAX'')
      else Inr ())"

definition raw_str :: "u64 \<Rightarrow> u64 \<Rightarrow> 'd os \<Rightarrow> bytes res" where
  "raw_str p len s =
     and_then (raw_slice 1 p len) (\<lambda>_.
     let bs = load_bytes (os_mem s) p (unat len)
     in if utf8_valid bs then Inr bs else Inl (UB ''str is not UTF-8''))"

definition write_mem :: "u64 \<Rightarrow> bytes \<Rightarrow> 'd os \<Rightarrow> 'd os" where
  "write_mem p bs s = s\<lparr>os_mem := store_bytes (os_mem s) p bs\<rparr>"

definition i64_of :: "u64 \<Rightarrow> int" where "i64_of w = sint w"
definition u64_of_i64 :: "int \<Rightarrow> u64" where "u64_of_i64 i = word_of_int i"

subsection \<open>Simple calls\<close>

text \<open>A call that leaves the application does not return: the context of the kernel gets the reason and the value.\<close>

definition exit_to_os :: "u64 \<Rightarrow> ('d os, u64) act" where
  "exit_to_os retv s = (s\<lparr>os_context := write_return_value retv (write_exit_reason 0 (os_context s))\<rparr>, Inl NoReturn)"

definition sys_exit :: "u64 list \<Rightarrow> ('d os, u64) act" where
  "sys_exit args = exit_to_os (args ! 0)"

definition sys_print :: "u64 list \<Rightarrow> ('d os, u64) act" where
  "sys_print args s =
     (case raw_str (args ! 0) (args ! 1) s of
        Inl f \<Rightarrow> (s, Inl f)
      | Inr bs \<Rightarrow> (s\<lparr>os_out := os_out s @ bs\<rparr>, Inr 0))"

definition sys_noop :: "u64 list \<Rightarrow> ('d os, u64) act" where
  "sys_noop args s = (s, Inr 0)"

definition sys_draw_point_args :: "u64 list \<Rightarrow> ('d os, u64) act" where
  "sys_draw_point_args args s =
     (case sys_draw_point (i64_of (args ! 0)) (i64_of (args ! 1)) (ucast (args ! 2)) (os_vram s) of
        (v, r) \<Rightarrow> (s\<lparr>os_vram := v\<rparr>, and_then r (\<lambda>n. Inr (word_of_nat n))))"

definition sys_read_key :: "('d os \<Rightarrow> 'd os) \<Rightarrow> u64 list \<Rightarrow> ('d os, u64) act" where
  "sys_read_key others args s =
     (case pop_input (os_input s) of
        (i, Some c) \<Rightarrow> (s\<lparr>os_input := i\<rparr>, Inr (word_of_nat (of_char c)))
      | (i, None) \<Rightarrow> (others (s\<lparr>os_input := i\<rparr>), Inr 0))"

definition mouse_event_bytes :: "mouse_event \<Rightarrow> bytes" where
  "mouse_event_bytes e = le_word (mouse_button e) @ le_word (u64_of_i64 (mouse_x e)) @ le_word (u64_of_i64 (mouse_y e))"

definition sys_get_mouse_cursor_position :: "('d os \<Rightarrow> 'd os) \<Rightarrow> u64 list \<Rightarrow> ('d os, u64) act" where
  "sys_get_mouse_cursor_position others args s =
     (case pop_cursor_input_absolute (os_input s) of
        (i, Some e) \<Rightarrow>
          if args ! 0 = 0 then (s\<lparr>os_input := i\<rparr>, Inl (UB ''write to the null pointer''))
          else (write_mem (args ! 0) (mouse_event_bytes e) (s\<lparr>os_input := i\<rparr>), Inr 0)
      | (i, None) \<Rightarrow> (others (s\<lparr>os_input := i\<rparr>), Inr 1))"

subsection \<open>Names\<close>

text \<open>The future of \<open>query_dns\<close> after the query has been sent: it yields once and then looks at the table at every poll.\<close>

definition dns_wait_poll :: "u16 \<Rightarrow> (bool, 'd os, dns_response_entry list) future" where
  "dns_wait_poll transaction_id started s =
     (if \<not> started then (True, s, Pending)
      else (True, s, case query_dns_poll (os_pending s) transaction_id of Some r \<Rightarrow> Ready r | None \<Rightarrow> Pending))"

text \<open>\<open>block_on_and_schedule(query_dns(host))\<close>; \<open>fuel\<close> bounds the polls.\<close>

definition query_dns_blocking :: "nat \<Rightarrow> ('d os \<Rightarrow> 'd os) \<Rightarrow> bytes \<Rightarrow> ('d os, dns_response_entry list) act" where
  "query_dns_blocking fuel others host s =
     (case query_dns_send (net_dns (os_net s)) (os_pending s) (os_next_id s) host of
        Inl f \<Rightarrow> (if net_dns (os_net s) = None then s else s\<lparr>os_next_id := os_next_id s + 1\<rparr>, Inl f)
      | Inr (pend, next_id, packet) \<Rightarrow>
          let s1 = s\<lparr>os_pending := pend, os_next_id := next_id, os_net := send_ip_packet packet (os_net s)\<rparr> in
          case timeout_new_ms (os_counter s1) (os_freq s1) 500 of
            Inl f \<Rightarrow> (s1, Inl f)
          | Inr t \<Rightarrow> block_on_and_schedule fuel others (with_timeout_poll os_counter (dns_wait_poll (os_next_id s))) (t, False) s1)"

text \<open>\<open>result[0] = addr\<close> for the slice of \<open>args ! 3\<close> addresses at \<open>args ! 2\<close>.\<close>

definition write_result :: "u64 list \<Rightarrow> bytes \<Rightarrow> ('d os, int) act" where
  "write_result args addr s =
     (if args ! 3 = 0 then (s, Inl (Panic ''index out of bounds'')) else (write_mem (args ! 2) addr s, Inr 1))"

definition sys_nslookup :: "nat \<Rightarrow> ('d os \<Rightarrow> 'd os) \<Rightarrow> u64 list \<Rightarrow> ('d os, int) act" where
  "sys_nslookup fuel others args s =
     (case and_then (raw_str (args ! 0) (args ! 1) s) (\<lambda>host.
           and_then (raw_slice 4 (args ! 2) (args ! 3)) (\<lambda>_. Inr host)) of
        Inl f \<Rightarrow> (s, Inl f)
      | Inr host \<Rightarrow>
          if host = ascii ''wasabitest.example.com'' then write_result args [127, 0, 0, 1] s
          else if host = ascii ''host.test'' then write_result args [10, 0, 2, 2] s
          else if host = ascii ''wasabitest.example.invalid'' then (s, Inr (- 2))
          else
            (case query_dns_blocking fuel others host s of
               (s, Inr (A_entry name addr # _)) \<Rightarrow> write_result args (be_word addr) s
             | (s, Inr []) \<Rightarrow> (s, Inr (- 2))
             | (s, Inl (Err _)) \<Rightarrow> (s, Inr (- 1))
             | (s, Inl f) \<Rightarrow> (s, Inl f)))"

subsection \<open>Connections\<close>

definition sys_tcp_connect :: "u64 list \<Rightarrow> ('d os, int) act" where
  "sys_tcp_connect args s =
     (case k_current (os_kernel s) of
        None \<Rightarrow> (s, Inr (- 1))
      | Some p \<Rightarrow>
          (case open_tcp_socket (ucast (args ! 0)) (ucast (args ! 1)) (os_net s) of (net, opened) \<Rightarrow>
             case create_tcp_socket opened p of (p, r) \<Rightarrow>
             let s = s\<lparr>os_net := net, os_kernel := (os_kernel s)\<lparr>k_current := Some p\<rparr>\<rparr> in
             case r of
               Inr handle \<Rightarrow> (s, Inr handle)
             | Inl (Err _) \<Rightarrow> (s, Inr (- 1))
             | Inl f \<Rightarrow> (s, Inl f)))"

text \<open>The socket of a handle of the current process: the table of sockets shares it with the network.\<close>

definition current_socket :: "u64 list \<Rightarrow> 'd os \<Rightarrow> u16 option" where
  "current_socket args s =
     (case k_current (os_kernel s) of None \<Rightarrow> None | Some p \<Rightarrow> process_tcp_socket p (i64_of (args ! 0)))"

definition socket_of :: "u16 \<Rightarrow> 'd os \<Rightarrow> tcp_socket res" where
  "socket_of port s = (case tcp_socket_table (os_net s) port of None \<Rightarrow> Inl (UB ''dangling socket'') | Some k \<Rightarrow> Inr k)"

definition put_sock :: "u16 \<Rightarrow> tcp_socket \<Rightarrow> 'd os \<Rightarrow> 'd os" where
  "put_sock port k s = s\<lparr>os_net := put_socket port k (os_net s)\<rparr>"

definition tx_blocked :: "tcp_socket \<Rightarrow> bool" where
  "tx_blocked k \<longleftrightarrow> is_trying_to_connect k \<or> (is_established k \<and> tx_data k \<noteq> [])"

definition rx_blocked :: "tcp_socket \<Rightarrow> bool" where
  "rx_blocked k \<longleftrightarrow> is_trying_to_connect k \<or> (is_established k \<and> rx_data k = [])"

text \<open>The loops that give the processor away while the connection is blocked; they may not end, and \<open>fuel\<close> bounds them.\<close>

fun wait_while :: "(tcp_socket \<Rightarrow> bool) \<Rightarrow> nat \<Rightarrow> ('d os \<Rightarrow> 'd os) \<Rightarrow> u16 \<Rightarrow> ('d os, tcp_socket) act" where
  "wait_while blocked fuel others port s =
     (case socket_of port s of
        Inl f \<Rightarrow> (s, Inl f)
      | Inr k \<Rightarrow>
          if \<not> blocked k then (s, Inr k)
          else (case fuel of 0 \<Rightarrow> (s, Inl NoReturn) | Suc n \<Rightarrow> wait_while blocked n others port (others s)))"

definition sys_tcp_write :: "nat \<Rightarrow> ('d os \<Rightarrow> 'd os) \<Rightarrow> u64 list \<Rightarrow> ('d os, int) act" where
  "sys_tcp_write fuel others args s =
     (case raw_slice 1 (args ! 1) (args ! 2) of
        Inl f \<Rightarrow> (s, Inl f)
      | Inr _ \<Rightarrow>
          (case current_socket args s of
             None \<Rightarrow> (s, Inr (- 1))
           | Some port \<Rightarrow>
               let buf = load_bytes (os_mem s) (args ! 1) (unat (args ! 2)) in
               act_then (lift_res (socket_of port s)) (\<lambda>k s.
               act_then (wait_while tx_blocked fuel others port) (\<lambda>_ s. (s, Inr (int (length buf))))
                 (put_sock port (k\<lparr>tx_data := tx_data k @ buf\<rparr>) s)) s))"

definition sys_tcp_read :: "nat \<Rightarrow> ('d os \<Rightarrow> 'd os) \<Rightarrow> u64 list \<Rightarrow> ('d os, int) act" where
  "sys_tcp_read fuel others args s =
     (case raw_slice 1 (args ! 1) (args ! 2) of
        Inl f \<Rightarrow> (s, Inl f)
      | Inr _ \<Rightarrow>
          (case current_socket args s of
             None \<Rightarrow> (s, Inr (- 1))
           | Some port \<Rightarrow>
               act_then (wait_while rx_blocked fuel others port) (\<lambda>k s.
                 let n = min (unat (args ! 2)) (length (rx_data k))
                 in (write_mem (args ! 1) (take n (rx_data k)) (put_sock port (k\<lparr>rx_data := drop n (rx_data k)\<rparr>) s),
                     Inr (int n))) s))"

subsection \<open>Addresses as text\<close>

fun decimal :: "nat \<Rightarrow> bytes" where
  "decimal n = (if n < 10 then [word_of_nat (48 + n)] else decimal (n div 10) @ [word_of_nat (48 + n mod 10)])"

declare decimal.simps [simp del]

text \<open>\<open>u8::from_str\<close>: a sign, then digits of a number below 256.\<close>

definition u8_digit :: "nat option \<Rightarrow> u8 \<Rightarrow> nat option" where
  "u8_digit acc c =
     (case acc of None \<Rightarrow> None
      | Some a \<Rightarrow> if 48 \<le> c \<and> c \<le> 57 \<and> a * 10 + (unat c - 48) < 256 then Some (a * 10 + (unat c - 48)) else None)"

definition u8_from_str :: "bytes \<Rightarrow> u8 option" where
  "u8_from_str s =
     (let ds = (case s of c # r \<Rightarrow> if c = 43 then r else s | [] \<Rightarrow> []) in
      if ds = [] then None else map_option word_of_nat (foldl u8_digit (Some 0) ds))"

definition ip_display :: "ip_addr \<Rightarrow> bytes" where
  "ip_display ip =
     (let b = be_word ip; d = (\<lambda>i. decimal (unat (b ! i))) in d 0 @ [46] @ d 1 @ [46] @ d 2 @ [46] @ d 3)"

definition ip_from_str :: "bytes \<Rightarrow> ip_addr res" where
  "ip_from_str s =
     (let vs = map u8_from_str (split_on 46 s) in
      if None \<in> set vs then noli_failed ''Invalid IpV4 address format''
      else if length vs \<noteq> 4 then noli_failed ''Invalid IpV4 address format''
      else Inr (word_be (map the vs)))"

subsection \<open>The dispatch\<close>

definition as_u64 :: "('d os, int) act \<Rightarrow> ('d os, u64) act" where
  "as_u64 m s = (case m s of (s, r) \<Rightarrow> (s, and_then r (\<lambda>i. Inr (u64_of_i64 i))))"

definition syscall_handler :: "nat \<Rightarrow> ('d os \<Rightarrow> 'd os) \<Rightarrow> u64 \<Rightarrow> u64 list \<Rightarrow> ('d os, u64) act" where
  "syscall_handler fuel others op args s =
     (if op = 0 then sys_exit args s
      else if op = 1 then sys_print args s
      else if op = 2 then sys_draw_point_args args s
      else if op = 3 then sys_noop args s
      else if op = 4 then sys_read_key others args s
      else if op = 5 then sys_get_mouse_cursor_position others args s
      else if op = 6 then (s, sys_get_args_region (os_kernel s))
      else if op = 7 then as_u64 (sys_nslookup fuel others args) s
      else if op = 8 then as_u64 (sys_tcp_connect args) s
      else if op = 9 then as_u64 (sys_tcp_write fuel others args) s
      else if op = 10 then as_u64 (sys_tcp_read fuel others args) s
      else (s\<lparr>os_out := os_out s @ ascii ''syscall: unimplemented syscall: '' @ decimal (unat op) @ [10]\<rparr>,
            Inr 0xFFFFFFFFFFFFFFFF))"

subsection \<open>Applications\<close>

text \<open>The calls of \<open>Api\<close> that reach the network, with their results as the applications read them.  A call through
  \<open>syscall_5\<close> is a call of the handler with the arguments and zeros after them.\<close>

definition syscall_n :: "nat \<Rightarrow> ('d os \<Rightarrow> 'd os) \<Rightarrow> u64 \<Rightarrow> u64 list \<Rightarrow> ('d os, u64) act" where
  "syscall_n fuel others func args = syscall_handler fuel others func (args @ replicate (5 - length args) 0)"

definition syscall_i64 :: "nat \<Rightarrow> ('d os \<Rightarrow> 'd os) \<Rightarrow> u64 \<Rightarrow> u64 list \<Rightarrow> ('d os, int) act" where
  "syscall_i64 fuel others func args = act_then (syscall_n fuel others func args) (\<lambda>r. lift_res (Inr (i64_of r)))"

definition api_open_tcp_socket :: "nat \<Rightarrow> ('d os \<Rightarrow> 'd os) \<Rightarrow> ip_addr \<Rightarrow> u16 \<Rightarrow> ('d os, int) act" where
  "api_open_tcp_socket fuel others ip port = syscall_i64 fuel others 8 [ucast ip, ucast port]"

definition api_write_to_tcp_socket :: "nat \<Rightarrow> ('d os \<Rightarrow> 'd os) \<Rightarrow> int \<Rightarrow> u64 \<Rightarrow> u64 \<Rightarrow> ('d os, int) act" where
  "api_write_to_tcp_socket fuel others handle p len = syscall_i64 fuel others 9 [u64_of_i64 handle, p, len]"

definition api_read_from_tcp_socket :: "nat \<Rightarrow> ('d os \<Rightarrow> 'd os) \<Rightarrow> int \<Rightarrow> u64 \<Rightarrow> u64 \<Rightarrow> ('d os, int) act" where
  "api_read_from_tcp_socket fuel others handle p len = syscall_i64 fuel others 10 [u64_of_i64 handle, p, len]"

definition api_nslookup :: "nat \<Rightarrow> ('d os \<Rightarrow> 'd os) \<Rightarrow> u64 \<Rightarrow> u64 \<Rightarrow> u64 \<Rightarrow> u64 \<Rightarrow> ('d os, int) act" where
  "api_nslookup fuel others host len result n = syscall_i64 fuel others 7 [host, len, result, n]"

definition api_read_key :: "nat \<Rightarrow> ('d os \<Rightarrow> 'd os) \<Rightarrow> ('d os, nat option) act" where
  "api_read_key fuel others =
     act_then (syscall_n fuel others 4 []) (\<lambda>c.
       lift_res (Inr (if c = 0 then None
               else let v = unat (ucast c :: u32)
                    in if v < 0xD800 \<or> (0xDFFF < v \<and> v < 0x110000) then Some v else None)))"

record tcp_stream =
  ts_addr :: ip_addr
  ts_port :: u16
  ts_handle :: int

definition stream_connect :: "nat \<Rightarrow> ('d os \<Rightarrow> 'd os) \<Rightarrow> ip_addr \<Rightarrow> u16 \<Rightarrow> ('d os, tcp_stream) act" where
  "stream_connect fuel others ip port =
     act_then (api_open_tcp_socket fuel others ip port) (\<lambda>handle.
       lift_res (if 0 \<le> handle then Inr \<lparr>ts_addr = ip, ts_port = port, ts_handle = handle\<rparr>
                 else noli_failed ''Failed to open TCP socket''))"

definition stream_write :: "nat \<Rightarrow> ('d os \<Rightarrow> 'd os) \<Rightarrow> tcp_stream \<Rightarrow> u64 \<Rightarrow> u64 \<Rightarrow> ('d os, nat) act" where
  "stream_write fuel others t p len =
     act_then (api_write_to_tcp_socket fuel others (ts_handle t) p len) (\<lambda>n.
       lift_res (if 0 \<le> n then Inr (nat n)
                 else if n = - 1 then noli_failed ''NO_SUCH_SOCKET''
                 else if n = - 2 then noli_failed ''WRITE_ERROR''
                 else noli_failed ''UNDEFINED''))"

definition stream_read :: "nat \<Rightarrow> ('d os \<Rightarrow> 'd os) \<Rightarrow> tcp_stream \<Rightarrow> u64 \<Rightarrow> u64 \<Rightarrow> ('d os, nat) act" where
  "stream_read fuel others t p len =
     act_then (api_read_from_tcp_socket fuel others (ts_handle t) p len) (\<lambda>n.
       lift_res (if 0 \<le> n then Inr (nat n)
                 else if n = - 1 then noli_failed ''NO_SUCH_SOCKET''
                 else if n = - 2 then noli_failed ''READ_ERROR''
                 else noli_failed ''UNDEFINED''))"

text \<open>\<open>lookup_host\<close>; the array of four results stands at \<open>result\<close>, and starts as zeros.\<close>

definition lookup_host :: "nat \<Rightarrow> ('d os \<Rightarrow> 'd os) \<Rightarrow> u64 \<Rightarrow> u64 \<Rightarrow> u64 \<Rightarrow> ('d os, ip_addr list) act" where
  "lookup_host fuel others host len result s =
     act_then (api_nslookup fuel others host len result 4) (\<lambda>n s.
       lift_res (if 0 \<le> n then
                   Inr (map (\<lambda>i. word_be (load_bytes (os_mem s) (result + 4 * word_of_nat i) 4)) [0..<min 4 (nat n)])
                 else if n = - 1 then noli_failed ''RESOLUTION_FAILED''
                 else if n = - 2 then noli_failed ''NXDOMAIN''
                 else noli_failed ''UNDEFINED'') s)
       (write_mem result (replicate 16 0) s)"

subsection \<open>Addresses read back\<close>

lemma byte_digit:
  assumes "d < 10"
  shows "unat (word_of_nat (48 + d) :: u8) = 48 + d" "(48 :: u8) \<le> word_of_nat (48 + d)" "word_of_nat (48 + d) \<le> (57 :: u8)"
proof -
  show u: "unat (word_of_nat (48 + d) :: u8) = 48 + d" using assms by (subst unat_byte_of_nat) simp_all
  show "(48 :: u8) \<le> word_of_nat (48 + d)" "word_of_nat (48 + d) \<le> (57 :: u8)"
    using assms unfolding word_le_nat_alt u by simp_all
qed

lemma decimal_digits: "c \<in> set (decimal n) \<Longrightarrow> 48 \<le> c \<and> c \<le> 57"
proof (induction n rule: decimal.induct)
  case (1 n)
  then show ?case
    using byte_digit [of n] byte_digit [of "n mod 10"] by (subst (asm) (2) decimal.simps) (auto split: if_splits)
qed

lemma decimal_not_nil [simp]: "decimal n \<noteq> []"
  by (subst decimal.simps) simp

lemma decimal_no_sign:
  "43 \<notin> set (decimal n)" "46 \<notin> set (decimal n)"
  using decimal_digits [of 43 n] decimal_digits [of 46 n] by auto

lemma digits_decimal: "n < 256 \<Longrightarrow> foldl u8_digit (Some 0) (decimal n) = Some n"
proof (induction n rule: decimal.induct)
  case (1 n)
  show ?case
  proof (cases "n < 10")
    case True
    then show ?thesis using byte_digit [of n] by (subst decimal.simps) (simp add: u8_digit_def)
  next
    case False
    have d: "u8_digit (Some (n div 10)) (word_of_nat (48 + n mod 10)) = Some n"
      using byte_digit [of "n mod 10"] "1.prems" by (simp add: u8_digit_def del: of_nat_add)
    have "foldl u8_digit (Some 0) (decimal (n div 10)) = Some (n div 10)" using False 1 by simp
    then show ?thesis using False d by (subst decimal.simps) (simp del: of_nat_add)
  qed
qed

lemma u8_from_decimal: "u8_from_str (decimal (unat b)) = Some b" for b :: u8
proof -
  have n: "unat b < 256" using unsigned_less [of b] by simp
  obtain c r where d: "decimal (unat b) = c # r" using decimal_not_nil by (cases "decimal (unat b)") auto
  have "c \<noteq> 43" using decimal_no_sign(1) [of "unat b"] d by auto
  then show ?thesis using digits_decimal [OF n] d by (simp add: u8_from_str_def)
qed

lemma split_on_first: "c \<notin> set l \<Longrightarrow> split_on c (l @ c # r) = l # split_on c r"
  by (induction l) auto

lemma split_on_last: "c \<notin> set l \<Longrightarrow> split_on c l = [l]"
  by (induction l) auto

lemma ip_read_back: "ip_from_str (ip_display ip) = Inr ip"
proof -
  have "length (be_word ip) = Suc (Suc (Suc (Suc 0)))" by simp
  then obtain a b c d where v: "be_word ip = [a, b, c, d]" by (auto simp: length_Suc_conv simp del: length_be_word)
  have s: "ip_display ip = decimal (unat a) @ 46 # decimal (unat b) @ 46 # decimal (unat c) @ 46 # decimal (unat d)"
    unfolding ip_display_def v Let_def by (simp add: nth_Cons')
  have "map u8_from_str (split_on 46 (ip_display ip)) = [Some a, Some b, Some c, Some d]"
    unfolding s by (simp add: split_on_first split_on_last decimal_no_sign u8_from_decimal)
  moreover have "word_be [a, b, c, d] = ip" unfolding v [symmetric] by (rule word_be_be_word) simp
  ultimately show ?thesis unfolding ip_from_str_def Let_def by simp
qed

subsection \<open>Waiting for a connection\<close>

text \<open>The connection on \<open>port\<close> is blocked for \<open>n\<close> turns of the other processes; \<open>s'\<close> and \<open>k\<close> are the state and the
  socket after them.\<close>

fun waits :: "(tcp_socket \<Rightarrow> bool) \<Rightarrow> ('d os \<Rightarrow> 'd os) \<Rightarrow> u16 \<Rightarrow> nat \<Rightarrow> 'd os \<Rightarrow> 'd os \<Rightarrow> tcp_socket \<Rightarrow> bool" where
  "waits blocked others port 0 s s' k \<longleftrightarrow> s' = s \<and> tcp_socket_table (os_net s) port = Some k \<and> \<not> blocked k"
| "waits blocked others port (Suc n) s s' k \<longleftrightarrow>
     (\<exists>k0. tcp_socket_table (os_net s) port = Some k0 \<and> blocked k0) \<and> waits blocked others port n (others s) s' k"

declare wait_while.simps [simp del]

lemma wait_while_ok:
  "waits blocked others port n s s' k \<Longrightarrow> n \<le> fuel \<Longrightarrow> wait_while blocked fuel others port s = (s', Inr k)"
proof (induction n arbitrary: s fuel)
  case 0
  then show ?case by (subst wait_while.simps) (simp add: socket_of_def)
next
  case (Suc n)
  then obtain m where "fuel = Suc m" "n \<le> m" by (cases fuel) auto
  with Suc show ?case by (subst wait_while.simps) (auto simp: socket_of_def)
qed

lemma waits_after:
  "waits blocked others port n s s' k \<Longrightarrow> tcp_socket_table (os_net s') port = Some k \<and> \<not> blocked k"
  by (induction n arbitrary: s) auto

lemma i64_roundtrip: "- (2 ^ 63) \<le> i \<Longrightarrow> i < 2 ^ 63 \<Longrightarrow> i64_of (u64_of_i64 i) = i"
  by (simp add: i64_of_def u64_of_i64_def signed_of_int signed_take_bit_int_eq_self)

text \<open>A call with a pointer and a length that make a slice, on a handle of the current process.\<close>

definition owns :: "'d os \<Rightarrow> int \<Rightarrow> u16 \<Rightarrow> bool" where
  "owns s h port \<longleftrightarrow> 0 \<le> h \<and> h < 2 ^ 63 \<and>
     (case k_current (os_kernel s) of None \<Rightarrow> False | Some p \<Rightarrow> process_tcp_socket p h = Some port)"

definition good_buffer :: "u64 \<Rightarrow> u64 \<Rightarrow> bool" where
  "good_buffer p len \<longleftrightarrow> p \<noteq> 0 \<and> unat len < 2 ^ 63"

lemma owns_current: "owns s h port \<Longrightarrow> args ! 0 = u64_of_i64 h \<Longrightarrow> current_socket args s = Some port"
  by (auto simp: owns_def current_socket_def i64_roundtrip split: option.splits)

lemma good_buffer_slice: "good_buffer p len \<Longrightarrow> raw_slice 1 p len = Inr ()"
  by (simp add: good_buffer_def raw_slice_def)

lemma syscall_i64_ok:
  assumes "syscall_handler fuel others func (args @ replicate (5 - length args) 0) s = (s', Inr (u64_of_i64 i))"
    "- (2 ^ 63) \<le> i" "i < 2 ^ 63"
  shows "syscall_i64 fuel others func args s = (s', Inr i)"
  using assms by (simp add: syscall_i64_def syscall_n_def act_then_def lift_res_def i64_roundtrip)

lemma pad_args:
  "[a, b] @ replicate (5 - length [a, b]) 0 = [a, b, 0, 0, 0 :: u64]"
  "[a, b, c] @ replicate (5 - length [a, b, c]) 0 = [a, b, c, 0, 0 :: u64]"
  "[a, b, c, d] @ replicate (5 - length [a, b, c, d]) 0 = [a, b, c, d, 0 :: u64]"
  by (simp_all add: numeral_eq_Suc)

lemma stream_read_ok:
  assumes "owns s (ts_handle t) port" "good_buffer p len"
    and w: "waits rx_blocked others port n s s1 k" "n \<le> fuel"
  defines "m \<equiv> min (unat len) (length (rx_data k))"
  shows "stream_read fuel others t p len s =
    (write_mem p (take m (rx_data k)) (put_sock port (k\<lparr>rx_data := drop m (rx_data k)\<rparr>) s1), Inr m)"
proof -
  let ?args = "[u64_of_i64 (ts_handle t), p, len, 0, 0]"
  let ?s = "write_mem p (take m (rx_data k)) (put_sock port (k\<lparr>rx_data := drop m (rx_data k)\<rparr>) s1)"
  have "sys_tcp_read fuel others ?args s = (?s, Inr (int m))"
    using owns_current [OF assms(1), of ?args] good_buffer_slice [OF assms(2)] wait_while_ok [OF w]
    by (simp add: sys_tcp_read_def act_then_def m_def Let_def)
  then have "syscall_handler fuel others 10 ?args s = (?s, Inr (u64_of_i64 (int m)))"
    by (simp add: syscall_handler_def as_u64_def)
  moreover have "int m < 2 ^ 63"
    using assms(2) by (simp add: m_def good_buffer_def min_def)
  ultimately have "syscall_i64 fuel others 10 [u64_of_i64 (ts_handle t), p, len] s = (?s, Inr (int m))"
    by (intro syscall_i64_ok) (simp_all add: pad_args [simplified])
  then show ?thesis by (simp add: stream_read_def api_read_from_tcp_socket_def act_then_def lift_res_def)
qed

lemma stream_write_ok:
  assumes "owns s (ts_handle t) port" "good_buffer p len" "tcp_socket_table (os_net s) port = Some k"
    and w: "waits tx_blocked others port n
      (put_sock port (k\<lparr>tx_data := tx_data k @ load_bytes (os_mem s) p (unat len)\<rparr>) s) s1 k1" "n \<le> fuel"
  shows "stream_write fuel others t p len s = (s1, Inr (unat len))"
proof -
  let ?args = "[u64_of_i64 (ts_handle t), p, len, 0, 0]"
  have "sys_tcp_write fuel others ?args s = (s1, Inr (int (unat len)))"
    using owns_current [OF assms(1), of ?args] good_buffer_slice [OF assms(2)] wait_while_ok [OF w] assms(3)
    by (simp add: sys_tcp_write_def act_then_def Let_def socket_of_def lift_res_def)
  then have "syscall_handler fuel others 9 ?args s = (s1, Inr (u64_of_i64 (int (unat len))))"
    by (simp add: syscall_handler_def as_u64_def)
  moreover have "int (unat len) < 2 ^ 63"
    using assms(2) unfolding good_buffer_def by (metis of_nat_less_iff of_nat_numeral of_nat_power)
  ultimately have "syscall_i64 fuel others 9 [u64_of_i64 (ts_handle t), p, len] s = (s1, Inr (int (unat len)))"
    by (intro syscall_i64_ok) (simp_all add: pad_args [simplified] order_trans [OF _ uint_ge_0])
  then show ?thesis by (simp add: stream_write_def api_write_to_tcp_socket_def act_then_def lift_res_def)
qed

subsection \<open>Opening a connection\<close>

text \<open>Every handle of the process that runs names a socket of the network.\<close>

definition handles_open :: "'d os \<Rightarrow> bool" where
  "handles_open s \<longleftrightarrow>
     (\<forall>p h port. k_current (os_kernel s) = Some p \<and> process_tcp_socket p h = Some port \<longrightarrow> tcp_socket_table (os_net s) port \<noteq> None)"

lemma open_keeps_sockets:
  assumes "open_tcp_socket ip port net = (net', r)"
  shows "tcp_socket_table net q \<noteq> None \<Longrightarrow> tcp_socket_table net' q \<noteq> None"
    and "r = Inr q \<Longrightarrow> tcp_socket_table net' q \<noteq> None"
  using assms
  by (auto simp: open_tcp_socket_def register_tcp_socket_def new_client_def act_then_def put_socket_def send_ip_packet_def Let_def
      split: sum.splits prod.splits option.splits if_splits)

lemma create_tcp_socket_error: "create_tcp_socket r p = (p', Inl e) \<Longrightarrow> p' = p"
  by (auto simp: create_tcp_socket_def split: sum.splits option.splits)

lemma sys_tcp_connect_open:
  assumes "handles_open s" "sys_tcp_connect args s = (s', r)"
  shows "handles_open s' \<and> (\<forall>h. r = Inr h \<longrightarrow> h = - 1 \<or> (\<exists>q. owns s' h q))"
proof (cases "k_current (os_kernel s)")
  case None
  with assms show ?thesis by (auto simp: sys_tcp_connect_def)
next
  case (Some p)
  obtain net opened where o: "open_tcp_socket (ucast (args ! 0)) (ucast (args ! 1)) (os_net s) = (net, opened)"
    by (cases "open_tcp_socket (ucast (args ! 0)) (ucast (args ! 1)) (os_net s)")
  obtain p' c where c: "create_tcp_socket opened p = (p', c)" by (cases "create_tcp_socket opened p")
  let ?s = "s\<lparr>os_net := net, os_kernel := (os_kernel s)\<lparr>k_current := Some p'\<rparr>\<rparr>"
  have s': "s' = ?s" and r: "r = (case c of Inr h \<Rightarrow> Inr h | Inl (Err _) \<Rightarrow> Inr (- 1) | Inl f \<Rightarrow> Inl f)"
    using assms(2) Some o c by (auto simp: sys_tcp_connect_def Let_def split: sum.splits fault.splits)
  have old: "process_tcp_socket p h = Some q \<Longrightarrow> tcp_socket_table net q \<noteq> None" for h q
    using open_keeps_sockets(1) [OF o, of q] assms(1) Some unfolding handles_open_def by blast
  show ?thesis
  proof (cases c)
    case (Inl e)
    with c have "p' = p" by (auto dest: create_tcp_socket_error)
    with Inl old show ?thesis unfolding s' r by (auto simp: handles_open_def split: fault.splits)
  next
    case (Inr h)
    then obtain q where q: "opened = Inr q" using c by (cases opened) (auto simp: create_tcp_socket_def)
    note h = create_tcp_socket_ok [OF c [unfolded Inr q]]
    have "tcp_socket_table net q \<noteq> None" using open_keeps_sockets(2) [OF o q] .
    then have "process_tcp_socket p' h' = Some q' \<Longrightarrow> tcp_socket_table net q' \<noteq> None" for h' q'
      using h old [of h' q'] by (cases "h' = h") auto
    then have "handles_open ?s" by (simp add: handles_open_def)
    moreover have "owns ?s h q" using h by (simp add: owns_def I64_MAX_def)
    ultimately show ?thesis unfolding s' r Inr by auto
  qed
qed

lemma connect_handles_open:
  assumes "handles_open s" "stream_connect fuel others ip port s = (s', r)"
  shows "handles_open s' \<and> (\<forall>t. r = Inr t \<longrightarrow> (\<exists>q. owns s' (ts_handle t) q))"
proof -
  let ?args = "[ucast ip, ucast port, 0, 0, 0]"
  obtain s1 c where c: "sys_tcp_connect ?args s = (s1, c)" by (cases "sys_tcp_connect ?args s")
  note o = sys_tcp_connect_open [OF assms(1) c]
  have s: "syscall_i64 fuel others 8 [ucast ip, ucast port] s = (s1, and_then c (\<lambda>i. Inr (i64_of (u64_of_i64 i))))"
    using c by (cases c) (simp_all add: syscall_i64_def syscall_n_def pad_args [simplified] syscall_handler_def as_u64_def
        act_then_def lift_res_def)
  show ?thesis
  proof (cases c)
    case (Inl e)
    with s assms(2) o show ?thesis by (auto simp: stream_connect_def api_open_tcp_socket_def act_then_def)
  next
    case (Inr h)
    with o have "- (2 ^ 63) \<le> h" "h < 2 ^ 63" by (auto simp: owns_def)
    then have "i64_of (u64_of_i64 h) = h" by (rule i64_roundtrip)
    with s assms(2) o Inr show ?thesis
      by (auto simp: stream_connect_def api_open_tcp_socket_def act_then_def lift_res_def split: if_splits)
  qed
qed

subsection \<open>Resolving a name\<close>

text \<open>The answer to query \<open>tid\<close> is there after \<open>n\<close> turns of the other processes and not before, and the timer has not
  passed \<open>limit\<close> by then.\<close>

definition answered :: "('d os \<Rightarrow> 'd os) \<Rightarrow> u16 \<Rightarrow> u64 \<Rightarrow> nat \<Rightarrow> 'd os \<Rightarrow> dns_response_entry list \<Rightarrow> bool" where
  "answered others tid limit n s res \<longleftrightarrow> 0 < n \<and>
     (\<forall>i \<le> n. os_counter ((others ^^ i) s) \<le> limit) \<and>
     (\<forall>i < n. 0 < i \<longrightarrow> query_dns_poll (os_pending ((others ^^ i) s)) tid = None) \<and>
     query_dns_poll (os_pending ((others ^^ n) s)) tid = Some res"

lemma dns_wait_poll_step:
  "with_timeout_poll os_counter (dns_wait_poll tid) (t, b) s =
     (if time_out t < os_counter s then ((t, b), s, Ready (Inl (Err (Failed ''Timed out''))))
      else ((t, True), s,
            if b then (case query_dns_poll (os_pending s) tid of Some r \<Rightarrow> Ready (Inr r) | None \<Rightarrow> Pending) else Pending))"
  by (auto simp: with_timeout_poll_def select_poll_def timeout_poll_def dns_wait_poll_def ok_or_def split: option.splits)

lemma started_ready:
  assumes "\<forall>i \<le> n. os_counter ((others ^^ i) s) \<le> time_out t"
    "\<forall>i < n. query_dns_poll (os_pending ((others ^^ i) s)) tid = None"
    "query_dns_poll (os_pending ((others ^^ n) s)) tid = Some res"
  shows "ready_after others (with_timeout_poll os_counter (dns_wait_poll tid)) n (t, True) s ((others ^^ n) s) (Inr res)"
  using assms
proof (induction n arbitrary: s)
  case 0
  then show ?case
    by (auto simp: dns_wait_poll_step)
next
  case (Suc n)
  have "ready_after others (with_timeout_poll os_counter (dns_wait_poll tid)) n (t, True) (others s) ((others ^^ n) (others s)) (Inr res)"
  proof (rule Suc.IH)
    show "\<forall>i \<le> n. os_counter ((others ^^ i) (others s)) \<le> time_out t"
      using Suc.prems(1) by (metis Suc_le_mono funpow_Suc_right o_apply)
    show "\<forall>i < n. query_dns_poll (os_pending ((others ^^ i) (others s))) tid = None"
      using Suc.prems(2) by (metis Suc_mono funpow_Suc_right o_apply)
    show "query_dns_poll (os_pending ((others ^^ n) (others s))) tid = Some res"
      using Suc.prems(3) by (simp add: funpow_swap1)
  qed
  moreover have "\<not> time_out t < os_counter s" "query_dns_poll (os_pending s) tid = None"
    using Suc.prems(1) [rule_format, of 0] Suc.prems(2) [rule_format, of 0] by simp_all
  ultimately show ?case
    by (simp add: dns_wait_poll_step funpow_swap1)
qed

lemma answered_ready:
  assumes "answered others tid (time_out t) n s res"
  shows "ready_after others (with_timeout_poll os_counter (dns_wait_poll tid)) n (t, False) s ((others ^^ n) s) (Inr res)"
proof -
  obtain m where n: "n = Suc m" using assms by (cases n) (auto simp: answered_def)
  have "ready_after others (with_timeout_poll os_counter (dns_wait_poll tid)) m (t, True) (others s) ((others ^^ m) (others s)) (Inr res)"
  proof (rule started_ready)
    show "\<forall>i \<le> m. os_counter ((others ^^ i) (others s)) \<le> time_out t"
      using assms unfolding answered_def n by (metis Suc_le_mono funpow_Suc_right o_apply)
    show "\<forall>i < m. query_dns_poll (os_pending ((others ^^ i) (others s))) tid = None"
      using assms unfolding answered_def n by (metis Suc_mono funpow_Suc_right o_apply zero_less_Suc)
    show "query_dns_poll (os_pending ((others ^^ m) (others s))) tid = Some res"
      using assms unfolding answered_def n by (simp add: funpow_swap1)
  qed
  moreover have "\<not> time_out t < os_counter s" using assms unfolding answered_def by (metis funpow_0 le0 linorder_not_le)
  ultimately show ?thesis
    by (simp add: n dns_wait_poll_step funpow_swap1)
qed

lemma query_dns_answer:
  assumes send: "query_dns_send (net_dns (os_net s)) (os_pending s) (os_next_id s) host = Inr (pend, nid, packet)"
    and timer: "timeout_new_ms (os_counter s) (os_freq s) 500 = Inr t"
    and answer: "answered others (os_next_id s) (time_out t) n
      (s\<lparr>os_pending := pend, os_next_id := nid, os_net := send_ip_packet packet (os_net s)\<rparr>) res" and "n < fuel"
  shows "query_dns_blocking fuel others host s =
    ((others ^^ n) (s\<lparr>os_pending := pend, os_next_id := nid, os_net := send_ip_packet packet (os_net s)\<rparr>), Inr res)"
  using block_on_returns [OF answered_ready [OF answer] assms(4)] send timer
  by (simp add: query_dns_blocking_def block_on_and_schedule_def Let_def)

definition special_host :: "bytes \<Rightarrow> bool" where
  "special_host host \<longleftrightarrow>
     host \<in> {ascii ''wasabitest.example.com'', ascii ''host.test'', ascii ''wasabitest.example.invalid''}"

lemma write_mem_first:
  assumes "length bs = 4"
  shows "load_bytes (os_mem (write_mem p bs s)) p 4 = bs"
  using load_store_same [of bs "os_mem s" p] assms by (simp add: write_mem_def)

lemma lookup_host_answer:
  assumes "host_p \<noteq> 0" "unat len < 2 ^ 63" "result \<noteq> 0"
    and host: "load_bytes (os_mem (write_mem result (replicate 16 0) s)) host_p (unat len) = host" "utf8_valid host" "\<not> special_host host"
    and query: "query_dns_blocking fuel others host (write_mem result (replicate 16 0) s) = (s1, Inr (A_entry name addr # rest))"
  shows "lookup_host fuel others host_p len result s = (write_mem result (be_word addr) s1, Inr [addr])"
proof -
  let ?s = "write_mem result (replicate 16 0) s" and ?args = "[host_p, len, result, 4, 0]"
  have "raw_str host_p len ?s = Inr host" "raw_slice 4 result 4 = Inr ()"
    using assms by (simp_all add: raw_str_def raw_slice_def Let_def)
  then have "sys_nslookup fuel others ?args ?s = (write_mem result (be_word addr) s1, Inr 1)"
    using assms by (simp add: sys_nslookup_def write_result_def special_host_def nth_Cons')
  then have "syscall_handler fuel others 7 ?args ?s = (write_mem result (be_word addr) s1, Inr (u64_of_i64 1))"
    by (simp add: syscall_handler_def as_u64_def)
  then have c: "syscall_i64 fuel others 7 [host_p, len, result, 4] ?s = (write_mem result (be_word addr) s1, Inr 1)"
    by (intro syscall_i64_ok) (simp_all add: pad_args [simplified])
  have "word_be (load_bytes (os_mem (write_mem result (be_word addr) s1)) result 4) = addr"
    by (subst write_mem_first) (simp_all add: word_be_be_word)
  with c show ?thesis by (simp add: lookup_host_def api_nslookup_def act_then_def lift_res_def)
qed

end
