(* ===== verification/Acpi.thy ===== *)
theory Acpi
  imports Context
begin

text \<open>
  The tables of the firmware and the timer: \<open>os/src/acpi.rs\<close> on a memory of bytes, where a table is the address of its
  header, and \<open>os/src/hpet.rs\<close> on the registers of the timer, which are read and written through parameters.
  The lemmas show which tables \<open>Acpi::new\<close> finds in a list of tables, what it does when one is missing, and the state
  in which the timer is after its initialisation.
\<close>

subsection \<open>Table headers\<close>

definition table_signature :: "(u64 \<Rightarrow> u8) \<Rightarrow> u64 \<Rightarrow> bytes" where
  "table_signature m a = load_bytes m a 4"

definition table_length :: "(u64 \<Rightarrow> u8) \<Rightarrow> u64 \<Rightarrow> nat" where
  "table_length m a = unat (word_le (load_bytes m (a + 4) 4) :: u32)"

definition expect_signature :: "(u64 \<Rightarrow> u8) \<Rightarrow> u64 \<Rightarrow> bytes \<Rightarrow> unit res" where
  "expect_signature m a sig =
     (if table_signature m a = sig then Inr () else Inl (Panic ''assertion failed: signature''))"

text \<open>\<open>AcpiTable::new\<close>: the table at the address of its header.\<close>

definition acpi_table_new :: "(u64 \<Rightarrow> u8) \<Rightarrow> bytes \<Rightarrow> u64 \<Rightarrow> u64 res" where
  "acpi_table_new m sig header = and_then (expect_signature m header sig) (\<lambda>_. Inr header)"

subsection \<open>The list of tables\<close>

definition xsdt_num_of_entries :: "(u64 \<Rightarrow> u8) \<Rightarrow> u64 \<Rightarrow> nat res" where
  "xsdt_num_of_entries m a = and_then (usize_sub (table_length m a) 36) (\<lambda>n. Inr (n div 8))"

definition xsdt_entry :: "(u64 \<Rightarrow> u8) \<Rightarrow> u64 \<Rightarrow> nat \<Rightarrow> u64" where
  "xsdt_entry m a i = load64 m (a + 36 + word_of_nat (8 * i))"

definition xsdt_next :: "(u64 \<Rightarrow> u8) \<Rightarrow> u64 \<Rightarrow> nat \<Rightarrow> (u64 option \<times> nat) res" where
  "xsdt_next m a index =
     and_then (xsdt_num_of_entries m a) (\<lambda>n.
     if n \<le> index then Inr (None, index) else Inr (Some (xsdt_entry m a index), index + 1))"

text \<open>The whole iteration, as \<open>list_all_tables\<close> makes it; the length is read again at every step, and does not change.\<close>

definition xsdt_iter :: "(u64 \<Rightarrow> u8) \<Rightarrow> u64 \<Rightarrow> u64 list res" where
  "xsdt_iter m a = and_then (xsdt_num_of_entries m a) (\<lambda>n. Inr (map (xsdt_entry m a) [0..<n]))"

definition list_all_tables :: "(u64 \<Rightarrow> u8) \<Rightarrow> u64 \<Rightarrow> u64 list res" where
  "list_all_tables m a = and_then (expect_signature m a (ascii ''XSDT'')) (\<lambda>_. xsdt_iter m a)"

definition find_table :: "(u64 \<Rightarrow> u8) \<Rightarrow> u64 \<Rightarrow> bytes \<Rightarrow> u64 option res" where
  "find_table m a sig = and_then (xsdt_iter m a) (\<lambda>ts. Inr (List.find (\<lambda>t. table_signature m t = sig) ts))"

subsection \<open>Single tables\<close>

definition mcfg_num_of_entries :: "(u64 \<Rightarrow> u8) \<Rightarrow> u64 \<Rightarrow> nat res" where
  "mcfg_num_of_entries m a = and_then (usize_sub (table_length m a) 44) (\<lambda>n. Inr (n div 16))"

definition mcfg_entry :: "(u64 \<Rightarrow> u8) \<Rightarrow> u64 \<Rightarrow> nat \<Rightarrow> u64 option res" where
  "mcfg_entry m a index =
     and_then (mcfg_num_of_entries m a) (\<lambda>n. Inr (if n \<le> index then None else Some (a + 44 + word_of_nat (16 * index))))"

definition ecam_base_address :: "(u64 \<Rightarrow> u8) \<Rightarrow> u64 \<Rightarrow> u64" where
  "ecam_base_address m e = load64 m e"

text \<open>\<open>GenericAddress::address_in_memory_space\<close> for the address at \<open>a\<close>.\<close>

definition address_in_memory_space :: "(u64 \<Rightarrow> u8) \<Rightarrow> u64 \<Rightarrow> u64 res" where
  "address_in_memory_space m a =
     (if m a = 0 then Inr (load64 m (a + 4))
      else Inl (Err (Failed ''ACPI Generic Address is not in system memory space'')))"

definition hpet_base_address :: "(u64 \<Rightarrow> u8) \<Rightarrow> u64 \<Rightarrow> u64 res" where
  "hpet_base_address m hpet = address_in_memory_space m (hpet + 40)"

definition fadt_dsdt :: "(u64 \<Rightarrow> u8) \<Rightarrow> u64 \<Rightarrow> u64 res" where
  "fadt_dsdt m fadt = acpi_table_new m (ascii ''DSDT'') (ucast (word_le (load_bytes m (fadt + 40) 4) :: u32))"

definition term_list_slice :: "(u64 \<Rightarrow> u8) \<Rightarrow> u64 \<Rightarrow> bytes res" where
  "term_list_slice m dsdt =
     and_then (usize_sub (table_length m dsdt) 36) (\<lambda>n. Inr (load_bytes m (dsdt + 36) n))"

record acpi =
  acpi_mcfg :: u64
  acpi_hpet :: u64
  acpi_dsdt :: u64

definition expect_table :: "(u64 \<Rightarrow> u8) \<Rightarrow> u64 \<Rightarrow> string \<Rightarrow> u64 res" where
  "expect_table m xsdt sig =
     and_then (find_table m xsdt (ascii sig)) (\<lambda>t.
     case t of None \<Rightarrow> Inl (Panic (sig @ '' not found'')) | Some t \<Rightarrow> acpi_table_new m (ascii sig) t)"

definition acpi_new :: "(u64 \<Rightarrow> u8) \<Rightarrow> u64 \<Rightarrow> acpi res" where
  "acpi_new m rsdp =
     (if load_bytes m rsdp 8 \<noteq> ascii ''RSD PTR '' then Inl (Err (Failed ''Invalid RSDP Struct Signature''))
      else if m (rsdp + 15) < 2 then Inl (Err (Failed ''Expected RSDP rev.2 or above''))
      else
        let xsdt = load64 m (rsdp + 24) in
        and_then (list_all_tables m xsdt) (\<lambda>_.
        and_then (expect_table m xsdt ''MCFG'') (\<lambda>mcfg.
        and_then (expect_table m xsdt ''HPET'') (\<lambda>hpet.
        and_then (expect_table m xsdt ''FACP'') (\<lambda>fadt.
        and_then (fadt_dsdt m fadt) (\<lambda>dsdt.
        Inr \<lparr>acpi_mcfg = mcfg, acpi_hpet = hpet, acpi_dsdt = dsdt\<rparr>))))))"

subsection \<open>The timer\<close>

datatype hpet_reg = Capabilities | Configuration | Interrupt_Status | Main_Counter | Timer_Config nat | Timer_Comparator nat

record 'h hpet_access =
  hpet_rd :: "hpet_reg \<Rightarrow> 'h \<Rightarrow> u64"
  hpet_wr :: "hpet_reg \<Rightarrow> u64 \<Rightarrow> 'h \<Rightarrow> 'h"

record hpet =
  num_of_timers :: nat
  hpet_freq :: u64

definition TIMER_CONFIG_LEVEL_TRIGGER :: u64 where "TIMER_CONFIG_LEVEL_TRIGGER = push_bit 1 1"
definition TIMER_CONFIG_INT_ENABLE :: u64 where "TIMER_CONFIG_INT_ENABLE = push_bit 2 1"
definition TIMER_CONFIG_USE_PERIODIC_MODE :: u64 where "TIMER_CONFIG_USE_PERIODIC_MODE = push_bit 3 1"
definition TIMER_CONFIG_SET_COMPARATOR_VALUE :: u64 where "TIMER_CONFIG_SET_COMPARATOR_VALUE = push_bit 6 1"

definition globally_disable :: "'h hpet_access \<Rightarrow> 'h \<Rightarrow> 'h" where
  "globally_disable io h = hpet_wr io Configuration (hpet_rd io Configuration h AND NOT 3) h"

definition globally_enable :: "'h hpet_access \<Rightarrow> 'h \<Rightarrow> 'h" where
  "globally_enable io h = hpet_wr io Configuration (hpet_rd io Configuration h OR 1) h"

definition hpet_setup :: "'h hpet_access \<Rightarrow> nat \<Rightarrow> u64 \<Rightarrow> ('h, unit) act" where
  "hpet_setup io index comparator_value h =
     (let h = hpet_wr io Main_Counter 0 h in
      if 32 \<le> index then (h, Inl (Panic ''index out of bounds''))
      else
        let t = Timer_Config index;
            h = hpet_wr io t (hpet_rd io t h AND NOT (TIMER_CONFIG_INT_ENABLE OR TIMER_CONFIG_USE_PERIODIC_MODE OR
                  TIMER_CONFIG_LEVEL_TRIGGER OR push_bit 9 0x1F)) h;
            h = hpet_wr io t (hpet_rd io t h OR (TIMER_CONFIG_INT_ENABLE OR TIMER_CONFIG_USE_PERIODIC_MODE)) h;
            h = hpet_wr io t (hpet_rd io t h OR TIMER_CONFIG_SET_COMPARATOR_VALUE) h;
            h = hpet_wr io Main_Counter 0 h
        in (hpet_wr io (Timer_Comparator index) comparator_value h, Inr ()))"

definition hpet_init :: "'h hpet_access \<Rightarrow> hpet \<Rightarrow> ('h, unit) act" where
  "hpet_init io t h =
     act_then (hpet_setup io 0 (hpet_freq t div 10)) (\<lambda>_ h. (globally_enable io h, Inr ())) (globally_disable io h)"

definition hpet_new :: "'h hpet_access \<Rightarrow> ('h, hpet) act" where
  "hpet_new io h =
     (let caps = hpet_rd io Capabilities h; fs_per_count = drop_bit 32 caps in
      if fs_per_count = 0 then (h, Inl (Panic ''attempt to divide by zero''))
      else
        let t = \<lparr>num_of_timers = unat (drop_bit 8 caps AND 0x1F) + 1, hpet_freq = 1000000000000000 div fs_per_count\<rparr>
        in act_then (hpet_init io t) (\<lambda>_. lift_res (Inr t)) h)"

definition main_counter :: "'h hpet_access \<Rightarrow> 'h \<Rightarrow> u64" where
  "main_counter io h = hpet_rd io Main_Counter h"

definition hpet_notify_end_of_interrupt :: "'h hpet_access \<Rightarrow> 'h \<Rightarrow> 'h" where
  "hpet_notify_end_of_interrupt io h = hpet_wr io Interrupt_Status 0 h"

subsection \<open>Finding tables\<close>

text \<open>The memory holds a list of tables at \<open>xsdt\<close>.\<close>

definition xsdt_at :: "(u64 \<Rightarrow> u8) \<Rightarrow> u64 \<Rightarrow> u64 list \<Rightarrow> bool" where
  "xsdt_at m a ts \<longleftrightarrow> table_signature m a = ascii ''XSDT'' \<and> table_length m a = 36 + 8 * length ts \<and> words_at m (a + 36) ts"

lemma words_at_nth: "words_at m a ws \<Longrightarrow> i < length ws \<Longrightarrow> load64 m (a + 8 * word_of_nat i) = ws ! i"
proof (induction ws arbitrary: a i)
  case (Cons w ws)
  then show ?case using Cons.IH [of "a + 8" "i - 1"] by (cases i) (auto simp: algebra_simps)
qed simp

lemma xsdt_iter_at: "xsdt_at m a ts \<Longrightarrow> xsdt_iter m a = Inr ts"
  by (auto simp: xsdt_at_def xsdt_iter_def xsdt_num_of_entries_def usize_sub_def xsdt_entry_def words_at_nth
      intro!: nth_equalityI)

text \<open>A table that is found has the signature that its constructor expects.\<close>

lemma expect_table_at:
  assumes "xsdt_at m a ts"
  shows "expect_table m a sig =
    (case List.find (\<lambda>t. table_signature m t = ascii sig) ts of
       None \<Rightarrow> Inl (Panic (sig @ '' not found'')) | Some t \<Rightarrow> Inr t)"
proof (cases "List.find (\<lambda>t. table_signature m t = ascii sig) ts")
  case None
  then show ?thesis by (simp add: expect_table_def find_table_def xsdt_iter_at [OF assms])
next
  case (Some t)
  then have "table_signature m t = ascii sig" by (auto simp: find_Some_iff)
  with Some show ?thesis
    by (simp add: expect_table_def find_table_def xsdt_iter_at [OF assms] acpi_table_new_def expect_signature_def)
qed

lemma acpi_new_at:
  assumes "xsdt_at m (load64 m (rsdp + 24)) ts" "load_bytes m rsdp 8 = ascii ''RSD PTR ''" "2 \<le> m (rsdp + 15)"
    and "List.find (\<lambda>t. table_signature m t = ascii ''MCFG'') ts = Some mcfg"
    and "List.find (\<lambda>t. table_signature m t = ascii ''HPET'') ts = Some hpet"
    and "List.find (\<lambda>t. table_signature m t = ascii ''FACP'') ts = Some fadt"
  shows "acpi_new m rsdp = and_then (fadt_dsdt m fadt) (\<lambda>dsdt. Inr \<lparr>acpi_mcfg = mcfg, acpi_hpet = hpet, acpi_dsdt = dsdt\<rparr>)"
proof -
  have "list_all_tables m (load64 m (rsdp + 24)) = Inr ts"
    using assms(1) xsdt_iter_at [OF assms(1)] by (simp add: list_all_tables_def expect_signature_def xsdt_at_def)
  then show ?thesis
    using assms(2-6) by (simp add: acpi_new_def expect_table_at [OF assms(1)] Let_def leD)
qed

text \<open>A table that is missing is a panic.\<close>

lemma acpi_new_missing:
  assumes "xsdt_at m (load64 m (rsdp + 24)) ts" "load_bytes m rsdp 8 = ascii ''RSD PTR ''" "2 \<le> m (rsdp + 15)"
    and "\<forall>t \<in> set ts. table_signature m t \<noteq> ascii ''MCFG''"
  shows "acpi_new m rsdp = Inl (Panic ''MCFG not found'')"
proof -
  have "list_all_tables m (load64 m (rsdp + 24)) = Inr ts"
    using assms(1) xsdt_iter_at [OF assms(1)] by (simp add: list_all_tables_def expect_signature_def xsdt_at_def)
  moreover have "List.find (\<lambda>t. table_signature m t = ascii ''MCFG'') ts = None" using assms(4) by (simp add: find_None_iff)
  ultimately show ?thesis
    using assms(2,3) by (simp add: acpi_new_def expect_table_at [OF assms(1)] Let_def leD)
qed

subsection \<open>The timer after its initialisation\<close>

text \<open>Registers that keep what is written to them.\<close>

definition plain_registers :: "'h hpet_access \<Rightarrow> bool" where
  "plain_registers io \<longleftrightarrow> (\<forall>r r' v h. hpet_rd io r (hpet_wr io r' v h) = (if r = r' then v else hpet_rd io r h))"

lemma hpet_new_ok:
  assumes "plain_registers io" "drop_bit 32 (hpet_rd io Capabilities h) \<noteq> 0"
  shows "\<exists>h' t. hpet_new io h = (h', Inr t) \<and> hpet_freq t = 1000000000000000 div drop_bit 32 (hpet_rd io Capabilities h) \<and>
    1 \<le> num_of_timers t \<and> num_of_timers t \<le> 32 \<and> main_counter io h' = 0 \<and>
    hpet_rd io (Timer_Comparator 0) h' = hpet_freq t div 10 \<and>
    hpet_rd io Configuration h' AND 3 = 1 \<and>
    hpet_rd io (Timer_Config 0) h' AND (TIMER_CONFIG_INT_ENABLE OR TIMER_CONFIG_USE_PERIODIC_MODE OR TIMER_CONFIG_LEVEL_TRIGGER) =
      TIMER_CONFIG_INT_ENABLE OR TIMER_CONFIG_USE_PERIODIC_MODE \<and>
    (\<forall>n. 0 < n \<longrightarrow> hpet_rd io (Timer_Config n) h' = hpet_rd io (Timer_Config n) h)"
proof -
  have rw: "hpet_rd io r (hpet_wr io r' v h) = (if r = r' then v else hpet_rd io r h)" for r r' v h
    using assms(1) by (simp add: plain_registers_def)
  define caps where "caps = hpet_rd io Capabilities h"
  have "unat (drop_bit 8 caps AND 0x1F) \<le> unat (0x1F :: u64)"
    by (rule word_le_nat_alt [THEN iffD1]) (rule word_and_le1)
  then have n: "unat (drop_bit 8 caps AND 0x1F) \<le> 31" by simp
  have c: "((x AND - 4) OR 1) AND 3 = (1 :: u64)" "((x AND - 15887) OR 76) AND 14 = (12 :: u64)" for x
    by (simp_all add: bit.conj_disj_distrib2 and.assoc)
  show ?thesis
    using assms(2) n
    by (simp add: hpet_new_def hpet_init_def hpet_setup_def globally_disable_def globally_enable_def Let_def act_then_def lift_res_def
        main_counter_def rw caps_def [symmetric] c or.assoc TIMER_CONFIG_LEVEL_TRIGGER_def
        TIMER_CONFIG_INT_ENABLE_def TIMER_CONFIG_USE_PERIODIC_MODE_def TIMER_CONFIG_SET_COMPARATOR_VALUE_def)
qed

end
