(* ===== verification/Pci.thy ===== *)
theory Pci
  imports Acpi Paging
begin

text \<open>
  PCI devices: \<open>os/src/pci.rs\<close>, with the identifiers that the drivers of \<open>os/src/rtl8139.rs\<close> and
  \<open>os/src/xhci/driver.rs\<close> support.  The configuration space is read and written through the parameter \<open>io\<close>, on a state
  of the hardware; a driver is what it supports and what attaching it does.
  The lemmas show that a bus, a device and a function are read back from the identifier they make, that the iterator
  yields every identifier once, which devices probing attaches and that probing again attaches none of them twice,
  and that the size of a memory region is found without changing its address.
\<close>

subsection \<open>Identifiers\<close>

record vendor_device_id =
  vendor :: u16
  device :: u16

text \<open>A \<open>BusDeviceFunction\<close> is its identifier, 16 bits.\<close>

definition bdf_new :: "nat \<Rightarrow> nat \<Rightarrow> nat \<Rightarrow> u16 res" where
  "bdf_new bus dev fn =
     (if \<not> bus < 256 \<or> \<not> dev < 32 \<or> \<not> fn < 8 then Inl (Err PciBusDeviceFunctionOutOfRange)
      else Inr (ucast (push_bit 8 (word_of_nat bus) OR push_bit 3 (word_of_nat dev) OR push_bit 0 (word_of_nat fn) :: u64)))"

definition bdf_bus :: "u16 \<Rightarrow> nat" where
  "bdf_bus bdf = unat (drop_bit 8 ((ucast bdf :: u64) AND 0xFF00))"

definition bdf_device :: "u16 \<Rightarrow> nat" where
  "bdf_device bdf = unat (drop_bit 3 ((ucast bdf :: u64) AND 0x00F8))"

definition bdf_function :: "u16 \<Rightarrow> nat" where
  "bdf_function bdf = unat (drop_bit 0 ((ucast bdf :: u64) AND 0x0007))"

text \<open>The iterator: its state is the next identifier.\<close>

definition bdf_next :: "nat \<Rightarrow> (u16 \<times> nat) option" where
  "bdf_next next_id = (if next_id > 0xffff then None else Some (word_of_nat next_id, next_id + 1))"

function bdf_collect :: "nat \<Rightarrow> u16 list" where
  "bdf_collect next_id = (case bdf_next next_id of None \<Rightarrow> [] | Some (bdf, n) \<Rightarrow> bdf # bdf_collect n)"
  by pat_completeness auto
termination by (relation "measure (\<lambda>n. 0x10000 - n)") (auto simp: bdf_next_def split: if_splits)

declare bdf_collect.simps [simp del]

subsection \<open>Configuration registers\<close>

record 'h config_io =
  cfg_read8 :: "u64 \<Rightarrow> 'h \<Rightarrow> u8"
  cfg_read16 :: "u64 \<Rightarrow> 'h \<Rightarrow> u16"
  cfg_read32 :: "u64 \<Rightarrow> 'h \<Rightarrow> u32"
  cfg_write32 :: "u64 \<Rightarrow> u32 \<Rightarrow> 'h \<Rightarrow> 'h"

text \<open>\<open>ConfigRegisters::read\<close> and \<open>write\<close> check the offset of a register of \<open>n\<close> bytes.\<close>

definition config_register :: "nat \<Rightarrow> u64 \<Rightarrow> nat \<Rightarrow> u64 res" where
  "config_register n ecm_base byte_offset =
     (if \<not> byte_offset < 256 \<or> byte_offset mod n \<noteq> 0 then Inl (Err PciEcmOutOfRange)
      else Inr (ecm_base + word_of_nat (byte_offset div n * n)))"

record ('h, 'i) pci_driver =
  drv_supports :: "vendor_device_id \<Rightarrow> bool"
  drv_attach :: "u16 \<Rightarrow> ('h, 'i) act"

record ('h, 'i) pci =
  ecm_start :: nat
  ecm_end :: nat
  pci_drivers :: "('h, 'i) pci_driver list"

definition pci_new :: "(u64 \<Rightarrow> u8) \<Rightarrow> ('h, 'i) pci_driver list \<Rightarrow> u64 \<Rightarrow> ('h, 'i) pci res" where
  "pci_new m drivers mcfg =
     and_then (mcfg_num_of_entries m mcfg) (\<lambda>n.
     if n \<noteq> 1 then Inl (Panic ''assertion failed: mcfg.num_of_entries() == 1'')
     else and_then (mcfg_entry m mcfg 0) (\<lambda>e. case e of
            None \<Rightarrow> Inl (Panic ''Out of range'')
          | Some e \<Rightarrow>
              let base = unat (ecam_base_address m e) in
              and_then (usize_add base (2 ^ 24)) (\<lambda>last.
              Inr \<lparr>ecm_start = base, ecm_end = last, pci_drivers = drivers\<rparr>)))"

definition pci_ecm_base :: "('h, 'i) pci \<Rightarrow> u16 \<Rightarrow> u64 res" where
  "pci_ecm_base p bdf =
     and_then (usize_add (ecm_start p) (unat (push_bit 12 (ucast bdf :: u64)))) (\<lambda>a. Inr (word_of_nat a))"

definition read_register_u8 :: "'h config_io \<Rightarrow> ('h, 'i) pci \<Rightarrow> u16 \<Rightarrow> nat \<Rightarrow> 'h \<Rightarrow> u8 res" where
  "read_register_u8 io p bdf off h =
     and_then (pci_ecm_base p bdf) (\<lambda>b. and_then (config_register 1 b off) (\<lambda>a. Inr (cfg_read8 io a h)))"

definition read_register_u16 :: "'h config_io \<Rightarrow> ('h, 'i) pci \<Rightarrow> u16 \<Rightarrow> nat \<Rightarrow> 'h \<Rightarrow> u16 res" where
  "read_register_u16 io p bdf off h =
     and_then (pci_ecm_base p bdf) (\<lambda>b. and_then (config_register 2 b off) (\<lambda>a. Inr (cfg_read16 io a h)))"

definition read_register_u32 :: "'h config_io \<Rightarrow> ('h, 'i) pci \<Rightarrow> u16 \<Rightarrow> nat \<Rightarrow> 'h \<Rightarrow> u32 res" where
  "read_register_u32 io p bdf off h =
     and_then (pci_ecm_base p bdf) (\<lambda>b. and_then (config_register 4 b off) (\<lambda>a. Inr (cfg_read32 io a h)))"

definition read_register_u64 :: "'h config_io \<Rightarrow> ('h, 'i) pci \<Rightarrow> u16 \<Rightarrow> nat \<Rightarrow> 'h \<Rightarrow> u64 res" where
  "read_register_u64 io p bdf off h =
     and_then (read_register_u32 io p bdf off h) (\<lambda>lo.
     and_then (read_register_u32 io p bdf (off + 4) h) (\<lambda>hi.
     Inr (push_bit 32 (ucast hi) OR ucast lo)))"

definition write_register_u32 :: "'h config_io \<Rightarrow> ('h, 'i) pci \<Rightarrow> u16 \<Rightarrow> nat \<Rightarrow> u32 \<Rightarrow> ('h, unit) act" where
  "write_register_u32 io p bdf off v h =
     (case and_then (pci_ecm_base p bdf) (\<lambda>b. config_register 4 b off) of
        Inl f \<Rightarrow> (h, Inl f)
      | Inr a \<Rightarrow> (cfg_write32 io a v h, Inr ()))"

definition write_register_u64 :: "'h config_io \<Rightarrow> ('h, 'i) pci \<Rightarrow> u16 \<Rightarrow> nat \<Rightarrow> u64 \<Rightarrow> ('h, unit) act" where
  "write_register_u64 io p bdf off v =
     act_then (write_register_u32 io p bdf off (ucast v)) (\<lambda>_.
     write_register_u32 io p bdf (off + 4) (ucast (drop_bit 32 v)))"

definition set_command_and_status_flags :: "'h config_io \<Rightarrow> ('h, 'i) pci \<Rightarrow> u16 \<Rightarrow> u32 \<Rightarrow> ('h, unit) act" where
  "set_command_and_status_flags io p bdf flags h =
     act_then (lift_res (read_register_u32 io p bdf 4 h)) (\<lambda>cmd_and_status.
     write_register_u32 io p bdf 4 (flags OR cmd_and_status)) h"

definition enable_bus_master :: "'h config_io \<Rightarrow> ('h, 'i) pci \<Rightarrow> u16 \<Rightarrow> ('h, unit) act" where
  "enable_bus_master io p bdf = set_command_and_status_flags io p bdf (push_bit 2 1)"

definition disable_interrupt :: "'h config_io \<Rightarrow> ('h, 'i) pci \<Rightarrow> u16 \<Rightarrow> ('h, unit) act" where
  "disable_interrupt io p bdf = set_command_and_status_flags io p bdf (push_bit 10 1)"

subsection \<open>Base address registers\<close>

definition try_bar0_io :: "'h config_io \<Rightarrow> ('h, 'i) pci \<Rightarrow> u16 \<Rightarrow> 'h \<Rightarrow> u16 res" where
  "try_bar0_io io p bdf h =
     and_then (read_register_u32 io p bdf 0x10 h) (\<lambda>bar0.
     if bar0 AND 3 = 1 then Inr (ucast (bar0 XOR 1)) else Inl (Err PciBarInvalid))"

record bar_mem64 =
  bar_addr :: u64
  bar_size :: u64

definition try_bar0_mem64 :: "'h config_io \<Rightarrow> ('h, 'i) pci \<Rightarrow> u16 \<Rightarrow> ('h, bar_mem64) act" where
  "try_bar0_mem64 io p bdf h =
     act_then (lift_res (read_register_u64 io p bdf 0x10 h)) (\<lambda>bar0 h.
     if bar0 AND 7 = 4 then
       act_then (write_register_u64 io p bdf 0x10 (NOT 0)) (\<lambda>_ h.
       act_then (lift_res (and_then (read_register_u64 io p bdf 0x10 h) (\<lambda>x.
                   usize_add 1 (unat (NOT (x AND NOT 15)))))) (\<lambda>sz.
       act_then (write_register_u64 io p bdf 0x10 bar0) (\<lambda>_.
       lift_res (Inr \<lparr>bar_addr = bar0 AND NOT 15, bar_size = word_of_nat sz\<rparr>))) h) h
     else (h, Inl (Err PciBarInvalid))) h"

definition disable_cache :: "nat \<Rightarrow> bar_mem64 \<Rightarrow> (allocator vm, unit) act" where
  "disable_cache root bar vm =
     (let vstart = unat (bar_addr bar) in
      act_then (lift_res (usize_add vstart (unat (bar_size bar)))) (\<lambda>vend vm.
        case create_mapping alloc_with_options vm root vstart vend vstart ReadWriteIo of
          Inr vm' \<Rightarrow> (vm', Inr ())
        | Inl (Err _) \<Rightarrow> (vm, Inl (Panic ''Failed to create mapping''))
        | Inl f \<Rightarrow> (vm, Inl f)) vm)"

subsection \<open>Capabilities\<close>

text \<open>The iterator of capabilities: the header that it returns is always read at the start of the configuration space.\<close>

definition capability_next :: "'h config_io \<Rightarrow> ('h, 'i) pci \<Rightarrow> u16 \<Rightarrow> 'h \<Rightarrow> u8 \<Rightarrow> ((u8 \<times> u8) option \<times> u8) res" where
  "capability_next io p bdf h ptr =
     (if ptr = 0 then Inr (None, ptr)
      else and_then (pci_ecm_base p bdf) (\<lambda>b.
           let next = cfg_read8 io (b + 1) h in Inr (Some (cfg_read8 io b h, next), next)))"

definition capabilities :: "'h config_io \<Rightarrow> ('h, 'i) pci \<Rightarrow> u16 \<Rightarrow> 'h \<Rightarrow> u8 option res" where
  "capabilities io p bdf h =
     (case read_register_u16 io p bdf 6 h of
        Inl (Err _) \<Rightarrow> Inr None
      | Inl f \<Rightarrow> Inl f
      | Inr status \<Rightarrow>
          if status AND push_bit 4 1 \<noteq> 0 then
            (case read_register_u8 io p bdf 0x34 h of
               Inl (Err _) \<Rightarrow> Inr None
             | Inl f \<Rightarrow> Inl f
             | Inr ptr \<Rightarrow> Inr (Some ptr))
          else Inr None)"

subsection \<open>Probing\<close>

definition read_vendor_id_and_device_id :: "'h config_io \<Rightarrow> ('h, 'i) pci \<Rightarrow> u16 \<Rightarrow> 'h \<Rightarrow> vendor_device_id option res" where
  "read_vendor_id_and_device_id io p bdf h =
     (case and_then (read_register_u16 io p bdf 0 h) (\<lambda>v.
           and_then (read_register_u16 io p bdf 2 h) (\<lambda>d. Inr (v, d))) of
        Inl (Err _) \<Rightarrow> Inr None
      | Inl f \<Rightarrow> Inl f
      | Inr (v, d) \<Rightarrow> Inr (if v = 0xFFFF \<or> d = 0xFFFF then None else Some \<lparr>vendor = v, device = d\<rparr>))"

definition rtl8139_supports :: "vendor_device_id \<Rightarrow> bool" where
  "rtl8139_supports vp \<longleftrightarrow> vp = \<lparr>vendor = 0x10ec, device = 0x8139\<rparr>"

definition xhci_supports :: "vendor_device_id \<Rightarrow> bool" where
  "xhci_supports vp \<longleftrightarrow>
     vp \<in> set [\<lparr>vendor = 0x1b36, device = 0x000d\<rparr>, \<lparr>vendor = 0x8086, device = 0x31a8\<rparr>, \<lparr>vendor = 0x8086, device = 0x02ed\<rparr>]"

text \<open>The state while probing: the hardware and the devices that have a driver.\<close>

type_synonym ('h, 'i) probing = "'h \<times> (u16 \<rightharpoonup> 'i)"

definition try_driver :: "u16 \<Rightarrow> vendor_device_id \<Rightarrow> ('h, 'i) pci_driver \<Rightarrow> (('h, 'i) probing, unit) act" where
  "try_driver bdf vd d s =
     (if drv_supports d vd then
        (case drv_attach d bdf (fst s) of
           (h, Inr di) \<Rightarrow> ((h, (snd s)(bdf \<mapsto> di)), Inr ())
         | (h, Inl (Err _)) \<Rightarrow> ((h, snd s), Inr ())
         | (h, Inl f) \<Rightarrow> ((h, snd s), Inl f))
      else (s, Inr ()))"

definition probe_device :: "'h config_io \<Rightarrow> ('h, 'i) pci \<Rightarrow> u16 \<Rightarrow> (('h, 'i) probing, unit) act" where
  "probe_device io p bdf s =
     (case read_vendor_id_and_device_id io p bdf (fst s) of
        Inl f \<Rightarrow> (s, Inl f)
      | Inr None \<Rightarrow> (s, Inr ())
      | Inr (Some vd) \<Rightarrow>
          if snd s bdf \<noteq> None then (s, Inr ()) else for_each (try_driver bdf vd) (pci_drivers p) s)"

definition probe_devices :: "'h config_io \<Rightarrow> ('h, 'i) pci \<Rightarrow> (('h, 'i) probing, unit) act" where
  "probe_devices io p = for_each (probe_device io p) (bdf_collect 0)"

subsection \<open>Identifiers read back\<close>

lemma bdf_roundtrip:
  assumes "bus < 256" "dev < 32" "fn < 8"
  shows "\<exists>bdf. bdf_new bus dev fn = Inr bdf \<and> bdf_bus bdf = bus \<and> bdf_device bdf = dev \<and> bdf_function bdf = fn"
proof -
  define x y z where d: "x = (word_of_nat bus :: u64)" "y = (word_of_nat dev :: u64)" "z = (word_of_nat fn :: u64)"
  have u: "unat x = bus" "unat y = dev" "unat z = fn" using assms by (simp_all add: d unat_of_nat)
  have t: "take_bit 8 x = x" "take_bit 5 y = y" "take_bit 3 z = z"
    using assms by (simp_all add: d take_bit_of_nat take_bit_nat_eq_self)
  have b: "bit x n \<Longrightarrow> n < 8" "bit y n \<Longrightarrow> n < 5" "bit z n \<Longrightarrow> n < 3" for n
    using t by (metis bit_take_bit_iff)+
  have m: "0xFF00 = push_bit 8 (mask 8 :: u64)" "0x00F8 = push_bit 3 (mask 5 :: u64)" "0x0007 = (mask 3 :: u64)"
    by (simp_all add: mask_eq_exp_minus_1)
  let ?w = "ucast (push_bit 8 x OR push_bit 3 y OR push_bit 0 z) :: u16"
  have "drop_bit 8 ((ucast ?w :: u64) AND 0xFF00) = x"
    unfolding m by (rule bit_word_eqI) (auto simp: bit_simps dest: b)
  moreover have "drop_bit 3 ((ucast ?w :: u64) AND 0x00F8) = y"
    unfolding m by (rule bit_word_eqI) (auto simp: bit_simps dest: b)
  moreover have "drop_bit 0 ((ucast ?w :: u64) AND 0x0007) = z"
    unfolding m by (rule bit_word_eqI) (auto simp: bit_simps dest: b)
  ultimately show ?thesis
    using assms u unfolding bdf_new_def bdf_bus_def bdf_device_def bdf_function_def d by auto
qed

lemma bdf_collect_from: "n \<le> 0x10000 \<Longrightarrow> bdf_collect n = map word_of_nat [n..<0x10000]"
proof (induction n rule: bdf_collect.induct)
  case (1 n)
  define N :: nat where "N = 0x10000"
  have "bdf_collect n = map word_of_nat [n..<N]"
  proof (cases "n = N")
    case True
    then show ?thesis by (subst bdf_collect.simps) (simp add: bdf_next_def N_def)
  next
    case False
    with 1 have n: "bdf_next n = Some (word_of_nat n, n + 1)" "n < N" by (simp_all add: bdf_next_def N_def)
    with 1(1) [OF n(1) refl] have "bdf_collect (n + 1) = map word_of_nat [n + 1..<N]" unfolding N_def by simp
    with n show ?thesis by (subst bdf_collect.simps) (simp add: upt_conv_Cons)
  qed
  then show ?case unfolding N_def .
qed

lemma bdf_collect_all: "distinct (bdf_collect 0)" "set (bdf_collect 0) = UNIV" "length (bdf_collect 0) = 0x10000"
proof -
  define N :: nat where "N = 0x10000"
  have c: "bdf_collect 0 = map word_of_nat [0..<N]" unfolding N_def by (rule bdf_collect_from) simp
  have "inj_on (word_of_nat :: nat \<Rightarrow> u16) {0..<N}"
    by (rule inj_onI) (simp add: word_unat_eq_iff unat_of_nat N_def)
  then show "distinct (bdf_collect 0)" by (simp add: c distinct_map)
  have "x \<in> word_of_nat ` {0..<N}" for x :: u16
    using unsigned_less [of x, where ?'a = nat] by (intro image_eqI [of _ _ "unat x"]) (simp_all add: N_def)
  then show "set (bdf_collect 0) = UNIV" by (auto simp: c)
  show "length (bdf_collect 0) = 0x10000" by (simp add: c N_def)
qed

subsection \<open>Base addresses\<close>

text \<open>A base address register as the bus defines it: of what is written, the bits below the size do not change.\<close>

definition bar_register :: "'h config_io \<Rightarrow> u64 \<Rightarrow> u64 \<Rightarrow> u64 \<Rightarrow> bool" where
  "bar_register io a sz flags \<longleftrightarrow>
     (\<forall>lo hi h. let h' = cfg_write32 io (a + 4) hi (cfg_write32 io a lo h)
       in push_bit 32 (ucast (cfg_read32 io (a + 4) h')) OR ucast (cfg_read32 io a h') =
          (((push_bit 32 (ucast hi) OR ucast lo) AND NOT (sz - 1)) OR flags))"

lemma join_split: "push_bit 32 (ucast (ucast (drop_bit 32 v) :: u32)) OR ucast (ucast v :: u32) = (v :: u64)"
proof (rule bit_word_eqI)
  fix n assume "n < LENGTH(64)"
  then show "bit (push_bit 32 (ucast (ucast (drop_bit 32 v) :: u32)) OR ucast (ucast v :: u32) :: u64) n = bit v n"
    by (cases "n < 32") (auto simp: bit_simps)
qed

lemma pci_ecm_base_ok:
  assumes "ecm_start p + 2 ^ 28 \<le> 2 ^ 64"
  shows "pci_ecm_base p bdf = Inr (word_of_nat (ecm_start p) + push_bit 12 (ucast bdf))"
proof -
  have "unat (push_bit 12 (ucast bdf :: u64)) = 4096 * unat bdf"
    using unsigned_less [of bdf, where ?'a = nat]
    by (simp add: push_bit_eq_mult unat_word_ariths unsigned_ucast_eq take_bit_nat_eq_self mult.commute)
  then have "unat (push_bit 12 (ucast bdf :: u64)) < 2 ^ 28" using unsigned_less [of bdf, where ?'a = nat] by simp
  then show ?thesis using assms by (simp add: pci_ecm_base_def usize_add_def)
qed

lemma register_pair:
  assumes "ecm_start p + 2 ^ 28 \<le> 2 ^ 64" "a = word_of_nat (ecm_start p) + push_bit 12 (ucast bdf) + 0x10"
  shows "read_register_u64 io p bdf 0x10 h = Inr (push_bit 32 (ucast (cfg_read32 io (a + 4) h)) OR ucast (cfg_read32 io a h))"
    "write_register_u64 io p bdf 0x10 v h =
       (cfg_write32 io (a + 4) (ucast (drop_bit 32 v)) (cfg_write32 io a (ucast v) h), Inr ())"
  using pci_ecm_base_ok [OF assms(1), of bdf] assms(2)
  by (simp_all add: read_register_u64_def read_register_u32_def write_register_u64_def write_register_u32_def config_register_def
      act_then_def add.assoc)

lemma bar_probe:
  assumes "ecm_start p + 2 ^ 28 \<le> 2 ^ 64" "a = word_of_nat (ecm_start p) + push_bit 12 (ucast bdf) + 0x10"
    and bar: "bar_register io a (push_bit k 1) flags" "4 \<le> k" "k < 64"
    and flags: "flags AND 7 = 4" "flags AND NOT 15 = 0"
    and v: "base AND NOT (push_bit k 1 - 1) = base"
    and h: "push_bit 32 (ucast (cfg_read32 io (a + 4) h)) OR ucast (cfg_read32 io a h) = base OR flags"
  shows "\<exists>h'. try_bar0_mem64 io p bdf h = (h', Inr \<lparr>bar_addr = base, bar_size = push_bit k 1\<rparr>) \<and>
    push_bit 32 (ucast (cfg_read32 io (a + 4) h')) OR ucast (cfg_read32 io a h') = base OR flags"
proof -
  let ?m = "push_bit k 1 - 1 :: u64"
  let ?w = "\<lambda>(v :: u64) h. cfg_write32 io (a + 4) (ucast (drop_bit 32 v)) (cfg_write32 io a (ucast v) h)"
  note rp = register_pair [OF assms(1,2), of io]
  have m: "?m = mask k" by (simp add: mask_eq_exp_minus_1 push_bit_eq_mult)
  have rd: "push_bit 32 (ucast (cfg_read32 io (a + 4) (?w v h))) OR ucast (cfg_read32 io a (?w v h)) =
      (v AND NOT ?m) OR flags" for v h
    using bar(1) unfolding bar_register_def Let_def by (simp add: join_split)
  have lo: "bit x n \<Longrightarrow> n < 4" if "x AND NOT 15 = 0" for x :: u64 and n
  proof -
    assume "bit x n"
    moreover have "15 = (mask 4 :: u64)" by (simp add: mask_eq_exp_minus_1)
    then have "\<not> bit (x AND NOT (mask 4)) n" using that by simp
    ultimately show "n < 4" by (auto simp: bit_simps dest: bit_imp_le_length)
  qed
  have hi: "bit base n \<Longrightarrow> k \<le> n" for n
  proof -
    assume b: "bit base n"
    then have "bit (base AND NOT (mask k)) n" using v unfolding m by simp
    then show "k \<le> n" by (auto simp: bit_simps)
  qed
  have m15: "15 = (mask 4 :: u64)" "7 = (mask 3 :: u64)" by (simp_all add: mask_eq_exp_minus_1)
  have "bit ((base OR flags) AND NOT (mask 4)) n = bit base n" "bit ((base OR flags) AND mask 3) n = bit (flags AND mask 3) n"
      "bit (NOT (((NOT 0 AND NOT (mask k)) OR flags) AND NOT (mask 4))) n = bit (mask k :: u64) n" if "n < LENGTH(64)" for n
    using hi [of n] lo [OF flags(2), of n] bar(2) that by (auto simp: bit_simps)
  then have base: "(base OR flags) AND NOT 15 = base" "(base OR flags) AND 7 = 4"
      "NOT (((NOT 0 AND NOT ?m) OR flags) AND NOT 15) = ?m"
    unfolding m15 m flags(1) [unfolded m15, symmetric] by (auto intro!: bit_word_eqI)
  have sz: "usize_add 1 (unat ?m) = Inr (2 ^ k)" "word_of_nat (2 ^ k) = (push_bit k 1 :: u64)"
  proof -
    show w: "word_of_nat (2 ^ k) = (push_bit k 1 :: u64)" by (simp add: push_bit_eq_mult)
    have k: "(2 :: nat) ^ k < 2 ^ 64" using bar(3) by (intro power_strict_increasing) simp_all
    then have u: "unat (push_bit k 1 :: u64) = 2 ^ k" unfolding w [symmetric] unat_of_nat by simp
    then have "unat ?m = 2 ^ k - 1" by (subst unat_sub) (simp_all add: word_le_nat_alt)
    with k show "usize_add 1 (unat ?m) = Inr (2 ^ k)" by (simp add: usize_add_def)
  qed
  have "try_bar0_mem64 io p bdf h = (?w (base OR flags) (?w (NOT 0) h), Inr \<lparr>bar_addr = base, bar_size = push_bit k 1\<rparr>)"
    using base sz by (simp only: try_bar0_mem64_def rp h rd lift_res_then and_then_simps act_then_simps if_True base sz) (simp add: lift_res_def act_then_def)
  moreover have "bit (((base OR flags) AND NOT (mask k)) OR flags) n = bit (base OR flags) n" if "n < LENGTH(64)" for n
    using hi [of n] that by (auto simp: bit_simps)
  then have "((base OR flags) AND NOT ?m) OR flags = base OR flags" unfolding m by (rule bit_word_eqI)
  ultimately show ?thesis using rd [of "base OR flags" "?w (NOT 0) h"] by simp
qed

subsection \<open>What probing does\<close>

text \<open>Which devices there are, and the drivers that keep them: none of them panics, and attaching does not change the
  identifiers in the configuration space.\<close>

definition same_devices :: "'h config_io \<Rightarrow> ('h, 'i) pci \<Rightarrow> 'h \<Rightarrow> 'h \<Rightarrow> bool" where
  "same_devices io p h h' \<longleftrightarrow> (\<forall>b. read_vendor_id_and_device_id io p b h' = read_vendor_id_and_device_id io p b h)"

definition quiet_driver :: "'h config_io \<Rightarrow> ('h, 'i) pci \<Rightarrow> ('h, 'i) pci_driver \<Rightarrow> bool" where
  "quiet_driver io p d \<longleftrightarrow> (\<forall>bdf h. same_devices io p h (fst (drv_attach d bdf h)) \<and>
     (case snd (drv_attach d bdf h) of Inr _ \<Rightarrow> True | Inl (Err _) \<Rightarrow> True | Inl _ \<Rightarrow> False))"

definition attaches :: "('h, 'i) pci_driver \<Rightarrow> bool" where
  "attaches d \<longleftrightarrow> (\<forall>bdf h. \<exists>di. snd (drv_attach d bdf h) = Inr di)"

definition driven :: "'h config_io \<Rightarrow> ('h, 'i) pci \<Rightarrow> 'h \<Rightarrow> u16 set" where
  "driven io p h =
     {bdf. \<exists>vd. read_vendor_id_and_device_id io p bdf h = Inr (Some vd) \<and> (\<exists>d \<in> set (pci_drivers p). drv_supports d vd)}"

lemma same_devices_trans: "same_devices io p a b \<Longrightarrow> same_devices io p b c \<Longrightarrow> same_devices io p a c"
  by (simp add: same_devices_def)

lemma driven_same: "same_devices io p h h' \<Longrightarrow> driven io p h' = driven io p h"
  by (simp add: same_devices_def driven_def)

text \<open>What one device adds: nothing is changed but its own entry, which appears only if a driver supports the device.\<close>

lemma try_drivers_ok:
  assumes "\<forall>d \<in> set ds. quiet_driver io p d"
  shows "\<exists>s'. for_each (try_driver bdf vd) ds s = (s', Inr ()) \<and> same_devices io p (fst s) (fst s') \<and>
    (\<forall>b. b \<noteq> bdf \<longrightarrow> snd s' b = snd s b) \<and> (snd s bdf \<noteq> None \<longrightarrow> snd s' bdf \<noteq> None) \<and>
    ((\<forall>d \<in> set ds. \<not> drv_supports d vd) \<longrightarrow> s' = s) \<and>
    ((\<forall>d \<in> set ds. attaches d) \<longrightarrow> (\<exists>d \<in> set ds. drv_supports d vd) \<longrightarrow> snd s' bdf \<noteq> None)"
  using assms
proof (induction ds arbitrary: s)
  case Nil
  then show ?case by (simp add: same_devices_def)
next
  case (Cons d ds)
  obtain h r where a: "drv_attach d bdf (fst s) = (h, r)" by (cases "drv_attach d bdf (fst s)")
  define s1 where "s1 = fst (try_driver bdf vd d s)"
  have q: "same_devices io p (fst s) h" "case r of Inr _ \<Rightarrow> True | Inl (Err _) \<Rightarrow> True | Inl _ \<Rightarrow> False"
    using Cons.prems a by (auto simp: quiet_driver_def dest!: spec [of _ bdf] spec [of _ "fst s"])
  have t: "try_driver bdf vd d s = (s1, Inr ())" "same_devices io p (fst s) (fst s1)" "\<forall>b. b \<noteq> bdf \<longrightarrow> snd s1 b = snd s b"
      "snd s bdf \<noteq> None \<longrightarrow> snd s1 bdf \<noteq> None" "\<not> drv_supports d vd \<longrightarrow> s1 = s"
    using q a by (auto simp: s1_def try_driver_def same_devices_def split: sum.splits fault.splits)
  have at: "attaches d \<Longrightarrow> drv_supports d vd \<Longrightarrow> snd s1 bdf \<noteq> None"
  proof -
    assume "attaches d" and sup: "drv_supports d vd"
    then obtain di where "snd (drv_attach d bdf (fst s)) = Inr di" unfolding attaches_def by blast
    with a sup show "snd s1 bdf \<noteq> None" by (simp add: s1_def try_driver_def)
  qed
  have "\<forall>d \<in> set ds. quiet_driver io p d" using Cons.prems by simp
  from Cons.IH [OF this, of s1] obtain s2 where
    "for_each (try_driver bdf vd) ds s1 = (s2, Inr ())" "same_devices io p (fst s1) (fst s2)"
    "\<forall>b. b \<noteq> bdf \<longrightarrow> snd s2 b = snd s1 b" "snd s1 bdf \<noteq> None \<longrightarrow> snd s2 bdf \<noteq> None"
    "(\<forall>d \<in> set ds. \<not> drv_supports d vd) \<longrightarrow> s2 = s1"
    "(\<forall>d \<in> set ds. attaches d) \<longrightarrow> (\<exists>d \<in> set ds. drv_supports d vd) \<longrightarrow> snd s2 bdf \<noteq> None"
    by (elim exE conjE)
  with t at show ?case by (intro exI [of _ s2]) (auto simp: act_then_def intro: same_devices_trans)
qed

text \<open>Probing a list of identifiers, from a state with the devices of \<open>h\<close>.\<close>

definition probed :: "'h config_io \<Rightarrow> ('h, 'i) pci \<Rightarrow> 'h \<Rightarrow> u16 set \<Rightarrow> ('h, 'i) probing \<Rightarrow> ('h, 'i) probing \<Rightarrow> bool" where
  "probed io p h B s s' \<longleftrightarrow> same_devices io p h (fst s') \<and> (\<forall>b. snd s b \<noteq> None \<longrightarrow> snd s' b = snd s b) \<and>
     dom (snd s') \<subseteq> dom (snd s) \<union> (driven io p h \<inter> B) \<and>
     ((\<forall>d \<in> set (pci_drivers p). attaches d) \<longrightarrow> dom (snd s') = dom (snd s) \<union> (driven io p h \<inter> B))"

lemma probed_trans:
  assumes "probed io p h B s s1" "probed io p h C s1 s2"
  shows "probed io p h (B \<union> C) s s2"
proof -
  have "snd s b \<noteq> None \<Longrightarrow> snd s2 b = snd s b" for b using assms unfolding probed_def by metis
  moreover have "dom (snd s2) \<subseteq> dom (snd s) \<union> (driven io p h \<inter> (B \<union> C))" using assms unfolding probed_def by blast
  moreover have "(\<forall>d \<in> set (pci_drivers p). attaches d) \<longrightarrow> dom (snd s2) = dom (snd s) \<union> (driven io p h \<inter> (B \<union> C))"
    using assms unfolding probed_def by blast
  moreover have "same_devices io p h (fst s2)" using assms(2) by (simp add: probed_def)
  ultimately show ?thesis unfolding probed_def by blast
qed

lemma probe_device_ok:
  assumes "\<forall>d \<in> set (pci_drivers p). quiet_driver io p d" "same_devices io p h (fst s)"
    "read_vendor_id_and_device_id io p bdf h = Inr r"
  shows "\<exists>s'. probe_device io p bdf s = (s', Inr ()) \<and> probed io p h {bdf} s s'"
proof -
  have r: "read_vendor_id_and_device_id io p bdf (fst s) = Inr r" using assms(2,3) by (simp add: same_devices_def)
  show ?thesis
  proof (cases r)
    case None
    then have "bdf \<notin> driven io p h" using assms(3) by (simp add: driven_def)
    with r None assms(2) show ?thesis by (simp add: probe_device_def probed_def)
  next
    case (Some vd)
    show ?thesis
    proof (cases "snd s bdf = None")
      case False
      with r Some assms(2) show ?thesis by (auto simp: probe_device_def probed_def)
    next
      case True
      from try_drivers_ok [OF assms(1), of bdf vd s] obtain s' where
        t: "for_each (try_driver bdf vd) (pci_drivers p) s = (s', Inr ())" "same_devices io p (fst s) (fst s')"
          "\<forall>b. b \<noteq> bdf \<longrightarrow> snd s' b = snd s b" "(\<forall>d \<in> set (pci_drivers p). \<not> drv_supports d vd) \<longrightarrow> s' = s"
          "(\<forall>d \<in> set (pci_drivers p). attaches d) \<longrightarrow> (\<exists>d \<in> set (pci_drivers p). drv_supports d vd) \<longrightarrow> snd s' bdf \<noteq> None"
        by (elim exE conjE)
      have dr: "bdf \<in> driven io p h \<longleftrightarrow> (\<exists>d \<in> set (pci_drivers p). drv_supports d vd)"
        using assms(3) Some by (simp add: driven_def)
      have "\<forall>b. snd s b \<noteq> None \<longrightarrow> snd s' b = snd s b" using t(3) True by metis
      moreover have dom: "dom (snd s') - {bdf} = dom (snd s) - {bdf}" using t(3) by (auto simp: dom_def)
      have "bdf \<notin> driven io p h \<Longrightarrow> s' = s" using t(4) dr by blast
      then have "dom (snd s') \<subseteq> dom (snd s) \<union> (driven io p h \<inter> {bdf})" using dom by blast
      moreover have "(\<forall>d \<in> set (pci_drivers p). attaches d) \<longrightarrow> dom (snd s') = dom (snd s) \<union> (driven io p h \<inter> {bdf})"
        using t(4,5) dr dom True by blast
      ultimately have "probed io p h {bdf} s s'"
        using same_devices_trans [OF assms(2) t(2)] by (simp add: probed_def)
      moreover have "probe_device io p bdf s = (s', Inr ())" using r Some True t(1) by (simp add: probe_device_def)
      ultimately show ?thesis by blast
    qed
  qed
qed

lemma probe_list_ok:
  assumes "\<forall>d \<in> set (pci_drivers p). quiet_driver io p d" "\<forall>b. \<exists>r. read_vendor_id_and_device_id io p b h = Inr r"
  shows "same_devices io p h (fst s) \<Longrightarrow> \<exists>s'. for_each (probe_device io p) bs s = (s', Inr ()) \<and> probed io p h (set bs) s s'"
proof (induction bs arbitrary: s)
  case Nil
  then show ?case by (simp add: probed_def)
next
  case (Cons b bs)
  obtain r where "read_vendor_id_and_device_id io p b h = Inr r" using assms(2) by blast
  from probe_device_ok [OF assms(1) Cons.prems this] obtain s1 where
    s1: "probe_device io p b s = (s1, Inr ())" "probed io p h {b} s s1" by blast
  then have "same_devices io p h (fst s1)" by (simp add: probed_def)
  from Cons.IH [OF this] obtain s2 where
    s2: "for_each (probe_device io p) bs s1 = (s2, Inr ())" "probed io p h (set bs) s1 s2" by blast
  from probed_trans [OF s1(2) s2(2)] s1(1) s2(1) show ?case by (simp add: act_then_def)
qed

lemma ids_read:
  assumes "ecm_start p + 2 ^ 28 \<le> 2 ^ 64"
  shows "\<exists>r. read_vendor_id_and_device_id io p b h = Inr r"
  by (simp add: read_vendor_id_and_device_id_def read_register_u16_def pci_ecm_base_ok [OF assms] config_register_def)

lemma probe_devices_ok:
  assumes "ecm_start p + 2 ^ 28 \<le> 2 ^ 64" "\<forall>d \<in> set (pci_drivers p). quiet_driver io p d"
  shows "\<exists>s'. probe_devices io p s = (s', Inr ()) \<and> probed io p (fst s) UNIV s s'"
  using probe_list_ok [OF assms(2), of "fst s" s "bdf_collect 0"] ids_read [OF assms(1), of io _ "fst s"]
  by (simp add: probe_devices_def same_devices_def bdf_collect_all)

text \<open>Probing again changes nothing when every driver attaches its devices.\<close>

lemma probe_settled:
  assumes "\<forall>b. \<exists>r. read_vendor_id_and_device_id io p b (fst s) = Inr r" "driven io p (fst s) \<subseteq> dom (snd s)"
  shows "for_each (probe_device io p) bs s = (s, Inr ())"
proof (induction bs)
  case (Cons b bs)
  obtain r where r: "read_vendor_id_and_device_id io p b (fst s) = Inr r" using assms(1) by blast
  have "for_each (try_driver b vd) ds s = (s, Inr ())" if "\<forall>d \<in> set ds. \<not> drv_supports d vd" for vd ds
    using that by (induction ds) (simp_all add: try_driver_def act_then_def)
  moreover have "snd s b = None \<Longrightarrow> r = Some vd \<Longrightarrow> \<forall>d \<in> set (pci_drivers p). \<not> drv_supports d vd" for vd
    using assms(2) r by (auto simp: driven_def)
  ultimately have "probe_device io p b s = (s, Inr ())" using r by (cases r) (auto simp: probe_device_def)
  with Cons show ?case by (simp add: act_then_def)
qed simp

lemma probe_twice:
  assumes "ecm_start p + 2 ^ 28 \<le> 2 ^ 64" "\<forall>d \<in> set (pci_drivers p). quiet_driver io p d \<and> attaches d"
    "probe_devices io p s = (s', r)"
  shows "probe_devices io p s' = (s', Inr ())"
proof -
  have "\<forall>d \<in> set (pci_drivers p). quiet_driver io p d" using assms(2) by blast
  from probe_devices_ok [OF assms(1) this, of s] assms(3) have "probed io p (fst s) UNIV s s'" by simp
  then have "same_devices io p (fst s) (fst s')" "dom (snd s') = dom (snd s) \<union> driven io p (fst s)"
    using assms(2) unfolding probed_def by simp_all
  then have "driven io p (fst s') \<subseteq> dom (snd s')" using driven_same [of io p "fst s" "fst s'"] by simp
  then show ?thesis unfolding probe_devices_def using ids_read [OF assms(1)] by (intro probe_settled allI)
qed

text \<open>No device is supported by both drivers.\<close>

lemma supports_disjoint: "\<not> (rtl8139_supports vd \<and> xhci_supports vd)"
  by (auto simp: rtl8139_supports_def xhci_supports_def)

text \<open>The iterator of capabilities does not end where the second byte of the configuration space is not zero.\<close>

lemma capability_next_stuck:
  assumes "pci_ecm_base p bdf = Inr b" "cfg_read8 io (b + 1) h \<noteq> 0" "ptr \<noteq> 0"
  shows "capability_next io p bdf h ptr = Inr (Some (cfg_read8 io b h, cfg_read8 io (b + 1) h), cfg_read8 io (b + 1) h)"
  using assms by (simp add: capability_next_def Let_def)

end
