(* ===== verification/Interrupts.thy ===== *)
theory Interrupts
  imports Context Memory
begin

text \<open>
  Interrupts: the descriptor tables of \<open>os/src/x86_64/gdt.rs\<close> and \<open>os/src/x86_64/idt.rs\<close>, the interrupt stacks of the
  task state segment, the entry points and \<open>inthandler_common\<close> as lists of instructions on the machine of theory
  \<open>Context\<close>, and the handler \<open>inthandler\<close> with the end-of-interrupt write of \<open>os/src/x86_64/apic.rs\<close>.
  What the processor does when it takes an interrupt through a gate and in \<open>iretq\<close> is written as the manual of the
  processor has it; what happens to the flags are parameters.
  The lemmas show that the descriptors hold the addresses they are made of, that the handler sees the registers of the
  interrupted program, that the timer interrupt leaves that program as it was, that every other interrupt ends in a
  panic, and that the interrupt stacks do not overlap.
\<close>

subsection \<open>The global descriptor table\<close>

definition BIT_TYPE_DATA :: u64 where "BIT_TYPE_DATA = push_bit 43 2"
definition BIT_TYPE_CODE :: u64 where "BIT_TYPE_CODE = push_bit 43 3"
definition BIT_PRESENT :: u64 where "BIT_PRESENT = push_bit 47 1"
definition BIT_CS_LONG_MODE :: u64 where "BIT_CS_LONG_MODE = push_bit 53 1"
definition BIT_CS_READABLE :: u64 where "BIT_CS_READABLE = push_bit 53 1"
definition BIT_DS_WRITABLE :: u64 where "BIT_DS_WRITABLE = push_bit 41 1"
definition BIT_DPL3 :: u64 where "BIT_DPL3 = push_bit 45 3"

datatype gdt_attr = KernelCode | KernelData | User64Code | UserData

fun gdt_attr_bits :: "gdt_attr \<Rightarrow> u64" where
  "gdt_attr_bits KernelCode = BIT_TYPE_CODE OR BIT_PRESENT OR BIT_CS_LONG_MODE OR BIT_CS_READABLE"
| "gdt_attr_bits KernelData = BIT_TYPE_DATA OR BIT_PRESENT OR BIT_DS_WRITABLE"
| "gdt_attr_bits User64Code = BIT_TYPE_CODE OR BIT_PRESENT OR BIT_CS_LONG_MODE OR BIT_CS_READABLE OR BIT_DPL3"
| "gdt_attr_bits UserData = BIT_TYPE_DATA OR BIT_PRESENT OR BIT_DS_WRITABLE OR BIT_DPL3"

definition KERNEL_CS :: u16 where "KERNEL_CS = push_bit 3 1"
definition KERNEL_DS :: u16 where "KERNEL_DS = push_bit 3 2"
definition USER32_CS :: u16 where "USER32_CS = push_bit 3 3 OR 3"
definition USER_DS :: u16 where "USER_DS = push_bit 3 4 OR 3"
definition USER64_CS :: u16 where "USER64_CS = push_bit 3 5 OR 3"
definition TSS64_SEL :: u16 where "TSS64_SEL = push_bit 3 6"

definition TSS_SIZE :: nat where "TSS_SIZE = 104"

definition tss_descriptor :: "u64 \<Rightarrow> bytes" where
  "tss_descriptor base_addr =
     le_word (word_of_nat TSS_SIZE :: u16) @ le_word (ucast (base_addr AND 0xffff) :: u16) @
     [ucast (drop_bit 16 base_addr AND 0xff)] @ le_word (0x8089 :: u16) @
     [ucast (drop_bit 24 base_addr AND 0xff)] @ le_word (ucast (drop_bit 32 base_addr AND 0xffffffff) :: u32) @
     le_word (0 :: u32)"

definition gdt_new :: "u64 \<Rightarrow> bytes" where
  "gdt_new tss64 =
     le_word (0 :: u64) @ le_word (gdt_attr_bits KernelCode) @ le_word (gdt_attr_bits KernelData) @ le_word (0 :: u64) @
     le_word (gdt_attr_bits UserData) @ le_word (gdt_attr_bits User64Code) @ tss_descriptor tss64"

text \<open>The value of \<open>MSR_STAR\<close>, from which \<open>syscall\<close> and \<open>sysret\<close> take their selectors.\<close>

definition syscall_star :: u64 where
  "syscall_star = push_bit 32 (ucast KERNEL_CS) OR push_bit 48 (ucast USER32_CS)"

subsection \<open>The interrupt descriptor table\<close>

definition BIT_FLAGS_INTGATE :: u8 where "BIT_FLAGS_INTGATE = 0x0E"
definition BIT_FLAGS_PRESENT :: u8 where "BIT_FLAGS_PRESENT = 0x80"
definition BIT_FLAGS_DPL3 :: u8 where "BIT_FLAGS_DPL3 = push_bit 5 3"

datatype idt_attr = Idt_NotPresent | IntGateDPL0 | IntGateDPL3

fun idt_attr_bits :: "idt_attr \<Rightarrow> u8" where
  "idt_attr_bits Idt_NotPresent = 0"
| "idt_attr_bits IntGateDPL0 = BIT_FLAGS_INTGATE OR BIT_FLAGS_PRESENT"
| "idt_attr_bits IntGateDPL3 = BIT_FLAGS_INTGATE OR BIT_FLAGS_PRESENT OR BIT_FLAGS_DPL3"

record idt_descriptor =
  offset_low :: u16
  segment_selector :: u16
  ist_index :: u8
  idt_attr_of :: idt_attr
  offset_mid :: u16
  offset_high :: u32

definition idt_descriptor_new :: "u16 \<Rightarrow> u8 \<Rightarrow> idt_attr \<Rightarrow> u64 \<Rightarrow> idt_descriptor" where
  "idt_descriptor_new selector ist attr handler_addr =
     \<lparr>offset_low = ucast handler_addr, segment_selector = selector, ist_index = ist, idt_attr_of = attr,
      offset_mid = ucast (drop_bit 16 handler_addr), offset_high = ucast (drop_bit 32 handler_addr)\<rparr>"

text \<open>\<open>entry n\<close> is the address of \<open>interrupt_entrypoint\<close>\<open>n\<close>, and \<open>unimplemented\<close> that of \<open>int_handler_unimplemented\<close>.\<close>

definition idt_new :: "(nat \<Rightarrow> u64) \<Rightarrow> u64 \<Rightarrow> u16 \<Rightarrow> idt_descriptor list" where
  "idt_new entry unimplemented selector =
     (replicate 0x100 (idt_descriptor_new selector 1 IntGateDPL0 unimplemented))
       [3 := idt_descriptor_new selector 1 IntGateDPL3 (entry 3),
        6 := idt_descriptor_new selector 1 IntGateDPL0 (entry 6),
        8 := idt_descriptor_new selector 2 IntGateDPL0 (entry 8),
        13 := idt_descriptor_new selector 1 IntGateDPL0 (entry 13),
        14 := idt_descriptor_new selector 1 IntGateDPL0 (entry 14),
        32 := idt_descriptor_new selector 1 IntGateDPL0 (entry 32)]"

subsection \<open>The interrupt stacks\<close>

text \<open>\<open>alloc_pages\<close> of \<open>os/src/memory.rs\<close>: the pages are copied to a box, which is allocated without their alignment.\<close>

definition boxed_alloc_pages :: "allocator \<Rightarrow> nat \<Rightarrow> (allocator \<times> nat) res" where
  "boxed_alloc_pages A num_pages =
     and_then (usize_mul PAGE_SIZE num_pages) (\<lambda>sz.
     and_then (ok_or (from_size_align sz PAGE_SIZE) (Failed ''could not allocate pages'')) (\<lambda>l.
     and_then (alloc_with_options A l) (\<lambda>(A, p).
     if p = 0 then Inl (UB ''slice from the null pointer'')
     else if sz = 0 then Inr (A, 1)
     else and_then (alloc_with_options A \<lparr>l_size = sz, l_align = 1\<rparr>) (\<lambda>(A, q).
          if q = 0 then Inl (Panic ''allocation error'') else Inr (A, q)))))"

definition IST_STACK_NUM_PAGES :: nat where "IST_STACK_NUM_PAGES = 16"

definition alloc_interrupt_stack :: "allocator \<Rightarrow> (allocator \<times> u64) res" where
  "alloc_interrupt_stack A =
     (case boxed_alloc_pages A IST_STACK_NUM_PAGES of
        Inl (Err _) \<Rightarrow> Inl (Panic ''Failed to alloc an interrupt stack'')
      | Inl f \<Rightarrow> Inl f
      | Inr (A, p) \<Rightarrow> Inr (A, word_of_nat (p + IST_STACK_NUM_PAGES * PAGE_SIZE)))"

record tss =
  tss_rsp :: "u64 list"
  tss_ist :: "u64 list"

fun alloc_stacks :: "nat \<Rightarrow> allocator \<Rightarrow> (allocator \<times> u64 list) res" where
  "alloc_stacks 0 A = Inr (A, [])"
| "alloc_stacks (Suc n) A =
     and_then (alloc_interrupt_stack A) (\<lambda>(A, p). and_then (alloc_stacks n A) (\<lambda>(A, ps). Inr (A, p # ps)))"

definition tss_new :: "allocator \<Rightarrow> (allocator \<times> tss) res" where
  "tss_new A =
     and_then (alloc_interrupt_stack A) (\<lambda>(A, rsp0).
     and_then (alloc_stacks 7 A) (\<lambda>(A, stacks).
     Inr (A, \<lparr>tss_rsp = [rsp0, 0, 0], tss_ist = 0 # stacks\<rparr>)))"

subsection \<open>The handler\<close>

record local_apic =
  x2apic_id :: u32
  is_bsp :: bool
  x2apic_mode_enable :: bool
  apic_global_enable :: bool
  apic_base_addr :: u64

text \<open>\<open>LocalApic::default\<close>, from the identifier that \<open>cpuid\<close> gives and the value of \<open>MSR_IA32_APIC_BASE\<close>.\<close>

definition local_apic_default :: "u32 \<Rightarrow> u64 \<Rightarrow> local_apic" where
  "local_apic_default edx apic_base =
     \<lparr>x2apic_id = edx, is_bsp = apic_base AND push_bit 8 1 \<noteq> 0, x2apic_mode_enable = apic_base AND push_bit 10 1 \<noteq> 0,
      apic_global_enable = apic_base AND push_bit 11 1 \<noteq> 0, apic_base_addr = apic_base AND NOT (push_bit 12 1 - 1)\<rparr>"

text \<open>The writes to device registers are collected in order, each with its address.\<close>

definition notify_end_of_interrupt :: "local_apic \<Rightarrow> ((u64 \<times> u32) list, unit) act" where
  "notify_end_of_interrupt apic ws =
     (case usize_add (unat (apic_base_addr apic)) 0xB0 of
        Inl f \<Rightarrow> (ws, Inl f)
      | Inr a \<Rightarrow> (ws @ [(word_of_nat a, 0)], Inr ()))"

record interrupt_info =
  ii_fpu :: bytes
  ii_greg :: "reg \<Rightarrow> u64"
  ii_error_code :: u64
  ii_rip :: u64
  ii_cs :: u64
  ii_rflags :: u64
  ii_rsp :: u64
  ii_ss :: u64

text \<open>The words of \<open>InterruptInfo\<close> after the image of the floating-point state and \<open>_dummy\<close>.\<close>

definition greg_order :: "reg list" where
  "greg_order = [RAX, RDX, RBX, RBP, RSI, RDI, R8, R9, R10, R11, R12, R13, R14, R15, RCX]"

definition info_words :: "interrupt_info \<Rightarrow> u64 list" where
  "info_words i = map (ii_greg i) greg_order @ [ii_error_code i, ii_rip i, ii_cs i, ii_rflags i, ii_rsp i, ii_ss i]"

definition info_at :: "(u64 \<Rightarrow> u8) \<Rightarrow> u64 \<Rightarrow> interrupt_info \<Rightarrow> bool" where
  "info_at m a i \<longleftrightarrow> length (ii_fpu i) = 512 \<and> load_bytes m a 512 = ii_fpu i \<and> words_at m (a + 520) (info_words i)"

definition page_fault_cause :: "u64 \<Rightarrow> string" where
  "page_fault_cause error_code =
     ''Caused by: A '' @ (if error_code AND 4 \<noteq> 0 then ''user'' else ''supervisor'') @ '' mode '' @
     (if error_code AND 16 \<noteq> 0 then ''instruction fetch'' else if error_code AND 2 \<noteq> 0 then ''data write'' else ''data read'') @
     '' on a '' @ (if error_code AND 1 \<noteq> 0 then ''present'' else ''non-present'') @ '' page, page structures are '' @
     (if error_code AND 8 \<noteq> 0 then ''invalid'' else ''valid'')"

text \<open>\<open>inthandler\<close> without the text that it prints, except for the names of the exceptions.\<close>

definition exception_name :: "u64 \<Rightarrow> string" where
  "exception_name index =
     (if index = 3 then ''Breakpoint'' else if index = 6 then ''Invalid Opcode'' else if index = 8 then ''Double Fault''
      else if index = 13 then ''General Protection Fault'' else if index = 14 then ''Page Fault'' else ''Not handled'')"

definition inthandler :: "local_apic \<Rightarrow> interrupt_info \<Rightarrow> u64 \<Rightarrow> (string list \<times> (u64 \<times> u32) list, unit) act" where
  "inthandler apic info index s =
     (if index = 32 then (case notify_end_of_interrupt apic (snd s) of (ws, r) \<Rightarrow> ((fst s, ws), r))
      else ((fst s @ [exception_name index] @ (if index = 14 then [page_fault_cause (ii_error_code info)] else []), snd s),
            Inl (Panic ''fatal exception'')))"

subsection \<open>Entry and exit\<close>

definition interrupt_entrypoint :: "u64 \<Rightarrow> instr list" where
  "interrupt_entrypoint n = [Push_imm 0, Push RCX, Mov_imm RCX n]"

definition interrupt_entrypoint_with_ecode :: "u64 \<Rightarrow> instr list" where
  "interrupt_entrypoint_with_ecode n = [Push RCX, Mov_imm RCX n]"

text \<open>The entry points that there are; \<open>True\<close> for those of exceptions that push an error code.\<close>

definition entry_points :: "(nat \<times> bool) list" where
  "entry_points = [(3, False), (6, False), (8, True), (13, True), (14, True), (32, False)]"

definition entry_code :: "bool \<Rightarrow> u64 \<Rightarrow> instr list" where
  "entry_code ecode n = (if ecode then interrupt_entrypoint_with_ecode n else interrupt_entrypoint n)"

definition inthandler_save :: "instr list" where
  "inthandler_save =
     map Push [R15, R14, R13, R12, R11, R10, R9, R8, RDI, RSI, RBP, RBX, RDX, RAX] @
     [Sub RSP (512 + 8), Fxsave, Mov RDI RSP, Mov RBP RSP, And RSP (- 16), Mov RSI RCX]"

definition inthandler_restore :: "instr list" where
  "inthandler_restore =
     [Mov RSP RBP, Fxrstor, Add RSP (512 + 8)] @
     map Pop [RAX, RDX, RBX, RBP, RSI, RDI, R8, R9, R10, R11, R12, R13, R14, R15, RCX] @ [Add RSP 8]"

text \<open>\<open>call\<close> is the machine code of \<open>inthandler\<close>, from the call to the return.  The \<open>iretq\<close> at the end is below.\<close>

definition inthandler_common :: "hardware \<Rightarrow> (machine \<Rightarrow> machine res) \<Rightarrow> machine \<Rightarrow> machine res" where
  "inthandler_common hw call c =
     and_then (run hw inthandler_save c) (\<lambda>c. and_then (call c) (run hw inthandler_restore))"

record icpu =
  i_core :: machine
  i_cs :: u16
  i_ss :: u16

record iflags =
  gate_flags :: "u64 \<Rightarrow> u64"
  iret_flags :: "u64 \<Rightarrow> u64"

definition gate_offset :: "idt_descriptor \<Rightarrow> u64" where
  "gate_offset d = ucast (offset_low d) OR push_bit 16 (ucast (offset_mid d)) OR push_bit 32 (ucast (offset_high d))"

text \<open>The processor takes an interrupt through a gate with a stack of its own: the stack pointer is aligned to 16 bytes
  and the interrupted state is pushed, with the error code if the exception has one.\<close>

definition deliver :: "iflags \<Rightarrow> idt_descriptor \<Rightarrow> tss \<Rightarrow> u64 option \<Rightarrow> icpu \<Rightarrow> icpu" where
  "deliver fl d t err s =
     (let c = i_core s;
          vs = [ucast (i_ss s), regs c RSP, rflags c, ucast (i_cs s), rip c] @ (case err of None \<Rightarrow> [] | Some e \<Rightarrow> [e]);
          top = (tss_ist t ! unat (ist_index d)) AND - 16
      in s\<lparr>i_core := fold do_push vs (set_reg RSP top (c\<lparr>rip := gate_offset d, rflags := gate_flags fl (rflags c)\<rparr>)),
           i_cs := segment_selector d, i_ss := (if i_cs s AND 3 = 0 then i_ss s else 0)\<rparr>)"

definition iretq :: "iflags \<Rightarrow> icpu \<Rightarrow> icpu" where
  "iretq fl s =
     (let c = i_core s; w = (\<lambda>i. load64 (mem c) (regs c RSP + 8 * i))
      in \<lparr>i_core = set_reg RSP (w 3) (c\<lparr>rip := w 0, rflags := iret_flags fl (w 2)\<rparr>), i_cs = ucast (w 1), i_ss = ucast (w 4)\<rparr>)"

definition take_interrupt ::
  "hardware \<Rightarrow> iflags \<Rightarrow> (machine \<Rightarrow> machine res) \<Rightarrow> idt_descriptor list \<Rightarrow> tss \<Rightarrow> nat \<Rightarrow> u64 option \<Rightarrow> icpu \<Rightarrow> icpu res" where
  "take_interrupt hw fl call idt t n err s =
     (let s1 = deliver fl (idt ! n) t err s in
      case map_of entry_points n of
        None \<Rightarrow> Inl (Panic ''unexpected interrupt!'')
      | Some ecode \<Rightarrow>
          and_then (run hw (entry_code ecode (word_of_nat n)) (i_core s1)) (\<lambda>c.
          and_then (inthandler_common hw call c) (\<lambda>c. Inr (iretq fl (s1\<lparr>i_core := c\<rparr>)))))"

subsection \<open>Descriptors\<close>

lemma ucast_selector: "ucast (ucast x :: u64) = x" for x :: u16
  by (rule bit_word_eqI) (simp add: bit_simps)

lemma gate_offset_new: "gate_offset (idt_descriptor_new selector ist attr a) = a"
proof (rule bit_word_eqI)
  fix n assume "n < LENGTH(64)"
  then show "bit (gate_offset (idt_descriptor_new selector ist attr a)) n = bit a n"
    by (cases "n < 16"; cases "n < 32") (auto simp: gate_offset_def idt_descriptor_new_def bit_simps)
qed

lemma idt_entry:
  assumes "n < 256"
  shows "idt_new entry un sel ! n =
    (case map_of entry_points n of
       None \<Rightarrow> idt_descriptor_new sel 1 IntGateDPL0 un
     | Some _ \<Rightarrow> idt_descriptor_new sel (if n = 8 then 2 else 1) (if n = 3 then IntGateDPL3 else IntGateDPL0) (entry n))"
  using assms by (auto simp: idt_new_def entry_points_def nth_list_update)

subsection \<open>Taking an interrupt\<close>

lemma push_set_reg: "fold do_push vs (set_reg RCX v c) = set_reg RCX v (fold do_push vs c)"
proof (induction vs arbitrary: c)
  case (Cons w vs)
  have "do_push w (set_reg RCX v c) = set_reg RCX v (do_push w c)"
    by (auto intro!: machine_eqI simp: do_push_def Let_def)
  with Cons show ?case by simp
qed simp

definition interrupted :: "u64 \<Rightarrow> icpu \<Rightarrow> interrupt_info" where
  "interrupted e s = \<lparr>ii_fpu = fpu (i_core s), ii_greg = regs (i_core s), ii_error_code = e, ii_rip = rip (i_core s), ii_cs = ucast (i_cs s),
     ii_rflags = rflags (i_core s), ii_rsp = regs (i_core s) RSP, ii_ss = ucast (i_ss s)\<rparr>"

text \<open>The top of the interrupt stack, and the address of the information that is saved on it.\<close>

definition stack_top :: "idt_descriptor \<Rightarrow> tss \<Rightarrow> u64" where
  "stack_top d t = (tss_ist t ! unat (ist_index d)) AND - 16"

lemma aligned_and: "(a AND - 16) mod 16 = (0 :: u64)"
proof -
  have "unat (a AND - 16) = 16 * (unat a div 16) + 0"
    using align_down_pow2 [of 4 "unat a"] unsigned_less [of a, where ?'a = nat] by (simp add: align_down_def)
  from mod16_of_nat [OF this] show ?thesis by simp
qed

lemma entry_ok:
  assumes "map_of entry_points n = Some ec" "err \<noteq> None \<longleftrightarrow> ec" "length (fpu (i_core s)) = 512"
  shows "\<exists>d. and_then (run hw (entry_code ec (word_of_nat n)) (i_core (deliver fl g t err s)))
      (run hw inthandler_save) = Inr d \<and>
    regs d RDI = stack_top g t - 688 \<and> regs d RBP = regs d RDI \<and> regs d RSI = word_of_nat n \<and> segs d = segs (i_core s) \<and>
    info_at (mem d) (regs d RDI) (interrupted (case err of None \<Rightarrow> 0 | Some e \<Rightarrow> e) s) \<and>
    (\<forall>x. 688 \<le> unat (x - regs d RDI) \<longrightarrow> mem d x = mem (i_core s) x)"
proof -
  let ?c = "i_core s" and ?top = "stack_top g t" and ?e = "case err of None \<Rightarrow> 0 | Some e \<Rightarrow> e"
  let ?i = "interrupted ?e s" and ?rs = "[R15, R14, R13, R12, R11, R10, R9, R8, RDI, RSI, RBP, RBX, RDX, RAX]"
  define c0 where "c0 = set_reg RSP ?top (?c\<lparr>rip := gate_offset g, rflags := gate_flags fl (rflags ?c)\<rparr>)"
  define vs where "vs = [ucast (i_ss s), regs ?c RSP, rflags ?c, ucast (i_cs s), rip ?c, ?e, regs ?c RCX]"
  have c1: "run hw (entry_code ec (word_of_nat n)) (i_core (deliver fl g t err s)) =
      Inr (set_reg RCX (word_of_nat n) (fold do_push vs c0))"
    using assms(2)
    by (cases err) (simp_all add: deliver_def Let_def stack_top_def [symmetric] c0_def [symmetric] vs_def
        entry_code_def interrupt_entrypoint_def interrupt_entrypoint_with_ecode_def, simp_all add: c0_def)
  have rv: "rev (vs @ map (regs ?c) ?rs) = info_words ?i"
    by (simp add: vs_def info_words_def greg_order_def interrupted_def)
  have len: "length (vs @ map (regs ?c) ?rs) = 21" by (simp add: vs_def)
  let ?w = "concat (map le_word (info_words ?i))"
  define c2 where "c2 = c0\<lparr>regs := (regs c0)(RSP := ?top - 168, RCX := word_of_nat n), mem := store_bytes (mem ?c) (?top - 168) ?w\<rparr>"
  have "map (regs (set_reg RCX (word_of_nat n) (fold do_push vs c0))) ?rs = map (regs ?c) ?rs"
    by (simp add: vs_def c0_def do_push_def Let_def)
  then have "run hw (map Push ?rs) (set_reg RCX (word_of_nat n) (fold do_push vs c0)) =
      Inr (set_reg RCX (word_of_nat n) (fold do_push (vs @ map (regs ?c) ?rs) c0))"
    using run_pushes [of ?rs hw "set_reg RCX (word_of_nat n) (fold do_push vs c0)"] by (simp only: push_set_reg fold_append comp_apply) simp
  also have "\<dots> = Inr c2"
    using pushes [of "vs @ map (regs ?c) ?rs" c0, unfolded rv len] by (auto intro!: machine_eqI simp: c2_def c0_def)
  finally have p: "run hw (map Push ?rs) (set_reg RCX (word_of_nat n) (fold do_push vs c0)) = Inr c2" .
  let ?a = "?top - 688"
  define d where "d = c2\<lparr>regs := (regs c2)(RSP := ?a AND - 16, RDI := ?a, RBP := ?a, RSI := word_of_nat n),
    rflags := hw_alu hw (hw_alu hw (rflags c2)), mem := store_bytes (mem c2) ?a (fpu ?c)\<rparr>"
  have al: "?a mod 16 = 0" unfolding stack_top_def by (rule mod16_diff [OF aligned_and]) simp
  have q: "run hw [Sub RSP (512 + 8), Fxsave, Mov RDI RSP, Mov RBP RSP, And RSP (- 16), Mov RSI RCX] c2 = Inr d"
    using al by (auto intro!: machine_eqI simp: d_def c2_def c0_def)
  have "and_then (run hw (entry_code ec (word_of_nat n)) (i_core (deliver fl g t err s)))
      (run hw inthandler_save) = Inr d"
    unfolding c1 inthandler_save_def by (simp only: run_append p q and_then_simps)
  moreover have lw: "length ?w = 168" by (simp add: info_words_def greg_order_def)
  have "load_bytes (mem d) (?a + 520) (length ?w) = ?w"
    using load_store_apart [of ?a "fpu ?c" "?a + 520" 168 "mem c2"] load_store_same [of ?w "mem ?c" "?top - 168"] assms(3) lw
    by (simp add: d_def c2_def apart_def)
  then have "words_at (mem d) (?a + 520) (info_words ?i)" by (simp add: words_at_def info_words_def greg_order_def)
  moreover have "load_bytes (mem d) ?a 512 = fpu ?c" using load_store_same [of "fpu ?c" "mem c2" ?a] assms(3) by (simp add: d_def)
  moreover have "mem d x = mem ?c x" if "688 \<le> unat (x - ?a)" for x
  proof -
    have "unat (x - (?top - 168)) = unat (x - ?a - 520)" by (simp add: algebra_simps)
    also have "\<dots> = unat (x - ?a) - 520" using that by (subst unat_sub) (simp_all add: word_le_nat_alt)
    finally have "\<not> unat (x - (?top - 168)) < length ?w" unfolding lw using that by linarith
    moreover have "\<not> unat (x - ?a) < length (fpu ?c)" using that assms(3) by simp
    ultimately show ?thesis unfolding d_def c2_def by (simp add: store_bytes_def)
  qed
  ultimately show ?thesis
    using assms(3) by (intro exI [of _ d]) (simp add: d_def c2_def c0_def info_at_def interrupted_def)
qed

text \<open>The way back, from a machine that still has the information on its stack.\<close>

lemma exit_ok:
  assumes "info_at (mem c) (regs c RBP) i" "regs c RBP mod 16 = 0"
  shows "\<exists>d. run hw inthandler_restore c = Inr d \<and> regs d = (ii_greg i)(RSP := regs c RBP + 648) \<and> fpu d = ii_fpu i \<and> mem d = mem c \<and>
    segs d = segs c \<and> words_at (mem d) (regs d RSP) [ii_rip i, ii_cs i, ii_rflags i, ii_rsp i, ii_ss i]"
proof -
  let ?a = "regs c RBP" and ?ws = "map (ii_greg i) greg_order"
  have w: "words_at (mem c) (?a + 520) ?ws" "words_at (mem c) (?a + 648) [ii_rip i, ii_cs i, ii_rflags i, ii_rsp i, ii_ss i]"
    and f: "load_bytes (mem c) ?a 512 = ii_fpu i"
    using assms(1) unfolding info_at_def info_words_def words_at_append by (simp_all add: greg_order_def add.assoc)
  define d where "d = c\<lparr>regs := (regs c)(RSP := ?a + 520), rflags := hw_alu hw (rflags c), fpu := ii_fpu i\<rparr>"
  have d: "run hw [Mov RSP RBP, Fxrstor, Add RSP (512 + 8)] c = Inr d"
    using assms(2) f by (auto intro!: machine_eqI simp: d_def)
  have g: "map Pop [RAX, RDX, RBX, RBP, RSI, RDI, R8, R9, R10, R11, R12, R13, R14, R15, RCX] = map Pop greg_order"
    by (simp add: greg_order_def)
  define e where "e = set_regs ((RSP, ?a + 640) # zip greg_order ?ws) d"
  have p: "run hw (map Pop greg_order) d = Inr e"
    using run_pops [of greg_order ?ws d hw] w(1) by (simp add: d_def e_def greg_order_def add.assoc)
  have "regs e r = (if r = RSP then ?a + 640 else ii_greg i r)" for r
    by (cases r) (simp_all add: e_def greg_order_def)
  then have "run hw [Add RSP 8] e = Inr (e\<lparr>regs := (ii_greg i)(RSP := ?a + 648), rflags := hw_alu hw (rflags e)\<rparr>)"
    by (auto intro!: machine_eqI simp: add.assoc)
  moreover have "run hw inthandler_restore c = run hw [Add RSP 8] e"
    unfolding inthandler_restore_def g by (simp only: run_append d p and_then_simps)
  ultimately show ?thesis using w(2) by (simp add: e_def d_def)
qed

text \<open>What the compiled \<open>inthandler\<close> owes its caller: it does what \<open>inthandler\<close> does with the information at \<open>rdi\<close> and the
  number in \<open>rsi\<close>; when it returns, it has kept \<open>rbp\<close>, the selectors and the information, and has written only to the
  \<open>n\<close> bytes of stack that end with the information.\<close>

definition runs_inthandler ::
  "local_apic \<Rightarrow> string list \<times> (u64 \<times> u32) list \<Rightarrow> nat \<Rightarrow> (machine \<Rightarrow> machine res) \<Rightarrow> bool" where
  "runs_inthandler apic st n call \<longleftrightarrow>
     (\<forall>c i. info_at (mem c) (regs c RDI) i \<longrightarrow>
        (case snd (inthandler apic i (regs c RSI) st) of
           Inl f \<Rightarrow> call c = Inl f
         | Inr _ \<Rightarrow> \<exists>c'. call c = Inr c' \<and> regs c' RBP = regs c RBP \<and> segs c' = segs c \<and>
             load_bytes (mem c') (regs c RDI) 688 = load_bytes (mem c) (regs c RDI) 688 \<and>
             (\<forall>x. n \<le> unat (x - (regs c RDI + 688 - word_of_nat n)) \<longrightarrow> mem c' x = mem c x)))"

lemma info_at_cong:
  assumes "load_bytes m a 688 = load_bytes m' a 688"
  shows "info_at m a i = info_at m' a i"
proof -
  have s: "load_bytes m a 688 = load_bytes m a 512 @ load_bytes m (a + 512) 8 @ load_bytes m (a + 520) 168" for m
    using load_bytes_add [of m a 512 "8 + 168"] load_bytes_add [of m "a + 512" 8 168] by (simp add: add.assoc)
  have "length (info_words i) = 21" by (simp add: info_words_def greg_order_def)
  then show ?thesis using assms unfolding s info_at_def words_at_def by simp
qed

text \<open>The program that was interrupted goes on as if nothing had happened.\<close>

definition undisturbed :: "nat \<Rightarrow> u64 \<Rightarrow> icpu \<Rightarrow> icpu \<Rightarrow> bool" where
  "undisturbed n tp s s' \<longleftrightarrow> regs (i_core s') = regs (i_core s) \<and> rip (i_core s') = rip (i_core s) \<and>
     rflags (i_core s') = rflags (i_core s) \<and> fpu (i_core s') = fpu (i_core s) \<and> segs (i_core s') = segs (i_core s) \<and>
     i_cs s' = i_cs s \<and> i_ss s' = i_ss s \<and> (\<forall>x. n \<le> unat (x - (tp - word_of_nat n)) \<longrightarrow> mem (i_core s') x = mem (i_core s) x)"

lemma common_entered:
  assumes "and_then (run hw code c) (run hw inthandler_save) = Inr d"
  shows "and_then (run hw code c) (\<lambda>c. and_then (inthandler_common hw call c) f) =
    and_then (call d) (\<lambda>c. and_then (run hw inthandler_restore c) f)"
  using assms by (auto simp: inthandler_common_def and_then_def split: sum.splits)

lemma take_interrupt_entered:
  assumes "map_of entry_points n = Some ec" "err \<noteq> None \<longleftrightarrow> ec" "length (fpu (i_core s)) = 512"
    "runs_inthandler apic st k call" "snd (inthandler apic (interrupted (case err of None \<Rightarrow> 0 | Some e \<Rightarrow> e) s) (word_of_nat n) st) = Inl f"
  shows "take_interrupt hw fl call idt t n err s = Inl f"
proof -
  from entry_ok [OF assms(1-3), of hw fl "idt ! n" t] obtain d where
    d: "and_then (run hw (entry_code ec (word_of_nat n))
          (i_core (deliver fl (idt ! n) t err s))) (run hw inthandler_save) = Inr d"
      "regs d RSI = word_of_nat n" "info_at (mem d) (regs d RDI) (interrupted (case err of None \<Rightarrow> 0 | Some e \<Rightarrow> e) s)" by blast
  have "call d = Inl f"
    using assms(4,5) d(2,3) unfolding runs_inthandler_def by (metis (mono_tags, lifting) sum.case(1))
  then show ?thesis
    using assms(1) by (simp add: take_interrupt_def Let_def common_entered [OF d(1)])
qed

lemma take_interrupt_returns:
  assumes "map_of entry_points n = Some ec" "err \<noteq> None \<longleftrightarrow> ec" "length (fpu (i_core s)) = 512" "688 \<le> k" "k < 2 ^ 64"
    "runs_inthandler apic st k call" "snd (inthandler apic (interrupted (case err of None \<Rightarrow> 0 | Some e \<Rightarrow> e) s) (word_of_nat n) st) = Inr ()"
    "iret_flags fl (rflags (i_core s)) = rflags (i_core s)"
  shows "\<exists>s'. take_interrupt hw fl call idt t n err s = Inr s' \<and> undisturbed k (stack_top (idt ! n) t) s s'"
proof -
  let ?i = "interrupted (case err of None \<Rightarrow> 0 | Some e \<Rightarrow> e) s" and ?top = "stack_top (idt ! n) t"
  from entry_ok [OF assms(1-3), of hw fl "idt ! n" t] obtain d where
    d: "and_then (run hw (entry_code ec (word_of_nat n))
          (i_core (deliver fl (idt ! n) t err s))) (run hw inthandler_save) = Inr d"
      "regs d RDI = ?top - 688" "regs d RBP = regs d RDI" "regs d RSI = word_of_nat n" "segs d = segs (i_core s)"
      "info_at (mem d) (regs d RDI) ?i" "\<And>x. 688 \<le> unat (x - regs d RDI) \<Longrightarrow> mem d x = mem (i_core s) x" by blast
  have "case snd (inthandler apic ?i (regs d RSI) st) of
           Inl f \<Rightarrow> call d = Inl f
         | Inr _ \<Rightarrow> \<exists>c'. call d = Inr c' \<and> regs c' RBP = regs d RBP \<and> segs c' = segs d \<and>
             load_bytes (mem c') (regs d RDI) 688 = load_bytes (mem d) (regs d RDI) 688 \<and>
             (\<forall>x. k \<le> unat (x - (regs d RDI + 688 - word_of_nat k)) \<longrightarrow> mem c' x = mem d x)"
    using assms(6) d(6) unfolding runs_inthandler_def by blast
  then obtain e where e: "call d = Inr e" "regs e RBP = ?top - 688" "segs e = segs (i_core s)"
      "load_bytes (mem e) (?top - 688) 688 = load_bytes (mem d) (?top - 688) 688"
      "\<And>x. k \<le> unat (x - (?top - word_of_nat k)) \<Longrightarrow> mem e x = mem d x"
    using assms(7) d(2,3,4,5) by auto
  have "info_at (mem e) (regs e RBP) ?i" using info_at_cong [OF e(4)] d(2,6) e(2) by simp
  moreover have "regs e RBP mod 16 = 0"
    unfolding e(2) stack_top_def by (rule mod16_diff [OF aligned_and]) simp
  ultimately obtain c where c: "run hw inthandler_restore e = Inr c" "regs c = (ii_greg ?i)(RSP := ?top - 40)" "fpu c = ii_fpu ?i" "mem c = mem e"
      "segs c = segs e" "words_at (mem c) (regs c RSP) [ii_rip ?i, ii_cs ?i, ii_rflags ?i, ii_rsp ?i, ii_ss ?i]"
    using exit_ok [of e ?i hw] e(2) by auto
  have m: "mem e x = mem (i_core s) x" if x: "k \<le> unat (x - (?top - word_of_nat k))" for x
  proof -
    have "unat (x - (?top - 688)) = unat (x - (?top - word_of_nat k) - word_of_nat (k - 688))"
      using assms(4) by (simp add: of_nat_diff algebra_simps)
    also have "\<dots> = unat (x - (?top - word_of_nat k)) - (k - 688)"
      using x assms(4,5) by (subst unat_sub) (simp_all add: word_le_nat_alt unat_of_nat del: of_nat_diff)
    finally have "688 \<le> unat (x - regs d RDI)" unfolding d(2) using x assms(4) by linarith
    from d(7) [OF this] e(5) [OF x] show ?thesis by simp
  qed
  let ?s = "iretq fl (deliver fl (idt ! n) t err s\<lparr>i_core := c\<rparr>)"
  have "take_interrupt hw fl call idt t n err s = Inr ?s"
    using e(1) c(1) assms(1) by (simp add: take_interrupt_def Let_def common_entered [OF d(1)])
  moreover have "undisturbed k ?top s ?s"
    using c(2-6) e(3) m assms(8)
    by (auto simp: undisturbed_def iretq_def Let_def interrupted_def add.assoc ucast_selector)
  ultimately show ?thesis by blast
qed

text \<open>The outcome of every vector: the timer leaves the program as it was, everything else ends in a panic.\<close>

lemma inthandler_result:
  "snd (inthandler (local_apic_default edx msr) i index st) = (if index = 32 then Inr () else Inl (Panic ''fatal exception''))"
proof -
  let ?b = "msr AND NOT (push_bit 12 1 - 1)"
  have "unat ?b \<le> 2 ^ 64 - 4096"
    using align_down_pow2 [of 12 "unat msr"] unsigned_less [of msr, where ?'a = nat] by (simp add: align_down_def)
  then have "usize_add (unat ?b) 0xB0 = Inr (unat ?b + 0xB0)" by (simp add: usize_add_def)
  then show ?thesis by (simp add: inthandler_def notify_end_of_interrupt_def local_apic_default_def)
qed

lemma interrupt_outcome:
  assumes "n < 256" "err \<noteq> None \<longleftrightarrow> map_of entry_points n = Some True" "length (fpu (i_core s)) = 512" "688 \<le> k" "k < 2 ^ 64"
    "runs_inthandler (local_apic_default edx msr) st k call" "iret_flags fl (rflags (i_core s)) = rflags (i_core s)"
  shows "if n = 32 then \<exists>s'. take_interrupt hw fl call idt t n err s = Inr s' \<and> undisturbed k (stack_top (idt ! n) t) s s'
    else \<exists>msg. take_interrupt hw fl call idt t n err s = Inl (Panic msg)"
proof (cases "map_of entry_points n")
  case None
  then have "n \<noteq> 32" by (auto simp: entry_points_def)
  with None show ?thesis by (simp add: take_interrupt_def)
next
  case (Some ec)
  then have e: "err \<noteq> None \<longleftrightarrow> ec" using assms(2) by simp
  have w: "(word_of_nat n :: u64) = 32 \<longleftrightarrow> n = 32"
    using assms(1) by (auto simp: word_unat_eq_iff unat_of_nat)
  show ?thesis
    using take_interrupt_returns [OF Some e assms(3-6) _ assms(7), of hw idt t] take_interrupt_entered [OF Some e assms(3,6), of _ hw fl idt t]
      inthandler_result [of edx msr _ "word_of_nat n" st] w by auto
qed

subsection \<open>The stacks do not overlap\<close>

definition stack_area :: "u64 \<Rightarrow> nat set" where
  "stack_area p = area (unat p - 65536, 65536)"

definition alloc_fails :: "fault \<Rightarrow> bool" where
  "alloc_fails f \<longleftrightarrow> f \<in> {UB ''slice from the null pointer'', Panic ''allocation error''}"

lemma alloc_interrupt_stack_ok:
  assumes "heap_inv A"
  shows "(\<exists>f. alloc_interrupt_stack A = Inl f \<and> alloc_fails f) \<or>
    (\<exists>A' p. alloc_interrupt_stack A = Inr (A', p) \<and> heap_inv A' \<and> heap_used A \<subseteq> heap_used A' \<and>
       stack_area p \<inter> heap_used A = {} \<and> stack_area p \<subseteq> heap_used A')"
proof -
  let ?l = "\<lparr>l_size = 65536, l_align = PAGE_SIZE\<rparr>" and ?k = "\<lparr>l_size = 65536, l_align = 1\<rparr>"
  have P: "PAGE_SIZE = 4096" by (simp add: PAGE_SIZE_def PAGE_OFFSET_BITS_def)
  have l: "from_size_align 65536 PAGE_SIZE = Some ?l" using page_size_pow2 by (simp add: from_size_align_def P)
  have k: "valid_layout ?k" by (auto simp: valid_layout_def intro: image_eqI [of _ _ 0])
  have m: "usize_mul PAGE_SIZE IST_STACK_NUM_PAGES = Inr 65536" by (simp add: usize_mul_def P IST_STACK_NUM_PAGES_def)
  from first_fit.alloc_law [OF assms, of ?l] page_layout_valid [OF l] obtain A1 p1 where
    a: "alloc_with_options A ?l = Inr (A1, p1)" "heap_inv A1" "heap_used A \<subseteq> heap_used A1" by blast
  from first_fit.alloc_law [OF a(2) k] obtain A2 p2 where
    b: "alloc_with_options A1 ?k = Inr (A2, p2)" "heap_inv A2" "heap_used A1 \<subseteq> heap_used A2"
      "p2 \<noteq> 0 \<longrightarrow> p2 + 65536 < USIZE \<and> area (p2, 65536) \<inter> heap_used A1 = {} \<and> area (p2, 65536) \<subseteq> heap_used A2" by auto
  show ?thesis
  proof (cases "p1 = 0 \<or> p2 = 0")
    case True
    with a b show ?thesis
      by (auto simp: alloc_interrupt_stack_def boxed_alloc_pages_def m l ok_or_def alloc_fails_def)
  next
    case False
    with b have "unat (word_of_nat (p2 + 65536) :: u64) = p2 + 65536" by (simp add: unat_of_nat del: of_nat_add)
    then have "stack_area (word_of_nat (p2 + 65536)) = area (p2, 65536)" by (simp add: stack_area_def del: of_nat_add)
    moreover have "IST_STACK_NUM_PAGES * PAGE_SIZE = 65536" by (simp add: IST_STACK_NUM_PAGES_def P)
    then have "alloc_interrupt_stack A = Inr (A2, word_of_nat (p2 + 65536))"
      using False a(1) b(1) by (simp add: alloc_interrupt_stack_def boxed_alloc_pages_def m l ok_or_def del: of_nat_add)
    ultimately show ?thesis using False a b by auto
  qed
qed

definition stacks_apart :: "u64 list \<Rightarrow> bool" where
  "stacks_apart = sorted_wrt (\<lambda>p q. stack_area p \<inter> stack_area q = {})"

lemma alloc_stacks_ok:
  "heap_inv A \<Longrightarrow> (\<exists>f. alloc_stacks n A = Inl f \<and> alloc_fails f) \<or>
    (\<exists>A' ps. alloc_stacks n A = Inr (A', ps) \<and> heap_inv A' \<and> length ps = n \<and> stacks_apart ps \<and>
       (\<forall>p \<in> set ps. stack_area p \<inter> heap_used A = {}))"
proof (induction n arbitrary: A)
  case (Suc n)
  from alloc_interrupt_stack_ok [OF Suc.prems] show ?case
  proof (elim disjE exE conjE)
    fix A1 p
    assume a: "alloc_interrupt_stack A = Inr (A1, p)" "heap_inv A1" "heap_used A \<subseteq> heap_used A1"
      "stack_area p \<inter> heap_used A = {}" "stack_area p \<subseteq> heap_used A1"
    from Suc.IH [OF a(2)] show ?case
    proof (elim disjE exE conjE)
      fix A2 ps
      assume b: "alloc_stacks n A1 = Inr (A2, ps)" "heap_inv A2" "length ps = n" "stacks_apart ps"
        "\<forall>q \<in> set ps. stack_area q \<inter> heap_used A1 = {}"
      then have "stacks_apart (p # ps)" "\<forall>q \<in> set (p # ps). stack_area q \<inter> heap_used A = {}"
        using a(3-5) by (auto simp: stacks_apart_def) blast+
      with a(1) b show ?case by (intro disjI2 exI [of _ A2] exI [of _ "p # ps"]) simp
    qed (use a(1) in auto)
  qed auto
qed (simp add: stacks_apart_def)

lemma tss_new_ok:
  assumes "heap_inv A"
  shows "(\<exists>f. tss_new A = Inl f \<and> alloc_fails f) \<or>
    (\<exists>A' t. tss_new A = Inr (A', t) \<and> heap_inv A' \<and> length (tss_ist t) = 8 \<and>
       stacks_apart (tss_rsp t ! 0 # tl (tss_ist t)) \<and> (\<forall>p \<in> set (tss_rsp t ! 0 # tl (tss_ist t)). stack_area p \<inter> heap_used A = {}))"
  using alloc_stacks_ok [OF assms, of "Suc 7"]
  by (auto simp: tss_new_def numeral_eq_Suc and_then_def split: sum.splits prod.splits)

end
