(* ===== verification/Boot.thy ===== *)
theory Boot
  imports Process Pci Interrupts
begin

text \<open>
  Starting the system: the firmware calls of \<open>os/src/efi.rs\<close>, \<open>os/src/efi/types.rs\<close> and \<open>os/src/efi/fs.rs\<close>, the
  files that \<open>os/src/init.rs\<close> loads before it leaves the boot services, the first page table (\<open>init_paging\<close>), the
  clocks and the features of the processor (\<open>os/src/init.rs\<close>, \<open>os/src/boot_info.rs\<close>), the I/O APIC
  (\<open>os/src/x86_64/apic.rs\<close>), the serial ports (\<open>os/src/serial.rs\<close>) and \<open>run_app\<close> of \<open>os/src/cmd.rs\<close>, which starts
  one of the loaded files.
  The firmware, the processor's \<open>cpuid\<close> and model specific registers and the device registers are parameters.
  The lemmas show that the files of the root directory are loaded in order and found by name, that paging starts with
  an identity mapping of the memory, that the interrupts of the timer are routed to vector 32, and that a text
  reaches the serial port unchanged.
\<close>

unbundle bit_operations_syntax

subsection \<open>Firmware calls\<close>

text \<open>\<open>EfiStatus\<close> has one value.  Any other number that the firmware returns is not a value of the type.\<close>

datatype efi_status = SUCCESS

definition status_of :: "u64 \<Rightarrow> efi_status res" where
  "status_of s = (if s = 0 then Inr SUCCESS else Inl (UB ''invalid EfiStatus''))"

definition into_result :: "efi_status \<Rightarrow> unit res" where
  "into_result s = (if s = SUCCESS then Inr () else Inl (Err (EfiError 0)))"

record 'f firmware =
  fw_allocate_pages :: "nat \<Rightarrow> 'f \<Rightarrow> 'f \<times> u64 \<times> nat"
  fw_get_memory_map :: "memory_map_holder \<Rightarrow> 'f \<Rightarrow> 'f \<times> u64 \<times> memory_map_holder"
  fw_exit_boot_services :: "nat \<Rightarrow> 'f \<Rightarrow> 'f \<times> u64"
  fw_open :: "nat \<Rightarrow> u16 list \<Rightarrow> 'f \<Rightarrow> 'f \<times> u64 \<times> nat"
  fw_read :: "nat \<Rightarrow> nat \<Rightarrow> 'f \<Rightarrow> 'f \<times> u64 \<times> bytes"

record efi_guid =
  data0 :: u32
  data1 :: u16
  data2 :: u16
  data3 :: "u8 list"

definition EFI_ACPI_TABLE_GUID :: efi_guid where
  "EFI_ACPI_TABLE_GUID = \<lparr>data0 = 0x8868e871, data1 = 0xe4f1, data2 = 0x11d3,
     data3 = [0xbc, 0x22, 0x00, 0x80, 0xc7, 0x3c, 0x88, 0x81]\<rparr>"

text \<open>The configuration tables of the firmware, and the address of the one with a given identifier.\<close>

fun get_table_with_guid :: "(efi_guid \<times> u64) list \<Rightarrow> efi_guid \<Rightarrow> u64 option" where
  "get_table_with_guid [] guid = None"
| "get_table_with_guid ((vendor_guid, vendor_table) # ts) guid =
     (if vendor_guid = guid then Some vendor_table else get_table_with_guid ts guid)"

definition setup_acpi_tables :: "(u64 \<Rightarrow> u8) \<Rightarrow> (efi_guid \<times> u64) list \<Rightarrow> acpi res" where
  "setup_acpi_tables m tables =
     (case get_table_with_guid tables EFI_ACPI_TABLE_GUID of
        None \<Rightarrow> Inl (Panic ''ACPI table not found'')
      | Some rsdp \<Rightarrow> acpi_new m rsdp)"

definition efi_alloc_pages :: "'f firmware \<Rightarrow> nat \<Rightarrow> ('f, nat) act" where
  "efi_alloc_pages fw n st =
     (case fw_allocate_pages fw n st of (st, status, addr) \<Rightarrow>
        (st, and_then (status_of status) (\<lambda>s.
             and_then (into_result s) (\<lambda>_.
             if addr = 0 then Inl (Err (Failed ''boot_services.alloc_pages returned null pointer'')) else Inr addr))))"

definition alloc_byte_slice :: "'f firmware \<Rightarrow> nat \<Rightarrow> ('f, nat) act" where
  "alloc_byte_slice fw n = act_then (lift_res (size_in_pages_from_bytes n)) (efi_alloc_pages fw)"

partial_function (option) exit_from_efi_boot_services ::
  "'f firmware \<Rightarrow> memory_map_holder \<Rightarrow> 'f \<Rightarrow> ('f \<times> memory_map_holder res) option" where
  "exit_from_efi_boot_services fw mm st =
     (case fw_get_memory_map fw mm st of (st, status, mm) \<Rightarrow>
        (case status_of status of
           Inl f \<Rightarrow> Some (st, Inl f)
         | Inr s \<Rightarrow>
             if s \<noteq> SUCCESS then Some (st, Inl (Panic ''assertion failed''))
             else (case fw_exit_boot_services fw (map_key mm) st of (st, status) \<Rightarrow>
               (case status_of status of
                  Inl f \<Rightarrow> Some (st, Inl f)
                | Inr s \<Rightarrow> if s = SUCCESS then Some (st, Inr mm) else exit_from_efi_boot_services fw mm st))))"

declare exit_from_efi_boot_services.simps [code]

subsection \<open>Files\<close>

text \<open>The characters of a string and their UTF-16 code units.\<close>

fun utf8_chars :: "bytes \<Rightarrow> nat list" where
  "utf8_chars [] = []"
| "utf8_chars (a # bs) =
     (if unat a < 0x80 then unat a # utf8_chars bs
      else if unat a < 0xE0 then
        (case bs of b # r \<Rightarrow> (unat a mod 32 * 64 + unat b mod 64) # utf8_chars r | _ \<Rightarrow> [])
      else if unat a < 0xF0 then
        (case bs of b # c # r \<Rightarrow> (unat a mod 16 * 4096 + unat b mod 64 * 64 + unat c mod 64) # utf8_chars r | _ \<Rightarrow> [])
      else
        (case bs of b # c # d # r \<Rightarrow>
           (unat a mod 8 * 262144 + unat b mod 64 * 4096 + unat c mod 64 * 64 + unat d mod 64) # utf8_chars r
         | _ \<Rightarrow> []))"

definition encode_utf16 :: "nat \<Rightarrow> u16 list" where
  "encode_utf16 c =
     (if c < 0x10000 then [word_of_nat c]
      else [word_of_nat (0xD800 + (c - 0x10000) div 0x400), word_of_nat (0xDC00 + (c - 0x10000) mod 0x400)])"

definition efi_file_name_from_str :: "bytes \<Rightarrow> u16 list res" where
  "efi_file_name_from_str s =
     (let src = concat (map encode_utf16 (utf8_chars s)) in
      if 32 < length src then Inl (Err (Failed ''too long for EfiFileName''))
      else Inr (src @ replicate (32 - length src) 0))"

text \<open>The name is printed up to the first 0, which need not be there.\<close>

definition efi_file_name_display :: "u16 list \<Rightarrow> nat list res" where
  "efi_file_name_display name =
     (if 0 \<in> set name then Inr (map (\<lambda>c. unat c mod 256) (takeWhile (\<lambda>c. c \<noteq> 0) name))
      else Inl (UB ''read past the end of the name''))"

record efi_file_info =
  info_size :: u64
  info_file_size :: u64
  physical_size :: u64
  info_times :: "bytes list"
  info_attr :: u64
  info_file_name :: "u16 list"

definition EFI_FILE_INFO_SIZE :: nat where "EFI_FILE_INFO_SIZE = 144"

fun u16s_of :: "bytes \<Rightarrow> u16 list" where
  "u16s_of (a # b # bs) = word_le [a, b] # u16s_of bs"
| "u16s_of _ = []"

definition file_info_of :: "bytes \<Rightarrow> efi_file_info" where
  "file_info_of d =
     \<lparr>info_size = word_le (take 8 d), info_file_size = word_le (take 8 (drop 8 d)), physical_size = word_le (take 8 (drop 16 d)),
      info_times = [take 16 (drop 24 d), take 16 (drop 40 d), take 16 (drop 56 d)],
      info_attr = word_le (take 8 (drop 72 d)), info_file_name = u16s_of (take 64 (drop 80 d))\<rparr>"

definition is_dir :: "efi_file_info \<Rightarrow> bool" where
  "is_dir i \<longleftrightarrow> info_attr i AND 0x10 \<noteq> 0"

definition info_size_of_file :: "efi_file_info \<Rightarrow> nat" where
  "info_size_of_file i = unat (info_file_size i)"

definition file_open :: "'f firmware \<Rightarrow> nat \<Rightarrow> u16 list \<Rightarrow> ('f, nat) act" where
  "file_open fw h name st =
     (case fw_open fw h name st of (st, status, h') \<Rightarrow>
        (st, and_then (status_of status) (\<lambda>s.
             if s \<noteq> SUCCESS then Inl (Panic ''assertion failed'')
             else if h' = 0 then Inl (UB ''reference to null'') else Inr h')))"

text \<open>A read fills the front of the buffer; the bytes are as many as the firmware says that it has read.\<close>

definition file_read :: "'f firmware \<Rightarrow> nat \<Rightarrow> nat \<Rightarrow> ('f, bytes) act" where
  "file_read fw h n st =
     (case fw_read fw h n st of (st, status, d) \<Rightarrow>
        (st, and_then (status_of status) (\<lambda>s.
             if s \<noteq> SUCCESS then Inl (Panic ''assertion failed'')
             else if n < length d then Inl (UB ''write past the end of the buffer'') else Inr d)))"

definition read_file_info :: "'f firmware \<Rightarrow> nat \<Rightarrow> ('f, efi_file_info option) act" where
  "read_file_info fw h =
     act_then (file_read fw h EFI_FILE_INFO_SIZE) (\<lambda>d. lift_res (Inr
       (if 0 < length d then Some (file_info_of (d @ replicate (EFI_FILE_INFO_SIZE - length d) 0)) else None)))"

definition read_into_slice :: "'f firmware \<Rightarrow> nat \<Rightarrow> nat \<Rightarrow> ('f, bytes) act" where
  "read_into_slice fw h n =
     act_then (file_read fw h n) (\<lambda>d. lift_res
       (if length d \<noteq> n then Inl (Err (ReadFileSizeMismatch n (length d))) else Inr d))"

definition expect_done :: "string \<Rightarrow> ('s, 'a) act \<Rightarrow> ('s, 'a) act" where
  "expect_done msg m st = (case m st of (st, Inl (Err e)) \<Rightarrow> (st, Inl (Panic msg)) | r \<Rightarrow> r)"

record boot_file =
  file_name :: "u16 list"
  file_data :: bytes

definition ROOT_FILES :: nat where "ROOT_FILES = 32"

text \<open>The body of the loop for an entry that is no directory.\<close>

definition load_root_file :: "'f firmware \<Rightarrow> nat \<Rightarrow> efi_file_info \<Rightarrow> boot_file list \<Rightarrow> ('f, boot_file list) act" where
  "load_root_file fw root info files =
     act_then (alloc_byte_slice fw (info_size_of_file info)) (\<lambda>_.
     act_then (file_open fw root (info_file_name info)) (\<lambda>h.
     act_then (expect_done ''Failed to load file contents'' (read_into_slice fw h (info_size_of_file info))) (\<lambda>d.
     lift_res (if ROOT_FILES \<le> length files then Inl (Panic ''No more space left for root_files'')
               else Inr (files @ [\<lparr>file_name = info_file_name info, file_data = d\<rparr>])))))"

text \<open>The loop ends when the firmware has no more entries; \<open>files\<close> are the slots filled so far.\<close>

partial_function (option) load_all_root_files ::
  "'f firmware \<Rightarrow> nat \<Rightarrow> boot_file list \<Rightarrow> 'f \<Rightarrow> ('f \<times> boot_file list res) option" where
  "load_all_root_files fw root files st =
     (case read_file_info fw root st of
        (st, Inl f) \<Rightarrow> Some (st, Inl f)
      | (st, Inr None) \<Rightarrow> Some (st, Inr files)
      | (st, Inr (Some info)) \<Rightarrow>
          if is_dir info then load_all_root_files fw root files st
          else (case load_root_file fw root info files st of
                  (st, Inl f) \<Rightarrow> Some (st, Inl f)
                | (st, Inr files) \<Rightarrow> load_all_root_files fw root files st))"

declare load_all_root_files.simps [code]

text \<open>\<open>run_app\<close> up to the wait for the new process: the result is its cell.\<close>

definition run_app ::
  "(nat \<Rightarrow> u8) \<Rightarrow> nat \<Rightarrow> u64 \<Rightarrow> u64 \<Rightarrow> boot_file list \<Rightarrow> bytes \<Rightarrow> bytes list \<Rightarrow> (kernel, nat) act" where
  "run_app ram root entry ptr files name args =
     act_then (lift_res (efi_file_name_from_str name)) (\<lambda>name.
     case find (\<lambda>f. file_name f = name) files of
       None \<Rightarrow> lift_res (Inl (Err (Failed ''command::run_app: No such file or app'')))
     | Some f \<Rightarrow>
         act_then (lift_res (elf_parse (file_data f))) (\<lambda>e.
         act_then (on_vm (elf_load ram root e)) (\<lambda>app.
         elf_exec ram root entry ptr args app)))"

subsection \<open>Memory\<close>

partial_function (option) end_of_mem_loop :: "memory_map_holder \<Rightarrow> nat \<Rightarrow> nat \<Rightarrow> (nat res) option" where
  "end_of_mem_loop mm ofs end_of_mem =
     (case mmap_next mm ofs of
        Inl e \<Rightarrow> Some (Inl e)
      | Inr None \<Rightarrow> Some (Inr end_of_mem)
      | Inr (Some (e, ofs)) \<Rightarrow>
          (if memory_type e \<in> {CONVENTIONAL_MEMORY, LOADER_CODE, LOADER_DATA}
           then (case and_then (usize_mul (number_of_pages e) PAGE_SIZE) (usize_add (physical_start e)) of
                   Inl e \<Rightarrow> Some (Inl e)
                 | Inr a \<Rightarrow> end_of_mem_loop mm ofs (max end_of_mem a))
           else end_of_mem_loop mm ofs end_of_mem))"

declare end_of_mem_loop.simps [code]

text \<open>The result is the root of the page table, which \<open>write_cr3\<close> makes the current one.\<close>

definition init_paging :: "memory_map_holder \<Rightarrow> allocator vm \<Rightarrow> (allocator vm \<times> nat) res" where
  "init_paging mm vm =
     and_then (pml4_new alloc_with_options vm) (\<lambda>(vm, table).
     and_then (returned (end_of_mem_loop mm 0 0x100000000)) (\<lambda>end_of_mem.
     and_then (create_mapping alloc_with_options vm table 0 end_of_mem 0 ReadWriteKernel) (\<lambda>vm.
     Inr (vm, table))))"

subsection \<open>The processor\<close>

record cpuid_response =
  cpuid_eax :: u32
  cpuid_ebx :: u32
  cpuid_ecx :: u32
  cpuid_edx :: u32

definition mfs_family :: "u32 \<Rightarrow> u32" where
  "mfs_family value =
     (let family = drop_bit 8 value AND 15 in
      if family \<noteq> 0x0F then family else let extended_family = drop_bit 20 value AND 255 in extended_family + family)"

definition mfs_model :: "u32 \<Rightarrow> u32" where
  "mfs_model value =
     (let model = drop_bit 4 value AND 15 in
      if model = 0x06 \<or> model = 0x0F then let extended_model = drop_bit 16 value AND 15 in push_bit 4 extended_model + model
      else model)"

definition mfs_stepping :: "u32 \<Rightarrow> u32" where
  "mfs_stepping value = value AND 15"

record cpu_features =
  max_basic_cpuid :: u32
  max_extended_cpuid :: u32
  has_x2apic :: bool
  has_tsc_deadline_mode :: bool
  has_invariant_tsc :: bool
  vendor_string :: "u32 list"
  cpu_brand_string :: "u32 list option"
  model_family_stepping :: u32

text \<open>Logging a \<open>FixedString\<close> checks that it is UTF-8.\<close>

definition fixed_string_debug :: "u32 list \<Rightarrow> bytes res" where
  "fixed_string_debug values =
     (let s = concat (map le_word values) in if utf8_valid s then Inr s else Inl (Panic ''failed to parse utf8 str''))"

definition cpuid_words :: "cpuid_response \<Rightarrow> u32 list" where
  "cpuid_words c = [cpuid_eax c, cpuid_ebx c, cpuid_ecx c, cpuid_edx c]"

definition inspect :: "(u32 \<Rightarrow> u32 \<Rightarrow> cpuid_response) \<Rightarrow> cpu_features res" where
  "inspect query =
     (let c = query 0 0; vendor = [cpuid_ebx c, cpuid_edx c, cpuid_ecx c] in
      and_then (fixed_string_debug vendor) (\<lambda>_.
      let leaf01 = query 1 0; max_extended = cpuid_eax (query 0x80000000 0);
          invariant = (if 0x80000007 \<le> max_extended then cpuid_edx (query 0x80000007 0) AND push_bit 8 1 \<noteq> 0 else False)
      in and_then
           (if 0x80000004 \<le> max_extended
            then let brand = cpuid_words (query 0x80000002 0) @ cpuid_words (query 0x80000003 0) @ cpuid_words (query 0x80000004 0)
                 in and_then (fixed_string_debug brand) (\<lambda>_. Inr (Some brand))
            else Inr None) (\<lambda>brand.
         Inr \<lparr>max_basic_cpuid = cpuid_eax c, max_extended_cpuid = max_extended,
              has_x2apic = drop_bit 21 (cpuid_ecx leaf01) AND 1 \<noteq> 0,
              has_tsc_deadline_mode = drop_bit 24 (cpuid_ecx leaf01) AND 1 \<noteq> 0,
              has_invariant_tsc = invariant, vendor_string = vendor, cpu_brand_string = brand,
              model_family_stepping = cpuid_eax leaf01\<rparr>)))"

text \<open>\<open>detect_fsb_freq\<close>, from the value of \<open>MSR_FSB_FREQ\<close>.\<close>

definition detect_fsb_freq :: "u64 \<Rightarrow> u64 option" where
  "detect_fsb_freq fsb_freq_msr =
     (let b = fsb_freq_msr AND 7 in
      if b = 5 then Some 100000
      else if b = 1 then Some 133333
      else if b = 3 then Some 166666
      else if b = 2 then Some 200000
      else if b = 0 then Some 266666
      else if b = 4 then Some 333333
      else if b = 6 then Some 400000
      else None)"

text \<open>\<open>detect_core_clock_freq\<close>, from leaf 0x15 of \<open>cpuid\<close> and the value of \<open>MSR_PLATFORM_INFO\<close>; the product is a
  \<open>u32\<close>.\<close>

definition detect_core_clock_freq :: "cpuid_response \<Rightarrow> u64 \<Rightarrow> u32 res" where
  "detect_core_clock_freq res platform_info =
     (let freq = cpuid_ecx res in
      if freq \<noteq> 0 then Inr freq
      else if cpuid_ebx res \<noteq> 0 \<and> cpuid_eax res \<noteq> 0 then
        let ratio = unat (drop_bit 8 (ucast platform_info :: u32) AND 0xFF) in
        if ratio * 1000000000 < 2 ^ 32 then Inr (word_of_nat (ratio * 1000000000))
        else Inl (Panic ''attempt to multiply with overflow'')
      else Inr 1000000000)"

subsection \<open>The I/O APIC\<close>

record 'h mmio =
  mmio_rd32 :: "nat \<Rightarrow> 'h \<Rightarrow> u32"
  mmio_wr8 :: "nat \<Rightarrow> u8 \<Rightarrow> 'h \<Rightarrow> 'h"
  mmio_wr32 :: "nat \<Rightarrow> u32 \<Rightarrow> 'h \<Rightarrow> 'h"

definition IOAPIC_INDEX_ADDR :: nat where "IOAPIC_INDEX_ADDR = 0xfec00000"
definition IOAPIC_DATA_ADDR :: nat where "IOAPIC_DATA_ADDR = 0xfec00010"
definition IOAPIC_EOIR_ADDR :: nat where "IOAPIC_EOIR_ADDR = 0xfec00040"

definition ioapic_read_register :: "'h mmio \<Rightarrow> nat \<Rightarrow> ('h, u32) act" where
  "ioapic_read_register io index h =
     (if 0x100 \<le> index then (h, Inl (Err ApicRegIndexOutOfRange))
      else let h = mmio_wr8 io IOAPIC_INDEX_ADDR (word_of_nat index) h in (h, Inr (mmio_rd32 io IOAPIC_DATA_ADDR h)))"

definition ioapic_write_register :: "'h mmio \<Rightarrow> nat \<Rightarrow> u32 \<Rightarrow> ('h, unit) act" where
  "ioapic_write_register io index data h =
     (if 0x100 \<le> index then (h, Inl (Err ApicRegIndexOutOfRange))
      else (mmio_wr32 io IOAPIC_DATA_ADDR data (mmio_wr8 io IOAPIC_INDEX_ADDR (word_of_nat index) h), Inr ()))"

definition ioapic_notify_end_of_interrupt :: "'h mmio \<Rightarrow> u8 \<Rightarrow> 'h \<Rightarrow> 'h" where
  "ioapic_notify_end_of_interrupt io vector h = mmio_wr32 io IOAPIC_EOIR_ADDR (ucast vector) h"

definition read_redirection_entry :: "'h mmio \<Rightarrow> nat \<Rightarrow> ('h, u64) act" where
  "read_redirection_entry io irq h =
     (if irq < 24 then
        (case ioapic_read_register io (0x10 + irq * 2) h of (h, low) \<Rightarrow>
         case ioapic_read_register io (0x10 + irq * 2 + 1) h of (h, high) \<Rightarrow>
           (case (low, high) of
              (Inr low, Inr high) \<Rightarrow> (h, Inr (ucast low OR push_bit 32 (ucast high)))
            | _ \<Rightarrow> (h, Inl (Err ApicRegIndexOutOfRange))))
      else (h, Inl (Err ApicRegIndexOutOfRange)))"

definition write_redirection_entry :: "'h mmio \<Rightarrow> nat \<Rightarrow> u64 \<Rightarrow> ('h, unit) act" where
  "write_redirection_entry io irq entry =
     act_then (lift_res (and_then (usize_mul irq 2) (usize_add 0x10))) (\<lambda>i.
     act_then (ioapic_write_register io i (ucast entry)) (\<lambda>_.
     act_then (lift_res (usize_add i 1)) (\<lambda>j.
     ioapic_write_register io j (ucast (drop_bit 32 entry)))))"

definition set_redirection :: "'h mmio \<Rightarrow> nat \<Rightarrow> u8 \<Rightarrow> u32 \<Rightarrow> ('h, unit) act" where
  "set_redirection io from_irq to_vector to_apic =
     write_redirection_entry io from_irq (push_bit 56 (ucast to_apic) OR ucast to_vector)"

definition ioapic_init :: "'h mmio \<Rightarrow> local_apic \<Rightarrow> ('h, unit) act" where
  "ioapic_init io bsp_lapic =
     act_then (set_redirection io 2 32 (x2apic_id bsp_lapic)) (\<lambda>_. set_redirection io 0 32 (x2apic_id bsp_lapic))"

subsection \<open>Serial ports\<close>

datatype serial_port = Com1 | Com2

fun serial_base :: "serial_port \<Rightarrow> u16" where
  "serial_base Com1 = 0x3f8"
| "serial_base Com2 = 0x2f8"

record 'p ports =
  port_in :: "u16 \<Rightarrow> 'p \<Rightarrow> 'p \<times> u8"
  port_out :: "u16 \<Rightarrow> u8 \<Rightarrow> 'p \<Rightarrow> 'p"

definition serial_init :: "'p ports \<Rightarrow> serial_port \<Rightarrow> 'p \<Rightarrow> 'p" where
  "serial_init io s p =
     fold (\<lambda>(ofs, v). port_out io (serial_base s + ofs) v)
       [(1, 0x00), (3, 0x80), (0, 0x01), (1, 0x00), (3, 0x03), (2, 0xC7), (4, 0x0B)] p"

partial_function (option) send_char :: "'p ports \<Rightarrow> serial_port \<Rightarrow> nat \<Rightarrow> 'p \<Rightarrow> 'p option" where
  "send_char io s c p =
     (case port_in io (serial_base s + 5) p of (p, v) \<Rightarrow>
        if v AND 0x20 = 0 then send_char io s c p else Some (port_out io (serial_base s) (word_of_nat c) p))"

declare send_char.simps [code]

definition try_read :: "'p ports \<Rightarrow> serial_port \<Rightarrow> 'p \<Rightarrow> 'p \<times> u8 option" where
  "try_read io s p =
     (case port_in io (serial_base s + 5) p of (p, v) \<Rightarrow>
        if v AND 0x01 = 0 then (p, None)
        else (case port_in io (serial_base s) p of (p, c) \<Rightarrow> (port_out io (serial_base s + 2) 0xC7 p, Some c)))"

fun send_chars :: "'p ports \<Rightarrow> serial_port \<Rightarrow> nat list \<Rightarrow> 'p \<Rightarrow> 'p option" where
  "send_chars io s [] p = Some p"
| "send_chars io s (c # cs) p = (case send_char io s c p of None \<Rightarrow> None | Some p \<Rightarrow> send_chars io s cs p)"

definition send_str :: "'p ports \<Rightarrow> serial_port \<Rightarrow> bytes \<Rightarrow> 'p \<Rightarrow> 'p option" where
  "send_str io s str = send_chars io s (utf8_chars str)"

text \<open>Writing through \<open>fmt::Write\<close> uses the default port, whichever port it is called on.\<close>

definition serial_write_str :: "'p ports \<Rightarrow> serial_port \<Rightarrow> bytes \<Rightarrow> 'p \<Rightarrow> 'p option" where
  "serial_write_str io s str = send_str io Com2 str"

subsection \<open>Leaving the boot services\<close>

text \<open>A status that is a value of its type is success: the loop asks for one memory map and never repeats.\<close>

lemma efi_status_cases [simp]: "(s :: efi_status) = SUCCESS"
  by (cases s) simp

lemma exit_returns:
  "exit_from_efi_boot_services fw mm st =
     (case fw_get_memory_map fw mm st of (st, status, mm) \<Rightarrow>
        (if status \<noteq> 0 then Some (st, Inl (UB ''invalid EfiStatus''))
         else (case fw_exit_boot_services fw (map_key mm) st of (st, status) \<Rightarrow>
           Some (st, if status = 0 then Inr mm else Inl (UB ''invalid EfiStatus'')))))"
  by (subst exit_from_efi_boot_services.simps) (simp add: status_of_def split: prod.split)

subsection \<open>Loading the files\<close>

text \<open>The firmware lists the entries of the root directory one after the other, allocates memory for each file and
  reads all of it.\<close>

fun serves :: "'f firmware \<Rightarrow> nat \<Rightarrow> 'f \<Rightarrow> (efi_file_info \<times> bytes) list \<Rightarrow> bool" where
  "serves fw root st [] \<longleftrightarrow> (\<exists>st'. read_file_info fw root st = (st', Inr None))"
| "serves fw root st ((i, d) # es) \<longleftrightarrow> (\<exists>st1. read_file_info fw root st = (st1, Inr (Some i)) \<and>
     (if is_dir i then serves fw root st1 es
      else \<exists>st2 a st3 h st4. alloc_byte_slice fw (info_size_of_file i) st1 = (st2, Inr a) \<and>
        file_open fw root (info_file_name i) st2 = (st3, Inr h) \<and>
        read_into_slice fw h (info_size_of_file i) st3 = (st4, Inr d) \<and> serves fw root st4 es))"

definition files_of :: "(efi_file_info \<times> bytes) list \<Rightarrow> boot_file list" where
  "files_of es = map (\<lambda>(i, d). \<lparr>file_name = info_file_name i, file_data = d\<rparr>) (filter (\<lambda>(i, d). \<not> is_dir i) es)"

lemma files_of_simps [simp]:
  "files_of [] = []"
  "files_of ((i, d) # es) =
     (if is_dir i then files_of es else \<lparr>file_name = info_file_name i, file_data = d\<rparr> # files_of es)"
  by (simp_all add: files_of_def)

lemma load_root_file_ok:
  assumes "alloc_byte_slice fw (info_size_of_file i) st1 = (st2, Inr a)"
    "file_open fw root (info_file_name i) st2 = (st3, Inr h)"
    "read_into_slice fw h (info_size_of_file i) st3 = (st4, Inr d)"
  shows "load_root_file fw root i files st1 =
    (st4, if ROOT_FILES \<le> length files then Inl (Panic ''No more space left for root_files'')
          else Inr (files @ [\<lparr>file_name = info_file_name i, file_data = d\<rparr>]))"
  using assms by (simp add: load_root_file_def act_then_def expect_done_def lift_res_def)

lemma load_all_root_files_ok:
  assumes "serves fw root st es" "length files \<le> ROOT_FILES"
  shows "\<exists>st'. load_all_root_files fw root files st =
    Some (st', if length files + length (files_of es) \<le> ROOT_FILES then Inr (files @ files_of es)
               else Inl (Panic ''No more space left for root_files''))"
  using assms
proof (induction es arbitrary: st files)
  case Nil
  then show ?case by (subst load_all_root_files.simps) auto
next
  case (Cons e es)
  obtain i d where e: "e = (i, d)" by (cases e)
  with Cons.prems obtain st1 where r: "read_file_info fw root st = (st1, Inr (Some i))" by auto
  show ?case
  proof (cases "is_dir i")
    case True
    with Cons.prems e r have "serves fw root st1 es" by auto
    from Cons.IH [OF this Cons.prems(2)] show ?thesis
      by (subst load_all_root_files.simps) (auto simp: r True e split: if_splits)
  next
    case False
    with Cons.prems(1) e r obtain st2 a st3 h st4 where
      l: "alloc_byte_slice fw (info_size_of_file i) st1 = (st2, Inr a)" "file_open fw root (info_file_name i) st2 = (st3, Inr h)"
        "read_into_slice fw h (info_size_of_file i) st3 = (st4, Inr d)" and more: "serves fw root st4 es"
      by auto
    note L = load_root_file_ok [OF l]
    show ?thesis
    proof (cases "ROOT_FILES \<le> length files")
      case True
      with False show ?thesis by (subst load_all_root_files.simps) (auto simp: r L e split: if_splits)
    next
      case less: False
      then have "length (files @ [\<lparr>file_name = info_file_name i, file_data = d\<rparr>]) \<le> ROOT_FILES" by simp
      from Cons.IH [OF more this] False less show ?thesis
        by (subst load_all_root_files.simps) (auto simp: r L e split: if_splits)
    qed
  qed
qed

text \<open>Names.\<close>

definition plain_name :: "bytes \<Rightarrow> bool" where
  "plain_name s \<longleftrightarrow> (\<forall>b \<in> set s. 0 < unat b \<and> unat b < 0x80) \<and> length s \<le> 32"

lemma plain_chars: "\<forall>b \<in> set s. unat b < 0x80 \<Longrightarrow> utf8_chars s = map unat s"
  by (induction s) auto

lemma plain_units:
  assumes "\<forall>b \<in> set s. unat b < 0x80"
  shows "concat (map encode_utf16 (utf8_chars s)) = map ucast s"
  using assms by (simp add: plain_chars) (induction s, auto simp: encode_utf16_def)

lemma from_str_plain:
  assumes "plain_name s"
  shows "efi_file_name_from_str s = Inr (map ucast s @ replicate (32 - length s) 0)"
  using assms plain_units [of s] by (auto simp: efi_file_name_from_str_def plain_name_def)

lemma unat_unit: "unat (ucast b :: u16) = unat (b :: u8)"
proof -
  have "unat b < 2 ^ 8" using unsigned_less [of b, where ?'a = nat] by simp
  also have "(2 :: nat) ^ 8 \<le> 65536" by simp
  finally show ?thesis by (simp add: unsigned_ucast_eq take_bit_nat_eq_self_iff)
qed

lemma plain_unit_nonzero: "plain_name s \<Longrightarrow> b \<in> set s \<Longrightarrow> (ucast b :: u16) \<noteq> 0"
  using unat_unit [of b] by (auto simp: plain_name_def)

lemma display_from_str:
  assumes "plain_name s" "length s < 32"
  shows "and_then (efi_file_name_from_str s) efi_file_name_display = Inr (map unat s)"
proof -
  let ?u = "ucast :: u8 \<Rightarrow> u16"
  have nz: "\<forall>c \<in> set (map ?u s). c \<noteq> 0" using plain_unit_nonzero [OF assms(1)] by auto
  have "takeWhile (\<lambda>c. c \<noteq> 0) (map ?u s @ replicate (32 - length s) 0) = map ?u s"
    using nz assms(2) by (subst takeWhile_append2) (auto simp: takeWhile_replicate)
  moreover have "unat (?u b) mod 256 = unat b" for b
    using unsigned_less [of b, where ?'a = nat] by (simp add: unat_unit)
  ultimately show ?thesis using assms by (simp add: from_str_plain efi_file_name_display_def)
qed

lemma from_str_inj:
  assumes "plain_name s" "plain_name t" "efi_file_name_from_str s = efi_file_name_from_str t"
  shows "s = t"
proof -
  let ?u = "ucast :: u8 \<Rightarrow> u16"
  have tw: "takeWhile (\<lambda>c. c \<noteq> 0) (map ?u s @ replicate n 0) = map ?u s" if "plain_name s" for s n
    using plain_unit_nonzero [OF that] by (subst takeWhile_append2) (auto simp: takeWhile_replicate)
  have "inj ?u" by (rule injI) (metis unat_unit unsigned_word_eqI)
  moreover have "map ?u s = map ?u t"
    using assms tw [OF assms(1), of "32 - length s"] tw [OF assms(2), of "32 - length t"] by (simp add: from_str_plain)
  ultimately show ?thesis by (simp add: inj_map_eq_map)
qed

text \<open>A name of 32 characters fits, and has no end.\<close>

lemma display_unterminated:
  assumes "plain_name s" "length s = 32"
  shows "and_then (efi_file_name_from_str s) efi_file_name_display = Inl (UB ''read past the end of the name'')"
  using assms plain_unit_nonzero [OF assms(1)] by (auto simp: from_str_plain efi_file_name_display_def)

text \<open>The file that \<open>run_app\<close> starts is the first one of the root directory with that name.\<close>

lemma run_app_found:
  assumes "files_of es = before @ f # after" "efi_file_name_from_str s = Inr (file_name f)"
    "\<forall>g \<in> set before. file_name g \<noteq> file_name f"
  shows "run_app ram root entry ptr (files_of es) s args k =
    act_then (lift_res (elf_parse (file_data f))) (\<lambda>e. act_then (on_vm (elf_load ram root e)) (elf_exec ram root entry ptr args)) k"
proof -
  have "find (\<lambda>g. file_name g = file_name f) (before @ f # after) = Some f"
    using assms(3) by (induction before) auto
  with assms show ?thesis by (simp add: run_app_def)
qed

subsection \<open>The first page table\<close>

definition mapped_types :: "efi_memory_type set" where
  "mapped_types = {CONVENTIONAL_MEMORY, LOADER_CODE, LOADER_DATA}"

definition region_end :: "efi_memory_descriptor \<Rightarrow> nat" where
  "region_end d = physical_start d + number_of_pages d * PAGE_SIZE"

definition end_of_mem :: "efi_memory_descriptor list \<Rightarrow> nat \<Rightarrow> nat" where
  "end_of_mem ds m = fold max (map region_end (filter (\<lambda>d. memory_type d \<in> mapped_types) ds)) m"

lemma end_of_mem_loop_ok:
  assumes "mmap_lists mm ofs ds" "\<forall>d \<in> set ds. memory_type d \<in> mapped_types \<longrightarrow> region_end d < USIZE"
  shows "end_of_mem_loop mm ofs m = Some (Inr (end_of_mem ds m))"
  using assms
proof (induction ds arbitrary: ofs m)
  case Nil
  then show ?case by (subst end_of_mem_loop.simps) (simp add: end_of_mem_def)
next
  case (Cons d ds)
  then obtain ofs' where n: "mmap_next mm ofs = Inr (Some (d, ofs'))" "mmap_lists mm ofs' ds" by auto
  have step: "memory_type d \<in> mapped_types \<Longrightarrow>
      and_then (usize_mul (number_of_pages d) PAGE_SIZE) (usize_add (physical_start d)) = Inr (region_end d)"
    using Cons.prems(2) by (simp add: region_end_def res_simps)
  from Cons.IH [OF n(2)] Cons.prems(2) step show ?case
    by (subst end_of_mem_loop.simps) (simp add: n(1) end_of_mem_def mapped_types_def [symmetric] max.commute)
qed

lemma fold_max_le: "fold max xs (m :: nat) \<le> b \<longleftrightarrow> m \<le> b \<and> (\<forall>x \<in> set xs. x \<le> b)"
  by (induction xs arbitrary: m) auto

lemma end_of_mem_bounds:
  "m \<le> end_of_mem ds m"
  "d \<in> set ds \<Longrightarrow> memory_type d \<in> mapped_types \<Longrightarrow> region_end d \<le> end_of_mem ds m"
  using fold_max_le [of "map region_end (filter (\<lambda>d. memory_type d \<in> mapped_types) ds)" m "end_of_mem ds m"]
  by (auto simp: end_of_mem_def)

lemma fold_max_dvd: "(k :: nat) dvd m \<Longrightarrow> \<forall>x \<in> set xs. k dvd x \<Longrightarrow> k dvd fold max xs m"
  by (induction xs arbitrary: m) (auto simp: max_def)

definition regions_ok :: "efi_memory_descriptor list \<Rightarrow> bool" where
  "regions_ok ds \<longleftrightarrow> (\<forall>d \<in> set ds. memory_type d \<in> mapped_types \<longrightarrow> PAGE_SIZE dvd physical_start d \<and> region_end d \<le> 2 ^ 48)"

lemma init_paging_ok:
  assumes "heap_inv (vm_alloc vm)" "vm_tables vm = Map.empty" "mmap_lists mm 0 ds" "regions_ok ds"
  shows "init_paging mm vm = Inl (Panic ''allocation error'') \<or>
    (\<exists>vm' root. init_paging mm vm = Inr (vm', root) \<and> heap_inv (vm_alloc vm') \<and> pt_wf heap_used vm' root \<and>
      (\<forall>a < 2 ^ 48. translate vm' root a =
         (if a < end_of_mem ds 0x100000000 then Inr (PageMapped4K (word_of_nat (a div 4096 * 4096))) else Inl (Err PageNotFound))))"
proof -
  let ?e = "end_of_mem ds 0x100000000"
  have U: "(2 :: nat) ^ 48 < USIZE" by simp
  have ends: "PAGE_SIZE dvd region_end d" if "d \<in> set ds" "memory_type d \<in> mapped_types" for d
    using assms(4) that by (simp add: regions_ok_def region_end_def)
  have "PAGE_SIZE dvd (0x100000000 :: nat)" by (simp add: PAGE_SIZE_def PAGE_OFFSET_BITS_def)
  then have e: "PAGE_SIZE dvd ?e" "?e \<le> 2 ^ 48"
    using ends assms(4) by (auto simp: end_of_mem_def regions_ok_def fold_max_le intro!: fold_max_dvd)
  have loop: "end_of_mem_loop mm 0 0x100000000 = Some (Inr ?e)"
    using assms(4) U by (intro end_of_mem_loop_ok [OF assms(3)]) (auto simp: regions_ok_def)
  show ?thesis
  proof (cases "pml4_new alloc_with_options vm")
    case (Inl f)
    from first_fit.alloc_law [OF assms(1) table_layout_valid] Inl have "f = Panic ''allocation error''"
      by (auto simp: pml4_new_def split: if_splits)
    with Inl show ?thesis by (simp add: init_paging_def)
  next
    case (Inr p)
    obtain v root where p: "p = (v, root)" by (cases p)
    note new = pt_wf_new [OF assms(1,2) Inr [unfolded p]]
    have fresh: "translate v root a = Inl (Err PageNotFound)" for a
    proof -
      have "vm_tables v root = Some (replicate 512 0)"
        using Inr p assms(2) by (auto simp: pml4_new_def res_simps split: if_splits)
      from walk_empty_table [OF this full_path_path] new show ?thesis
        by (simp add: translate_walk [of heap_used] is_present_bit)
    qed
    have "PAGE_SIZE dvd 0" "(0 :: nat) \<le> ?e" "0 + ?e < USIZE" using e U by auto
    from heap_create_mapping_ok [of v root 0 ?e 0 ReadWriteKernel, OF conjunct1 [OF new] conjunct2 [OF new] this(1) e(1) this(1,2) e(2) this(3)]
    show ?thesis by (auto simp: init_paging_def Inr p loop fresh)
  qed
qed

text \<open>Both steps of the memory at the start of the system: the allocator and the page table come from one map.\<close>

lemma boot_memory_ok:
  assumes "mmap_lists mm 0 ds" "memory_map_ok ds" "regions_ok ds"
  shows "\<exists>A. init_with_mmap allocator_new mm = Inr A \<and> heap_inv A \<and>
    (let r = init_paging mm \<lparr>vm_alloc = A, vm_tables = Map.empty\<rparr> in
     r = Inl (Panic ''allocation error'') \<or>
     (\<exists>vm root. r = Inr (vm, root) \<and> heap_inv (vm_alloc vm) \<and> pt_wf heap_used vm root \<and>
       (\<forall>d \<in> set ds. memory_type d \<in> mapped_types \<longrightarrow>
          (\<forall>a. physical_start d \<le> a \<and> a < region_end d \<longrightarrow>
             translate vm root a = Inr (PageMapped4K (word_of_nat (a div 4096 * 4096)))))))"
proof -
  obtain A where A: "init_with_mmap allocator_new mm = Inr A" "heap_inv A"
    using init_with_mmap_blocks [OF assms(1,2)] by (auto simp: heap_inv_def)
  let ?v = "\<lparr>vm_alloc = A, vm_tables = Map.empty\<rparr>"
  have tr: "translate vm root a = Inr (PageMapped4K (word_of_nat (a div 4096 * 4096)))"
    if t: "\<forall>a < 2 ^ 48. translate vm root a =
        (if a < end_of_mem ds 0x100000000 then Inr (PageMapped4K (word_of_nat (a div 4096 * 4096))) else Inl (Err PageNotFound))"
      and d: "d \<in> set ds" "memory_type d \<in> mapped_types" "a < region_end d" for vm root d a
  proof -
    have "a < end_of_mem ds 0x100000000" by (rule less_le_trans [OF d(3) end_of_mem_bounds(2) [OF d(1,2)]])
    moreover have "a < 2 ^ 48" using assms(3) d by (auto simp: regions_ok_def)
    ultimately show ?thesis using t by simp
  qed
  have "heap_inv (vm_alloc ?v)" "vm_tables ?v = Map.empty" by (simp_all add: A)
  note init_paging_ok [OF this assms(1,3)]
  then have "init_paging mm ?v = Inl (Panic ''allocation error'') \<or>
     (\<exists>vm root. init_paging mm ?v = Inr (vm, root) \<and> heap_inv (vm_alloc vm) \<and> pt_wf heap_used vm root \<and>
       (\<forall>d \<in> set ds. memory_type d \<in> mapped_types \<longrightarrow>
          (\<forall>a. physical_start d \<le> a \<and> a < region_end d \<longrightarrow>
             translate vm root a = Inr (PageMapped4K (word_of_nat (a div 4096 * 4096))))))"
    using tr by blast
  with A show ?thesis unfolding Let_def by blast
qed

subsection \<open>Routing the timer's interrupt\<close>

text \<open>The registers of the I/O APIC are behind an index and a data register.\<close>

definition indexed_registers :: "'h mmio \<Rightarrow> ('h \<Rightarrow> u8) \<Rightarrow> ('h \<Rightarrow> u8 \<Rightarrow> u32) \<Rightarrow> bool" where
  "indexed_registers io sel reg \<longleftrightarrow>
     (\<forall>i h. sel (mmio_wr8 io IOAPIC_INDEX_ADDR i h) = i \<and> reg (mmio_wr8 io IOAPIC_INDEX_ADDR i h) = reg h) \<and>
     (\<forall>v h. sel (mmio_wr32 io IOAPIC_DATA_ADDR v h) = sel h \<and>
        reg (mmio_wr32 io IOAPIC_DATA_ADDR v h) = (reg h)(sel h := v)) \<and>
     (\<forall>h. mmio_rd32 io IOAPIC_DATA_ADDR h = reg h (sel h))"

lemma set_redirection_ok:
  assumes "indexed_registers io sel reg" "irq < 24"
  shows "\<exists>h'. set_redirection io irq v a h = (h', Inr ()) \<and>
    reg h' = (reg h)(word_of_nat (0x10 + irq * 2) := ucast v, word_of_nat (0x10 + irq * 2 + 1) := push_bit 24 a)"
proof -
  have "ucast (push_bit 56 (ucast a) OR ucast v :: u64) = (ucast v :: u32)"
    "ucast (drop_bit 32 (push_bit 56 (ucast a) OR ucast v :: u64)) = push_bit 24 a"
    by (rule bit_word_eqI, auto simp: bit_simps dest: bit_imp_le_length)+
  with assms show ?thesis
    by (simp add: set_redirection_def write_redirection_entry_def ioapic_write_register_def act_then_def lift_res_def
      indexed_registers_def Let_def)
qed

lemma read_redirection_ok:
  assumes "indexed_registers io sel reg" "irq < 24"
  shows "\<exists>h'. read_redirection_entry io irq h =
    (h', Inr (ucast (reg h (word_of_nat (0x10 + irq * 2))) OR push_bit 32 (ucast (reg h (word_of_nat (0x10 + irq * 2 + 1))))))"
  using assms by (simp add: read_redirection_entry_def ioapic_read_register_def indexed_registers_def Let_def)

lemma ioapic_init_ok:
  assumes "indexed_registers io sel reg"
  shows "\<exists>h'. ioapic_init io apic h = (h', Inr ()) \<and>
    (\<forall>irq \<in> {0, 2}. snd (read_redirection_entry io irq h') =
       Inr (push_bit 56 (ucast (x2apic_id apic)) OR 32)) \<and>
    (\<forall>i. i \<notin> {0x10, 0x11, 0x14, 0x15} \<longrightarrow> reg h' i = reg h i)"
proof -
  let ?a = "x2apic_id apic"
  obtain h1 where h1: "set_redirection io 2 32 ?a h = (h1, Inr ())"
      "reg h1 = (reg h)(0x14 := 32, 0x15 := push_bit 24 ?a)"
    using set_redirection_ok [OF assms, of 2 32 ?a h] by auto
  obtain h2 where h2: "set_redirection io 0 32 ?a h1 = (h2, Inr ())"
      "reg h2 = (reg h1)(0x10 := 32, 0x11 := push_bit 24 ?a)"
    using set_redirection_ok [OF assms, of 0 32 ?a h1] by auto
  have e: "32 OR push_bit 32 (ucast (push_bit 24 ?a)) = (push_bit 56 (ucast ?a) OR 32 :: u64)"
    by (rule bit_word_eqI) (auto simp: bit_simps)
  have "snd (read_redirection_entry io irq h2) = Inr (push_bit 56 (ucast ?a) OR 32)" if "irq \<in> {0, 2}" for irq
    using read_redirection_ok [OF assms, of irq h2] that by (auto simp: h1 h2 e)
  then show ?thesis using h1 h2 by (auto simp: ioapic_init_def act_then_def)
qed

subsection \<open>Sending text\<close>

fun uart_ready_after :: "'p ports \<Rightarrow> serial_port \<Rightarrow> nat \<Rightarrow> 'p \<Rightarrow> bool" where
  "uart_ready_after io s 0 p \<longleftrightarrow> snd (port_in io (serial_base s + 5) p) AND 0x20 \<noteq> 0"
| "uart_ready_after io s (Suc n) p \<longleftrightarrow>
     snd (port_in io (serial_base s + 5) p) AND 0x20 \<noteq> 0 \<or> uart_ready_after io s n (fst (port_in io (serial_base s + 5) p))"

text \<open>A port that becomes ready again and again, and what it has sent.\<close>

definition transmits :: "'p ports \<Rightarrow> serial_port \<Rightarrow> ('p \<Rightarrow> bytes) \<Rightarrow> bool" where
  "transmits io s sent \<longleftrightarrow> (\<forall>p. (\<exists>n. uart_ready_after io s n p) \<and> sent (fst (port_in io (serial_base s + 5) p)) = sent p) \<and>
     (\<forall>v p. sent (port_out io (serial_base s) v p) = sent p @ [v])"

lemma send_char_ok:
  assumes "transmits io s sent"
  shows "\<exists>p'. send_char io s c p = Some p' \<and> sent p' = sent p @ [word_of_nat c]"
proof -
  obtain n where "uart_ready_after io s n p" using assms unfolding transmits_def by blast
  then show ?thesis
  proof (induction n arbitrary: p)
    case 0
    with assms show ?case
      by (subst send_char.simps) (auto simp: transmits_def split: prod.split dest!: spec [of _ p])
  next
    case (Suc n)
    obtain q v where q: "port_in io (serial_base s + 5) p = (q, v)" by (cases "port_in io (serial_base s + 5) p")
    have sq: "sent q = sent p" using assms q by (metis fst_conv transmits_def)
    show ?case
    proof (cases "v AND 0x20 = 0")
      case True
      with Suc q have "uart_ready_after io s n q" by simp
      from Suc.IH [OF this] sq True q show ?thesis by (subst send_char.simps) simp
    next
      case False
      with q sq assms show ?thesis by (subst send_char.simps) (simp add: transmits_def)
    qed
  qed
qed

lemma send_str_ok:
  assumes "transmits io s sent"
  shows "\<exists>p'. send_str io s str p = Some p' \<and> sent p' = sent p @ map word_of_nat (utf8_chars str)"
proof -
  have "\<exists>p'. send_chars io s cs p = Some p' \<and> sent p' = sent p @ map word_of_nat cs" for cs
  proof (induction cs arbitrary: p)
    case (Cons c cs)
    obtain q where q: "send_char io s c p = Some q" "sent q = sent p @ [word_of_nat c]"
      using send_char_ok [OF assms] by blast
    with Cons.IH [of q] show ?case by auto
  qed simp
  then show ?thesis by (simp add: send_str_def)
qed

lemma send_ascii_ok:
  assumes "transmits io s sent" "\<forall>b \<in> set str. unat b < 0x80"
  shows "\<exists>p'. send_str io s str p = Some p' \<and> sent p' = sent p @ str"
  using send_str_ok [OF assms(1), of str p] assms(2) by (simp add: plain_chars comp_def)

text \<open>With a ratio of 5 or more the product of \<open>detect_core_clock_freq\<close> does not fit.\<close>

lemma core_clock_overflow:
  assumes "cpuid_ecx r = 0" "cpuid_ebx r \<noteq> 0" "cpuid_eax r \<noteq> 0"
    "5 \<le> unat (drop_bit 8 (ucast platform_info :: u32) AND 0xFF)"
  shows "detect_core_clock_freq r platform_info = Inl (Panic ''attempt to multiply with overflow'')"
  using assms by (simp add: detect_core_clock_freq_def Let_def)

end
