(* ===== verification/Discovery.thy ===== *)
theory Discovery
  imports Xhci_Ctrl
begin

text \<open>
  Device discovery: \<open>os/src/xhci/driver.rs\<close>.  The routines are sequences of requests to the controller, each of which
  is awaited before the next one; the requests are the parameter \<open>ops\<close>, on a state that holds the controller and the
  devices.  A port register is the value that is read from it.  What a device is handled by is a value of \<open>driver\<close>.
  The lemmas show which driver is chosen for a device, the commands that a new device gets in their order, and that a
  port without a change is left alone.
\<close>

subsection \<open>Requests\<close>

record driver_context =
  dc_port :: nat
  dc_slot :: u8
  dc_input :: input_context
  dc_descriptors :: "usb_descriptor list"
  dc_ep_descs :: "endpoint_descriptor list"
  dc_rings :: "transfer_ring option list"

text \<open>The futures that \<open>device_ready\<close> returns.\<close>

datatype driver = Tablet driver_context | Keyboard driver_context

text \<open>The requests of the controller, from their call to the end of the wait: \<open>on_input at i\<close> is the address at which the
  input context \<open>i\<close> stands, \<open>on_ring\<close> the address of the ring of the control endpoint.\<close>

record 'e host_ops =
  on_ports :: "'e \<Rightarrow> u32 list"
  on_clear_csc :: "nat \<Rightarrow> 'e \<Rightarrow> 'e"
  on_reset_port :: "nat \<Rightarrow> ('e, unit) act"
  on_yield :: "'e \<Rightarrow> 'e"
  on_output_context :: "u8 \<Rightarrow> ('e, unit) act"
  on_ring :: u64
  on_input :: "input_context \<Rightarrow> u64"
  on_command :: "generic_trb \<Rightarrow> ('e, generic_trb) act"
  on_initial_device_descriptor :: "u8 \<Rightarrow> ('e, device_descriptor) act"
  on_device_descriptor :: "u8 \<Rightarrow> ('e, device_descriptor) act"
  on_config_descriptor_and_rest :: "u8 \<Rightarrow> ('e, usb_descriptor list) act"
  on_string_descriptor_zero :: "u8 \<Rightarrow> ('e, u16 list) act"
  on_string_descriptor :: "u8 \<Rightarrow> u16 \<Rightarrow> u8 \<Rightarrow> ('e, bytes) act"
  on_setup_endpoints :: "nat \<Rightarrow> u8 \<Rightarrow> input_context \<Rightarrow> endpoint_descriptor list \<Rightarrow> ('e, input_context \<times> transfer_ring option list) act"
  on_ax88179 :: "driver_context \<Rightarrow> ('e, unit) act"

text \<open>\<open>xhc.portsc(port)?.upgrade().ok_or(..)?\<close>; ports are numbered from 1.\<close>

definition read_portsc :: "'e host_ops \<Rightarrow> nat \<Rightarrow> 'e \<Rightarrow> u32 res" where
  "read_portsc ops port e =
     ok_or (nth_opt (on_ports ops e) (wrapping_sub port 1)) (Failed ''xHC: Port Number Out of Range'')"

definition get_portsc :: "'e host_ops \<Rightarrow> nat \<Rightarrow> ('e, u32) act" where
  "get_portsc ops port e = (e, read_portsc ops port e)"

text \<open>\<open>pls\<close> turns four bits into a link state; there is none for the values 12 to 14.\<close>

definition port_link_state :: "u32 \<Rightarrow> nat res" where
  "port_link_state v =
     (let n = unat (extract_bits v 5 4)
      in if n \<in> {12, 13, 14} then Inl (UB ''transmute to an invalid PortLinkState'') else Inr n)"

definition send_completed :: "'e host_ops \<Rightarrow> generic_trb \<Rightarrow> ('e, unit) act" where
  "send_completed ops cmd = act_then (on_command ops cmd) (\<lambda>t. lift_res (completed t))"

subsection \<open>A new device\<close>

definition control_context :: "'e host_ops \<Rightarrow> u16 \<Rightarrow> input_context \<Rightarrow> input_context res" where
  "control_context ops mps inp =
     and_then (new_control_endpoint mps (on_ring ops)) (\<lambda>ep. set_ep_ctx 1 ep inp)"

definition slot_and_control :: "input_control_context res" where
  "slot_and_control = and_then (add_context 0 input_control_default) (add_context 1)"

definition update_max_packet_size :: "'e host_ops \<Rightarrow> nat \<Rightarrow> u8 \<Rightarrow> input_context \<Rightarrow> ('e, input_context) act" where
  "update_max_packet_size ops port slot inp =
     act_then (get_portsc ops port) (\<lambda>v.
     if port_speed v \<noteq> FullSpeed then lift_res (Inr inp)
     else
       act_then (on_initial_device_descriptor ops slot) (\<lambda>d.
       act_then (lift_res (and_then slot_and_control (\<lambda>ctrl.
                   control_context ops (ucast (dd_max_packet_size d)) (set_input_ctrl_ctx ctrl inp)))) (\<lambda>inp.
       act_then (send_completed ops (cmd_evaluate_context (on_input ops inp) slot)) (\<lambda>_.
       lift_res (Inr inp)))))"

text \<open>The strings are read for the log only; the first failure after the first string descriptor ends the set-up.\<close>

definition string_if :: "'e host_ops \<Rightarrow> u8 \<Rightarrow> u16 \<Rightarrow> u8 \<Rightarrow> ('e, bytes option) act" where
  "string_if ops slot lang_id i =
     (if i \<noteq> 0 then act_then (on_string_descriptor ops slot lang_id i) (\<lambda>s. lift_res (Inr (Some s)))
      else lift_res (Inr None))"

definition read_strings :: "'e host_ops \<Rightarrow> u8 \<Rightarrow> device_descriptor \<Rightarrow> ('e, unit) act" where
  "read_strings ops slot d e =
     (case on_string_descriptor_zero ops slot e of
        (e, Inl (Err _)) \<Rightarrow> (e, Inr ())
      | (e, Inl f) \<Rightarrow> (e, Inl f)
      | (e, Inr langs) \<Rightarrow>
          act_then (lift_res (index_at langs 1)) (\<lambda>lang_id.
          act_then (string_if ops slot lang_id (dd_manufacturer_idx d)) (\<lambda>_.
          act_then (string_if ops slot lang_id (dd_product_idx d)) (\<lambda>_.
          act_then (string_if ops slot lang_id (dd_serial_idx d)) (\<lambda>_. lift_res (Inr ()))))) e)"

definition driver_context_new :: "'e host_ops \<Rightarrow> nat \<Rightarrow> u8 \<Rightarrow> input_context \<Rightarrow> usb_descriptor list \<Rightarrow> ('e, driver_context) act" where
  "driver_context_new ops port slot inp descriptors =
     (let eps = endpoint_list descriptors in
      act_then (on_setup_endpoints ops port slot inp eps) (\<lambda>(inp, rings).
      lift_res (Inr \<lparr>dc_port = port, dc_slot = slot, dc_input = inp, dc_descriptors = descriptors, dc_ep_descs = eps,
                     dc_rings = rings\<rparr>)))"

fun pick_driver :: "driver_context \<Rightarrow> usb_descriptor list \<Rightarrow> driver option" where
  "pick_driver ddc [] = None"
| "pick_driver ddc (d # ds) =
     (case d of
        Interface e \<Rightarrow>
          if triple e = (3, 0, 0) then Some (Tablet ddc)
          else if triple e = (3, 1, 1) then Some (Keyboard ddc)
          else pick_driver ddc ds
      | _ \<Rightarrow> pick_driver ddc ds)"

text \<open>The message of the error for an unknown device also has the number of its class.\<close>

definition device_ready :: "'e host_ops \<Rightarrow> nat \<Rightarrow> u8 \<Rightarrow> input_context \<Rightarrow> ('e, driver) act" where
  "device_ready ops port slot inp =
     act_then (update_max_packet_size ops port slot inp) (\<lambda>inp.
     act_then (on_device_descriptor ops slot) (\<lambda>d.
     act_then (on_config_descriptor_and_rest ops slot) (\<lambda>descriptors.
     act_then (read_strings ops slot d) (\<lambda>_.
     act_then (driver_context_new ops port slot inp descriptors) (\<lambda>ddc.
     let unsupported = lift_res (Inl (Err (FailedString ''Device class is not supported yet''))) in
     if dd_vendor_id d = 2965 \<and> dd_product_id d = 6032 then act_then (on_ax88179 ops ddc) (\<lambda>_. unsupported)
     else if dd_vendor_id d = 0x0bda \<and> (dd_product_id d = 0x8153 \<or> dd_product_id d = 0x8151) then unsupported
     else if dd_class d = 0 then
       (case pick_driver ddc (dc_descriptors ddc) of Some drv \<Rightarrow> lift_res (Inr drv) | None \<Rightarrow> unsupported)
     else unsupported)))))"

text \<open>The input context for a new device, before and after the port register is read.\<close>

definition slot_input :: "nat \<Rightarrow> input_context res" where
  "slot_input port =
     and_then slot_and_control (\<lambda>ctrl.
     and_then (on_device_ctx (set_root_hub_port_number port) (set_input_ctrl_ctx ctrl input_context_default)) (\<lambda>inp.
     on_device_ctx (set_last_valid_dci 1) inp))"

definition address_input :: "'e host_ops \<Rightarrow> u32 \<Rightarrow> input_context \<Rightarrow> input_context res" where
  "address_input ops v inp =
     and_then (on_device_ctx (set_port_speed (port_speed v)) inp) (\<lambda>inp.
     and_then (max_packet_size v) (\<lambda>mps. control_context ops mps inp))"

definition address_device :: "'e host_ops \<Rightarrow> nat \<Rightarrow> u8 \<Rightarrow> ('e, driver) act" where
  "address_device ops port slot =
     act_then (on_output_context ops slot) (\<lambda>_.
     act_then (lift_res (slot_input port)) (\<lambda>inp.
     act_then (get_portsc ops port) (\<lambda>v.
     act_then (lift_res (address_input ops v inp)) (\<lambda>inp.
     act_then (send_completed ops (cmd_address_device (on_input ops inp) slot)) (\<lambda>_.
     device_ready ops port slot inp)))))"

fun ensure_ring_loop :: "'e host_ops \<Rightarrow> nat \<Rightarrow> ('e, unit) act" where
  "ensure_ring_loop ops 0 e = (e, Inr ())"
| "ensure_ring_loop ops (Suc n) e = act_then (send_completed ops cmd_no_op) (\<lambda>_. ensure_ring_loop ops n) e"

definition ensure_ring_is_working :: "'e host_ops \<Rightarrow> ('e, unit) act" where
  "ensure_ring_is_working ops = ensure_ring_loop ops (16 * 2 + 1)"

definition enable_slot :: "'e host_ops \<Rightarrow> nat \<Rightarrow> ('e, driver) act" where
  "enable_slot ops port =
     act_then (get_portsc ops port) (\<lambda>v.
     if \<not> ccs v then lift_res (Inl (Err (FailedString ''port disconnected while initialization'')))
     else act_then (on_command ops cmd_enable_slot) (\<lambda>t. address_device ops port (slot_id t)))"

text \<open>The wait for the port to be enabled may not end; \<open>fuel\<close> bounds its turns.\<close>

fun wait_enabled :: "nat \<Rightarrow> 'e host_ops \<Rightarrow> nat \<Rightarrow> ('e, unit) act" where
  "wait_enabled fuel ops port e =
     (case read_portsc ops port e of
        Inl f \<Rightarrow> (e, Inl f)
      | Inr v \<Rightarrow>
          (case port_link_state v of
             Inl f \<Rightarrow> (e, Inl f)
           | Inr l \<Rightarrow>
               if port_state v = Enabled \<and> l = 0 then (e, Inr ())
               else (case fuel of 0 \<Rightarrow> (e, Inl NoReturn) | Suc n \<Rightarrow> wait_enabled n ops port (on_yield ops e))))"

declare wait_enabled.simps [simp del]

definition enable_port :: "nat \<Rightarrow> 'e host_ops \<Rightarrow> nat \<Rightarrow> ('e, driver) act" where
  "enable_port fuel ops port =
     act_then (on_reset_port ops port) (\<lambda>_.
     act_then (wait_enabled fuel ops port) (\<lambda>_. enable_slot ops port))"

subsection \<open>Polling the ports\<close>

text \<open>The first port with a change, counted from 1.\<close>

definition changed_port :: "u32 list \<Rightarrow> nat option" where
  "changed_port vs = List.find (\<lambda>port. csc (vs ! (port - 1))) [1..<Suc (length vs)]"

text \<open>The futures of the devices are polled in order, and those that are ready are removed.\<close>

fun poll_devices :: "('f \<Rightarrow> 'e \<Rightarrow> 'f \<times> 'e \<times> bool) \<Rightarrow> 'f list \<Rightarrow> 'e \<Rightarrow> 'f list \<times> 'e" where
  "poll_devices pf [] e = ([], e)"
| "poll_devices pf (f # fs) e =
     (case pf f e of (f, e, ready) \<Rightarrow>
        case poll_devices pf fs e of (q, e) \<Rightarrow> (if ready then q else f # q, e))"

text \<open>The new devices that the first part of a turn adds to the list of futures.\<close>

definition poll_ports :: "nat \<Rightarrow> 'e host_ops \<Rightarrow> ('e, driver list) act" where
  "poll_ports fuel ops e =
     (case changed_port (on_ports ops e) of
        None \<Rightarrow> (e, Inr [])
      | Some port \<Rightarrow>
          let e = on_clear_csc ops port e in
          (case read_portsc ops port e of
             Inl f \<Rightarrow> (e, Inl f)
           | Inr v \<Rightarrow>
               if ccs v \<and> port_state v = Disabled then
                 (case enable_port fuel ops port e of
                    (e, Inr d) \<Rightarrow> (e, Inr [d])
                  | (e, Inl (Err _)) \<Rightarrow> (e, Inr [])
                  | (e, Inl f) \<Rightarrow> (e, Inl f))
               else (e, Inr [])))"

definition xhci_poll ::
  "nat \<Rightarrow> 'e host_ops \<Rightarrow> (driver \<Rightarrow> 'f) \<Rightarrow> ('f \<Rightarrow> 'e \<Rightarrow> 'f \<times> 'e \<times> bool) \<Rightarrow> ('f list \<times> 'e, unit) act" where
  "xhci_poll fuel ops start pf s =
     (case poll_ports fuel ops (snd s) of
        (e, Inl f) \<Rightarrow> ((fst s, e), Inl f)
      | (e, Inr ds) \<Rightarrow> (poll_devices pf (fst s @ map start ds) e, Inr ()))"

subsection \<open>Which driver handles a device\<close>

definition hid_triple :: "usb_descriptor \<Rightarrow> bool" where
  "hid_triple d = (case d of Interface e \<Rightarrow> triple e \<in> {(3, 0, 0), (3, 1, 1)} | _ \<Rightarrow> False)"

lemma pick_driver_first:
  "pick_driver ddc ds =
     (case List.find hid_triple ds of
        Some (Interface e) \<Rightarrow> Some (if triple e = (3, 0, 0) then Tablet ddc else Keyboard ddc)
      | _ \<Rightarrow> None)"
  by (induction ds) (auto simp: hid_triple_def split: usb_descriptor.splits)

text \<open>The state in which a device answers its requests.\<close>

lemma device_ready_picks:
  assumes "update_max_packet_size ops port slot inp e = (e1, Inr inp1)" "on_device_descriptor ops slot e1 = (e2, Inr d)"
    "on_config_descriptor_and_rest ops slot e2 = (e3, Inr ds)" "read_strings ops slot d e3 = (e4, Inr ())"
    "on_setup_endpoints ops port slot inp1 (endpoint_list ds) e4 = (e5, Inr (inp2, rings))"
    and "dd_class d = 0" "dd_vendor_id d \<noteq> 2965" "dd_vendor_id d \<noteq> 0x0bda"
  defines "ddc \<equiv> \<lparr>dc_port = port, dc_slot = slot, dc_input = inp2, dc_descriptors = ds, dc_ep_descs = endpoint_list ds, dc_rings = rings\<rparr>"
  shows "device_ready ops port slot inp e =
    (e5, case List.find hid_triple ds of
           Some (Interface i) \<Rightarrow> Inr (if triple i = (3, 0, 0) then Tablet ddc else Keyboard ddc)
         | _ \<Rightarrow> Inl (Err (FailedString ''Device class is not supported yet'')))"
proof -
  have "driver_context_new ops port slot inp1 ds e4 = (e5, Inr ddc)"
    using assms(5) by (simp add: driver_context_new_def Let_def act_then_def lift_res_def ddc_def)
  then have "device_ready ops port slot inp e =
      (e5, case pick_driver ddc (dc_descriptors ddc) of Some drv \<Rightarrow> Inr drv
           | None \<Rightarrow> Inl (Err (FailedString ''Device class is not supported yet'')))"
    using assms(1-4,6-8) by (simp add: device_ready_def act_then_def Let_def lift_res_def split: option.split)
  then show ?thesis by (simp add: pick_driver_first ddc_def split: option.split usb_descriptor.split)
qed

text \<open>The input context of a new device adds the slot and the control endpoint, and has the port, the speed, one valid
  endpoint and the ring of that endpoint.\<close>

lemma address_input_ok:
  assumes "0 < port" "port < 256" "max_packet_size v = Inr mps"
  shows "\<exists>inp0 inp. slot_input port = Inr inp0 \<and> address_input ops v inp0 = Inr inp \<and>
    add_context_bitmap (input_ctrl_ctx inp) = 3 \<and> drop_context_bitmap (input_ctrl_ctx inp) = 0 \<and>
    slot_ctx1 (device_ctx inp) = push_bit 16 (word_of_nat port) \<and>
    slot_ctx0 (device_ctx inp) = push_bit 27 1 OR push_bit 20 (psi (port_speed v)) \<and>
    endpoint_context_is Control mps (on_ring ops) 0 8 0 (ep_ctx (device_ctx inp) ! 0)"
proof -
  obtain ep where ep: "new_control_endpoint mps (on_ring ops) = Inr ep" "endpoint_context_is Control mps (on_ring ops) 0 8 0 ep"
    using new_control_endpoint_ok by blast
  have p: "psi (port_speed v) < 16"
    using assms(3) by (cases "port_speed v") (simp_all add: max_packet_size_def)
  have c: "slot_and_control = Inr \<lparr>drop_context_bitmap = 0, add_context_bitmap = 3\<rparr>"
    by (simp add: slot_and_control_def add_context_def input_control_default_def)
  show ?thesis
    using assms ep p
    by (simp add: slot_input_def address_input_def c on_device_ctx_def set_root_hub_port_number_def set_last_valid_dci_def
        set_port_speed_def control_context_def set_ep_ctx_def set_input_ctrl_ctx_def input_context_default_def
        device_context_default_def usize_sub_def)
qed

subsection \<open>Polling\<close>

lemma xhci_poll_idle:
  assumes "\<forall>v \<in> set (on_ports ops (snd s)). \<not> csc v"
  shows "xhci_poll fuel ops start pf s = (poll_devices pf (fst s) (snd s), Inr ())"
proof -
  have "changed_port (on_ports ops (snd s)) = None"
    using assms by (auto simp: changed_port_def find_None_iff)
  then show ?thesis by (simp add: xhci_poll_def poll_ports_def)
qed

text \<open>A device that fails to start leaves the driver running.\<close>

lemma poll_ports_failure:
  assumes "changed_port (on_ports ops e) = Some port" "enable_port fuel ops port (on_clear_csc ops port e) = (e', Inl (Err x))"
    "read_portsc ops port (on_clear_csc ops port e) = Inr v" "ccs v" "port_state v = Disabled"
  shows "poll_ports fuel ops e = (e', Inr [])"
  using assms by (simp add: poll_ports_def Let_def)

text \<open>The wait for the port ends when the port is enabled within the turns.\<close>

lemma wait_enabled_ok:
  assumes "\<forall>i \<le> n. \<exists>v. read_portsc ops port ((on_yield ops ^^ i) e) = Inr v \<and>
    (\<exists>l. port_link_state v = Inr l \<and> ((port_state v = Enabled \<and> l = 0) \<longleftrightarrow> i = n))"
  shows "n \<le> fuel \<Longrightarrow> wait_enabled fuel ops port e = ((on_yield ops ^^ n) e, Inr ())"
  using assms
proof (induction n arbitrary: e fuel)
  case 0
  then show ?case by (subst wait_enabled.simps) auto
next
  case (Suc n)
  then obtain k where k: "fuel = Suc k" "n \<le> k" by (cases fuel) auto
  have "wait_enabled k ops port (on_yield ops e) = ((on_yield ops ^^ n) (on_yield ops e), Inr ())"
  proof (rule Suc.IH [OF k(2)], intro allI impI)
    fix i assume "i \<le> n"
    with Suc.prems(2) [rule_format, of "Suc i"] show "\<exists>v. read_portsc ops port ((on_yield ops ^^ i) (on_yield ops e)) = Inr v \<and>
      (\<exists>l. port_link_state v = Inr l \<and> ((port_state v = Enabled \<and> l = 0) \<longleftrightarrow> i = n))" by (simp add: funpow_swap1)
  qed
  moreover obtain v l where "read_portsc ops port e = Inr v" "port_link_state v = Inr l" "\<not> (port_state v = Enabled \<and> l = 0)"
    using Suc.prems(2) [rule_format, of 0] by auto
  ultimately show ?case using k(1) by (subst wait_enabled.simps) (auto simp: funpow_swap1)
qed

end
