(* ===== verification/Spec2Isabelle.thy ===== *)
theory Spec2Isabelle
  imports Text_Area Mutex Syscall Boot Discovery
begin

text \<open>
  A verification library for WasabiOS, a small operating system for x86-64 in Rust: the kernel (\<open>os/\<close>), the library of
  its applications (\<open>noli/\<close>) and the types that both share (\<open>sabi/\<close>).

  \<^bold>\<open>The program.\<close>
  The firmware starts the kernel, which reads the files of the root directory, leaves the boot services, gives the free
  memory to its heap, builds a page table and an interrupt table, and finds its devices over ACPI and PCI.  From then on
  everything is cooperative: an executor polls tasks (drivers, network, shell), and a scheduler switches between
  processes, which give the processor away.  Packets go from the network card to the network manager and its TCP, UDP,
  ARP and DHCP handlers; keys go from the USB host controller through the keyboard driver to the input queue.  An
  application is an ELF file; it is loaded, relocated and entered with its arguments, and uses the kernel through
  system calls for output, drawing, input, sockets and names.

  \<^bold>\<open>How the code is represented.\<close>
  A structure is a record, an enumeration a datatype, a packed structure a record with its byte image (locale
  \<open>sliceable\<close>).  Integers are words of their width, or naturals and integers with the range written out
  where the source converts or checks.  A function that may fail returns \<open>'a res\<close>, whose left
  values tell an error from a panic, undefined behaviour and not returning; a method that also changes its object is
  an \<open>('s, 'a) act\<close>, from a state to the state after the call and a result.  The state after a failure is
  the state that the code leaves behind, not the one before the call.  A mutex that only one thread can hold at a time is left out of
  the record it protects; theory \<open>Mutex\<close> treats the lock itself.  An asynchronous function is cut at its awaits.
  Devices, the firmware, the processor's flags, the font and the tasks that run in between are parameters; a law
  that is needed of one is a named hypothesis or a locale, and each property that has one is applied to a concrete instance.

  \<^bold>\<open>The theories and what they show.\<close>

  \<^item> \<open>Prelude\<close>: results, actions, loops over lists, byte codecs, alignment; locale \<open>simulation\<close>.

  \<^item> \<open>Util\<close> (\<open>os/src/util.rs\<close>, \<open>volatile.rs\<close>, \<open>xorshift.rs\<close>): rounding, bit fields, the
  random generator.  \<open>Bit_Set\<close> (\<open>os/src/bitset.rs\<close>): locale \<open>index_set\<close>, of which the packed set is an instance.

  \<^item> \<open>Allocator\<close> (\<open>os/src/allocator.rs\<close>): the headers in memory, \<open>provide_region\<close>, \<open>alloc_with_options\<close>,
  \<open>dealloc\<close>.  Invariant, reachability, refinement of the pointer walk to first fit over a list of blocks; locale
  \<open>global_alloc\<close> is the contract of an allocator.  Properties C1 to C4.

  \<^item> \<open>Memory\<close> (\<open>os/src/memory.rs\<close>, the memory map of \<open>os/src/efi.rs\<close>, the allocator of \<open>noli/src/sys/wasabi.rs\<close>):
  ranges, pages, \<open>init_with_mmap\<close>; the bump allocator of applications is another instance of \<open>global_alloc\<close>.  C8, C9.

  \<^item> \<open>Paging\<close> (\<open>os/src/x86_64/paging.rs\<close>): four levels of tables as a store of tables,
  \<open>create_mapping\<close> and the translation of the processor; the tables form a tree, and a mapping changes exactly its range.
  It is proved over \<open>global_alloc\<close>, so it holds for the heap of the kernel.  C5.

  \<^item> \<open>Args\<close> (\<open>noli/src/args.rs\<close>), \<open>Elf\<close> (\<open>os/src/loader.rs\<close>, \<open>os/src/elf.rs\<close>), \<open>Context\<close>
  (\<open>os/src/x86_64/context.rs\<close>, \<open>os/src/x86_64/syscall.rs\<close>, \<open>syscall_5\<close>), \<open>Process\<close> (\<open>os/src/process.rs\<close>): from the
  file to the running program.  The assembly is run instruction by instruction.  C10 to C16.

  \<^item> \<open>Mutex\<close> (\<open>os/src/mutex.rs\<close>), \<open>Executor\<close> (\<open>os/src/executor.rs\<close>), \<open>Interrupts\<close> (\<open>os/src/x86_64/idt.rs\<close>,
  \<open>gdt.rs\<close>, \<open>apic.rs\<close>): interleavings of a lock, fairness of the tasks, and the way into a handler and back.  C17 to C19.

  \<^item> \<open>Syscall\<close> (\<open>os/src/syscall.rs\<close>, \<open>noli/src/sys/wasabi.rs\<close>, \<open>noli/src/net.rs\<close>): the calls of an application,
  on a state that joins the processes, the screen, the input, the network and the clock.  C20, C21, C25.

  \<^item> \<open>Acpi\<close> (\<open>os/src/acpi.rs\<close>, \<open>os/src/hpet.rs\<close>), \<open>Pci\<close> (\<open>os/src/pci.rs\<close>), \<open>Discovery\<close> (\<open>os/src/xhci/driver.rs\<close>):
  tables, timer and devices, and which driver a device gets.  C22, C23.

  \<^item> \<open>Boot\<close> (\<open>os/src/efi.rs\<close>, \<open>os/src/efi/\<close>, \<open>os/src/init.rs\<close>, \<open>boot_info.rs\<close>, \<open>cmd.rs\<close>, \<open>serial.rs\<close>): files and their
  names, the first page table, clocks, serial ports, and starting a program by name.  C7, C24.

  \<^item> \<open>Checksum\<close>, \<open>Packets\<close>, \<open>Dhcp\<close>, \<open>Dns\<close>, \<open>Tcp\<close>, \<open>Network\<close> (\<open>os/src/net/\<close>) and \<open>Rtl8139\<close>
  (\<open>os/src/rtl8139.rs\<close>): round trips of all packets, checksums that verify, the TCP state machine with a handshake and a
  transfer between two sockets, routing and configuration over the locale \<open>nic\<close>, which the driver of the
  card satisfies, and the receive ring of the card.  C27 to C34.

  \<^item> \<open>Trb\<close>, \<open>Ring\<close>, \<open>Xhci_Regs\<close>, \<open>Xhci_Ctrl\<close> (\<open>os/src/xhci/\<close>), \<open>Usb\<close> (\<open>os/src/usb/descriptor.rs\<close>)
  and \<open>Usb_Hid\<close> (\<open>os/src/usb_hid_keyboard.rs\<close>, \<open>usb_hid_tablet.rs\<close>, \<open>input.rs\<close>, \<open>sabi/src/lib.rs\<close>): the rings with their cycle
  bits against the view of the controller, commands, events, endpoints, and key reports.  C26, C35 to C39.

  \<^item> \<open>Bitmap\<close> (\<open>noli/src/bitmap.rs\<close>, \<open>rect.rs\<close>), \<open>Text_Area\<close> (\<open>noli/src/text_area.rs\<close>), \<open>Window\<close>
  (\<open>noli/src/graphics.rs\<close>, \<open>sheet.rs\<close>, \<open>window.rs\<close>): drawing as a function from points to colours (locale \<open>drawing\<close>, once for the
  routines that fail outside and once for those that clip), and a terminal that the text area implements.  C6, C40.

  This theory holds the properties, each with an application to concrete data, and further theorems of the same
  kind about single components.

  \<^bold>\<open>Loops.\<close>
  A loop over data is recursion on it.  A loop over memory or a device is a \<open>partial_function\<close> whose
  value is \<open>None\<close> if it does not end: the search of the heap, the memory maps, the exit from the boot services, the
  files, the descriptors of a device and the output of a character; for each it is proved when it ends.  The search of the heap ends
  because a well-formed list has no cycle; the memory maps end because the descriptor size is positive.  Fuel bounds
  the loops that wait for another party: blocking system calls, waiting for a future, for a port and for an application to exit.
  There running out of fuel is the value \<open>NoReturn\<close>, and the lemmas state how much fuel suffices: the number of
  turns after which the awaited event has happened.  \<open>Mutex::lock\<close> has the bound of 10000 attempts in the source.

  \<^bold>\<open>Not modelled.\<close>
  Output for people (\<open>print.rs\<close>, \<open>panic.rs\<close>, \<open>debug.rs\<close>, all \<open>fmt\<close> code); code that only wraps an instruction or copies a
  field (\<open>os/src/x86_64.rs\<close>, \<open>vram.rs\<close>); the globals behind \<open>take\<close> and \<open>set\<close>; the order of the calls in
  \<open>main.rs\<close> and \<open>init_with_boot_services\<close>; the port writes that initialise the network card; the vendor
  requests of \<open>ax88179.rs\<close>, whose packets reach no other part; the implementations of the application library for other
  systems (\<open>noli/src/sys/linux.rs\<close>, \<open>uefi.rs\<close>); the demonstrations in \<open>app/\<close>; and the tools of the development host
  (\<open>e2etest/\<close>, \<open>dbgutil/\<close>, \<open>font/\<close>, \<open>scripts/\<close>, \<open>practice/\<close>).  The memory model is sequentially consistent, and
  reference counts and the freeing of objects by the compiler are not followed.
\<close>


section \<open>Concrete states for the examples\<close>

definition demo_heap :: allocator where
  "demo_heap = \<lparr>first_header = Some 4096,
     amem = [4096 \<mapsto> \<lparr>next_header = None, hsize = 16384, is_allocated = False, reserved = 0\<rparr>]\<rparr>"

definition demo_layout :: layout where
  "demo_layout = \<lparr>l_size = 100, l_align = 64\<rparr>"

lemma demo_added: "add_free_from_descriptor allocator_new 4096 4 = Inr demo_heap"
  by (simp add: add_free_from_descriptor_def allocator_new_def new_from_addr_def demo_heap_def)

lemma demo_reachable: "heap_reachable demo_heap"
proof (rule reach_step [OF reach_new], rule step_add [OF _ _ _ _ demo_added])
  fix bs b assume "heap_blocks allocator_new bs" "b \<in> set bs"
  then show "span b \<inter> {4096..<4096 + 4 * 4096} = {}"
    by (cases bs) (auto simp: heap_blocks_def allocator_new_def)
qed simp_all

lemma demo_layout_valid: "valid_layout demo_layout"
  unfolding valid_layout_def demo_layout_def by (auto intro: image_eqI [of _ _ 6])

lemma demo_blocks: "chain (amem demo_heap) (first_header demo_heap) [(4096, 16384, False)]"
    "blocks_ok [(4096, 16384, False)]"
  by (simp_all add: demo_heap_def blocks_ok_def block_ok_def)

lemma demo_live: "live demo_heap = {}"
  using live_eq [of demo_heap "[(4096, 16384, False)]"] demo_blocks by (simp add: heap_blocks_def)

lemma demo_first_fit: "first_fit [(4096, 16384, False)] demo_layout =
    ([(4096, 16224, False), (20320, 160, True)], 20352)"
  by (simp add: demo_layout_def fit_def carve_def Let_def bit_length.simps align_down_def)

lemma demo_alloc_loop:
  "\<exists>m. alloc_loop (amem demo_heap) (first_header demo_heap) (l_size demo_layout) (l_align demo_layout) =
      Some (Inr (m, 20352)) \<and>
    chain m (first_header demo_heap) [(4096, 16224, False), (20320, 160, True)]"
  using alloc_loop_refines_first_fit [OF demo_blocks demo_layout_valid, unfolded demo_first_fit fst_conv snd_conv]
  by blast

lemma demo_alloc: "\<exists>A'. alloc_with_options demo_heap demo_layout = Inr (A', 20352)"
  using demo_alloc_loop by (auto simp: alloc_with_options_def)

text \<open>Two allocations from the demonstration heap, both of which succeed.\<close>

lemma demo_two: "\<exists>A r r'. heap_reachable A \<and> r \<in> live A \<and> r' \<in> live A \<and> r \<noteq> r'"
proof -
  have d: "first_header demo_heap = Some 4096" "l_size demo_layout = 100" "l_align demo_layout = 64"
    by (simp_all add: demo_heap_def demo_layout_def)
  obtain m where m: "alloc_loop (amem demo_heap) (Some 4096) 100 64 = Some (Inr (m, 20352))"
    "chain m (Some 4096) [(4096, 16224, False), (20320, 160, True)]"
    using demo_alloc_loop unfolding d by blast
  let ?A = "\<lparr>first_header = Some 4096, amem = m\<rparr>" and ?bs = "[(4096, 16224, False), (20320, 160, True)]"
  have A: "alloc_with_options demo_heap demo_layout = Inr (?A, 20352)"
    using m(1) unfolding alloc_with_options_def d by simp (simp add: demo_heap_def)
  have ok: "blocks_ok ?bs" by (simp add: blocks_ok_def block_ok_def span_def)
  have ff: "first_fit ?bs demo_layout =
      ([(4096, 16032, False), (20128, 160, True), (20288, 32, False), (20320, 160, True)], 20160)"
    by (simp add: demo_layout_def fit_def carve_def Let_def bit_length.simps align_down_def)
  obtain m' where m': "alloc_loop m (Some 4096) 100 64 = Some (Inr (m', 20160))"
    "chain m' (Some 4096) [(4096, 16032, False), (20128, 160, True), (20288, 32, False), (20320, 160, True)]"
    using alloc_loop_refines_first_fit [OF m(2) ok demo_layout_valid, unfolded ff fst_conv snd_conv d] by blast
  let ?B = "\<lparr>first_header = Some 4096, amem = m'\<rparr>"
  have B: "alloc_with_options ?A demo_layout = Inr (?B, 20160)"
    using m'(1) by (simp add: alloc_with_options_def demo_layout_def)
  have "heap_reachable ?B"
    using demo_reachable A B demo_layout_valid by (blast intro: reach_step step_alloc)
  moreover have "heap_blocks ?B [(4096, 16032, False), (20128, 160, True), (20288, 32, False), (20320, 160, True)]"
    using m'(2) by (simp add: heap_blocks_def blocks_ok_def block_ok_def span_def)
  then have "(20160, 128) \<in> live ?B" "(20352, 128) \<in> live ?B" by (simp_all add: live_eq)
  moreover have "(20160 :: nat, 128 :: nat) \<noteq> (20352, 128)" by simp
  ultimately show ?thesis by blast
qed

text \<open>A fresh page table whose root is the only table.\<close>

lemma demo_page_table: "\<exists>vm root. heap_inv (vm_alloc vm) \<and> pt_wf heap_used vm root"
proof -
  define heap where "heap = \<lparr>first_header = Some 4096,
    amem = [4096 \<mapsto> \<lparr>next_header = None, hsize = 1048576, is_allocated = False, reserved = 0\<rparr>]\<rparr>"
  have hb: "chain (amem heap) (first_header heap) [(4096, 1048576, False)]" "blocks_ok [(4096, 1048576, False)]"
    by (simp_all add: heap_def blocks_ok_def block_ok_def)
  let ?vm = "\<lparr>vm_alloc = heap, vm_tables = Map.empty\<rparr>"
  have inv: "heap_inv (vm_alloc ?vm)" using hb by (auto simp: heap_inv_def heap_blocks_def simp del: chain.simps)
  have "snd (first_fit [(4096, 1048576, False)] table_layout) \<noteq> 0"
    by (simp add: table_layout_def fit_def carve_def Let_def bit_length.simps align_down_def)
  then obtain A p where "alloc_with_options heap table_layout = Inr (A, p)" "p \<noteq> 0"
    using alloc_loop_refines_first_fit [OF hb table_layout_valid] by (auto simp: alloc_with_options_def)
  then have "\<exists>vm' root. pml4_new alloc_with_options ?vm = Inr (vm', root)"
    by (simp add: pml4_new_def)
  then show ?thesis using pt_wf_new [OF inv] by auto
qed


definition demo_mmap :: memory_map_holder where
  "demo_mmap = \<lparr>memory_map_buffer = le_bytes 8 7 @ le_bytes 8 4096 @ le_bytes 8 0 @ le_bytes 8 4 @ le_bytes 8 0,
     memory_map_size = 40, map_key = 0, descriptor_size = 48, descriptor_version = 1\<rparr>"


definition demo_sender :: tcp_socket where
  "demo_sender = (client_socket 0x0A00020F 49152 0x0A000202 80)\<lparr>sk_state := Established, tx_data := [104, 105]\<rparr>"


definition demo_card :: rtl8139 where
  "demo_card = \<lparr>rtl_io_base = 0xC000, rtl_eth_addr = 0x525400000001, rtl_rx = rx_context_new, rtl_tx = tx_context_new\<rparr>"

definition demo_ip :: ip_packet where
  "demo_ip = ip_new eth_default 0x0A000202 0 proto_udp 0"

definition demo_net :: "rtl8139 network" where
  "demo_net = network_take_new\<lparr>interfaces := [0], devices := [0 \<mapsto> demo_card], net_self_ip := Some 0x0A00020F,
     net_netmask := Some 0xFFFFFF00, ip_tx_queue := [ip_bytes demo_ip],
     arp_table := [0x0A000202 \<mapsto> (0x525400123456, 0)]\<rparr>"

definition demo_reply :: dhcp_packet where
  "demo_reply = dhcp_default\<lparr>dhcp_op := DHCP_OP_BOOTREPLY, dhcp_yiaddr := 0x0A00020F\<rparr>"

lemma demo_net_card: "devices demo_net 0 = Some demo_card"
  by (simp add: demo_net_def)





definition demo_completion :: generic_trb where
  "demo_completion = set_cycle_state ((set_trb_type trb_default CommandCompletionEvent)\<lparr>trb_data := 4096\<rparr>) True"

lemma demo_completion_cycle: "cycle_state demo_completion" "trb_data demo_completion = 4096"
    "\<not> cycle_state trb_default"
  by (simp_all add: demo_completion_def trb_link_clear)


lemma demo_event_last:
  "drop 15 ((replicate 16 trb_default)[15 := demo_completion]) = [demo_completion]"
  "takeWhile (\<lambda>t. \<not> cycle_state t) ((replicate 16 trb_default)[15 := demo_completion]) = replicate 15 trb_default"
  "take 3 (demo_completion # replicate 15 trb_default) = [demo_completion, trb_default, trb_default]"
  "drop 3 (demo_completion # replicate 15 trb_default) = replicate 13 trb_default"
  by (simp_all add: demo_completion_cycle numeral_eq_Suc)

definition demo_bitmap :: bitmap where
  "demo_bitmap = \<lparr>bm_width = 16, bm_height = 48, pixels_per_line = 16, bm_pixels = replicate 768 0\<rparr>"

lemma demo_text_area:
  assumes "text_area_new demo_bitmap 0 0 16 48 = Inr t" "print_string_with_color font s fg bg t = (t', Inr ())"
  shows "ta_x t' = 0 \<and> ta_y t' = 0 \<and> ta_cols t' = 2 \<and> ta_rows t' = 3"
proof -
  have b: "bm_ok demo_bitmap" "inside demo_bitmap (0, 0)" "inside demo_bitmap (0 + 16 - 1, 0 + 48 - 1)"
    by (simp_all add: demo_bitmap_def bm_ok_def inside_def)
  have t: "ta_x t = 0" "ta_y t = 0" "ta_w t = 16" "ta_h t = 48" "ta_sim font t t blank_terminal"
    using text_area_new_ok [OF b(1) _ _ b(2,3), of font] assms(1)
    by (auto simp: text_area_new_def clear_screen_def on_buf_def split: prod.splits sum.splits fault.splits)
  with print_string_sim [OF t(5), of s fg bg] assms(2) show ?thesis
    by (auto simp: ta_sim_def ta_same_def ta_cols_def ta_rows_def)
qed

text \<open>A firmware with a root directory of one directory and one file; its state counts the entries that were read.\<close>

definition demo_info :: "u64 \<Rightarrow> bytes \<Rightarrow> bytes" where
  "demo_info attr name = le_word (144 :: u64) @ le_word (3 :: u64) @ le_word (3 :: u64) @ replicate 48 0 @ le_word attr @ name"

definition demo_firmware :: "nat firmware" where
  "demo_firmware = \<lparr>fw_allocate_pages = (\<lambda>n s. (s, 0, 0x100000)), fw_get_memory_map = (\<lambda>m s. (s, 0, m)),
     fw_exit_boot_services = (\<lambda>k s. (s, 0)), fw_open = (\<lambda>h n s. (s, 0, 2)),
     fw_read = (\<lambda>h n s. if h = 2 then (s, 0, [1, 2, 3])
       else (Suc s, 0, if s = 0 then demo_info 0x10 [97, 0] else if s = 1 then demo_info 0 [98, 0] else []))\<rparr>"

definition demo_entries :: "(efi_file_info \<times> bytes) list" where
  "demo_entries = [(file_info_of (demo_info 0x10 [97, 0] @ replicate 62 0), []),
     (file_info_of (demo_info 0 [98, 0] @ replicate 62 0), [1, 2, 3])]"

lemma demo_image: "length (demo_info a [b, 0]) = 82" "demo_info a n \<noteq> []"
  by (simp_all add: demo_info_def)

lemma demo_file:
  "is_dir (file_info_of (demo_info 0x10 [97, 0] @ replicate 62 0))" "\<not> is_dir (file_info_of (demo_info 0 [98, 0] @ replicate 62 0))"
  "info_size_of_file (file_info_of (demo_info 0 [98, 0] @ replicate 62 0)) = 3"
  "info_file_name (file_info_of (demo_info 0 [98, 0] @ replicate 62 0)) = 98 # replicate 31 0"
  by code_simp+

lemma demo_serves: "serves demo_firmware 1 0 demo_entries"
  by (simp add: demo_entries_def demo_firmware_def demo_file read_file_info_def file_read_def status_of_def act_then_def
      lift_res_def demo_image EFI_FILE_INFO_SIZE_def alloc_byte_slice_def efi_alloc_pages_def into_result_def file_open_def
      read_into_slice_def size_in_pages_from_bytes_def PAGE_SIZE_def PAGE_OFFSET_BITS_def)

lemma demo_files: "files_of demo_entries = [\<lparr>file_name = 98 # replicate 31 0, file_data = [1, 2, 3]\<rparr>]"
  by (simp add: demo_entries_def demo_file)

text \<open>A processor whose flags are never changed, and a machine with every register and all memory at zero but the stack pointer.\<close>

definition demo_hw :: hardware where
  "demo_hw = \<lparr>hw_ss = 0x10, hw_alu = (\<lambda>f. f), hw_pushf = (\<lambda>f. f), hw_popf = (\<lambda>f. f)\<rparr>"

definition demo_machine :: machine where
  "demo_machine = \<lparr>regs = (\<lambda>_. 0)(RSP := 0x30008), rip = 0, rflags = 2, fpu = replicate 512 0, segs = 0, mem = (\<lambda>_. 0)\<rparr>"




definition demo_kernel :: kernel where
  "demo_kernel = \<lparr>k_vm = \<lparr>vm_alloc = demo_heap, vm_tables = Map.empty\<rparr>, k_cells = replicate 2 \<lparr>exited = False, exit_code = 0\<rparr>,
     k_queue = map (\<lambda>i. \<lparr>args_region = None, stack_region = None, p_context = context_default, p_cell = i,
       tcp_sockets = Map.empty, next_tcp_socket_handle = 0\<rparr>) [0, 1],
     k_current = None, k_app = context_default, k_boxes = Map.empty\<rparr>"

lemma demo_sched: "sched_ok demo_kernel" "threads (demo_kernel, context_default) = [(0, context_default), (1, context_default)]"
  by (simp_all add: sched_ok_def demo_kernel_def threads_def nth_Cons')

lemma demo_zero_context: "context_image context_default = replicate 656 0"
proof -
  have "le_word (0 :: u64) = replicate 8 0" by code_simp
  then show ?thesis
    by (simp add: context_image_def context_default_def cpu_default_def cpu_words_def flip: replicate_add)
qed

definition demo_step :: "nat \<Rightarrow> execution_context \<Rightarrow> execution_context" where
  "demo_step i c = c\<lparr>ctx_cpu := (ctx_cpu c)\<lparr>c_rax := c_rax (ctx_cpu c) + word_of_nat i + 1\<rparr>\<rparr>"

definition demo_os :: "rtl8139 os" where
  "demo_os = \<lparr>os_kernel = demo_kernel\<lparr>k_current := Some ((hd (k_queue demo_kernel))\<lparr>tcp_sockets := [0 \<mapsto> 49152]\<rparr>)\<rparr>,
     os_vram = \<lparr>bm_width = 1, bm_height = 1, pixels_per_line = 1, bm_pixels = [0]\<rparr>,
     os_input = \<lparr>input_queue = [], cursor_queue = []\<rparr>,
     os_net = demo_net\<lparr>tcp_socket_table := [49152 \<mapsto> demo_sender\<lparr>rx_data := [104, 101, 108]\<rparr>], net_dns := Some 0x08080808\<rparr>,
     os_pending = Map.empty, os_next_id = 1, os_counter = 0, os_freq = 1000000, os_mem = (\<lambda>a. if a = 0x6000 then 97 else 0),
     os_out = [], os_context = context_default\<rparr>"

lemma demo_query: "\<exists>packet. query_dns_send (Some 0x08080808) Map.empty 1 [97] = Inr ([1 \<mapsto> None], 2, packet)"
proof -
  have t: "str_trim [97] = [97]" by code_simp
  have "\<exists>q. create_dns_query_packet [97] = Inr q \<and> length q = 451"
    by (simp add: create_dns_query_packet_def t encode_label_def resize_def dns.length_as_slice)
  moreover have "\<exists>p. dns_fill_headers 0x08080808 1 q = Inr p" if "length q = 451" for q
    using that by (simp add: dns_fill_headers_def Let_def update_slice_def udp_set_data_size_def)
  ultimately show ?thesis by (force simp: query_dns_send_def)
qed










text \<open>
  \<open>ContiguousPhysicalMemoryPages::alloc_pages\<close> returns for every number of pages that fits the layout; a non-null
  result is page aligned, has the requested size, overlaps nothing that was in use, and is in use afterwards.
\<close>

theorem pages_aligned_and_fresh:
  assumes "heap_inv A" "PAGE_SIZE * n \<le> 2 ^ 63 - PAGE_SIZE"
  shows "\<exists>A' pg. pages_alloc_pages ram A n = Inr (A', pg) \<and> heap_inv A' \<and> pages_ok pg \<and>
    l_size (pg_layout pg) = PAGE_SIZE * n \<and>
    (pg_addr pg \<noteq> 0 \<longrightarrow> PAGE_SIZE dvd pg_addr pg \<and>
       area (pg_addr pg, PAGE_SIZE * n) \<inter> heap_used A = {} \<and>
       area (pg_addr pg, PAGE_SIZE * n) \<subseteq> heap_used A')"
  using pages_alloc_pages_correct [OF assms] by blast

text \<open>
  From a memory map whose conventional regions are page aligned, non-empty and disjoint, \<open>init_with_mmap\<close> returns a
  well-formed heap whose blocks are exactly those regions, all free, the last region first.
\<close>

theorem mmap_init_heap:
  assumes "mmap_lists mm 0 ds" "memory_map_ok ds"
  shows "\<exists>A. init_with_mmap allocator_new mm = Inr A \<and> heap_inv A \<and> live A = {} \<and>
    heap_blocks A (rev (map (\<lambda>d. (physical_start d, number_of_pages d * 4096, False))
      (filter (\<lambda>d. memory_type d = CONVENTIONAL_MEMORY) ds)))"
proof -
  obtain A where A: "init_with_mmap allocator_new mm = Inr A" "heap_blocks A (rev (map descriptor_block (usable ds)))"
    using init_with_mmap_blocks [OF assms] by blast
  have "live A = {}" unfolding live_eq [OF A(2)] by (auto simp: descriptor_block_def)
  with A show ?thesis by (auto simp: heap_inv_def descriptor_block_def [abs_def] usable_def)
qed

text \<open>
  A client of the kernel heap that allocates any list of valid layouts gets pairwise disjoint regions, none of
  which overlaps memory that was in use.
\<close>

theorem heap_sequence_disjoint:
  assumes "heap_inv A" "\<forall>l \<in> set ls. valid_layout l"
  shows "\<exists>A' rs. alloc_list alloc_with_options A ls = Inr (A', rs) \<and> heap_inv A' \<and> length rs = length ls \<and>
    (\<forall>r \<in> set rs. fst r \<noteq> 0 \<longrightarrow> area r \<inter> heap_used A = {}) \<and>
    sorted_wrt (\<lambda>r r'. fst r \<noteq> 0 \<longrightarrow> fst r' \<noteq> 0 \<longrightarrow> area r \<inter> area r' = {}) rs"
  using first_fit.alloc_list_ok [of A ls] assms by blast

text \<open>
  The argument block that the loader serialises is decoded by the application to the same list of arguments.
\<close>

theorem args_roundtrip:
  assumes "length (serialize_args args) < USIZE" "list_all utf8_valid args"
  shows "deserialize_args (serialize_args args) = Inr args"
  by (rule deserialize_serialize [OF assms])

text \<open>
  The error branches of \<open>poll_tx\<close> are dead: on every reachable socket with at most 65495 queued bytes it
  succeeds.
\<close>

theorem tcp_poll_tx_never_fails:
  assumes "tcp_reachable s" "length (tx_data s) \<le> 65495"
  shows "\<exists>s' out. tcp_poll_tx s = (s', Inr out)"
  by (rule poll_tx_populated [OF tcp_reachable_inv [OF assms(1)] assms(2)])

text \<open>
  \<open>gen_tcp_packet\<close> returns for every payload that fits an IPv4 packet.  The bytes decode to a header with the
  requested ports, sequence numbers and flags and to the payload, and the sum over the segment and the pseudo
  header is what a receiver expects.
\<close>

theorem tcp_packet_generated:
  assumes "length payload \<le> 65495"
  shows "\<exists>bs p. gen_tcp_packet to_ip to_port from_ip from_port seq ack syn fin payload = Inr bs \<and>
    from_slice 54 tcp_of bs = Inr p \<and> tcp_payload bs p = Inr payload \<and> segment_intact bs \<and>
    tcp_src_port p = from_port \<and> tcp_dst_port p = to_port \<and> tcp_seq_num p = seq \<and>
    is_syn p = syn \<and> is_fin p = fin \<and> is_ack p = (ack \<noteq> None) \<and> ip_src (tcp_ip p) = from_ip \<and> ip_dst (tcp_ip p) = to_ip"
proof -
  let ?h = "sent_tcp to_ip to_port from_ip from_port seq ack syn fin (length payload)"
  obtain c pad where bs: "gen_tcp_packet to_ip to_port from_ip from_port seq ack syn fin payload =
      Inr (tcp_bytes (?h\<lparr>tcp_csum := c\<rparr>) @ payload @ pad)"
    "segment_intact (tcp_bytes (?h\<lparr>tcp_csum := c\<rparr>) @ payload @ pad)"
    using gen_tcp_packet_ok [OF assms] by blast
  have "tcp_payload (tcp_bytes (?h\<lparr>tcp_csum := c\<rparr>) @ payload @ pad) (?h\<lparr>tcp_csum := c\<rparr>) = Inr payload"
    by (rule tcp_payload_append) (use assms in \<open>simp_all add: sent_tcp_fields sent_tcp_total_size\<close>)
  with bs show ?thesis by (auto simp: tcp.from_as_slice sent_tcp_fields)
qed

text \<open>
  A queued packet whose next hop is unknown leaves the queue, and every network card that exists sends one ARP
  request for the destination.
\<close>

theorem unrouted_packet_asks:
  assumes "ip_tx_queue net = org # rest" "34 \<le> length org" "net_self_ip net = Some src" "net_netmask net = Some msk"
    and "next_hop_info net src msk (ip_dst (ip_of org)) = None" "distinct (interfaces net)"
  shows "\<exists>devs. process_tx rtl_ops net = (net\<lparr>ip_tx_queue := rest, devices := devs\<rparr>, Inr ()) \<and>
    (\<forall>i d. devices net i = Some d \<longrightarrow>
      (\<exists>d'. devs i = Some d' \<and> tx_pending (rtl_tx d') = tx_pending (rtl_tx d) @
        (if i \<in> set (interfaces net) then [arp_bytes (arp_request (rtl_eth_addr d) src (ip_dst (ip_of org)))] else [])))"
  using rtl.process_tx_unrouted [OF assms] by (fastforce simp: delivered_def rtl_outbox_def rtl_ops_def)

text \<open>
  After a network card has been registered, the next poll clears the flag and every card that exists sends one
  DHCP request, which is a broadcast of 282 bytes with the card's address, sizes that agree with the packet, and
  a valid IPv4 header checksum.
\<close>

theorem new_interfaces_probed:
  assumes "interface_has_added net" "distinct (interfaces net)"
  shows "\<exists>devs. probe_interfaces rtl_ops net = (net\<lparr>interface_has_added := False, devices := devs\<rparr>, Inr ()) \<and>
    (\<forall>i d. i \<in> set (interfaces net) \<longrightarrow> devices net i = Some d \<longrightarrow>
      (\<exists>d' p. devs i = Some d' \<and> tx_pending (rtl_tx d') = tx_pending (rtl_tx d) @ [dhcp_bytes p] \<and>
        length (dhcp_bytes p) = 282 \<and> dhcp_chaddr p = rtl_eth_addr d \<and>
        eth_dst (ip_eth (udp_ip (dhcp_udp p))) = eth_broardcast \<and>
        total_size (udp_ip (dhcp_udp p)) = 282 - 14 \<and> unat (udp_data_size (dhcp_udp p)) = 282 - 34 \<and>
        calc (ip_header_bytes (udp_ip (dhcp_udp p))) = Inr 0))"
proof -
  obtain devs req where p: "probe_interfaces rtl_ops net = (net\<lparr>interface_has_added := False, devices := devs\<rparr>, Inr ())"
    and req: "\<And>own. dhcp_request own = Inr (req own)"
    and del: "delivered rtl_ops rtl_outbox (\<lambda>own. dhcp_bytes (req own)) (set (interfaces net)) (devices net) devs"
    using rtl.probe_asks [OF assms] by blast
  have ok: "length (dhcp_bytes (req own)) = 282 \<and> dhcp_chaddr (req own) = own \<and>
      eth_dst (ip_eth (udp_ip (dhcp_udp (req own)))) = eth_broardcast \<and>
      total_size (udp_ip (dhcp_udp (req own))) = 282 - 14 \<and> unat (udp_data_size (dhcp_udp (req own))) = 282 - 34 \<and>
      calc (ip_header_bytes (udp_ip (dhcp_udp (req own)))) = Inr 0" for own
    using dhcp_request_ok [of own] req [of own] by auto
  have "\<exists>d' p. devs i = Some d' \<and> tx_pending (rtl_tx d') = tx_pending (rtl_tx d) @ [dhcp_bytes p] \<and>
      length (dhcp_bytes p) = 282 \<and> dhcp_chaddr p = rtl_eth_addr d \<and>
      eth_dst (ip_eth (udp_ip (dhcp_udp p))) = eth_broardcast \<and>
      total_size (udp_ip (dhcp_udp p)) = 282 - 14 \<and> unat (udp_data_size (dhcp_udp p)) = 282 - 34 \<and>
      calc (ip_header_bytes (udp_ip (dhcp_udp p))) = Inr 0"
    if i: "i \<in> set (interfaces net)" and d: "devices net i = Some d" for i d
  proof -
    obtain d' where "devs i = Some d'"
      "rtl_outbox d' = rtl_outbox d @ [dhcp_bytes (req (nic_addr rtl_ops d))]"
      using del d i unfolding delivered_def by force
    then have "devs i = Some d' \<and> tx_pending (rtl_tx d') = tx_pending (rtl_tx d) @ [dhcp_bytes (req (rtl_eth_addr d))]"
      by (simp add: rtl_outbox_def rtl_ops_def)
    with ok [of "rtl_eth_addr d"] show ?thesis by blast
  qed
  with p show ?thesis by blast
qed

text \<open>
  The DNS query that is built for a host name of at most 195 bytes parses back to that name: the question section
  that the response parser reads from it is the trimmed host name with a final dot.
\<close>

theorem dns_query_wellformed:
  assumes "list_all good_label (split_on 46 (str_trim host))" "length (str_trim host) \<le> 195"
  shows "\<exists>q. create_dns_query_packet host = Inr q \<and>
    from_slice 54 dns_of q = Inr (dns_default\<lparr>dns_flags := 0x0120, dns_num_questions := 1\<rparr>) \<and>
    (\<exists>rest. parse_questions 1 (drop 54 q) [] = Inr (rest, str_trim host @ [46]))"
  by (rule query_question [OF assms])

text \<open>
  The search for a dynamic TCP port always ends; it returns a free port from 49152 up to 65534 if there is one, and
  its error exactly when all of these ports are taken.
\<close>

theorem tcp_port_choice:
  "case pick_unused_dynamic_tcp_port net of
     Inr port \<Rightarrow> 49152 \<le> port \<and> port < 65535 \<and> tcp_socket_table net port = None
   | Inl e \<Rightarrow> e = Err (Failed ''No more available TCP port'') \<and>
       (\<forall>p. 49152 \<le> p \<and> p < 65535 \<longrightarrow> tcp_socket_table net p \<noteq> None)"
  using pick_port_free [of net] pick_port_error [of net] by (auto simp: in_port_range_def split: sum.split)

text \<open>
  The invariant of the socket table, that every registered TCP socket carries the port under which it is registered,
  is kept by a turn of the network manager (whatever the cards deliver and whether or not it fails), by opening a
  connection, by registering a socket and by the transmit task of a socket.
\<close>

theorem socket_table_keyed:
  assumes "table_keyed net"
  shows "table_keyed (fst (network_manager_step ops net)) \<and> table_keyed (fst (open_tcp_socket ip port net)) \<and>
    table_keyed (fst (register_tcp_socket sock net)) \<and> table_keyed (poll_socket_tx port net)"
  using assms keepsD [OF keyed_step assms] by (simp add: open_keyed register_keyed poll_socket_keyed)

text \<open>
  \<open>poll_tx\<close> ends and succeeds for packets that the 32-bit registers can describe: it starts the transmission of a
  prefix of the pending packets, in order and in the four slots in turn, and the rest stays pending in order.
\<close>

theorem rtl_tx_fifo:
  assumes "tx_inv tx" "\<forall>p\<in>set (tx_pending tx). length p < 2 ^ 32 \<and> ptr p < 2 ^ 32"
  shows "\<exists>n tx'. rtl_poll_tx io ptr tsd k tx =
      (tx', tx_writes io ptr (tx_next_index tx) (take n (tx_pending tx)), Inr ()) \<and>
    n \<le> length (tx_pending tx) \<and> tx_pending tx' = drop n (tx_pending tx) \<and> tx_inv tx' \<and>
    tx_next_index tx' = (tx_next_index tx + n) mod 4 \<and> tx_packet_count tx' = tx_packet_count tx + n"
  by (rule rtl_poll_tx_fifo [OF assms])

text \<open>
  A value written to a bit field of a register with \<open>write_bits\<close> is what \<open>read_bits\<close> returns for that field, and
  no bit outside the field changes.
\<close>

theorem volatile_field_roundtrip:
  fixes old :: "'a :: len word"
  assumes "write_bits old shift width v = Inr new" "shift + width \<le> LENGTH('a)"
  shows "read_bits new shift width = Inr v \<and>
    (\<forall>i. i < shift \<or> shift + width \<le> i \<longrightarrow> bit new i = bit old i)"
  using read_write_bits [OF assms] write_bits_frame [OF assms(1)] by blast

text \<open>
  \<open>round_up_to_nearest_pow2\<close> returns the least power of two that is not below its argument when there is one among
  the 64-bit integers and the argument is not zero, and its error otherwise.
\<close>

theorem round_up_pow2_least:
  assumes "v < USIZE"
  shows "if 0 < v \<and> v \<le> 2 ^ 63
    then \<exists>k. round_up_to_nearest_pow2 v = Inr (2 ^ k) \<and> v \<le> 2 ^ k \<and> (\<forall>j. v \<le> 2 ^ j \<longrightarrow> 2 ^ k \<le> (2 :: nat) ^ j)
    else round_up_to_nearest_pow2 v = Inl (Err CalcOutOfRange)"
proof (cases "0 < v \<and> v \<le> 2 ^ 63")
  case True
  then have "round_up_to_nearest_pow2 v = Inr (2 ^ bit_length (v - 1))" by (simp add: round_up_pow2_exact)
  moreover have "v \<le> 2 ^ bit_length (v - 1)" using bit_length_le_iff [of "v - 1" "bit_length (v - 1)"] by simp
  moreover have "(2 :: nat) ^ bit_length (v - 1) \<le> 2 ^ j" if "v \<le> 2 ^ j" for j
  proof -
    have "v - 1 < 2 ^ j" using that True by linarith
    then show ?thesis by (simp add: bit_length_le_iff power_increasing)
  qed
  ultimately show ?thesis using True by auto
next
  case False
  with round_up_pow2_out_of_range [of v] assms show ?thesis by auto
qed

text \<open>
  A successful \<open>to_range_in\<close> returns the offsets of the range inside the region: they are in order, inside the region,
  and differ by the size of the range.
\<close>

theorem address_range_bounds:
  assumes "to_range_in self region = Inr (a, b)"
  shows "a \<le> b \<and> b \<le> ar_end region - ar_start region \<and> ar_start region + a = ar_start self \<and>
    ar_start region + b = ar_end self"
  using to_range_in_Inr [OF assms] by auto

text \<open>
  The transfer ring never stalls. After it is made and filled, the completion of any number of
  blocks, reported in the order of the ring, is accepted without an error, and afterwards eleven blocks are
  again outstanding from the dequeue index on, as the controller sees the cycle bits.
\<close>

theorem transfer_ring_keeps_eleven:
  assumes "base < USIZE"
  shows "\<exists>t q ccs. act_then (\<lambda>_. transfer_ring_new base alloc n) (\<lambda>_. act_then fill_ring
      (\<lambda>_. for_each dequeue_trb (map (\<lambda>i. base + 16 * (i mod 15)) [0..<k]))) s = (t, Inr ()) \<and>
    dequeue_index t = k mod 15 \<and> linked (tr_prod t) q (k mod 15, ccs) \<and> length q = 11"
proof -
  obtain t where t: "act_then (\<lambda>_. transfer_ring_new base alloc n) (\<lambda>_. fill_ring) s = (t, Inr ())" "transfer_inv t"
      "dequeue_index t = 0" "ring_base (cmd_ring (tr_prod t)) = base"
    using transfer_ring_filled [OF assms] by blast
  obtain t' where "for_each dequeue_trb (map (\<lambda>i. base + 16 * (i mod 15)) [0..<k]) t = (t', Inr ())"
      "transfer_inv t'" "dequeue_index t' = k mod 15"
    using transfer_ring_runs [OF t(2,4,3)] by blast
  with t(1) transfer_inv_linked [of t'] show ?thesis by (simp add: act_then_assoc [symmetric])
qed

text \<open>
  The configuration that a device sends is parsed back. For descriptors whose length byte is the
  number of bytes they take, extra bytes included, collecting the iterator over their bytes returns, and gives the
  descriptors in order.
\<close>

theorem descriptors_roundtrip:
  assumes "\<forall>x \<in> set ds. desc_ok x"
  shows "descriptors_of (concat (map (\<lambda>(d, r). desc_bytes d @ r) ds)) = Inr (map fst ds)"
  using desc_collect_ok [OF assms, of "[]"] by (simp add: descriptors_of_def)

text \<open>
  A window that has room for its title and its button can be created and shows its colour below the title bar, and
  after any sequence of drawing calls, whatever their arguments and whether or not they fail, the title bar is what
  it was when the window was created.
\<close>

theorem window_title_bar_kept:
  assumes "22 \<le> width" "24 \<le> height" "5 + 8 * int (length name) \<le> width"
  shows "\<exists>w. window_new font name color x y width height = Inr w \<and>
    (\<forall>p. inside (sheet_bitmap (win_sheet w)) p \<longrightarrow> TITLE_BAR_HEIGHT \<le> snd p \<longrightarrow> pix (sheet_bitmap (win_sheet w)) p = color) \<and>
    (\<forall>calls. title_kept w (fold (\<lambda>call w. fst (window_run call w)) calls w))"
  using window_new_ok [OF assms] window_calls_kept by blast

text \<open>
  Flushing a sheet whose rows are all on the screen succeeds; afterwards every pixel of the screen that the sheet covers
  is the pixel of the sheet there, and every other pixel is unchanged, also when the sheet sticks out to the left or to
  the right.
\<close>

theorem sheet_flush_shows:
  assumes "bm_ok scr" "bm_ok (sheet_bitmap s)" "0 \<le> sheet_y s" "sheet_y s + sheet_height s \<le> bm_height scr"
  shows "\<exists>scr'. sheet_flush s scr = (scr', Inr ()) \<and> bm_ok scr' \<and>
    (\<forall>x y. inside scr (x, y) \<longrightarrow> pix scr' (x, y) =
       (if inside (sheet_bitmap s) (x - sheet_x s, y - sheet_y s)
        then pix (sheet_bitmap s) (x - sheet_x s, y - sheet_y s) else pix scr (x, y)))"
proof -
  obtain scr' where r: "sheet_flush s scr = (scr', Inr ())"
      "painted (clip_picture (sheet_bitmap s) (sheet_x s) (sheet_y s)) {p. inside scr p} scr scr'"
    using sheet_flush_ok [OF assms] by blast
  have "pix scr' (x, y) = (if inside (sheet_bitmap s) (x - sheet_x s, y - sheet_y s)
      then pix (sheet_bitmap s) (x - sheet_x s, y - sheet_y s) else pix scr (x, y))" if "inside scr (x, y)" for x y
    using r(2) that inside_stored [OF assms(1) that] unfolding painted_def
    by (auto simp: restrict_map_def clip_picture_def)
  with r paintedD(1) [OF r(2)] assms(1) show ?thesis by (auto simp: same_shape_cong)
qed

text \<open>
  C1: in every state that the kernel heap reaches from the empty heap by adding memory, allocating and freeing,
  \<open>alloc\<close> returns.  A non-null result is aligned as requested, lies inside the address space, overlaps no
  live region and becomes the only new live region; after a null result the live regions are unchanged.
\<close>

theorem heap_alloc_safe:
  assumes "heap_reachable A" "valid_layout l"
  shows "\<exists>A' p. alloc_with_options A l = Inr (A', p) \<and> heap_reachable A' \<and>
    (if p = 0 then live A' = live A
     else l_align l dvd p \<and> p + l_size l < USIZE \<and>
       (\<exists>c \<ge> l_size l. live A' = insert (p, c) (live A) \<and> (\<forall>r \<in> live A. area r \<inter> area (p, c) = {})))"
proof -
  obtain A' p where A': "alloc_with_options A l = Inr (A', p)" "heap_inv A'"
    "if p = 0 then live A' = live A else fresh_region A A' l p"
    using alloc_with_options_correct [OF heap_reachable_inv [OF assms(1)] assms(2)] by blast
  have "heap_reachable A'" using assms A'(1) by (blast intro: reach_step step_alloc)
  with A' fresh_region_bound [OF A'(2), of A l p] show ?thesis
    by (cases "p = 0") (auto simp: fresh_region_def)
qed

theorem heap_alloc_safe_witness:
  "\<exists>A' p. alloc_with_options demo_heap demo_layout = Inr (A', p) \<and> p = 20352 \<and> 64 dvd p \<and>
    (\<exists>c \<ge> 100. live A' = {(p, c)})"
proof -
  obtain A' where "alloc_with_options demo_heap demo_layout = Inr (A', 20352)" using demo_alloc by blast
  with heap_alloc_safe [OF demo_reachable demo_layout_valid] show ?thesis
    by (auto simp: demo_live demo_layout_def)
qed

text \<open>
  C2: the loop of \<open>alloc_with_options\<close> over the linked headers is a refinement of first fit on the list of blocks:
  on a chain of headers that describes the blocks \<open>bs\<close> it returns, its pointer is the one of \<open>first_fit\<close>, the
  headers then describe the blocks of \<open>first_fit\<close>, and no other memory is written.
\<close>

theorem heap_refines_first_fit:
  assumes "chain m p bs" "blocks_ok bs" "valid_layout l"
  shows "\<exists>m'. alloc_loop m p (l_size l) (l_align l) = Some (Inr (m', snd (first_fit bs l))) \<and>
    chain m' p (fst (first_fit bs l)) \<and> blocks_ok (fst (first_fit bs l)) \<and>
    (\<forall>x. x \<notin> \<Union> (span ` set bs) \<longrightarrow> m' x = m x)"
  using alloc_loop_refines_first_fit [OF assms] first_fit_blocks [OF assms(2,3) surjective_pairing] by blast

theorem heap_refines_first_fit_witness:
  "\<exists>m'. alloc_loop (amem demo_heap) (Some 4096) 100 64 = Some (Inr (m', 20352)) \<and>
    chain m' (Some 4096) [(4096, 16224, False), (20320, 160, True)]"
proof -
  have "first_header demo_heap = Some 4096" "l_size demo_layout = 100" "l_align demo_layout = 64"
    by (simp_all add: demo_heap_def demo_layout_def)
  then show ?thesis
    using heap_refines_first_fit [OF demo_blocks demo_layout_valid, unfolded demo_first_fit fst_conv snd_conv]
    by metis
qed

text \<open>
  C3: two different live regions of a reachable heap never overlap, and every live region lies inside the address
  space.
\<close>

theorem heap_live_regions_disjoint:
  assumes "heap_reachable A" "r \<in> live A" "r' \<in> live A" "r \<noteq> r'"
  shows "area r \<inter> area r' = {} \<and> fst r + snd r < USIZE"
proof -
  have inv: "heap_inv A" using assms(1) by (rule heap_reachable_inv)
  have "fst r + snd r < USIZE" using live_bound [OF inv, of "fst r" "snd r"] assms(2) by simp
  with live_disjoint [OF inv assms(2-4)] show ?thesis by blast
qed

theorem heap_live_regions_disjoint_witness:
  "\<exists>A r r'. heap_reachable A \<and> r \<in> live A \<and> r' \<in> live A \<and> r \<noteq> r' \<and> area r \<inter> area r' = {}"
proof -
  obtain A r r' where "heap_reachable A" "r \<in> live A" "r' \<in> live A" "r \<noteq> r'" using demo_two by blast
  with heap_live_regions_disjoint [of A r r'] show ?thesis by blast
qed

text \<open>
  C4: freeing the pointer of a live region of a reachable heap returns, and exactly that region stops being live.
\<close>

theorem heap_dealloc_exact:
  assumes "heap_reachable A" "(p, n) \<in> live A"
  shows "\<exists>A'. dealloc A p l = Inr A' \<and> heap_reachable A' \<and> live A' = live A - {(p, n)}"
proof -
  obtain A' where "dealloc A p l = Inr A'" "live A' = live A - {(p, n)}"
    using dealloc_correct [OF heap_reachable_inv [OF assms(1)] assms(2), of l] by blast
  moreover from this(1) have "heap_reachable A'" using assms by (blast intro: reach_step step_dealloc)
  ultimately show ?thesis by blast
qed

theorem heap_dealloc_exact_witness:
  "\<exists>A p n A'. heap_reachable A \<and> (p, n) \<in> live A \<and> dealloc A p demo_layout = Inr A' \<and> (p, n) \<notin> live A'"
proof -
  obtain A r where A: "heap_reachable A" "r \<in> live A" using demo_two by blast
  then have r: "(fst r, snd r) \<in> live A" by simp
  from heap_dealloc_exact [OF A(1) r, of demo_layout] obtain A' where
    "dealloc A (fst r) demo_layout = Inr A'" "live A' = live A - {(fst r, snd r)}" by blast
  with A(1) r show ?thesis by blast
qed

text \<open>
  C5: \<open>create_mapping\<close> on a well-formed page table either reports that the heap has no room for a table, or returns
  a well-formed table in which every address of the mapped range translates to its page frame (or to a fault for
  \<open>NotPresent\<close>), and every other 48-bit address translates as it did before.
\<close>

theorem mapping_then_translation:
  assumes "heap_inv (vm_alloc vm)" "pt_wf heap_used vm root"
    and "PAGE_SIZE dvd vs" "PAGE_SIZE dvd ve" "PAGE_SIZE dvd phys" "vs \<le> ve" "ve \<le> 2 ^ 48" "phys + ve < USIZE"
  shows "create_mapping alloc_with_options vm root vs ve phys attr = Inl (Panic ''allocation error'') \<or>
    (\<exists>vm'. create_mapping alloc_with_options vm root vs ve phys attr = Inr vm' \<and> heap_inv (vm_alloc vm') \<and>
      pt_wf heap_used vm' root \<and>
      (\<forall>a < 2 ^ 48. translate vm' root a =
         (if vs \<le> a \<and> a < ve then
            (if attr = NotPresent then Inl (Err PageNotFound)
             else Inr (PageMapped4K (word_of_nat (phys + a div 4096 * 4096 - vs))))
          else translate vm root a)))"
  by (rule heap_create_mapping_ok [OF assms])

theorem mapping_then_translation_witness:
  "\<exists>vm root. heap_inv (vm_alloc vm) \<and> pt_wf heap_used vm root \<and>
    (create_mapping alloc_with_options vm root 4096 12288 8192 ReadWriteUser = Inl (Panic ''allocation error'') \<or>
     (\<exists>vm'. create_mapping alloc_with_options vm root 4096 12288 8192 ReadWriteUser = Inr vm' \<and>
       translate vm' root 8200 = Inr (PageMapped4K 12288)))"
proof -
  obtain vm root where vm: "heap_inv (vm_alloc vm)" "pt_wf heap_used vm root" using demo_page_table by blast
  have "PAGE_SIZE dvd 4096" "PAGE_SIZE dvd 12288" "PAGE_SIZE dvd 8192"
    by (simp_all add: PAGE_SIZE_def PAGE_OFFSET_BITS_def)
  from mapping_then_translation [OF vm this, of ReadWriteUser] have
    "create_mapping alloc_with_options vm root 4096 12288 8192 ReadWriteUser = Inl (Panic ''allocation error'') \<or>
     (\<exists>vm'. create_mapping alloc_with_options vm root 4096 12288 8192 ReadWriteUser = Inr vm' \<and>
       translate vm' root 8200 = Inr (PageMapped4K 12288))"
    by auto
  with vm show ?thesis by blast
qed

text \<open>
  C6: a text area of at least one column and two lines inside of a bitmap refines a terminal.  A new area can be created,
  printing any string on it succeeds, the pixels of every cell are those of the cell of the terminal that the
  string produces, the cursors agree, and no pixel outside of the area has changed.
\<close>

theorem text_area_refines_terminal:
  assumes "bm_ok b" "8 \<le> w" "32 \<le> h" "inside b (x, y)" "inside b (x + w - 1, y + h - 1)"
  shows "\<exists>t t'. text_area_new b x y w h = Inr t \<and> print_string_with_color font s fg bg t = (t', Inr ()) \<and>
    ta_shows font t' (fold (term_char (w div 8) (h div 16) fg bg) s blank_terminal) \<and>
    (\<forall>p. stored b p \<longrightarrow> p \<notin> {x..x + w - 1} \<times> {y..y + h - 1} \<longrightarrow> pix (ta_buf t') p = pix b p)"
proof -
  obtain t where t: "text_area_new b x y w h = Inr t" "ta_sim font t t blank_terminal" "ta_cols t = w div 8"
      "ta_rows t = h div 16" "ta_area t = {x..x + w - 1} \<times> {y..y + h - 1}" "painted (\<lambda>_. Some 0) (ta_area t) b (ta_buf t)"
    using text_area_new_ok [OF assms] by blast
  obtain t' where t': "print_string_with_color font s fg bg t = (t', Inr ())"
      "ta_sim font t t' (fold (term_char (w div 8) (h div 16) fg bg) s blank_terminal)"
    using print_string_sim [OF t(2), of s fg bg] t(3,4) by auto
  have "pix (ta_buf t') p = pix b p" if "stored b p" "p \<notin> ta_area t" for p
  proof -
    have "stored (ta_buf t) p" using that(1) same_shape_cong(3) [OF paintedD(1) [OF t(6)]] by simp
    then show ?thesis
      using that ta_simD(3) [OF t'(2)] paintedD(2) [OF t(6) that] unfolding ta_same_def by metis
  qed
  with t t' show ?thesis by (auto simp: ta_sim_def)
qed

theorem text_area_refines_terminal_witness:
  "\<exists>t t'. text_area_new demo_bitmap 0 0 16 48 = Inr t \<and>
    print_string_with_color (\<lambda>_ _. 1) [65, 66, 67, 10, 68, 10, 69] 7 0 t = (t', Inr ()) \<and> ta_cx t' = 1 \<and> ta_cy t' = 2 \<and>
    pix (ta_buf t') (0, 0) = 7 \<and> pix (ta_buf t') (1, 0) = 0"
proof -
  have b: "bm_ok demo_bitmap" "inside demo_bitmap (0, 0)" "inside demo_bitmap (0 + 16 - 1, 0 + 48 - 1)"
    by (simp_all add: demo_bitmap_def bm_ok_def inside_def)
  let ?T = "fold (term_char (16 div 8) (48 div 16) 7 0) [65, 66, 67, 10, 68, 10, 69] blank_terminal"
  obtain t t' where t: "text_area_new demo_bitmap 0 0 16 48 = Inr t"
      "print_string_with_color (\<lambda>_ _. 1) [65, 66, 67, 10, 68, 10, 69] 7 0 t = (t', Inr ())" "ta_shows (\<lambda>_ _. 1) t' ?T"
    using text_area_refines_terminal [OF b(1) _ _ b(2,3), of "\<lambda>_ _. 1" "[65, 66, 67, 10, 68, 10, 69]" 7 0] by auto
  have T: "term_col ?T = 1" "term_row ?T = 2" "cells ?T 0 0 = Some (67, 7, 0)"
    by (simp_all add: term_char_def term_newline_def blank_terminal_def)
  have d: "ta_x t' = 0" "ta_y t' = 0" "ta_cols t' = 2" "ta_rows t' = 3" using demo_text_area [OF t(1,2)] by simp_all
  then have "pix (ta_buf t') (ta_x t' + 8 * 0 + x, ta_y t' + 16 * 0 + 0) = cell_pixel (\<lambda>_ _. 1) (cells ?T 0 0) x 0"
    if "0 \<le> x" "x < 8" for x
    using t(3) [unfolded ta_shows_def, THEN conjunct2, THEN conjunct2, rule_format, of 0 0 x 0] that d by simp
  from this [of 0] this [of 1] T d have "pix (ta_buf t') (0, 0) = 7" "pix (ta_buf t') (1, 0) = 0"
    by (simp_all add: cell_pixel_def glyph_bit_def)
  with t T show ?thesis unfolding ta_shows_def by auto
qed



text \<open>
  C8: the loop that hands the memory map to the allocator ends for every map with a positive descriptor size, whatever
  the map holds.
\<close>

theorem mmap_init_terminates:
  assumes "0 < descriptor_size mm"
  shows "\<exists>r. init_with_mmap_loop A mm ofs total_pages = Some r"
  by (rule init_with_mmap_loop_returns [OF assms])

theorem mmap_init_terminates_witness:
  "\<exists>r. init_with_mmap_loop allocator_new demo_mmap 0 0 = Some r"
  by (rule mmap_init_terminates) (simp add: demo_mmap_def)





text \<open>
  C11: a switch to another context and the switch back.  If the other side keeps the saved context and the return address, the
  first context goes on after its call with the registers, flags and floating-point state that it had, except for the two
  argument registers, and the other context is saved where it was loaded from.
\<close>

theorem context_switch_resumes:
  assumes "context_at (mem c) to x" "to mod 16 = 0" "fro mod 16 = 0" "length (fpu c) = 512" "length (fpu d) = 512"
    and "apart fro CONTEXT_SIZE to CONTEXT_SIZE" "apart to CONTEXT_SIZE fro CONTEXT_SIZE" "apart to CONTEXT_SIZE (regs c RSP) 8"
    and "unchecked_switch_context hw l fro to c = Inr c'"
    and "load_bytes (mem d) fro CONTEXT_SIZE = load_bytes (mem c') fro CONTEXT_SIZE"
    and "load64 (mem d) (regs c RSP) = load64 (mem c) (regs c RSP)"
  shows "\<exists>d'. unchecked_switch_context hw l to fro d = Inr d' \<and> returned_to hw c d' \<and>
    context_at (mem d') to (saved hw l (called to fro d))"
  by (rule switch_there_and_back [OF assms])

theorem context_switch_resumes_witness:
  "\<exists>c' d'. unchecked_switch_context demo_hw 0x1000 0x20000 0x10000 demo_machine = Inr c' \<and>
    unchecked_switch_context demo_hw 0x1000 0x10000 0x20000 c' = Inr d' \<and> returned_to demo_hw demo_machine d'"
proof -
  have z: "context_at (mem demo_machine) 0x10000 context_default"
    by (simp add: context_at_def demo_zero_context demo_machine_def load_bytes_def map_replicate_const CONTEXT_SIZE_def)
      (simp add: context_default_def)
  have a: "apart 0x20000 CONTEXT_SIZE 0x10000 CONTEXT_SIZE" "apart 0x10000 CONTEXT_SIZE 0x20000 CONTEXT_SIZE"
    "apart 0x10000 CONTEXT_SIZE (regs demo_machine RSP) 8" "apart 0x20000 CONTEXT_SIZE (regs demo_machine RSP) 8"
    by (simp_all add: apart_def CONTEXT_SIZE_def demo_machine_def)
  have f: "length (fpu demo_machine) = 512" by (simp add: demo_machine_def)
  obtain c' where c': "unchecked_switch_context demo_hw 0x1000 0x20000 0x10000 demo_machine = Inr c'"
      "mem c' = store_bytes (mem demo_machine) 0x20000 (context_image (saved demo_hw 0x1000 (called 0x20000 0x10000 demo_machine)))"
      "c' = resumed demo_hw context_default (demo_machine\<lparr>mem := mem c'\<rparr>)"
    using switch_context_ok [OF z _ _ f a(1), of demo_hw "0x1000"] by auto
  have "length (fpu c') = 512" by (subst c'(3)) (simp add: resumed_def context_default_def)
  moreover have "load64 (mem c') (regs demo_machine RSP) = load64 (mem demo_machine) (regs demo_machine RSP)"
    unfolding c'(2) load64_def using a(4) f
    by (subst load_store_apart) (simp_all add: length_context_image saved_def called_def)
  ultimately show ?thesis using context_switch_resumes [OF z _ _ f _ a(1,2,3) c'(1), of c'] c'(1) by auto
qed





text \<open>
  C14: the scheduler implements independent threads.  After \<open>r\<close> rounds over the queue every process has taken exactly \<open>r\<close>
  steps of its own program on its own context, whatever the other processes did, and the queue is in its old order.
\<close>

theorem scheduler_isolates:
  assumes "\<And>i c. prog i c = Goes_on (step i c)" "sched_ok k" "k_queue k \<noteq> []"
  shows "\<exists>s'. run_turns prog (r * length (k_queue k)) (k, cpu) = Inr s' \<and> sched_ok (fst s') \<and>
    threads s' = map (\<lambda>(i, c). (i, (step i ^^ r) c)) (threads (k, cpu))"
  by (rule rounds_isolated [OF assms])

theorem scheduler_isolates_witness:
  "\<exists>s'. run_turns (\<lambda>i c. Goes_on (demo_step i c)) 6 (demo_kernel, context_default) = Inr s' \<and>
    map (\<lambda>(i, c). (i, c_rax (ctx_cpu c))) (threads s') = [(0, 3), (1, 6)]"
proof -
  have q: "k_queue demo_kernel \<noteq> []" "length (k_queue demo_kernel) = 2" by (simp_all add: demo_kernel_def)
  have f: "(g ^^ 3) x = g (g (g x))" for g :: "execution_context \<Rightarrow> execution_context" and x by (simp add: numeral_3_eq_3)
  have z: "c_rax (ctx_cpu context_default) = 0" by (simp add: context_default_def cpu_default_def)
  from scheduler_isolates [of "\<lambda>i c. Goes_on (demo_step i c)" demo_step, OF refl demo_sched(1) q(1), of 3 context_default]
  show ?thesis by (auto simp: q demo_sched f z demo_step_def)
qed

text \<open>
  C15: a process waits for another one that exits with a code after some number of its own turns.  After finitely many turns the
  waiting process is running again, and the future that it polls is ready with that code.
\<close>

theorem exit_code_awaited:
  assumes "\<And>c. prog m c = Goes_on c" "sched_ok k" "threads (k, cpu) = (m, cpu) # ts" "(t, c) \<in> set ts" "exits_after prog n t c v"
  shows "\<exists>N k'. run_turns prog N (k, cpu) = Inr (k', cpu) \<and> sched_ok k' \<and> (\<exists>ts'. threads (k', cpu) = (m, cpu) # ts') \<and>
    completion_poll t k' cpu = Inr (k', cpu, Some v)"
  by (rule waiting_ends [OF assms])

theorem exit_code_awaited_witness:
  "\<exists>N k'. run_turns (\<lambda>i c. if i = 0 then Goes_on c else Exits 42) N (demo_kernel, context_default) = Inr (k', context_default) \<and>
    completion_poll 1 k' context_default = Inr (k', context_default, Some 42)"
  using exit_code_awaited [of "\<lambda>i c. if i = 0 then Goes_on c else Exits 42" 0 demo_kernel context_default "[(1, context_default)]"
      1 context_default 0 42] demo_sched by auto









text \<open>
  C20: \<open>TcpStream::read\<close> of an application, through the system call to the socket of the kernel.  If the connection stops
  blocking after some turns of the other tasks, the call stores the oldest received bytes, as many as there are and as fit
  into the buffer, removes exactly these from the socket, and returns their number.
\<close>

theorem stream_read_takes:
  assumes "owns s (ts_handle t) port" "good_buffer p len" "waits rx_blocked others port n s s1 k" "n \<le> fuel"
  shows "stream_read fuel others t p len s =
    (let m = min (unat len) (length (rx_data k))
     in (write_mem p (take m (rx_data k)) (put_sock port (k\<lparr>rx_data := drop m (rx_data k)\<rparr>) s1), Inr m))"
  unfolding Let_def by (rule stream_read_ok [OF assms])

theorem stream_read_takes_witness:
  "\<exists>s'. stream_read 0 (\<lambda>s. s) \<lparr>ts_addr = 0, ts_port = 80, ts_handle = 0\<rparr> 0x5000 2 demo_os = (s', Inr 2) \<and>
    load_bytes (os_mem s') 0x5000 2 = [104, 101]"
proof -
  let ?k = "demo_sender\<lparr>rx_data := [104, 101, 108]\<rparr>"
  have o: "owns demo_os (ts_handle \<lparr>ts_addr = 0, ts_port = 80, ts_handle = 0\<rparr>) 49152"
    by (simp add: owns_def demo_os_def process_tcp_socket_def)
  have w: "waits rx_blocked (\<lambda>s. s) 49152 0 demo_os demo_os ?k"
    by (simp add: demo_os_def rx_blocked_def demo_sender_def is_trying_to_connect_def is_established_def)
  have g: "good_buffer 0x5000 2" by (simp add: good_buffer_def)
  have len: "length (rx_data ?k) = 3" by simp
  have "length [104, 101 :: u8] \<le> 2 ^ 64" by simp
  from load_store_same [OF this, of "os_mem demo_os" "0x5000"]
  have "load_bytes (store_bytes (os_mem demo_os) 0x5000 [104, 101]) 0x5000 2 = [104, 101]" by (simp add: numeral_2_eq_2)
  then show ?thesis unfolding stream_read_takes [OF o g w le_refl] Let_def len
    by (simp add: write_mem_def put_sock_def)
qed

text \<open>
  C21: \<open>lookup_host\<close> of an application for a name without a fixed answer.  The query leaves through the network, the other tasks
  run, and if one of them stores an answer with an address before the timer ends, the call returns that address.
\<close>

theorem name_resolved:
  assumes "host_p \<noteq> 0" "unat len < 2 ^ 63" "result \<noteq> 0"
    and "s0 = write_mem result (replicate 16 0) s"
    and "load_bytes (os_mem s0) host_p (unat len) = host" "utf8_valid host" "\<not> special_host host"
    and "query_dns_send (net_dns (os_net s0)) (os_pending s0) (os_next_id s0) host = Inr (pend, nid, packet)"
    and "timeout_new_ms (os_counter s0) (os_freq s0) 500 = Inr t"
    and "s1 = s0\<lparr>os_pending := pend, os_next_id := nid, os_net := send_ip_packet packet (os_net s0)\<rparr>"
    and "answered others (os_next_id s0) (time_out t) n s1 (A_entry name addr # rest)" "n < fuel"
  shows "lookup_host fuel others host_p len result s = (write_mem result (be_word addr) ((others ^^ n) s1), Inr [addr])"
proof -
  have "query_dns_blocking fuel others host s0 = ((others ^^ n) s1, Inr (A_entry name addr # rest))"
    unfolding assms(10) by (rule query_dns_answer [OF assms(8,9) assms(11) [unfolded assms(10)] assms(12)])
  then show ?thesis
    unfolding assms(4) by (rule lookup_host_answer [OF assms(1-3) assms(5) [unfolded assms(4)] assms(6,7)])
qed

theorem name_resolved_witness:
  "\<exists>s'. lookup_host 2 (\<lambda>s. s\<lparr>os_pending := (os_pending s)(1 \<mapsto> Some [A_entry [97] 0x01020304])\<rparr>) 0x6000 1 0x7000 demo_os =
    (s', Inr [0x01020304])"
proof -
  let ?s0 = "write_mem 0x7000 (replicate 16 0) demo_os"
  let ?others = "\<lambda>s :: rtl8139 os. s\<lparr>os_pending := (os_pending s)(1 \<mapsto> Some [A_entry [97] 0x01020304])\<rparr>"
  have m: "load_bytes (os_mem ?s0) 0x6000 (unat 1) = [97]"
    by (simp add: load_bytes_def write_mem_def store_bytes_def demo_os_def)
  have h: "utf8_valid [97]" "\<not> special_host [97]" by (simp_all add: special_host_def ascii_def)
  obtain packet where "query_dns_send (Some 0x08080808) Map.empty 1 [97] = Inr ([1 \<mapsto> None], 2, packet)"
    using demo_query by blast
  then have q: "query_dns_send (net_dns (os_net ?s0)) (os_pending ?s0) (os_next_id ?s0) [97] = Inr ([1 \<mapsto> None], 2, packet)"
    by (simp add: write_mem_def demo_os_def)
  have t: "timeout_new_ms (os_counter ?s0) (os_freq ?s0) 500 = Inr \<lparr>time_out = 500000\<rparr>"
    by (simp add: timeout_new_ms_def write_mem_def demo_os_def)
  let ?s1 = "?s0\<lparr>os_pending := [1 \<mapsto> None], os_next_id := 2, os_net := send_ip_packet packet (os_net ?s0)\<rparr>"
  have a: "answered ?others (os_next_id ?s0) (time_out \<lparr>time_out = 500000\<rparr>) 1 ?s1 (A_entry [97] 0x01020304 # [])"
    by (auto simp: answered_def query_dns_poll_def write_mem_def demo_os_def le_Suc_eq)
  show ?thesis
    using name_resolved [of "0x6000" 1 "0x7000" ?s0 demo_os "[97]" "[1 \<mapsto> None]" 2 packet "\<lparr>time_out = 500000\<rparr>" ?s1 ?others 1 "[97]" "0x01020304" "[]" 2]
      m h q t a by auto
qed





text \<open>
  C24: \<open>load_all_root_files\<close> returns the files of the root directory, without its directories and in their order, and panics
  exactly if there are more than 32.  \<open>run_app\<close> with the name of one of them parses, loads and starts the first file of
  that name.
\<close>

theorem root_files_run:
  assumes "serves fw root st es"
  shows "(\<exists>st'. load_all_root_files fw root [] st =
      Some (st', if length (files_of es) \<le> 32 then Inr (files_of es) else Inl (Panic ''No more space left for root_files''))) \<and>
    (\<forall>before f after s. files_of es = before @ f # after \<and> efi_file_name_from_str s = Inr (file_name f) \<and>
      (\<forall>g \<in> set before. file_name g \<noteq> file_name f) \<longrightarrow>
      run_app ram pml4 entry ptr (files_of es) s args k =
        act_then (lift_res (elf_parse (file_data f))) (\<lambda>e. act_then (on_vm (elf_load ram pml4 e)) (elf_exec ram pml4 entry ptr args)) k)"
proof (intro conjI allI impI)
  show "\<exists>st'. load_all_root_files fw root [] st =
      Some (st', if length (files_of es) \<le> 32 then Inr (files_of es) else Inl (Panic ''No more space left for root_files''))"
    using load_all_root_files_ok [OF assms, of "[]"] by (auto simp: ROOT_FILES_def split: if_splits)
qed (elim conjE, rule run_app_found)

theorem root_files_run_witness:
  "(\<exists>st'. load_all_root_files demo_firmware 1 [] 0 = Some (st', Inr [\<lparr>file_name = 98 # replicate 31 0, file_data = [1, 2, 3]\<rparr>])) \<and>
    (\<forall>k. run_app (\<lambda>_. 0) 0 0 0 (files_of demo_entries) [98] [] k = act_then (lift_res (elf_parse [1, 2, 3])) (\<lambda>e.
       act_then (on_vm (elf_load (\<lambda>_. 0) 0 e)) (elf_exec (\<lambda>_. 0) 0 0 0 [])) k)"
proof -
  let ?f = "\<lparr>file_name = 98 # replicate 31 0, file_data = [1, 2, 3]\<rparr>"
  have n: "efi_file_name_from_str [98] = Inr (file_name ?f)"
    using from_str_plain [of "[98]"] by (simp add: plain_name_def)
  note t = root_files_run [OF demo_serves, unfolded demo_files]
  have d: "file_data ?f = [1, 2, 3]" by simp
  have c: "[?f] = [] @ ?f # [] \<and> efi_file_name_from_str [98] = Inr (file_name ?f) \<and> (\<forall>g \<in> set []. file_name g \<noteq> file_name ?f)"
    using n by simp
  note mp [OF conjunct2 [OF t, THEN spec, THEN spec, THEN spec, THEN spec] c, unfolded d]
  moreover have "\<exists>st'. load_all_root_files demo_firmware 1 [] 0 = Some (st', Inr [?f])" using conjunct1 [OF t] by simp
  ultimately show ?thesis unfolding demo_files by (intro conjI allI)
qed

text \<open>
  C25: a handle that \<open>create_tcp_socket\<close> returns lies between 0 and the largest \<open>i64\<close>, was not in use, names the new
  socket afterwards, and no other handle changes, whatever the value of the counter, which wraps around.
\<close>

theorem socket_handles_bounded:
  assumes "create_tcp_socket (Inr sock) p = (p', Inr h)"
  shows "0 \<le> h \<and> h \<le> I64_MAX \<and> process_tcp_socket p h = None \<and> process_tcp_socket p' h = Some sock \<and>
    (\<forall>h'. h' \<noteq> h \<longrightarrow> process_tcp_socket p' h' = process_tcp_socket p h')"
  by (rule create_tcp_socket_ok [OF assms])

theorem socket_handles_bounded_witness:
  "\<exists>p' h. create_tcp_socket (Inr 49152) (hd (k_queue demo_kernel)) = (p', Inr h) \<and> 0 \<le> h \<and> process_tcp_socket p' h = Some 49152"
proof -
  let ?p = "hd (k_queue demo_kernel)"
  have p: "tcp_sockets ?p = Map.empty" "next_tcp_socket_handle ?p = 0" by (simp_all add: demo_kernel_def)
  have "free_handle Map.empty 0 = (Some 0 :: int option)" by (subst free_handle.simps) (simp add: I64_MAX_def)
  then have "\<exists>p'. create_tcp_socket (Inr 49152) ?p = (p', Inr 0)" by (simp add: create_tcp_socket_def p)
  then show ?thesis using socket_handles_bounded [of 49152 ?p] by blast
qed



text \<open>
  C27: the three-way handshake completes.  A client socket that is opened and a listening server that exchange the
  packets they generate both reach \<open>Established\<close>, know each other's address and port, agree on both sequence
  numbers, and every packet on the way carries a valid checksum.
\<close>

theorem tcp_handshake:
  "\<exists>c1 syn s1 synack c2 ack s2.
    tcp_open (client_socket cip cport sip sport) = Inr (c1, syn) \<and>
    handle_rx (new_server sport) syn = Inr (s1, Some synack) \<and>
    handle_rx c1 synack = Inr (c2, Some ack) \<and>
    handle_rx s1 ack = Inr (s2, None) \<and>
    connected c2 s2 \<and> connected s2 c2 \<and>
    last_seq_to_ack c2 = my_next_seq s2 \<and> last_seq_to_ack s2 = my_next_seq c2 \<and>
    segment_intact syn \<and> segment_intact synack \<and> segment_intact ack"
  by (rule handshake [of cip cport sip sport]) blast



text \<open>
  C29: whatever packets arrive and whatever the applications do, a server socket is only ever in \<open>Listen\<close>,
  \<open>SynReceived\<close>, \<open>Established\<close> or \<open>LastAck\<close>, a client socket in \<open>SynSent\<close>, \<open>Established\<close>, \<open>LastAck\<close> or
  \<open>Closed\<close>, and a socket that is \<open>Established\<close> knows both addresses and both ports.
\<close>

theorem tcp_reachable_states:
  assumes "tcp_reachable s"
  shows "(if keep_listening s then sk_state s \<in> {Listen, SynReceived, Established, LastAck}
          else sk_state s \<in> {SynSent, Established, LastAck, Closed}) \<and>
    (sk_state s = Established \<longrightarrow>
       sk_self_ip s \<noteq> None \<and> sk_self_port s \<noteq> None \<and> sk_another_ip s \<noteq> None \<and> sk_another_port s \<noteq> None)"
  using tcp_reachable_inv [OF assms] by (auto simp: tcp_inv_def addressed_def split: if_splits)

theorem tcp_reachable_states_witness:
  "sk_state (new_server 80) \<in> {Listen, SynReceived, Established, LastAck}"
  using tcp_reachable_states [OF tcp_reachable.server, of 80] by (simp add: new_server_def)

text \<open>
  C30: a queued IPv4 packet with a known route leaves the queue and is pushed, once, to the network card of the route:
  the frame goes to the next hop, carries the card's and the host's addresses, a valid header checksum and the
  unchanged payload.
\<close>

theorem routed_packet_sent:
  assumes "ip_tx_queue net = org # rest" "34 \<le> length org" "net_self_ip net = Some src" "net_netmask net = Some msk"
    and "next_hop_info net src msk (ip_dst (ip_of org)) = Some (hop, i)" "devices net i = Some d"
  shows "\<exists>d' out. process_tx rtl_ops net =
      (net\<lparr>ip_tx_queue := rest, devices := (devices net)(i \<mapsto> d')\<rparr>, Inr ()) \<and>
    tx_pending (rtl_tx d') = tx_pending (rtl_tx d) @ [out] \<and>
    drop 34 out = drop 34 org \<and> length out = length org \<and>
    ip_eth (ip_of out) = eth_new hop (rtl_eth_addr d) ethertype_ip_v4 \<and> ip_src (ip_of out) = src \<and>
    ip_dst (ip_of out) = ip_dst (ip_of org) \<and> calc (take 20 (drop 14 out)) = Inr 0"
  using rtl.process_tx_routed [OF assms] by (auto simp: rtl_outbox_def rtl_ops_def)

theorem routed_packet_sent_witness:
  "\<exists>d' out. process_tx rtl_ops demo_net = (demo_net\<lparr>ip_tx_queue := [], devices := [0 \<mapsto> d']\<rparr>, Inr ()) \<and>
    tx_pending (rtl_tx d') = [out] \<and> ip_src (ip_of out) = 0x0A00020F \<and> calc (take 20 (drop 14 out)) = Inr 0"
proof -
  have "next_hop_info demo_net 0x0A00020F 0xFFFFFF00 (ip_dst (ip_of (ip_bytes demo_ip))) = Some (0x525400123456, 0)"
    using ip.of_bytes_as_slice [of demo_ip "[]"]
    by (simp add: demo_net_def next_hop_info_def network_prefix_def demo_ip_def ip_new_def set_data_length_def)
  from routed_packet_sent [OF _ _ _ _ this, of "[]" demo_card] show ?thesis
    by (auto simp: demo_net_def demo_card_def ip.length_as_slice tx_context_new_def)
qed

text \<open>
  C31: a DHCP reply whose options are message type, netmask, router and DNS server configures the host: the address,
  netmask and router are those of the reply, the card sends one ARP request for the router and one for the DNS
  server, and the DNS server is set to 8.8.8.8 whatever the option holds.
\<close>

theorem dhcp_reply_configures:
  assumes "is_boot_reply p" "devices net i = Some d"
  shows "\<exists>d'. handle_rx_dhcp_client rtl_ops (dhcp_bytes p @ concat (map encode_option
        [(DHCP_OPT_MESSAGE_TYPE, [t]), (DHCP_OPT_NETMASK, be_word m), (DHCP_OPT_ROUTER, be_word r),
         (DHCP_OPT_DNS, be_word s)]) @ DHCP_OPT_MESSAGE_TYPE_END # junk) i net =
      (net\<lparr>net_self_ip := Some (dhcp_yiaddr p), net_netmask := Some m, net_router := Some r,
           net_dns := Some (ip_addr_new 8 8 8 8), devices := (devices net)(i \<mapsto> d')\<rparr>, Inr ()) \<and>
    tx_pending (rtl_tx d') = tx_pending (rtl_tx d) @
      [arp_bytes (arp_request (rtl_eth_addr d) (dhcp_yiaddr p) r),
       arp_bytes (arp_request (rtl_eth_addr d) (dhcp_yiaddr p) s)]"
  using rtl.dhcp_configures [where t = t and m = m and r = r and s = s and junk = junk, OF assms refl]
  unfolding rtl_outbox_def by (simp add: rtl_ops_def)

theorem dhcp_reply_configures_witness:
  "\<exists>d'. handle_rx_dhcp_client rtl_ops (dhcp_bytes demo_reply @ concat (map encode_option
        [(DHCP_OPT_MESSAGE_TYPE, [2]), (DHCP_OPT_NETMASK, be_word (0xFFFFFF00 :: ip_addr)), (DHCP_OPT_ROUTER, be_word (0x0A000202 :: ip_addr)),
         (DHCP_OPT_DNS, be_word (0x0A000203 :: ip_addr))]) @ DHCP_OPT_MESSAGE_TYPE_END # [0, 0]) 0 demo_net =
      (demo_net\<lparr>net_self_ip := Some 0x0A00020F, net_netmask := Some 0xFFFFFF00, net_router := Some 0x0A000202,
           net_dns := Some (ip_addr_new 8 8 8 8), devices := (devices demo_net)(0 \<mapsto> d')\<rparr>, Inr ())"
proof -
  have reply: "is_boot_reply demo_reply" "dhcp_yiaddr demo_reply = 0x0A00020F"
    by (simp_all add: demo_reply_def is_boot_reply_def)
  from dhcp_reply_configures [OF reply(1) demo_net_card, where t = 2 and m = "0xFFFFFF00" and r = "0x0A000202" and
      s = "0x0A000203" and junk = "[0, 0]"]
  show ?thesis unfolding reply(2) by blast
qed

text \<open>
  C32: a response to a pending query that holds one question and any number of address records stores exactly these
  addresses, each with the name of the question, under the transaction and changes nothing else.
\<close>

theorem dns_response_parsed:
  assumes "dns_num_questions hdr = 1" "unat (dns_num_answers hdr) = length answers"
    "list_all good_label labels" "length qtype = 4" "list_all (\<lambda>(h, a). length h = 12) answers"
    "pend (dns_transaction_id hdr) \<noteq> None"
  shows "parse_dns_response pend (response_bytes hdr labels qtype answers rest) =
    Inr (pend(dns_transaction_id hdr \<mapsto>
      Some (map (\<lambda>(h, a). A_entry (concat (map (\<lambda>l. l @ [46]) labels)) a) answers)))"
  using assms by (rule parse_response)

theorem dns_response_parsed_witness:
  "parse_dns_response [7 \<mapsto> None] (response_bytes (dns_default\<lparr>dns_transaction_id := 7, dns_num_questions := 1,
      dns_num_answers := 1\<rparr>) [[97], [105, 111]] [0, 1, 0, 1] [(replicate 12 0, 0x01020304)] []) =
    Inr [7 \<mapsto> Some [A_entry [97, 46, 105, 111, 46] 0x01020304]]"
proof -
  have "list_all good_label [[97], [105, 111]]" by (simp add: good_label_def)
  then show ?thesis
    using dns_response_parsed [of "dns_default\<lparr>dns_transaction_id := 7, dns_num_questions := 1, dns_num_answers := 1\<rparr>"
      "[(replicate 12 0, 0x01020304)]" "[[97], [105, 111]]" "[0, 1, 0, 1]" "[7 \<mapsto> None]" "[]"]
    by simp
qed

text \<open>
  C33: frames that the network card stored one after the other in the zeroed receive ring, up to the end of the ring, are
  delivered complete and in order by one call of \<open>poll_rx\<close>, and the ring is zeroed again.
\<close>

theorem rtl_rx_in_order:
  assumes "rx_buf rx = rx_zeroed (rx_next_index rx) es" "rx_next_index rx < 8192"
    "rx_next_index rx + length (concat (map rx_entry es)) \<le> 8192" "\<forall>e\<in>set es. fst e \<noteq> 0"
  shows "\<exists>rx' ws. rtl_poll_rx io rx = Inr (rx', ws) \<and>
    rx_pending rx' = rx_pending rx @ map snd es \<and> rx_buf rx' = replicate RTL8139_RXBUF_SIZE 0 \<and>
    rx_next_index rx' = (rx_next_index rx + length (concat (map rx_entry es))) mod 8192"
  using rtl_poll_rx_delivers [OF assms] by blast

theorem rtl_rx_in_order_witness:
  "\<exists>rx' ws. rtl_poll_rx 0xC000 (rx_context_new\<lparr>rx_buf := rx_zeroed 0 [(1, [10, 20, 30, 40, 50]), (1, [60])]\<rparr>) =
      Inr (rx', ws) \<and> rx_pending rx' = [[10, 20, 30, 40, 50], [60]]"
  using rtl_rx_in_order [of "rx_context_new\<lparr>rx_buf := rx_zeroed 0 [(1, [10, 20, 30, 40, 50]), (1, [60])]\<rparr>"
      "[(1, [10, 20, 30, 40, 50]), (1, [60])]" "0xC000"]
  by (force simp: rx_context_new_def align4_def)






text \<open>
  C37: Event delivery. Polling the event ring \<open>n\<close> times never fails, consumes the first \<open>n\<close> events that the
  controller has written, in the order in which it wrote them across the wrap-around of the ring, and appends to a
  registered waiter just those that meet its condition.
\<close>

theorem events_delivered:
  assumes "event_ok s" "a \<in> set (wait_list s)" "waiters s a = Some w"
  shows "\<exists>s'. for_each (\<lambda>_. event_ring_poll) [0..<n] s = (s', Inr ()) \<and> pending s' = drop n (pending s) \<and>
    waiters s' a = Some (w\<lparr>wait_trbs := wait_trbs w @ filter (wait_matches w) (take n (pending s))\<rparr>)"
  using polls_deliver [OF assms(1), of n] assms(2,3) by (auto simp: served_def delivered_to_def)

theorem events_delivered_witness:
  "let s = event_future_new 7 (on_trb 4096) (set_erdp 8192 (event_ring_new 8192)
         \<lparr>ev_ring := \<lparr>trbs = (replicate 16 trb_default)[15 := demo_completion], current_index = 15, ring_base = 8192\<rparr>\<rparr>)
   in pending s = demo_completion # replicate 15 trb_default \<and>
      (\<exists>s'. for_each (\<lambda>_. event_ring_poll) [0..<3] s = (s', Inr ()) \<and> pending s' = replicate 13 trb_default \<and>
        waiters s' 7 = Some \<lparr>wait_cond = on_trb 4096, wait_trbs = [demo_completion]\<rparr>)"
proof -
  define s where "s = event_future_new 7 (on_trb 4096) (set_erdp 8192 (event_ring_new 8192)
         \<lparr>ev_ring := \<lparr>trbs = (replicate 16 trb_default)[15 := demo_completion], current_index = 15, ring_base = 8192\<rparr>\<rparr>)"
  have p: "pending s = demo_completion # replicate 15 trb_default"
    by (simp add: s_def pending_def event_future_new_def register_waiter_def set_erdp_def event_ring_new_def Let_def
        demo_completion_cycle demo_event_last)
  have ok: "event_ok s"
    by (simp add: s_def event_ok_def event_future_new_def register_waiter_def set_erdp_def event_ring_new_def)
  have w: "7 \<in> set (wait_list s)" "waiters s 7 = Some \<lparr>wait_cond = on_trb 4096, wait_trbs = []\<rparr>"
    unfolding s_def by (rule event_future_new_live)+
  have m: "trb_data trb_default \<noteq> 4096" by (simp add: trb_default_def)
  have "\<exists>s'. for_each (\<lambda>_. event_ring_poll) [0..<3] s = (s', Inr ()) \<and> pending s' = replicate 13 trb_default \<and>
        waiters s' 7 = Some \<lparr>wait_cond = on_trb 4096, wait_trbs = [demo_completion]\<rparr>"
    using events_delivered [OF ok w, of 3] m demo_completion_cycle(2) unfolding p demo_event_last
    by (simp add: wait_matches_def on_trb_def)
  with p show ?thesis by (simp add: s_def [symmetric])
qed





text \<open>
  C40: \<open>transfer_rect\<close> is a simultaneous copy.  When both rectangles are inside of the bitmap it succeeds, and afterwards
  every pixel of the destination has the colour that its source had before, whether or not the rectangles
  overlap, and every other pixel is unchanged.
\<close>

theorem transfer_rect_moves:
  assumes "bm_ok b" "0 < w" "0 < h" "inside b (sx, sy)" "inside b (sx + w - 1, sy + h - 1)"
    "inside b (dx, dy)" "inside b (dx + w - 1, dy + h - 1)"
  shows "\<exists>b'. transfer_rect dx dy sx sy w h b = (b', Inr ()) \<and> bm_ok b' \<and>
    (\<forall>x y. 0 \<le> x \<longrightarrow> x < w \<longrightarrow> 0 \<le> y \<longrightarrow> y < h \<longrightarrow> pix b' (dx + x, dy + y) = pix b (sx + x, sy + y)) \<and>
    (\<forall>p. stored b p \<longrightarrow> p \<notin> {dx..dx + w - 1} \<times> {dy..dy + h - 1} \<longrightarrow> pix b' p = pix b p)"
proof -
  obtain b' where b': "transfer_rect dx dy sx sy w h b = (b', Inr ())"
      "painted (\<lambda>(x, y). Some (pix b (sx + (x - dx), sy + (y - dy)))) ({dx..dx + w - 1} \<times> {dy..dy + h - 1}) b b'"
    using transfer_rect_ok [OF assms] by blast
  have "pix b' (dx + x, dy + y) = pix b (sx + x, sy + y)" if "0 \<le> x" "x < w" "0 \<le> y" "y < h" for x y
  proof -
    have "inside b (dx + x, dy + y)" using assms(6,7) that by (simp add: inside_def)
    with paintedD(3) [OF b'(2) inside_stored [OF assms(1)]] that show ?thesis by simp
  qed
  with b' paintedD(1,2) [OF b'(2)] assms(1) show ?thesis by (auto simp: same_shape_cong)
qed

theorem transfer_rect_moves_witness:
  "\<exists>b'. transfer_rect 0 0 1 0 2 1 \<lparr>bm_width = 3, bm_height = 1, pixels_per_line = 3, bm_pixels = [1, 2, 3]\<rparr> = (b', Inr ()) \<and>
    pix b' (0, 0) = 2 \<and> pix b' (1, 0) = 3 \<and> pix b' (2, 0) = 3"
proof -
  let ?b = "\<lparr>bm_width = 3, bm_height = 1, pixels_per_line = 3, bm_pixels = [1, 2, 3]\<rparr> :: bitmap"
  have "bm_ok ?b" "inside ?b (1, 0)" "inside ?b (1 + 2 - 1, 0 + 1 - 1)" "inside ?b (0, 0)" "inside ?b (0 + 2 - 1, 0 + 1 - 1)"
    by (simp_all add: bm_ok_def inside_def)
  from transfer_rect_moves [OF this(1) _ _ this(2-5)] obtain b' where b': "transfer_rect 0 0 1 0 2 1 ?b = (b', Inr ())"
      "\<And>x y. 0 \<le> x \<Longrightarrow> x < 2 \<Longrightarrow> 0 \<le> y \<Longrightarrow> y < 1 \<Longrightarrow> pix b' (0 + x, 0 + y) = pix ?b (1 + x, 0 + y)"
      "\<And>p. stored ?b p \<Longrightarrow> p \<notin> {0..0 + 2 - 1} \<times> {0..0 + 1 - 1} \<Longrightarrow> pix b' p = pix ?b p"
    by auto
  from b'(2) [of 0 0] b'(2) [of 1 0] b'(3) [of "(2, 0)"] b'(1) show ?thesis
    by (simp add: pix_def pixel_offset_def stored_def)
qed

end
